(* ===== verification/Prelude.thy ===== *)
theory Prelude
  imports Complex_Main "HOL-Library.Word"
begin

text \<open>
  Shared vocabulary of the development: C strings and the functions of
  \<^verbatim>\<open>string.h\<close>, \<^verbatim>\<open>ctype.h\<close> and \<^verbatim>\<open>stdlib.h\<close> the code calls, the machine integer
  types, decimal printing, and the generic list lemmas the components share.
  A C string is a list of characters without the terminating NUL: the end of
  the list plays the part of \<^verbatim>\<open>'\0'\<close>.  A pointer that may be \<^verbatim>\<open>NULL\<close> is an
  option.
\<close>

section \<open>Types and lemma collections\<close>

type_synonym cstr = "string option"
type_synonym c_int = "32 word"
type_synonym c_uint = "32 word"
type_synonym c_int64 = "64 word"
type_synonym c_size = "64 word"

named_theorems strcmp_facts "the order strcmp induces"
named_theorems consume_facts "scanners never lengthen their input"

section \<open>Characters\<close>

text \<open>The code of a character, as \<^verbatim>\<open>unsigned char\<close> and as (signed) \<^verbatim>\<open>char\<close>.\<close>

definition uchar :: "char \<Rightarrow> int" where
  "uchar c = of_char c"

definition schar :: "char \<Rightarrow> int" where
  "schar c = (if uchar c < 128 then uchar c else uchar c - 256)"

lemma uchar_eq_iff [simp]: "uchar a = uchar b \<longleftrightarrow> a = b"
  by (simp add: uchar_def)

text \<open>\<^verbatim>\<open>isspace\<close> and \<^verbatim>\<open>isdigit\<close> in the C locale.\<close>

definition isspace :: "char \<Rightarrow> bool" where
  "isspace c \<longleftrightarrow> uchar c = 32 \<or> (9 \<le> uchar c \<and> uchar c \<le> 13)"

definition isdigit :: "char \<Rightarrow> bool" where
  "isdigit c \<longleftrightarrow> 48 \<le> uchar c \<and> uchar c \<le> 57"

definition digit_val :: "char \<Rightarrow> int" where
  "digit_val c = uchar c - 48"

definition digit_char :: "int \<Rightarrow> char" where
  "digit_char d = char_of (48 + d)"

lemma uchar_digit_char: "0 \<le> d \<Longrightarrow> d < 10 \<Longrightarrow> uchar (digit_char d) = 48 + d"
  by (simp add: uchar_def digit_char_def)

lemma isdigit_digit_char [simp]: "0 \<le> d \<Longrightarrow> d < 10 \<Longrightarrow> isdigit (digit_char d)"
  by (simp add: isdigit_def uchar_digit_char)

lemma digit_val_digit_char [simp]: "0 \<le> d \<Longrightarrow> d < 10 \<Longrightarrow> digit_val (digit_char d) = d"
  by (simp add: digit_val_def uchar_digit_char)

section \<open>strcmp\<close>

text \<open>
  \<^verbatim>\<open>strcmp\<close> compares bytes as \<^verbatim>\<open>unsigned char\<close>.  The code only looks at the sign of
  its result, which is all the C standard fixes.
\<close>

fun strcmp :: "string \<Rightarrow> string \<Rightarrow> int" where
  "strcmp [] [] = 0"
| "strcmp [] (b # bs) = - 1"
| "strcmp (a # as) [] = 1"
| "strcmp (a # as) (b # bs) =
     (if a = b then strcmp as bs else if uchar a < uchar b then - 1 else 1)"

lemma strcmp_eq_0 [simp, strcmp_facts]: "strcmp s t = 0 \<longleftrightarrow> s = t"
  by (induction s t rule: strcmp.induct) auto

lemma strcmp_neg [strcmp_facts]: "strcmp t s = - strcmp s t"
  by (induction s t rule: strcmp.induct) auto

lemma strcmp_range: "strcmp s t \<in> {- 1, 0, 1}"
  by (induction s t rule: strcmp.induct) auto

lemma strcmp_le_trans [strcmp_facts]:
  "strcmp s t \<le> 0 \<Longrightarrow> strcmp t u \<le> 0 \<Longrightarrow> strcmp s u \<le> 0"
proof (induction s arbitrary: t u)
  case Nil
  then show ?case by (cases u) auto
next
  case (Cons a s)
  then show ?case
    by (cases t; cases u) (auto split: if_splits)
qed

section \<open>Decimal printing and reading\<close>

text \<open>The digits of a non-negative integer; \<open>int_str\<close> is \<^verbatim>\<open>%lld\<close>.\<close>

function dec_str :: "int \<Rightarrow> string" where
  "dec_str n = (if n < 10 then [digit_char n] else dec_str (n div 10) @ [digit_char (n mod 10)])"
  by pat_completeness auto
termination
  by (relation "measure nat") auto

declare dec_str.simps [simp del]

definition int_str :: "int \<Rightarrow> string" where
  "int_str i = (if i < 0 then CHR ''-'' # dec_str (- i) else dec_str i)"

lemma dec_str_nonempty [simp]: "dec_str n \<noteq> []"
  by (subst dec_str.simps) simp

lemma dec_str_digits: "0 \<le> n \<Longrightarrow> c \<in> set (dec_str n) \<Longrightarrow> isdigit c"
proof (induction n rule: dec_str.induct)
  case (1 n)
  then show ?case
    by (subst (asm) dec_str.simps) (auto split: if_splits)
qed

text \<open>\<^verbatim>\<open>strtol\<close> saturates at the bounds of \<^verbatim>\<open>long\<close>; \<^verbatim>\<open>atoi\<close> truncates its result to \<^verbatim>\<open>int\<close>.\<close>

definition digits_val :: "string \<Rightarrow> int" where
  "digits_val ds = foldl (\<lambda>n c. 10 * n + digit_val c) 0 ds"

definition strtol10 :: "string \<Rightarrow> int" where
  "strtol10 s =
     (let t = dropWhile isspace s;
          neg = (case t of c # _ \<Rightarrow> c = CHR ''-'' | [] \<Rightarrow> False);
          u = (case t of c # r \<Rightarrow> if c = CHR ''-'' \<or> c = CHR ''+'' then r else t | [] \<Rightarrow> []);
          v = digits_val (takeWhile isdigit u)
      in max (- (2 ^ 63)) (min (2 ^ 63 - 1) (if neg then - v else v)))"

definition atoi :: "string \<Rightarrow> c_int" where
  "atoi s = word_of_int (strtol10 s)"

lemma digits_val_snoc: "digits_val (ds @ [c]) = 10 * digits_val ds + digit_val c"
  by (simp add: digits_val_def)

lemma digits_val_dec_str [simp]: "0 \<le> n \<Longrightarrow> digits_val (dec_str n) = n"
proof (induction n rule: dec_str.induct)
  case (1 n)
  show ?case
  proof (cases "n < 10")
    case True
    with 1 show ?thesis by (subst dec_str.simps) (simp add: digits_val_def)
  next
    case False
    with 1 have "digits_val (dec_str (n div 10)) = n div 10" by simp
    with False show ?thesis
      by (subst dec_str.simps) (simp add: digits_val_snoc)
  qed
qed

section \<open>Lists\<close>

lemma length_dropWhile_le' [simp, consume_facts]: "length (dropWhile P xs) \<le> length xs"
  by (rule length_dropWhile_le)

lemma dropWhile_shorter: "dropWhile P xs = y # ys \<Longrightarrow> length ys < length xs"
  by (metis Suc_le_eq length_Cons length_dropWhile_le)

lemma takeWhile_append_stop:
  assumes "\<forall>x\<in>set xs. P x" and "case ys of [] \<Rightarrow> True | y # _ \<Rightarrow> \<not> P y"
  shows "takeWhile P (xs @ ys) = xs" and "dropWhile P (xs @ ys) = ys"
  using assms by (induction xs) (auto split: list.splits)

lemma map_of_rev_distinct: "distinct (map fst xs) \<Longrightarrow> map_of (rev xs) = map_of xs"
  by (rule map_of_eqI) (auto simp: rev_map [symmetric] map_of_eq_Some_iff)

section \<open>Histories\<close>

text \<open>The results of a sequence of operations and the state after it.\<close>

fun run_history :: "('s \<Rightarrow> 'op \<Rightarrow> 'r \<times> 's) \<Rightarrow> 's \<Rightarrow> 'op list \<Rightarrow> 'r list \<times> 's" where
  "run_history step s [] = ([], s)"
| "run_history step s (op # ops) =
     (let (r, s') = step s op; (rs, s'') = run_history step s' ops in (r # rs, s''))"

lemma run_history_snoc:
  "run_history step s (ops @ [op]) =
     (let (rs, s') = run_history step s ops; (r, s'') = step s' op in (rs @ [r], s''))"
  by (induction ops arbitrary: s) (simp_all add: Let_def case_prod_beta)

text \<open>A simulation, step by step, carries over to histories.\<close>

lemma run_history_simulation:
  assumes "rel s t"
    and "\<And>s t op. rel s t \<Longrightarrow> fst (step s op) = fst (step' t op) \<and> rel (snd (step s op)) (snd (step' t op))"
  shows "fst (run_history step s ops) = fst (run_history step' t ops) \<and>
    rel (snd (run_history step s ops)) (snd (run_history step' t ops))"
  using assms(1)
proof (induction ops arbitrary: s t)
  case (Cons op ops)
  with assms(2) [OF Cons.prems, of op] show ?case by (simp add: Let_def case_prod_beta)
qed simp

section \<open>Keyed stores\<close>

text \<open>
  The interface the associative containers of the code share: \<open>put\<close> replaces or adds
  a binding, \<open>del\<close> removes one, and \<open>get\<close> reads.  The lemmas proved here hold for every
  container that keeps the laws.
\<close>

locale keyed_store =
  fixes empty :: "'s"
    and get :: "'s \<Rightarrow> 'k \<Rightarrow> 'v option"
    and put :: "'s \<Rightarrow> 'k \<Rightarrow> 'v \<Rightarrow> 's"
    and del :: "'s \<Rightarrow> 'k \<Rightarrow> 's"
    and ok :: "'s \<Rightarrow> bool"
  assumes ok_empty: "ok empty"
    and ok_put: "ok s \<Longrightarrow> ok (put s k v)"
    and ok_del: "ok s \<Longrightarrow> ok (del s k)"
    and get_empty: "get empty k = None"
    and get_put: "ok s \<Longrightarrow> get (put s k v) k' = (if k' = k then Some v else get s k')"
    and get_del: "ok s \<Longrightarrow> get (del s k) k' = (if k' = k then None else get s k')"
begin

definition puts :: "'s \<Rightarrow> ('k \<times> 'v) list \<Rightarrow> 's" where
  "puts s kvs = foldl (\<lambda>s (k, v). put s k v) s kvs"

lemma ok_puts: "ok s \<Longrightarrow> ok (puts s kvs)"
  unfolding puts_def by (induction kvs arbitrary: s) (auto simp: ok_put split: prod.splits)

lemma get_puts:
  "ok s \<Longrightarrow> get (puts s kvs) k = (case map_of (rev kvs) k of None \<Rightarrow> get s k | Some v \<Rightarrow> Some v)"
proof (induction kvs arbitrary: s)
  case Nil
  then show ?case by (simp add: puts_def)
next
  case (Cons kv kvs)
  obtain k1 v1 where kv: "kv = (k1, v1)" by (cases kv)
  have "get (puts (put s k1 v1) kvs) k =
      (case map_of (rev kvs) k of None \<Rightarrow> get (put s k1 v1) k | Some v \<Rightarrow> Some v)"
    using Cons by (simp add: ok_put)
  with Cons.prems kv show ?case
    by (auto simp: puts_def get_put map_add_Some_iff map_add_def split: option.splits)
qed

lemma get_puts_distinct:
  assumes "distinct (map fst kvs)"
  shows "get (puts empty kvs) k = map_of kvs k"
  using assms by (simp add: get_puts ok_empty get_empty map_of_rev_distinct split: option.splits)

lemma put_same_get: "ok s \<Longrightarrow> get s k = Some v \<Longrightarrow> get (put s k v) = get s"
  by (auto simp: get_put)

lemma put_commute: "ok s \<Longrightarrow> k \<noteq> k' \<Longrightarrow> get (put (put s k v) k' v') = get (put (put s k' v') k v)"
  by (auto simp: get_put ok_put)

lemma del_put: "ok s \<Longrightarrow> get (del (put s k v) k) = get (del s k)"
  by (auto simp: get_put get_del ok_put)

end

end
