(* ===== verification/Double.thy ===== *)
theory Double
  imports Prelude
begin

text \<open>
  The C type \<^verbatim>\<open>double\<close>: IEEE 754 binary64 with the default rounding mode, as the
  code uses it (literals, \<^verbatim>\<open>+ * /\<close>, comparison, conversion from and to integers and the
  \<^verbatim>\<open>%g\<close> conversion of \<^verbatim>\<open>sprintf\<close>).  A finite value is the rational it stands for; every
  arithmetic operation is the exact one followed by rounding to nearest, ties to
  even.  The payload and sign of a NaN are not represented.
\<close>

datatype double = NaN | PosInf | NegInf | NegZero | Fin rat

section \<open>Rounding\<close>

function bitlen :: "int \<Rightarrow> int" where
  "bitlen n = (if n \<le> 0 then 0 else 1 + bitlen (n div 2))"
  by pat_completeness auto
termination
  by (relation "measure nat") auto

function declen :: "int \<Rightarrow> int" where
  "declen n = (if n \<le> 0 then 0 else 1 + declen (n div 10))"
  by pat_completeness auto
termination
  by (relation "measure nat") auto

declare bitlen.simps [simp del] declen.simps [simp del]

definition powz :: "rat \<Rightarrow> int \<Rightarrow> rat" where
  "powz b e = (if 0 \<le> e then b ^ nat e else 1 / b ^ nat (- e))"

text \<open>The greatest \<open>e\<close> with \<open>b ^ e \<le> x\<close>, for positive \<open>x\<close>, from the digit counts of its fraction.\<close>

definition ilog :: "(int \<Rightarrow> int) \<Rightarrow> rat \<Rightarrow> rat \<Rightarrow> int" where
  "ilog len b x =
     (let (p, q) = quotient_of x;
          e = len p - len q
      in if powz b e \<le> x then e else e - 1)"

definition round_even :: "rat \<Rightarrow> int" where
  "round_even y =
     (let f = \<lfloor>y\<rfloor>; d = y - of_int f
      in if d < 1 / 2 then f else if d > 1 / 2 then f + 1 else if even f then f else f + 1)"

definition round_pos :: "rat \<Rightarrow> double" where
  "round_pos x =
     (let u = max (ilog bitlen 2 x - 52) (- 1074);
          r = of_int (round_even (x / powz 2 u)) * powz 2 u
      in if powz 2 1024 \<le> r then PosInf else Fin r)"

fun double_neg :: "double \<Rightarrow> double" where
  "double_neg NaN = NaN"
| "double_neg PosInf = NegInf"
| "double_neg NegInf = PosInf"
| "double_neg NegZero = Fin 0"
| "double_neg (Fin r) = (if r = 0 then NegZero else Fin (- r))"

definition double_of_rat :: "rat \<Rightarrow> double" where
  "double_of_rat x =
     (if x = 0 then Fin 0 else if 0 < x then round_pos x else double_neg (round_pos (- x)))"

section \<open>Comparison\<close>

fun double_rank :: "double \<Rightarrow> int \<times> rat" where
  "double_rank PosInf = (1, 0)"
| "double_rank NegInf = (- 1, 0)"
| "double_rank (Fin r) = (0, r)"
| "double_rank _ = (0, 0)"

definition double_lt :: "double \<Rightarrow> double \<Rightarrow> bool" where
  "double_lt a b \<longleftrightarrow> a \<noteq> NaN \<and> b \<noteq> NaN \<and>
     (fst (double_rank a) < fst (double_rank b) \<or>
      fst (double_rank a) = fst (double_rank b) \<and> snd (double_rank a) < snd (double_rank b))"

definition double_eq :: "double \<Rightarrow> double \<Rightarrow> bool" where
  "double_eq a b \<longleftrightarrow> a \<noteq> NaN \<and> b \<noteq> NaN \<and> double_rank a = double_rank b"

definition double_le :: "double \<Rightarrow> double \<Rightarrow> bool" where
  "double_le a b \<longleftrightarrow> double_lt a b \<or> double_eq a b"

lemma double_eq_refl [simp]: "double_eq a a \<longleftrightarrow> a \<noteq> NaN"
  by (simp add: double_eq_def)

lemma double_eq_sym: "double_eq a b \<longleftrightarrow> double_eq b a"
  by (auto simp: double_eq_def)

lemma double_eq_trans: "double_eq a b \<Longrightarrow> double_eq b c \<Longrightarrow> double_eq a c"
  by (auto simp: double_eq_def)

lemma double_NaN_unordered [simp]:
  "\<not> double_eq NaN a" "\<not> double_eq a NaN" "\<not> double_lt NaN a" "\<not> double_lt a NaN"
  "\<not> double_le NaN a" "\<not> double_le a NaN"
  by (simp_all add: double_eq_def double_lt_def double_le_def)

lemma double_lt_irrefl [simp]: "\<not> double_lt a a"
  by (simp add: double_lt_def)

lemma double_lt_trans: "double_lt a b \<Longrightarrow> double_lt b c \<Longrightarrow> double_lt a c"
  by (auto simp: double_lt_def)

lemma double_lt_asym: "double_lt a b \<Longrightarrow> \<not> double_lt b a"
  by (auto simp: double_lt_def)

lemma double_trichotomy:
  "a \<noteq> NaN \<Longrightarrow> b \<noteq> NaN \<Longrightarrow> double_lt a b \<or> double_eq a b \<or> double_lt b a"
  by (cases "double_rank a"; cases "double_rank b") (auto simp: double_lt_def double_eq_def)

lemma double_not_lt_trans:
  "b \<noteq> NaN \<Longrightarrow> \<not> double_lt b a \<Longrightarrow> \<not> double_lt c b \<Longrightarrow> \<not> double_lt c a"
  by (auto simp: double_lt_def)

section \<open>Arithmetic\<close>

fun double_val :: "double \<Rightarrow> rat" where
  "double_val (Fin r) = r"
| "double_val _ = 0"

fun double_signbit :: "double \<Rightarrow> bool" where
  "double_signbit NegInf = True"
| "double_signbit NegZero = True"
| "double_signbit (Fin r) = (r < 0)"
| "double_signbit _ = False"

definition is_inf :: "double \<Rightarrow> bool" where
  "is_inf a \<longleftrightarrow> a = PosInf \<or> a = NegInf"

definition signed_zero :: "bool \<Rightarrow> double" where
  "signed_zero n = (if n then NegZero else Fin 0)"

definition signed_inf :: "bool \<Rightarrow> double" where
  "signed_inf n = (if n then NegInf else PosInf)"

definition double_add :: "double \<Rightarrow> double \<Rightarrow> double" where
  "double_add a b =
     (if a = NaN \<or> b = NaN \<or> is_inf a \<and> is_inf b \<and> a \<noteq> b then NaN
      else if is_inf a then a else if is_inf b then b
      else if a = NegZero \<and> b = NegZero then NegZero
      else double_of_rat (double_val a + double_val b))"

definition double_mul :: "double \<Rightarrow> double \<Rightarrow> double" where
  "double_mul a b =
     (let n = (double_signbit a \<noteq> double_signbit b) in
      if a = NaN \<or> b = NaN then NaN
      else if is_inf a \<or> is_inf b then
        (if \<not> is_inf a \<and> double_val a = 0 \<or> \<not> is_inf b \<and> double_val b = 0 then NaN
         else signed_inf n)
      else if double_val a * double_val b = 0 then signed_zero n
      else double_of_rat (double_val a * double_val b))"

definition double_div :: "double \<Rightarrow> double \<Rightarrow> double" where
  "double_div a b =
     (let n = (double_signbit a \<noteq> double_signbit b) in
      if a = NaN \<or> b = NaN \<or> is_inf a \<and> is_inf b then NaN
      else if is_inf a then signed_inf n
      else if is_inf b then signed_zero n
      else if double_val b = 0 then (if double_val a = 0 then NaN else signed_inf n)
      else if double_val a = 0 then signed_zero n
      else double_of_rat (double_val a / double_val b))"

section \<open>Conversions\<close>

definition double_of_int64 :: "c_int64 \<Rightarrow> double" where
  "double_of_int64 i = double_of_rat (of_int (sint i))"

text \<open>
  Conversion to an integer truncates towards zero.  Out of range it is undefined in
  C; the model takes the value x86-64 produces (the ``integer indefinite'' value, the
  most negative integer).
\<close>

definition rat_trunc :: "rat \<Rightarrow> int" where
  "rat_trunc r = (if 0 \<le> r then \<lfloor>r\<rfloor> else - \<lfloor>- r\<rfloor>)"

definition int64_of_double :: "double \<Rightarrow> c_int64" where
  "int64_of_double a =
     (let t = rat_trunc (double_val a) in
      if a = NaN \<or> is_inf a \<or> t < - (2 ^ 63) \<or> 2 ^ 63 \<le> t then word_of_int (- (2 ^ 63))
      else word_of_int t)"

definition int_of_double :: "double \<Rightarrow> c_int" where
  "int_of_double a =
     (let t = rat_trunc (double_val a) in
      if a = NaN \<or> is_inf a \<or> t < - (2 ^ 31) \<or> 2 ^ 31 \<le> t then word_of_int (- (2 ^ 31))
      else word_of_int t)"

section \<open>The \%g conversion\<close>

definition strip_zeros :: "string \<Rightarrow> string" where
  "strip_zeros s = rev (dropWhile (\<lambda>c. c = CHR ''0'') (rev s))"

definition with_point :: "string \<Rightarrow> string \<Rightarrow> string" where
  "with_point i f = (if strip_zeros f = [] then i else i @ ''.'' @ strip_zeros f)"

definition exp_str :: "int \<Rightarrow> string" where
  "exp_str e =
     (let d = dec_str \<bar>e\<bar>
      in ''e'' @ (if e < 0 then ''-'' else ''+'') @ (if length d < 2 then ''0'' @ d else d))"

definition fmt_g_pos :: "rat \<Rightarrow> string" where
  "fmt_g_pos x =
     (let e0 = ilog declen 10 x;
          m0 = round_even (x / powz 10 (e0 - 5));
          (m, e) = (if m0 = 1000000 then (100000, e0 + 1) else (m0, e0));
          ds = dec_str m
      in if - 4 \<le> e \<and> e < 6
         then (if 0 \<le> e then with_point (take (nat e + 1) ds) (drop (nat e + 1) ds)
               else with_point ''0'' (replicate (nat (- e - 1)) (CHR ''0'') @ ds))
         else with_point (take 1 ds) (drop 1 ds) @ exp_str e)"

fun fmt_g :: "double \<Rightarrow> string" where
  "fmt_g NaN = ''nan''"
| "fmt_g PosInf = ''inf''"
| "fmt_g NegInf = ''-inf''"
| "fmt_g NegZero = ''-0''"
| "fmt_g (Fin r) =
     (if r = 0 then ''0'' else if 0 < r then fmt_g_pos r else ''-'' @ fmt_g_pos (- r))"

end
