(* ===== verification/Json.thy ===== *)
theory Json
  imports Double
begin

text \<open>
  JSON values and their operations: \<^verbatim>\<open>src/src/include/utils/json.h\<close> and the first
  half of \<^verbatim>\<open>src/src/components/utils/json.c\<close>.  A \<^verbatim>\<open>json_value_t*\<close> is a tree; a pointer
  that may be \<^verbatim>\<open>NULL\<close> is a \<open>jptr\<close>.  An operation that writes through its pointer
  returns the written value.  The entries of an object are kept in an association
  list because their order and a possible repetition of keys are visible.
  Allocation is taken to succeed, and two values never share a subtree.
\<close>

section \<open>Values\<close>

datatype json_type =
  JSON_NULL | JSON_BOOLEAN | JSON_NUMBER | JSON_INTEGER | JSON_STRING | JSON_ARRAY | JSON_OBJECT

datatype json =
    JNull
  | JBoolean bool
  | JNumber double
  | JInteger c_int64
  | JString string
  | JArray "json list"
  | JObject "(string \<times> json) list"

type_synonym jptr = "json option"
type_synonym entries = "(string \<times> json) list"

text \<open>The enumerators are numbered from 0 in the order of \<^verbatim>\<open>json_type_t\<close>.\<close>

fun type_rank :: "json_type \<Rightarrow> int" where
  "type_rank JSON_NULL = 0"
| "type_rank JSON_BOOLEAN = 1"
| "type_rank JSON_NUMBER = 2"
| "type_rank JSON_INTEGER = 3"
| "type_rank JSON_STRING = 4"
| "type_rank JSON_ARRAY = 5"
| "type_rank JSON_OBJECT = 6"

lemma type_rank_inj: "type_rank s = type_rank t \<longleftrightarrow> s = t"
  by (cases s; cases t) simp_all

instantiation json_type :: linorder
begin

definition less_eq_json_type :: "json_type \<Rightarrow> json_type \<Rightarrow> bool" where
  "less_eq_json_type s t \<longleftrightarrow> type_rank s \<le> type_rank t"

definition less_json_type :: "json_type \<Rightarrow> json_type \<Rightarrow> bool" where
  "less_json_type s t \<longleftrightarrow> type_rank s < type_rank t"

instance
  by standard (auto simp: less_eq_json_type_def less_json_type_def type_rank_inj)

end

fun json_type_of :: "json \<Rightarrow> json_type" where
  "json_type_of JNull = JSON_NULL"
| "json_type_of (JBoolean _) = JSON_BOOLEAN"
| "json_type_of (JNumber _) = JSON_NUMBER"
| "json_type_of (JInteger _) = JSON_INTEGER"
| "json_type_of (JString _) = JSON_STRING"
| "json_type_of (JArray _) = JSON_ARRAY"
| "json_type_of (JObject _) = JSON_OBJECT"

section \<open>Accessors and constructors\<close>

definition json_get_type :: "jptr \<Rightarrow> json_type" where
  "json_get_type v = (case v of None \<Rightarrow> JSON_NULL | Some j \<Rightarrow> json_type_of j)"

definition json_get_string :: "jptr \<Rightarrow> cstr" where
  "json_get_string v = (case v of Some (JString s) \<Rightarrow> Some s | _ \<Rightarrow> None)"

definition json_get_boolean :: "jptr \<Rightarrow> bool" where
  "json_get_boolean v = (case v of Some (JBoolean b) \<Rightarrow> b | _ \<Rightarrow> False)"

definition json_get_number :: "jptr \<Rightarrow> double" where
  "json_get_number v =
     (case v of
        Some (JNumber d) \<Rightarrow> d
      | Some (JInteger i) \<Rightarrow> double_of_int64 i
      | _ \<Rightarrow> Fin 0)"

definition json_get_integer :: "jptr \<Rightarrow> c_int64" where
  "json_get_integer v =
     (case v of
        Some (JInteger i) \<Rightarrow> i
      | Some (JNumber d) \<Rightarrow> int64_of_double d
      | _ \<Rightarrow> 0)"

definition json_create_null :: json where
  "json_create_null = JNull"

definition json_create_boolean :: "c_int \<Rightarrow> json" where
  "json_create_boolean b = JBoolean (b \<noteq> 0)"

definition json_create_number :: "double \<Rightarrow> json" where
  "json_create_number d = JNumber d"

definition json_create_integer :: "c_int64 \<Rightarrow> json" where
  "json_create_integer i = JInteger i"

definition json_create_string :: "string \<Rightarrow> json" where
  "json_create_string s = JString s"

definition json_create_array :: json where
  "json_create_array = JArray []"

definition json_create_object :: json where
  "json_create_object = JObject []"

section \<open>Arrays\<close>

fun json_array_append :: "jptr \<Rightarrow> jptr \<Rightarrow> jptr" where
  "json_array_append (Some (JArray xs)) (Some v) = Some (JArray (xs @ [v]))"
| "json_array_append a _ = a"

definition json_array_get :: "jptr \<Rightarrow> nat \<Rightarrow> jptr" where
  "json_array_get a i =
     (case a of Some (JArray xs) \<Rightarrow> if length xs \<le> i then None else Some (xs ! i) | _ \<Rightarrow> None)"

definition json_array_size :: "jptr \<Rightarrow> nat" where
  "json_array_size a = (case a of Some (JArray xs) \<Rightarrow> length xs | _ \<Rightarrow> 0)"

fun json_array_set :: "jptr \<Rightarrow> nat \<Rightarrow> jptr \<Rightarrow> jptr" where
  "json_array_set (Some (JArray xs)) i (Some v) =
     Some (JArray (if length xs \<le> i then xs else xs[i := v]))"
| "json_array_set a _ _ = a"

text \<open>The loop of \<^verbatim>\<open>json_array_remove\<close> moves the element after \<open>k\<close> to \<open>k\<close>, for \<open>k\<close> from the index up.\<close>

definition shift_down :: "'a list \<Rightarrow> nat \<Rightarrow> 'a list" where
  "shift_down xs i = foldl (\<lambda>ys k. ys[k := ys ! Suc k]) xs [i..<length xs - 1]"

fun json_array_remove :: "jptr \<Rightarrow> nat \<Rightarrow> jptr" where
  "json_array_remove (Some (JArray xs)) i =
     Some (JArray (if length xs \<le> i then xs else butlast (shift_down xs i)))"
| "json_array_remove a _ = a"

section \<open>Objects\<close>

text \<open>The searches of \<^verbatim>\<open>json_object_set\<close>, \<^verbatim>\<open>json_object_get\<close> and \<^verbatim>\<open>json_object_remove\<close> over the entries.\<close>

fun obj_set :: "entries \<Rightarrow> string \<Rightarrow> json \<Rightarrow> entries" where
  "obj_set [] k v = [(k, v)]"
| "obj_set ((k', v') # es) k v =
     (if strcmp k' k = 0 then (k', v) # es else (k', v') # obj_set es k v)"

fun obj_get :: "entries \<Rightarrow> string \<Rightarrow> jptr" where
  "obj_get [] k = None"
| "obj_get ((k', v') # es) k = (if strcmp k' k = 0 then Some v' else obj_get es k)"

fun obj_remove :: "entries \<Rightarrow> string \<Rightarrow> entries" where
  "obj_remove [] k = []"
| "obj_remove ((k', v') # es) k =
     (if strcmp k' k = 0 then es else (k', v') # obj_remove es k)"

fun json_object_set :: "jptr \<Rightarrow> cstr \<Rightarrow> jptr \<Rightarrow> jptr" where
  "json_object_set (Some (JObject es)) (Some k) (Some v) = Some (JObject (obj_set es k v))"
| "json_object_set ob _ _ = ob"

fun json_object_get :: "jptr \<Rightarrow> cstr \<Rightarrow> jptr" where
  "json_object_get (Some (JObject es)) (Some k) = obj_get es k"
| "json_object_get _ _ = None"

fun json_object_has :: "jptr \<Rightarrow> cstr \<Rightarrow> bool" where
  "json_object_has (Some (JObject es)) (Some k) = list_ex (\<lambda>(k', _). strcmp k' k = 0) es"
| "json_object_has _ _ = False"

definition json_object_size :: "jptr \<Rightarrow> nat" where
  "json_object_size ob = (case ob of Some (JObject es) \<Rightarrow> length es | _ \<Rightarrow> 0)"

definition json_object_get_keys :: "jptr \<Rightarrow> jptr" where
  "json_object_get_keys ob =
     (case ob of
        Some (JObject es) \<Rightarrow>
          foldl (\<lambda>keys (k, _). json_array_append keys (Some (json_create_string k)))
            (Some json_create_array) es
      | _ \<Rightarrow> None)"

fun json_object_remove :: "jptr \<Rightarrow> cstr \<Rightarrow> jptr" where
  "json_object_remove (Some (JObject es)) (Some k) = Some (JObject (obj_remove es k))"
| "json_object_remove ob _ = ob"

section \<open>Cloning and equality\<close>

fun json_clone :: "json \<Rightarrow> json"
  and clone_items :: "json list \<Rightarrow> jptr \<Rightarrow> jptr"
  and clone_entries :: "entries \<Rightarrow> jptr \<Rightarrow> jptr" where
  "json_clone JNull = json_create_null"
| "json_clone (JBoolean b) = json_create_boolean (if b then 1 else 0)"
| "json_clone (JNumber d) = json_create_number d"
| "json_clone (JInteger i) = json_create_integer i"
| "json_clone (JString s) = json_create_string s"
| "json_clone (JArray xs) = the (clone_items xs (Some json_create_array))"
| "json_clone (JObject es) = the (clone_entries es (Some json_create_object))"
| "clone_items [] cloned = cloned"
| "clone_items (x # xs) cloned =
     clone_items xs (json_array_append cloned (Some (json_clone x)))"
| "clone_entries [] cloned = cloned"
| "clone_entries ((k, v) # es) cloned =
     clone_entries es (json_object_set cloned (Some k) (Some (json_clone v)))"

fun json_equals :: "json \<Rightarrow> json \<Rightarrow> bool"
  and equals_items :: "json list \<Rightarrow> json list \<Rightarrow> bool"
  and equals_entries :: "entries \<Rightarrow> entries \<Rightarrow> bool" where
  "json_equals JNull JNull = True"
| "json_equals (JBoolean a) (JBoolean b) = (a = b)"
| "json_equals (JNumber a) (JNumber b) = double_eq a b"
| "json_equals (JInteger a) (JInteger b) = (a = b)"
| "json_equals (JInteger a) (JNumber b) = double_eq (double_of_int64 a) b"
| "json_equals (JNumber a) (JInteger b) = double_eq a (double_of_int64 b)"
| "json_equals (JString a) (JString b) = (strcmp a b = 0)"
| "json_equals (JArray xs) (JArray ys) = (length xs = length ys \<and> equals_items xs ys)"
| "json_equals (JObject es) (JObject fs) = (length es = length fs \<and> equals_entries es fs)"
| "json_equals _ _ = False"
| "equals_items (x # xs) (y # ys) = (json_equals x y \<and> equals_items xs ys)"
| "equals_items _ _ = True"
| "equals_entries [] fs = True"
| "equals_entries ((k, v) # es) fs =
     ((case obj_get fs k of None \<Rightarrow> False | Some w \<Rightarrow> json_equals v w) \<and> equals_entries es fs)"

definition json_equals_ptr :: "jptr \<Rightarrow> jptr \<Rightarrow> bool" where
  "json_equals_ptr a b =
     (case (a, b) of (Some v, Some w) \<Rightarrow> json_equals v w | (None, None) \<Rightarrow> True | _ \<Rightarrow> False)"

section \<open>Well-formed values\<close>

text \<open>The invariant of every value the code builds: no object binds a key twice.\<close>

fun json_wf :: "json \<Rightarrow> bool" where
  "json_wf (JArray xs) = list_all json_wf xs"
| "json_wf (JObject es) = (distinct (map fst es) \<and> list_all (\<lambda>e. json_wf (snd e)) es)"
| "json_wf _ = True"

fun nan_free :: "json \<Rightarrow> bool" where
  "nan_free (JNumber d) = (d \<noteq> NaN)"
| "nan_free (JArray xs) = list_all nan_free xs"
| "nan_free (JObject es) = list_all (\<lambda>e. nan_free (snd e)) es"
| "nan_free _ = True"

definition keys_distinct :: "entries \<Rightarrow> bool" where
  "keys_distinct es \<longleftrightarrow> distinct (map fst es)"

section \<open>Facts on the entry list\<close>

lemma obj_get_map_of: "obj_get es k = map_of es k"
  by (induction es k rule: obj_get.induct) auto

lemma obj_get_in: "obj_get es k = Some v \<Longrightarrow> (k, v) \<in> set es"
  by (simp add: obj_get_map_of map_of_SomeD)

lemma obj_get_None_iff: "obj_get es k = None \<longleftrightarrow> k \<notin> fst ` set es"
  by (simp add: obj_get_map_of map_of_eq_None_iff)

lemma keys_obj_set: "fst ` set (obj_set es k v) = insert k (fst ` set es)"
  by (induction es k v rule: obj_set.induct) auto

lemma obj_set_fresh: "k \<notin> fst ` set es \<Longrightarrow> obj_set es k v = es @ [(k, v)]"
  by (induction es k v rule: obj_set.induct) auto

lemma keys_distinct_set: "keys_distinct es \<Longrightarrow> keys_distinct (obj_set es k v)"
  by (induction es k v rule: obj_set.induct) (use keys_obj_set in \<open>auto simp: keys_distinct_def\<close>)

lemma set_obj_remove: "set (obj_remove es k) \<subseteq> set es"
  by (induction es k rule: obj_remove.induct) auto

lemma map_fst_obj_remove: "map fst (obj_remove es k) = remove1 k (map fst es)"
  by (induction es k rule: obj_remove.induct) auto

lemma keys_distinct_remove: "keys_distinct es \<Longrightarrow> keys_distinct (obj_remove es k)"
  by (simp add: keys_distinct_def map_fst_obj_remove)

lemma obj_get_set: "obj_get (obj_set es k v) k' = (if k' = k then Some v else obj_get es k')"
  by (induction es k v rule: obj_set.induct) auto

lemma obj_get_remove:
  "keys_distinct es \<Longrightarrow> obj_get (obj_remove es k) k' = (if k' = k then None else obj_get es k')"
  by (induction es k rule: obj_remove.induct)
    (force simp: keys_distinct_def obj_get_None_iff)+

interpretation obj: keyed_store "[]" obj_get obj_set obj_remove keys_distinct
  by unfold_locales
    (auto simp: keys_distinct_set keys_distinct_remove obj_get_set obj_get_remove,
      simp add: keys_distinct_def)

lemma set_obj_set: "set (obj_set es k v) \<subseteq> insert (k, v) (set es)"
  by (induction es k v rule: obj_set.induct) auto

lemma json_wf_obj_set: "json_wf (JObject es) \<Longrightarrow> json_wf v \<Longrightarrow> json_wf (JObject (obj_set es k v))"
  using set_obj_set [of es k v] keys_distinct_set [of es k v]
  by (auto simp: keys_distinct_def list_all_iff)

lemma json_wf_obj_remove: "json_wf (JObject es) \<Longrightarrow> json_wf (JObject (obj_remove es k))"
  using set_obj_remove [of es k] keys_distinct_remove [of es k]
  by (auto simp: keys_distinct_def list_all_iff)

lemma json_wf_obj_get: "json_wf (JObject es) \<Longrightarrow> obj_get es k = Some v \<Longrightarrow> json_wf v"
  by (auto simp: list_all_iff dest!: obj_get_in)

lemma get_keys_fold:
  "foldl (\<lambda>keys (k, _). json_array_append keys (Some (json_create_string k))) (Some (JArray xs)) es =
     Some (JArray (xs @ map (\<lambda>e. JString (fst e)) es))"
  by (induction es arbitrary: xs) (auto simp: json_create_string_def)

section \<open>Array removal\<close>

lemma length_shift_fold:
  "length (foldl (\<lambda>ys k. ys[k := ys ! Suc k]) xs ks) = length xs"
  by (induction ks arbitrary: xs) simp_all

lemma shift_down_nth:
  assumes "i \<le> m" and "m < length xs"
  shows "foldl (\<lambda>ys k. ys[k := ys ! Suc k]) xs [i..<m] ! n =
    (if i \<le> n \<and> n < m then xs ! (n + 1) else xs ! n)"
  using assms
proof (induction m arbitrary: n)
  case 0
  then show ?case by simp
next
  case (Suc m)
  show ?case
  proof (cases "i = Suc m")
    case True
    then show ?thesis by auto
  next
    case False
    with Suc.prems have im: "i \<le> m" "m < length xs" by auto
    note IH = Suc.IH [OF im]
    show ?thesis
      using Suc.prems False im by (cases "n = m") (auto simp: nth_list_update length_shift_fold IH)
  qed
qed

lemma butlast_shift_down:
  assumes "i < length xs"
  shows "butlast (shift_down xs i) = take i xs @ drop (Suc i) xs"
proof (rule nth_equalityI)
  have len: "length (shift_down xs i) = length xs"
    by (simp add: shift_down_def length_shift_fold)
  with assms show "length (butlast (shift_down xs i)) = length (take i xs @ drop (Suc i) xs)"
    by simp
  fix n
  assume "n < length (butlast (shift_down xs i))"
  with len have n: "n < length xs - 1" by simp
  then have "butlast (shift_down xs i) ! n = shift_down xs i ! n"
    by (simp add: nth_butlast len)
  also have "\<dots> = (if i \<le> n then xs ! (n + 1) else xs ! n)"
    using n assms shift_down_nth [of i "length xs - 1" xs n] by (simp add: shift_down_def)
  also have "\<dots> = (take i xs @ drop (Suc i) xs) ! n"
    using n assms by (simp add: nth_append)
  finally show "butlast (shift_down xs i) ! n = (take i xs @ drop (Suc i) xs) ! n" .
qed

section \<open>Cloning\<close>

lemma clone_items_append:
  "(\<And>x. x \<in> set xs \<Longrightarrow> json_clone x = x) \<Longrightarrow>
   clone_items xs (Some (JArray ys)) = Some (JArray (ys @ xs))"
  by (induction xs arbitrary: ys) simp_all

lemma clone_entries_append:
  "(\<And>k v. (k, v) \<in> set es \<Longrightarrow> json_clone v = v) \<Longrightarrow> distinct (map fst (fs @ es)) \<Longrightarrow>
   clone_entries es (Some (JObject fs)) = Some (JObject (fs @ es))"
proof (induction es arbitrary: fs)
  case Nil
  then show ?case by simp
next
  case (Cons e es)
  obtain k v where e: "e = (k, v)" by (cases e)
  with Cons.prems have "k \<notin> fst ` set fs" by auto
  moreover have "clone_entries es (Some (JObject (fs @ [(k, v)]))) = Some (JObject ((fs @ [(k, v)]) @ es))"
    using Cons e by (intro Cons.IH) auto
  moreover have "json_clone v = v" using Cons.prems(1) e by auto
  ultimately show ?case using e by (simp add: obj_set_fresh)
qed

lemma json_clone_wf: "json_wf v \<Longrightarrow> json_clone v = v"
proof (induction v)
  case (JArray xs)
  then show ?case
    by (simp add: clone_items_append list_all_iff json_create_array_def)
next
  case (JObject es)
  have "clone_entries es (Some (JObject [])) = Some (JObject ([] @ es))"
    using JObject by (intro clone_entries_append) (force simp: list_all_iff)+
  then show ?case by (simp add: json_create_object_def)
qed (simp_all add: json_create_null_def json_create_boolean_def json_create_number_def
    json_create_integer_def json_create_string_def)

section \<open>Equality\<close>

text \<open>The element-wise loops of \<^verbatim>\<open>json_equals\<close> as quantifiers.\<close>

lemma equals_items_iff:
  "length xs = length ys \<Longrightarrow> equals_items xs ys \<longleftrightarrow> list_all2 json_equals xs ys"
  by (induction xs ys rule: list_induct2) simp_all

lemma equals_entries_iff:
  "equals_entries es fs \<longleftrightarrow>
   (\<forall>(k, v)\<in>set es. \<exists>w. obj_get fs k = Some w \<and> json_equals v w)"
  by (induction es) (auto split: option.splits)

lemma obj_get_own:
  "distinct (map fst es) \<Longrightarrow> (k, v) \<in> set es \<Longrightarrow> obj_get es k = Some v"
  by (simp add: obj_get_map_of)

lemma json_equals_refl: "json_wf v \<Longrightarrow> nan_free v \<Longrightarrow> json_equals v v"
proof (induction v)
  case (JArray xs)
  then show ?case
    by (auto simp: equals_items_iff list_all_iff intro: list.rel_refl_strong)
next
  case (JObject es)
  have "json_equals v v" if "(k, v) \<in> set es" for k v
    using JObject that by (force simp: list_all_iff)
  with JObject.prems show ?case
    by (auto simp: equals_entries_iff obj_get_own)
qed simp_all

lemma same_keys:
  assumes "distinct (map fst es)" and "length es = length fs" and "fst ` set es \<subseteq> fst ` set fs"
  shows "fst ` set es = fst ` set fs"
proof (rule card_subset_eq [OF _ assms(3)])
  have "card (fst ` set es) = length es"
    using distinct_card [OF assms(1)] by simp
  moreover have "card (fst ` set fs) \<le> length fs"
    using card_length [of "map fst fs"] by simp
  moreover have "card (fst ` set es) \<le> card (fst ` set fs)"
    using assms(3) by (simp add: card_mono)
  ultimately show "card (fst ` set es) = card (fst ` set fs)" using assms(2) by simp
qed simp

lemma json_equals_sym: "json_wf v \<Longrightarrow> json_wf w \<Longrightarrow> json_equals v w \<Longrightarrow> json_equals w v"
proof (induction v arbitrary: w)
  case (JArray xs)
  from JArray.prems obtain ys where w: "w = JArray ys" and len: "length xs = length ys"
    and all: "list_all2 json_equals xs ys"
    by (cases w) (auto simp: equals_items_iff)
  have "list_all2 json_equals ys xs"
    unfolding list_all2_conv_all_nth
  proof (intro conjI allI impI)
    fix i
    assume "i < length ys"
    with all len JArray.prems w show "json_equals (ys ! i) (xs ! i)"
      by - (rule JArray.IH, auto simp: list_all2_conv_all_nth list_all_length)
  qed (simp add: len)
  with w len show ?case by (simp add: equals_items_iff)
next
  case (JObject es)
  from JObject.prems obtain fs where w: "w = JObject fs" and len: "length es = length fs"
    and all: "\<forall>(k, v)\<in>set es. \<exists>u. obj_get fs k = Some u \<and> json_equals v u"
    by (cases w) (auto simp: equals_entries_iff)
  have d: "distinct (map fst es)" "distinct (map fst fs)"
    using JObject.prems w by simp_all
  have "fst ` set es \<subseteq> fst ` set fs"
    using all by (force dest!: obj_get_in)
  then have keys: "fst ` set es = fst ` set fs"
    using same_keys d(1) len by blast
  have "\<exists>v. obj_get es k = Some v \<and> json_equals u v" if ku: "(k, u) \<in> set fs" for k u
  proof -
    from ku keys obtain v where kv: "(k, v) \<in> set es" by (metis (no_types, lifting) fst_conv image_iff prod.collapse)
    with all obj_get_own [OF d(2) ku] have eq: "json_equals v u" by fastforce
    have "json_equals u v"
      using eq kv ku JObject.prems w
      by - (rule JObject.IH [OF kv], auto simp: list_all_iff snds.simps)
    with obj_get_own [OF d(1) kv] show ?thesis by blast
  qed
  with w len show ?case by (auto simp: equals_entries_iff)
qed (case_tac w; simp; fail | case_tac w; simp; erule double_eq_sym [THEN iffD1])+

end
