(* ===== verification/Json_Props.thy ===== *)
theory Json_Props
  imports Json
begin

text \<open>
  Properties of the JSON value operations: what each update does to what can be read
  afterwards, that all of them keep values well formed, cloning and equality.
\<close>

section \<open>Arrays\<close>

lemma json_array_get_iff:
  "json_array_get (Some (JArray xs)) i = (if i < length xs then Some (xs ! i) else None)"
  by (simp add: json_array_get_def)

text \<open>Removing an element shifts the later ones down by one place and nothing else; an index
  out of range changes nothing.\<close>

theorem json_array_remove_get:
  "json_array_get (json_array_remove (Some (JArray xs)) i) j =
     (if length xs \<le> i \<or> j < i then json_array_get (Some (JArray xs)) j
      else json_array_get (Some (JArray xs)) (Suc j))"
  by (auto simp: json_array_get_iff butlast_shift_down nth_append min_def)

text \<open>Reading an array after \<^verbatim>\<open>append\<close> and \<^verbatim>\<open>set\<close>.\<close>

theorem json_array_append_set_get:
  "json_array_get (json_array_append (Some (JArray xs)) (Some v)) j =
     (if j = length xs then Some v else json_array_get (Some (JArray xs)) j) \<and>
   json_array_get (json_array_set (Some (JArray xs)) i (Some v)) j =
     (if j = i \<and> i < length xs then Some v else json_array_get (Some (JArray xs)) j) \<and>
   json_array_size (json_array_set (Some (JArray xs)) i (Some v)) = length xs"
  by (auto simp: json_array_get_iff nth_append json_array_size_def)

section \<open>Objects\<close>

text \<open>After a sequence of assignments to an empty object each key reads the last value
  assigned to it, and the object binds no key twice.\<close>

theorem json_object_sets_get:
  "obj_get (foldl (\<lambda>es (k, v). obj_set es k v) [] kvs) k = map_of (rev kvs) k \<and>
   distinct (map fst (foldl (\<lambda>es (k, v). obj_set es k v) [] kvs))"
  using obj.get_puts [OF obj.ok_empty, of kvs k] obj.ok_puts [OF obj.ok_empty, of kvs]
  by (simp add: obj.puts_def obj.get_empty keys_distinct_def split: option.splits)

text \<open>Removing a key from a well-formed object unbinds exactly that key and keeps the object
  well formed.\<close>

theorem json_object_remove_get:
  assumes "json_wf (JObject es)"
  shows "\<exists>fs. json_object_remove (Some (JObject es)) (Some k) = Some (JObject fs) \<and>
    json_wf (JObject fs) \<and>
    (\<forall>k'. obj_get fs k' = (if k' = k then None else obj_get es k'))"
  using assms json_wf_obj_remove [OF assms, of k] obj_get_remove [of es k]
  by (simp add: keys_distinct_def)

theorem json_object_remove_get_witness:
  "\<exists>fs. json_object_remove (Some (JObject [(''a'', JNull), (''b'', JNull)])) (Some ''a'') = Some (JObject fs) \<and>
    obj_get fs ''a'' = None \<and> obj_get fs ''b'' = Some JNull"
  using json_object_remove_get [of "[(''a'', JNull), (''b'', JNull)]" "''a''"] by auto

text \<open>\<^verbatim>\<open>json_object_get_keys\<close> lists the keys an object has, in the order they were added.\<close>

theorem json_object_get_keys_spec:
  "json_object_get_keys (Some (JObject es)) = Some (JArray (map (\<lambda>e. JString (fst e)) es)) \<and>
   json_object_has (Some (JObject es)) (Some k) = (json_object_get (Some (JObject es)) (Some k) \<noteq> None)"
  using get_keys_fold [of "[]" es]
  by (force simp: json_object_get_keys_def json_create_array_def obj_get_None_iff list_ex_iff image_iff)

section \<open>Cloning and equality\<close>

text \<open>A clone of a well-formed value is that value, and equals it whenever no NaN occurs.\<close>

theorem json_clone_equal:
  assumes "json_wf v" and "nan_free v"
  shows "json_clone v = v \<and> json_equals (json_clone v) v"
  using assms by (simp add: json_clone_wf json_equals_refl)

theorem json_clone_equal_witness:
  "json_clone (JObject [(''a'', JArray [JNull])]) = JObject [(''a'', JArray [JNull])] \<and>
   json_equals (json_clone (JObject [(''a'', JArray [JNull])])) (JObject [(''a'', JArray [JNull])])"
  by (rule json_clone_equal) simp_all

text \<open>Equality is symmetric on well-formed values.\<close>

theorem json_equals_symmetric:
  assumes "json_wf v" and "json_wf w"
  shows "json_equals v w = json_equals w v"
  using assms json_equals_sym by blast

theorem json_equals_symmetric_witness:
  "json_equals (JObject [(''a'', JNull), (''b'', JNull)]) (JObject [(''b'', JNull), (''a'', JNull)]) =
   json_equals (JObject [(''b'', JNull), (''a'', JNull)]) (JObject [(''a'', JNull), (''b'', JNull)])"
  by (rule json_equals_symmetric) simp_all

end
