(* ===== verification/Json_Parse.thy ===== *)
theory Json_Parse
  imports Json
begin

text \<open>
  The JSON reader of \<^verbatim>\<open>src/src/components/utils/json.c\<close>.  The read position
  \<^verbatim>\<open>const char** json\<close> is the remaining input, returned beside the value; a \<^verbatim>\<open>NULL\<close>
  result is \<open>None\<close>, after which no caller looks at the position again.
\<close>

definition max_json_recursion_depth :: int where
  "max_json_recursion_depth = 20"

definition max_json_input_size :: int where
  "max_json_input_size = 5 * 1024 * 1024"

definition max_json_string_length :: int where
  "max_json_string_length = 1024 * 1024"

abbreviation quote :: char where "quote \<equiv> CHR 0x22"
abbreviation backslash :: char where "backslash \<equiv> CHR 0x5C"

section \<open>Strings\<close>

definition skip_whitespace :: "string \<Rightarrow> string" where
  "skip_whitespace s = dropWhile isspace s"

text \<open>
  The loop of \<^verbatim>\<open>parse_string\<close> up to the closing quote: the characters passed, their
  number, and the rest; \<open>None\<close> when the string is too long.
\<close>

fun scan_string :: "string \<Rightarrow> int \<Rightarrow> (string \<times> int \<times> string) option" where
  "scan_string [] n = Some ([], n, [])"
| "scan_string (c # r) n =
     (if c = quote then Some ([], n, c # r)
      else if max_json_string_length \<le> n then None
      else if c = backslash \<and> r \<noteq> [] then
        (case r of
           e # r' \<Rightarrow> map_option (\<lambda>(b, m, t). (c # e # b, m, t)) (scan_string r' (n + 2))
         | [] \<Rightarrow> None)
      else map_option (\<lambda>(b, m, t). (c # b, m, t)) (scan_string r (n + 1)))"

definition parse_string :: "string \<Rightarrow> (string \<times> string) option" where
  "parse_string s =
     (case s of
        c # r \<Rightarrow>
          if c \<noteq> quote then None
          else (case scan_string r 0 of
                  Some (body, n, q # rest) \<Rightarrow>
                    if max_json_string_length < n then None else Some (body, rest)
                | _ \<Rightarrow> None)
      | [] \<Rightarrow> None)"

section \<open>Numbers\<close>

text \<open>
  The digit loops.  \<^verbatim>\<open>int64_t\<close> and \<^verbatim>\<open>int\<close> accumulators wrap around, which is what the
  compiled code does (overflow of a signed integer is undefined in C).
\<close>

fun int_digits :: "string \<Rightarrow> c_int64 \<Rightarrow> double \<Rightarrow> c_int64 \<times> double \<times> string" where
  "int_digits [] i f = (i, f, [])"
| "int_digits (c # r) i f =
     (if isdigit c
      then int_digits r (i * 10 + word_of_int (digit_val c))
             (double_add (double_mul f (Fin 10)) (Fin (of_int (digit_val c))))
      else (i, f, c # r))"

fun frac_digits :: "string \<Rightarrow> double \<Rightarrow> double \<Rightarrow> double \<times> string" where
  "frac_digits [] f d = (f, [])"
| "frac_digits (c # r) f d =
     (if isdigit c
      then frac_digits r (double_add f (double_mul (Fin (of_int (digit_val c))) d))
             (double_mul d (double_of_rat (1 / 10)))
      else (f, c # r))"

fun exp_digits :: "string \<Rightarrow> c_int \<Rightarrow> c_int \<times> string" where
  "exp_digits [] e = (e, [])"
| "exp_digits (c # r) e =
     (if isdigit c then exp_digits r (e * 10 + word_of_int (digit_val c)) else (e, c # r))"

text \<open>\<^verbatim>\<open>for (int i = 0; i < exp_value; i++) exp *= 10.0;\<close>\<close>

definition exp_power :: "c_int \<Rightarrow> double" where
  "exp_power e = ((\<lambda>x. double_mul x (Fin 10)) ^^ nat (sint e)) (Fin 1)"

definition parse_fraction :: "string \<Rightarrow> double \<Rightarrow> bool \<times> double \<times> string" where
  "parse_fraction s f =
     (case s of
        c # r \<Rightarrow>
          if c = CHR ''.''
          then (let (f', t) = frac_digits r f (double_of_rat (1 / 10)) in (True, f', t))
          else (False, f, s)
      | [] \<Rightarrow> (False, f, s))"

definition parse_exponent :: "string \<Rightarrow> double \<Rightarrow> bool \<times> double \<times> string" where
  "parse_exponent s f =
     (case s of
        c # r \<Rightarrow>
          if c = CHR ''e'' \<or> c = CHR ''E''
          then (let exp_negative = (case r of d # _ \<Rightarrow> d = CHR ''-'' | [] \<Rightarrow> False);
                    u = (case r of d # r' \<Rightarrow> if d = CHR ''+'' \<or> d = CHR ''-'' then r' else r | [] \<Rightarrow> r);
                    (e, t) = exp_digits u 0;
                    p = exp_power e
                in (True, if exp_negative then double_div f p else double_mul f p, t))
          else (False, f, s)
      | [] \<Rightarrow> (False, f, s))"

definition parse_number :: "string \<Rightarrow> json \<times> string" where
  "parse_number s =
     (let negative = (case s of c # _ \<Rightarrow> c = CHR ''-'' | [] \<Rightarrow> False);
          s1 = (if negative then tl s else s);
          (i, f, s2) = int_digits s1 0 (Fin 0);
          (float1, f1, s3) = parse_fraction s2 f;
          (float2, f2, s4) = parse_exponent s3 f1
      in (if float1 \<or> float2
          then json_create_number (if negative then double_neg f2 else f2)
          else json_create_integer (if negative then - i else i), s4))"

text \<open>Every scanner returns a suffix no longer than its input.\<close>

lemma length_skip_whitespace [consume_facts]: "length (skip_whitespace s) \<le> length s"
  by (simp add: skip_whitespace_def)

lemma scan_string_length [consume_facts]: "scan_string s n = Some (b, m, t) \<Longrightarrow> length t \<le> length s"
proof (induction s n arbitrary: b m t rule: scan_string.induct)
  case (2 c r n)
  then show ?case by (fastforce split: if_splits list.splits)
qed simp

lemma parse_string_length [consume_facts]: "parse_string s = Some (v, t) \<Longrightarrow> length t < length s"
  by (fastforce simp: parse_string_def split: list.splits if_splits option.splits
      dest!: scan_string_length)

lemma int_digits_length [consume_facts]: "int_digits s i f = (i', f', t) \<Longrightarrow> length t \<le> length s"
  by (induction s i f rule: int_digits.induct) (auto split: if_splits)

lemma frac_digits_length [consume_facts]: "frac_digits s f d = (f', t) \<Longrightarrow> length t \<le> length s"
  by (induction s f d rule: frac_digits.induct) (auto split: if_splits)

lemma exp_digits_length [consume_facts]: "exp_digits s e = (e', t) \<Longrightarrow> length t \<le> length s"
  by (induction s e rule: exp_digits.induct) (auto split: if_splits)

lemma parse_fraction_length [consume_facts]:
  "parse_fraction s f = (b, f', t) \<Longrightarrow> length t \<le> length s"
  by (auto simp: parse_fraction_def split: list.splits if_splits prod.splits
      dest!: frac_digits_length)

lemma parse_exponent_length [consume_facts]:
  "parse_exponent s f = (b, f', t) \<Longrightarrow> length t \<le> length s"
  by (auto simp: parse_exponent_def Let_def split: list.splits if_splits prod.splits
      dest!: exp_digits_length)

lemma parse_number_length [consume_facts]:
  assumes "parse_number (c # r) = (v, t)" and "isdigit c \<or> c = CHR ''-''"
  shows "length t < length (c # r)"
proof -
  let ?s1 = "if c = CHR ''-'' then r else c # r"
  obtain i f s2 where s2: "int_digits ?s1 0 (Fin 0) = (i, f, s2)" by (metis prod_cases3)
  obtain b1 f1 s3 where s3: "parse_fraction s2 f = (b1, f1, s3)" by (metis prod_cases3)
  obtain b2 f2 s4 where s4: "parse_exponent s3 f1 = (b2, f2, s4)" by (metis prod_cases3)
  have "length s2 \<le> length r"
  proof (cases "c = CHR ''-''")
    case True
    with s2 show ?thesis by (auto dest: int_digits_length)
  next
    case False
    with assms(2) s2 show ?thesis by (auto dest: int_digits_length)
  qed
  moreover have "t = s4"
    using assms(1) s2 s3 s4 by (auto simp: parse_number_def Let_def split: if_splits)
  ultimately show ?thesis
    using parse_fraction_length [OF s3] parse_exponent_length [OF s4] by simp
qed

section \<open>Values\<close>

function parse_value_with_depth :: "string \<Rightarrow> int \<Rightarrow> (json \<times> string) option"
  and parse_array_with_depth :: "string \<Rightarrow> int \<Rightarrow> (json \<times> string) option"
  and parse_items :: "string \<Rightarrow> json list \<Rightarrow> int \<Rightarrow> (json \<times> string) option"
  and parse_object_with_depth :: "string \<Rightarrow> int \<Rightarrow> (json \<times> string) option"
  and parse_members :: "string \<Rightarrow> entries \<Rightarrow> int \<Rightarrow> (json \<times> string) option" where
  "parse_value_with_depth s depth =
     (if max_json_recursion_depth < depth then None
      else case skip_whitespace s of
        [] \<Rightarrow> None
      | c # r \<Rightarrow>
          if c = CHR ''{'' then parse_object_with_depth (c # r) (depth + 1)
          else if c = CHR ''['' then parse_array_with_depth (c # r) (depth + 1)
          else if c = quote then
            map_option (\<lambda>(str, t). (json_create_string str, t)) (parse_string (c # r))
          else if take 4 (c # r) = ''true'' then Some (json_create_boolean 1, drop 4 (c # r))
          else if take 5 (c # r) = ''false'' then Some (json_create_boolean 0, drop 5 (c # r))
          else if take 4 (c # r) = ''null'' then Some (json_create_null, drop 4 (c # r))
          else if isdigit c \<or> c = CHR ''-'' then Some (parse_number (c # r))
          else None)"
| "parse_array_with_depth s depth =
     (if max_json_recursion_depth < depth then None
      else case s of
        [] \<Rightarrow> None
      | c # r \<Rightarrow>
          if c \<noteq> CHR ''['' then None
          else (case skip_whitespace r of
                  d # t \<Rightarrow> if d = CHR '']'' then Some (json_create_array, t)
                           else parse_items (d # t) [] depth
                | [] \<Rightarrow> parse_items [] [] depth))"
| "parse_items s acc depth =
     (case parse_value_with_depth (skip_whitespace s) (depth + 1) of
        None \<Rightarrow> None
      | Some (v, r) \<Rightarrow>
          (case skip_whitespace r of
             [] \<Rightarrow> None
           | c # t \<Rightarrow>
               if c = CHR '','' then parse_items t (acc @ [v]) depth
               else if c = CHR '']'' then Some (JArray (acc @ [v]), t)
               else None))"
| "parse_object_with_depth s depth =
     (if max_json_recursion_depth < depth then None
      else case s of
        [] \<Rightarrow> None
      | c # r \<Rightarrow>
          if c \<noteq> CHR ''{'' then None
          else (case skip_whitespace r of
                  d # t \<Rightarrow> if d = CHR ''}'' then Some (json_create_object, t)
                           else parse_members (d # t) [] depth
                | [] \<Rightarrow> parse_members [] [] depth))"
| "parse_members s acc depth =
     (case parse_string (skip_whitespace s) of
        None \<Rightarrow> None
      | Some (key, r) \<Rightarrow>
          (case skip_whitespace r of
             [] \<Rightarrow> None
           | c # t \<Rightarrow>
               if c \<noteq> CHR '':'' then None
               else (case parse_value_with_depth (skip_whitespace t) (depth + 1) of
                       None \<Rightarrow> None
                     | Some (v, u) \<Rightarrow>
                         (case skip_whitespace u of
                            [] \<Rightarrow> None
                          | d # w \<Rightarrow>
                              if d = CHR '','' then parse_members w (obj_set acc key v) depth
                              else if d = CHR ''}'' then Some (JObject (obj_set acc key v), w)
                              else None))))"
  by pat_completeness auto

text \<open>
  Termination needs that a value that was read is not empty: the loops go on behind
  it.  The fact is proved on the domain of the functions first.
\<close>

lemma length_skip_whitespace_Cons: "skip_whitespace s = c # t \<Longrightarrow> length t < length s"
  using length_skip_whitespace [of s] by simp

lemma length_after_value:
  "skip_whitespace r = c # t \<Longrightarrow> length r < length (skip_whitespace s) \<Longrightarrow> length t < length s"
  using length_skip_whitespace [of s] length_skip_whitespace [of r] by simp

abbreviation parse_dom where
  "parse_dom \<equiv> parse_value_with_depth_parse_array_with_depth_parse_items_parse_object_with_depth_parse_members_dom"

lemmas parse_pinduct =
  parse_value_with_depth_parse_array_with_depth_parse_items_parse_object_with_depth_parse_members.pinduct

lemma parse_shorter_dom:
  shows "parse_dom (Inl (Inl (s, d))) \<Longrightarrow>
      \<forall>v t. parse_value_with_depth s d = Some (v, t) \<longrightarrow> length t < length s"
    and "parse_dom (Inl (Inr (s, d))) \<Longrightarrow>
      \<forall>v t. parse_array_with_depth s d = Some (v, t) \<longrightarrow> length t < length s"
    and "parse_dom (Inr (Inl (s, xs, d))) \<Longrightarrow>
      \<forall>v t. parse_items s xs d = Some (v, t) \<longrightarrow> length t < length s"
    and "parse_dom (Inr (Inr (Inl (s, d)))) \<Longrightarrow>
      \<forall>v t. parse_object_with_depth s d = Some (v, t) \<longrightarrow> length t < length s"
    and "parse_dom (Inr (Inr (Inr (s, es, d)))) \<Longrightarrow>
      \<forall>v t. parse_members s es d = Some (v, t) \<longrightarrow> length t < length s"
proof (induction s d and s d and s xs d and s d and s es d rule: parse_pinduct)
  case (1 s d)
  show ?case
  proof (cases "skip_whitespace s")
    case Nil
    then show ?thesis by (simp add: parse_value_with_depth.psimps [OF 1(1)])
  next
    case (Cons c r)
    then have le: "length (c # r) \<le> length s" using length_skip_whitespace [of s] by simp
    have num: "length t < length (c # r)" if "parse_number (c # r) = (v, t)" "isdigit c \<or> c = CHR ''-''" for v t
      using parse_number_length [OF that] .
    have str: "length t < length (c # r)" if "parse_string (c # r) = Some (v, t)" for v t
      using parse_string_length [OF that] .
    note IH = 1(2,3) [OF _ Cons]
    show ?thesis
    proof (intro allI impI)
      fix v t
      assume "parse_value_with_depth s d = Some (v, t)"
      then show "length t < length s"
        using IH le num [of v t] str Cons
        by (auto simp: parse_value_with_depth.psimps [OF 1(1)] split: if_splits)
    qed
  qed
next
  case (2 s d)
  show ?case
  proof (intro allI impI)
    fix v t
    assume p: "parse_array_with_depth s d = Some (v, t)"
    then obtain c r where s: "s = c # r" and d: "\<not> max_json_recursion_depth < d" and c: "c = CHR ''[''"
      by (auto simp: parse_array_with_depth.psimps [OF 2(1)] split: list.splits if_splits)
    show "length t < length s"
      using p [unfolded parse_array_with_depth.psimps [OF 2(1)]]
        2(2,3) [OF d s] s d c length_skip_whitespace [of r]
      by (cases "skip_whitespace r") (auto split: if_splits)
  qed
next
  case (3 s xs d)
  show ?case
  proof (intro allI impI)
    fix v t
    assume p: "parse_items s xs d = Some (v, t)"
    then obtain v1 r where v1: "parse_value_with_depth (skip_whitespace s) (d + 1) = Some (v1, r)"
      by (auto simp: parse_items.psimps [OF 3(1)] split: option.splits)
    then have r: "length r < length (skip_whitespace s)" using 3(2) by blast
    from p v1 obtain c u where u: "skip_whitespace r = c # u"
      by (auto simp: parse_items.psimps [OF 3(1)] split: list.splits)
    have len: "length u < length s" by (rule length_after_value [OF u r])
    show "length t < length s"
      using p v1 u len 3(3) [OF v1 refl u]
      by (auto simp: parse_items.psimps [OF 3(1)] split: if_splits)
  qed
next
  case (4 s d)
  show ?case
  proof (intro allI impI)
    fix v t
    assume p: "parse_object_with_depth s d = Some (v, t)"
    then obtain c r where s: "s = c # r" and d: "\<not> max_json_recursion_depth < d" and c: "c = CHR ''{''"
      by (auto simp: parse_object_with_depth.psimps [OF 4(1)] split: list.splits if_splits)
    show "length t < length s"
      using p [unfolded parse_object_with_depth.psimps [OF 4(1)]]
        4(2,3) [OF d s] s d c length_skip_whitespace [of r]
      by (cases "skip_whitespace r") (auto split: if_splits)
  qed
next
  case (5 s es d)
  show ?case
  proof (intro allI impI)
    fix v t
    assume p: "parse_members s es d = Some (v, t)"
    then obtain k r where k: "parse_string (skip_whitespace s) = Some (k, r)"
      by (auto simp: parse_members.psimps [OF 5(1)] split: option.splits)
    have r: "length r < length (skip_whitespace s)" by (rule parse_string_length [OF k])
    from p k obtain c u where u: "skip_whitespace r = c # u" and c: "\<not> c \<noteq> CHR '':''"
      by (auto simp: parse_members.psimps [OF 5(1)] split: list.splits if_splits)
    have len_u: "length u < length s" by (rule length_after_value [OF u r])
    from p k u c obtain v1 w where v1: "parse_value_with_depth (skip_whitespace u) (d + 1) = Some (v1, w)"
      by (auto simp: parse_members.psimps [OF 5(1)] split: option.splits)
    then have w: "length w < length (skip_whitespace u)" using 5(2) [OF k refl u c] by blast
    from p k u c v1 obtain e x where x: "skip_whitespace w = e # x"
      by (auto simp: parse_members.psimps [OF 5(1)] split: list.splits)
    have len: "length x < length s" using length_after_value [OF x w] len_u by simp
    show "length t < length s"
      using p k u c v1 x len 5(3) [OF k refl u c v1 refl x]
      by (auto simp: parse_members.psimps [OF 5(1)] split: if_splits)
  qed
qed

termination parse_value_with_depth
proof (relation "measure (\<lambda>x. case x of
     Inl (Inl (s, d)) \<Rightarrow> 3 * length s + 2
   | Inl (Inr (s, d)) \<Rightarrow> 3 * length s + 1
   | Inr (Inl (s, a, d)) \<Rightarrow> 3 * length s + 3
   | Inr (Inr (Inl (s, d))) \<Rightarrow> 3 * length s + 1
   | Inr (Inr (Inr (s, a, d))) \<Rightarrow> 3 * length s + 3)", goal_cases)
  case (7 s acc d x v r c t)
  with parse_shorter_dom(1) have "length r < length (skip_whitespace s)" by fastforce
  with 7(3) have "length t < length s" by (rule length_after_value)
  then show ?case by simp
next
  case (10 s acc d x k r c t)
  then have "length r < length (skip_whitespace s)" using parse_string_length by fastforce
  with 10(3) have "length t < length s" by (rule length_after_value)
  then show ?case using length_skip_whitespace [of t] by simp
next
  case (11 s acc d x k r c t y v u e w)
  then have "length r < length (skip_whitespace s)" using parse_string_length by fastforce
  with 11(3) have t: "length t < length s" by (rule length_after_value)
  from 11 parse_shorter_dom(1) have "length u < length (skip_whitespace t)" by fastforce
  with 11(7) have "length w < length t" by (rule length_after_value)
  with t show ?case by simp
qed (auto dest: length_skip_whitespace_Cons simp: le_imp_less_Suc length_skip_whitespace)

declare parse_value_with_depth.simps [simp del] parse_array_with_depth.simps [simp del]
  parse_items.simps [simp del] parse_object_with_depth.simps [simp del] parse_members.simps [simp del]

lemmas parser_simps =
  parse_value_with_depth.simps parse_array_with_depth.simps parse_items.simps
  parse_object_with_depth.simps parse_members.simps

definition parse_value :: "string \<Rightarrow> (json \<times> string) option" where
  "parse_value s = parse_value_with_depth s 0"

section \<open>The entry point\<close>

text \<open>The state of the loop of \<^verbatim>\<open>json_parse\<close> that counts braces and brackets outside strings.\<close>

record brace_state =
  open_braces :: int
  close_braces :: int
  open_brackets :: int
  close_brackets :: int
  in_string :: bool
  escaped :: bool

definition brace_init :: brace_state where
  "brace_init = \<lparr>open_braces = 0, close_braces = 0, open_brackets = 0, close_brackets = 0,
     in_string = False, escaped = False\<rparr>"

definition brace_step :: "brace_state \<Rightarrow> char \<Rightarrow> brace_state" where
  "brace_step b c =
     (if \<not> in_string b then
        (if c = CHR ''{'' then b\<lparr>open_braces := open_braces b + 1\<rparr>
         else if c = CHR ''}'' then b\<lparr>close_braces := close_braces b + 1\<rparr>
         else if c = CHR ''['' then b\<lparr>open_brackets := open_brackets b + 1\<rparr>
         else if c = CHR '']'' then b\<lparr>close_brackets := close_brackets b + 1\<rparr>
         else if c = quote then b\<lparr>in_string := True\<rparr>
         else b)
      else if escaped b then b\<lparr>escaped := False\<rparr>
      else if c = backslash then b\<lparr>escaped := True\<rparr>
      else if c = quote then b\<lparr>in_string := False\<rparr>
      else b)"

definition brace_scan :: "brace_state \<Rightarrow> string \<Rightarrow> brace_state" where
  "brace_scan b s = foldl brace_step b s"

definition json_parse :: "cstr \<Rightarrow> jptr" where
  "json_parse str =
     (case str of
        None \<Rightarrow> None
      | Some s \<Rightarrow>
          if max_json_input_size < int (length s) then None
          else (let b = brace_scan brace_init s in
                if s \<noteq> [] \<and> (open_braces b > close_braces b + 10 \<or>
                             open_brackets b > close_brackets b + 10)
                then None
                else map_option fst (parse_value s)))"

end
