(* ===== verification/Json_Print.thy ===== *)
theory Json_Print
  imports Json_Parse
begin

text \<open>
  The JSON writer of \<^verbatim>\<open>src/src/components/utils/json.c\<close> and what reading its output
  back gives.  The writer computes the length of its buffer first and then fills it;
  both passes walk the value in the same way, and the model keeps the second.
\<close>

section \<open>Writing\<close>

definition escape_char :: "char \<Rightarrow> string" where
  "escape_char c =
     (if c = quote then [backslash, quote]
      else if c = backslash then [backslash, backslash]
      else if c = CHR 0x08 then [backslash, CHR ''b'']
      else if c = CHR 0x0C then [backslash, CHR ''f'']
      else if c = CHR 0x0A then [backslash, CHR ''n'']
      else if c = CHR 0x0D then [backslash, CHR ''r'']
      else if c = CHR 0x09 then [backslash, CHR ''t'']
      else [c])"

definition escape_body :: "string \<Rightarrow> string" where
  "escape_body s = concat (map escape_char s)"

definition escape_string :: "string \<Rightarrow> string" where
  "escape_string s = quote # escape_body s @ [quote]"

text \<open>The first pass: the bytes reserved for the escaped string, quotes included.\<close>

definition escaped_len :: "string \<Rightarrow> nat" where
  "escaped_len s =
     2 + (\<Sum>c\<leftarrow>s. if c = quote \<or> c = backslash \<or> schar c < 32 then 2 else 1)"

fun stringify_value :: "json \<Rightarrow> string"
  and stringify_items :: "json list \<Rightarrow> string"
  and stringify_entries :: "entries \<Rightarrow> string" where
  "stringify_value JNull = ''null''"
| "stringify_value (JBoolean b) = (if b then ''true'' else ''false'')"
| "stringify_value (JNumber d) = fmt_g d"
| "stringify_value (JString s) = escape_string s"
| "stringify_value (JArray xs) =
     (if xs = [] then ''[]'' else ''['' @ stringify_items xs @ '']'')"
| "stringify_value (JObject es) =
     (if es = [] then ''{}'' else ''{'' @ stringify_entries es @ ''}'')"
| "stringify_value (JInteger i) = int_str (sint i)"
| "stringify_items [] = []"
| "stringify_items (x # xs) =
     stringify_value x @ (if xs \<noteq> [] then '','' else []) @ stringify_items xs"
| "stringify_entries [] = []"
| "stringify_entries ((k, v) # es) =
     escape_string k @ '':'' @ stringify_value v @
     (if es \<noteq> [] then '','' else []) @ stringify_entries es"

definition json_stringify :: "jptr \<Rightarrow> cstr" where
  "json_stringify v = map_option stringify_value v"

end
