(* ===== verification/Json_Roundtrip.thy ===== *)
theory Json_Roundtrip
  imports Json_Print
begin

text \<open>
  Reading back what the writer wrote.  The reader keeps the text between two quotes as
  it stands, without undoing the writer's escapes, so a string comes back as its
  escaped text: \<open>escaped_json\<close> says so for a whole value.  The printed \<^verbatim>\<open>double\<close>s are left
  out (\<open>number_free\<close>): \<^verbatim>\<open>%g\<close> keeps six digits.
\<close>

section \<open>What can be read back\<close>

fun escaped_json :: "json \<Rightarrow> json" where
  "escaped_json (JString s) = JString (escape_body s)"
| "escaped_json (JArray xs) = JArray (map escaped_json xs)"
| "escaped_json (JObject es) = JObject (map (\<lambda>e. (escape_body (fst e), escaped_json (snd e))) es)"
| "escaped_json v = v"

fun number_free :: "json \<Rightarrow> bool" where
  "number_free (JNumber _) = False"
| "number_free (JArray xs) = list_all number_free xs"
| "number_free (JObject es) = list_all (\<lambda>e. number_free (snd e)) es"
| "number_free _ = True"

definition string_fits :: "string \<Rightarrow> bool" where
  "string_fits s \<longleftrightarrow> int (length (escape_body s)) \<le> max_json_string_length"

fun strings_fit :: "json \<Rightarrow> bool" where
  "strings_fit (JString s) = string_fits s"
| "strings_fit (JArray xs) = list_all strings_fit xs"
| "strings_fit (JObject es) = list_all (\<lambda>e. string_fits (fst e) \<and> strings_fit (snd e)) es"
| "strings_fit _ = True"

fun jdepth :: "json \<Rightarrow> nat" where
  "jdepth (JArray xs) = Suc (foldr (\<lambda>x. max (jdepth x)) xs 0)"
| "jdepth (JObject es) = Suc (foldr (\<lambda>e. max (jdepth (snd e))) es 0)"
| "jdepth _ = 0"

definition plain_char :: "char \<Rightarrow> bool" where
  "plain_char c \<longleftrightarrow> escape_char c = [c]"

fun plain_json :: "json \<Rightarrow> bool" where
  "plain_json (JString s) = list_all plain_char s"
| "plain_json (JArray xs) = list_all plain_json xs"
| "plain_json (JObject es) = list_all (\<lambda>e. list_all plain_char (fst e) \<and> plain_json (snd e)) es"
| "plain_json _ = True"

lemma escape_body_plain: "list_all plain_char s \<Longrightarrow> escape_body s = s"
  by (induction s) (simp_all add: escape_body_def plain_char_def)

lemma escaped_json_plain: "plain_json v \<Longrightarrow> escaped_json v = v"
proof (induction v)
  case (JArray xs)
  then show ?case by (simp add: list_all_iff map_idI)
next
  case (JObject es)
  then show ?case
    by (auto simp: list_all_iff intro!: map_idI escape_body_plain)
qed (simp_all add: escape_body_plain)

lemma jdepth_item: "x \<in> set xs \<Longrightarrow> jdepth x < jdepth (JArray xs)"
  by (induction xs) auto

lemma jdepth_entry: "(k, v) \<in> set es \<Longrightarrow> jdepth v < jdepth (JObject es)"
  by (induction es) auto

section \<open>Strings and integers\<close>

lemma escape_char_cases:
  "(\<exists>e. escape_char c = [backslash, e]) \<or> (escape_char c = [c] \<and> c \<noteq> quote \<and> c \<noteq> backslash)"
  by (simp add: escape_char_def)

lemma escape_body_Cons [simp]: "escape_body (c # s) = escape_char c @ escape_body s"
  by (simp add: escape_body_def)

lemma escape_body_Nil [simp]: "escape_body [] = []"
  by (simp add: escape_body_def)

lemma scan_escaped:
  "0 \<le> n \<Longrightarrow> n + int (length (escape_body s)) \<le> max_json_string_length \<Longrightarrow>
   scan_string (escape_body s @ quote # t) n =
     Some (escape_body s, n + int (length (escape_body s)), quote # t)"
proof (induction s arbitrary: n)
  case Nil
  then show ?case by simp
next
  case (Cons c s)
  show ?case
  proof (cases "\<exists>e. escape_char c = [backslash, e]")
    case True
    then obtain e where "escape_char c = [backslash, e]" by blast
    with Cons show ?thesis by simp
  next
    case False
    with escape_char_cases [of c] have "escape_char c = [c]" "c \<noteq> quote" "c \<noteq> backslash" by auto
    with Cons show ?thesis by simp
  qed
qed

lemma parse_escape_string:
  "string_fits s \<Longrightarrow> parse_string (escape_string s @ t) = Some (escape_body s, t)"
  by (simp add: parse_string_def escape_string_def string_fits_def scan_escaped)

definition stops :: "string \<Rightarrow> bool" where
  "stops t \<longleftrightarrow> (case t of [] \<Rightarrow> True | c # _ \<Rightarrow>
     \<not> isdigit c \<and> c \<noteq> CHR ''.'' \<and> c \<noteq> CHR ''e'' \<and> c \<noteq> CHR ''E'')"

lemma int_digits_append:
  "list_all isdigit ds \<Longrightarrow> stops t \<Longrightarrow>
   \<exists>f'. int_digits (ds @ t) i f = (foldl (\<lambda>n c. n * 10 + word_of_int (digit_val c)) i ds, f', t)"
proof (induction ds arbitrary: i f)
  case Nil
  then show ?case by (cases t) (auto simp: stops_def)
qed simp

lemma digits_word:
  "foldl (\<lambda>n c. n * 10 + word_of_int (digit_val c)) 0 ds = (word_of_int (digits_val ds) :: c_int64)"
  by (induction ds rule: rev_induct)
    (simp_all add: digits_val_snoc mult.commute, simp add: digits_val_def)

lemma int_digits_dec_str:
  assumes "0 \<le> n" and "stops t"
  shows "\<exists>f. int_digits (dec_str n @ t) 0 (Fin 0) = (word_of_int n, f, t)"
proof -
  have "list_all isdigit (dec_str n)"
    using dec_str_digits [OF assms(1)] by (simp add: list_all_iff)
  from int_digits_append [OF this assms(2), of 0 "Fin 0"] assms(1) show ?thesis
    by (simp add: digits_word)
qed

lemma dec_str_Cons:
  assumes "0 \<le> n"
  obtains c r where "dec_str n = c # r" and "isdigit c"
proof (cases "dec_str n")
  case (Cons c r)
  with dec_str_digits [OF assms, of c] that show ?thesis by simp
qed simp

lemma not_digit_minus: "isdigit c \<Longrightarrow> c \<noteq> CHR ''-''"
  by (auto simp: isdigit_def uchar_def)

lemma parse_number_int:
  assumes "stops t"
  shows "parse_number (int_str (sint i) @ t) = (JInteger i, t)"
proof -
  have t: "parse_fraction t f = (False, f, t)" "parse_exponent t f = (False, f, t)" for f
    using assms by (auto simp: parse_fraction_def parse_exponent_def stops_def split: list.splits)
  show ?thesis
  proof (cases "sint i < 0")
    case True
    then obtain f where "int_digits (dec_str (- sint i) @ t) 0 (Fin 0) = (word_of_int (- sint i), f, t)"
      using int_digits_dec_str [OF _ assms, of "- sint i"] by auto
    with True t show ?thesis
      by (simp add: parse_number_def int_str_def json_create_integer_def)
  next
    case False
    then obtain f where "int_digits (dec_str (sint i) @ t) 0 (Fin 0) = (word_of_int (sint i), f, t)"
      using int_digits_dec_str [OF _ assms, of "sint i"] by auto
    moreover obtain c r where "dec_str (sint i) = c # r" "isdigit c"
      using False by (elim dec_str_Cons [of "sint i", rotated]) simp
    ultimately show ?thesis
      using False t not_digit_minus [of c] by (simp add: parse_number_def int_str_def json_create_integer_def)
  qed
qed

section \<open>Values\<close>

lemma int_str_Cons:
  obtains c r where "int_str i = c # r" and "isdigit c \<or> c = CHR ''-''"
proof (cases "i < 0")
  case True
  then show ?thesis using that by (simp add: int_str_def)
next
  case False
  then obtain c r where "dec_str i = c # r" "isdigit c" by (elim dec_str_Cons [of i, rotated]) simp
  with False that show ?thesis by (simp add: int_str_def)
qed

lemma stringify_start:
  assumes "number_free v"
  shows "\<exists>c r. stringify_value v = c # r \<and> \<not> isspace c \<and> c \<noteq> CHR '']''"
proof (cases v)
  case (JInteger i)
  obtain c r where "int_str (sint i) = c # r" "isdigit c \<or> c = CHR ''-''" by (rule int_str_Cons)
  with JInteger show ?thesis by (auto simp: isspace_def isdigit_def uchar_def)
qed (use assms in \<open>auto simp: isspace_def uchar_def escape_string_def\<close>)

lemma skip_stringify [simp]:
  "number_free v \<Longrightarrow> skip_whitespace (stringify_value v @ t) = stringify_value v @ t"
  using stringify_start [of v] by (auto simp: skip_whitespace_def)

lemma skip_nonspace [simp]: "\<not> isspace c \<Longrightarrow> skip_whitespace (c # t) = c # t"
  by (simp add: skip_whitespace_def)

lemma nonspace_punct [simp]:
  "\<not> isspace (CHR '','')" "\<not> isspace (CHR '']'')" "\<not> isspace (CHR ''}'')"
  "\<not> isspace (CHR ''['')" "\<not> isspace (CHR ''{'')" "\<not> isspace (CHR '':'')" "\<not> isspace quote"
  by (simp_all add: isspace_def uchar_def)

lemma stops_punct [simp]:
  "stops []" "stops (CHR '','' # t)" "stops (CHR '']'' # t)" "stops (CHR ''}'' # t)"
  by (simp_all add: stops_def isdigit_def uchar_def)

text \<open>One element, then the loop over the elements.\<close>

definition reads_back :: "json \<Rightarrow> int \<Rightarrow> bool" where
  "reads_back v d \<longleftrightarrow> (\<forall>t. stops t \<longrightarrow>
     parse_value_with_depth (stringify_value v @ t) d = Some (escaped_json v, t))"

lemma parse_items_stringify:
  assumes "xs \<noteq> []" and "list_all number_free xs" and "\<And>x. x \<in> set xs \<Longrightarrow> reads_back x (d + 1)"
  shows "parse_items (stringify_items xs @ CHR '']'' # t) acc d =
    Some (JArray (acc @ map escaped_json xs), t)"
  using assms
proof (induction xs arbitrary: acc)
  case Nil
  then show ?case by simp
next
  case (Cons x xs)
  have x: "parse_value_with_depth (stringify_value x @ u) (d + 1) = Some (escaped_json x, u)"
    if "stops u" for u
    using Cons.prems(3) [of x] that by (simp add: reads_back_def)
  show ?case
  proof (cases "xs = []")
    case True
    with x Cons.prems show ?thesis by (simp add: parse_items.simps)
  next
    case False
    with x Cons show ?thesis by (subst parse_items.simps) simp
  qed
qed

lemma parse_members_stringify:
  assumes "es \<noteq> []" and "list_all (\<lambda>e. number_free (snd e)) es"
    and "list_all (\<lambda>e. string_fits (fst e)) es"
    and "\<And>k v. (k, v) \<in> set es \<Longrightarrow> reads_back v (d + 1)"
    and "distinct (map fst acc @ map (\<lambda>e. escape_body (fst e)) es)"
  shows "parse_members (stringify_entries es @ CHR ''}'' # t) acc d =
    Some (JObject (acc @ map (\<lambda>e. (escape_body (fst e), escaped_json (snd e))) es), t)"
  using assms
proof (induction es arbitrary: acc)
  case Nil
  then show ?case by simp
next
  case (Cons e es)
  obtain k v where e: "e = (k, v)" by (cases e)
  have key: "skip_whitespace (escape_string k @ u) = escape_string k @ u"
    "parse_string (escape_string k @ u) = Some (escape_body k, u)" for u
    using Cons.prems(3) e by (simp add: escape_string_def, simp add: parse_escape_string)
  have v: "parse_value_with_depth (stringify_value v @ u) (d + 1) = Some (escaped_json v, u)"
    if "stops u" for u
    using Cons.prems(4) [of k v] that e by (simp add: reads_back_def)
  have fresh: "obj_set acc (escape_body k) w = acc @ [(escape_body k, w)]" for w
    using Cons.prems(5) e by (intro obj_set_fresh) auto
  show ?case
  proof (cases "es = []")
    case True
    with v key e fresh Cons.prems show ?thesis by (simp add: parse_members.simps)
  next
    case False
    have "parse_members (stringify_entries es @ CHR ''}'' # t) (acc @ [(escape_body k, escaped_json v)]) d =
        Some (JObject ((acc @ [(escape_body k, escaped_json v)]) @
          map (\<lambda>e. (escape_body (fst e), escaped_json (snd e))) es), t)"
      using Cons.prems e False by (intro Cons.IH) auto
    with False v key e fresh Cons.prems show ?thesis by (subst parse_members.simps) simp
  qed
qed

lemma parse_value_start:
  assumes "d \<le> 20" and "\<not> isspace c"
  shows "parse_value_with_depth (c # r) d =
    (if c = CHR ''{'' then parse_object_with_depth (c # r) (d + 1)
     else if c = CHR ''['' then parse_array_with_depth (c # r) (d + 1)
     else if c = quote then
       map_option (\<lambda>(str, t). (json_create_string str, t)) (parse_string (c # r))
     else if take 4 (c # r) = ''true'' then Some (json_create_boolean 1, drop 4 (c # r))
     else if take 5 (c # r) = ''false'' then Some (json_create_boolean 0, drop 5 (c # r))
     else if take 4 (c # r) = ''null'' then Some (json_create_null, drop 4 (c # r))
     else if isdigit c \<or> c = CHR ''-'' then Some (parse_number (c # r))
     else None)"
  using assms by (subst parse_value_with_depth.simps) (simp add: max_json_recursion_depth_def)

lemma digit_or_minus_distinct:
  "isdigit c \<or> c = CHR ''-'' \<Longrightarrow>
   c \<noteq> CHR ''{'' \<and> c \<noteq> CHR ''['' \<and> c \<noteq> quote \<and> c \<noteq> CHR ''t'' \<and> c \<noteq> CHR ''f'' \<and>
   c \<noteq> CHR ''n'' \<and> \<not> isspace c"
  by (auto simp: isdigit_def isspace_def uchar_def)

lemma reads_back_int: "d \<le> 20 \<Longrightarrow> reads_back (JInteger i) d"
proof -
  assume d: "d \<le> 20"
  obtain c r where c: "int_str (sint i) = c # r" "isdigit c \<or> c = CHR ''-''" by (rule int_str_Cons)
  have "parse_value_with_depth (int_str (sint i) @ t) d = Some (JInteger i, t)" if "stops t" for t
    using parse_number_int [OF that, of i] digit_or_minus_distinct [OF c(2)] c
    by (simp add: parse_value_start [OF d])
  then show ?thesis by (simp add: reads_back_def)
qed

lemma reads_back_scalar:
  assumes "d \<le> 20"
  shows "reads_back JNull d" and "reads_back (JBoolean b) d"
    and "string_fits s \<Longrightarrow> reads_back (JString s) d"
proof -
  have ns: "\<not> isspace (CHR ''n'')" "\<not> isspace (CHR ''t'')" "\<not> isspace (CHR ''f'')"
    by (simp_all add: isspace_def uchar_def)
  show "reads_back JNull d" "reads_back (JBoolean b) d"
    using ns by (simp_all add: reads_back_def parse_value_start [OF assms]
        json_create_null_def json_create_boolean_def)
  assume "string_fits s"
  then have p: "parse_string (quote # escape_body s @ quote # t) = Some (escape_body s, t)" for t
    using parse_escape_string [of s t] by (simp add: escape_string_def)
  then show "reads_back (JString s) d"
    by (simp add: reads_back_def escape_string_def parse_value_start [OF assms] json_create_string_def)
qed

lemma parse_nonempty:
  assumes "d \<le> 20" and "\<not> isspace c"
  shows "c \<noteq> CHR '']'' \<Longrightarrow> parse_array_with_depth (CHR ''['' # c # r) d = parse_items (c # r) [] d"
    and "c \<noteq> CHR ''}'' \<Longrightarrow> parse_object_with_depth (CHR ''{'' # c # r) d = parse_members (c # r) [] d"
  using assms
  by (simp_all add: parse_array_with_depth.simps parse_object_with_depth.simps max_json_recursion_depth_def)

lemma stringify_items_start:
  assumes "xs \<noteq> []" and "list_all number_free xs"
  obtains c r where "stringify_items xs = c # r" and "\<not> isspace c" and "c \<noteq> CHR '']''"
proof (cases xs)
  case (Cons x xs')
  with assms(2) stringify_start [of x] obtain c r where
    "stringify_value x = c # r" "\<not> isspace c" "c \<noteq> CHR '']''" by auto
  with Cons that show ?thesis by simp
qed (use assms in simp)

lemma stringify_entries_start:
  assumes "es \<noteq> []"
  obtains r where "stringify_entries es = quote # r"
  using assms that by (cases es) (auto simp: escape_string_def)

lemma reads_back_array:
  assumes "list_all number_free xs" and "d + 2 \<le> 20"
    and "\<And>x. x \<in> set xs \<Longrightarrow> reads_back x (d + 1 + 1)"
  shows "reads_back (JArray xs) d"
proof (cases "xs = []")
  case True
  with assms(2) show ?thesis
    by (simp add: reads_back_def parse_value_start parse_array_with_depth.simps
        max_json_recursion_depth_def json_create_array_def)
next
  case False
  then obtain c r where c: "stringify_items xs = c # r" "\<not> isspace c" "c \<noteq> CHR '']''"
    using assms(1) by (rule stringify_items_start)
  have "parse_items (c # r @ CHR '']'' # t) [] (d + 1) = Some (JArray (map escaped_json xs), t)" for t
    using parse_items_stringify [OF False assms(1,3), where acc = "[]" and t = t] c(1) by simp
  with False c assms(2) show ?thesis
    by (simp add: reads_back_def parse_value_start parse_nonempty)
qed

lemma reads_back_object:
  assumes "list_all (\<lambda>e. number_free (snd e)) es" and "list_all (\<lambda>e. string_fits (fst e)) es"
    and "distinct (map (\<lambda>e. escape_body (fst e)) es)" and "d + 2 \<le> 20"
    and "\<And>k v. (k, v) \<in> set es \<Longrightarrow> reads_back v (d + 1 + 1)"
  shows "reads_back (JObject es) d"
proof (cases "es = []")
  case True
  with assms(4) show ?thesis
    by (simp add: reads_back_def parse_value_start parse_object_with_depth.simps
        max_json_recursion_depth_def json_create_object_def)
next
  case False
  then obtain r where r: "stringify_entries es = quote # r" by (rule stringify_entries_start)
  have "parse_members (quote # r @ CHR ''}'' # t) [] (d + 1) =
      Some (JObject (map (\<lambda>e. (escape_body (fst e), escaped_json (snd e))) es), t)" for t
    using parse_members_stringify [OF False assms(1,2,5), where acc = "[]" and t = t] r assms(3) by simp
  with False r assms(4) show ?thesis
    by (simp add: reads_back_def parse_value_start parse_nonempty)
qed

lemma reads_back_json:
  assumes "number_free v" and "strings_fit v" and "json_wf (escaped_json v)"
    and "d + 2 * int (jdepth v) \<le> 20"
  shows "reads_back v d"
  using assms
proof (induction v arbitrary: d)
  case (JArray xs)
  show ?case
  proof (rule reads_back_array)
    fix x
    assume x: "x \<in> set xs"
    show "reads_back x (d + 1 + 1)"
      using JArray.prems x jdepth_item [OF x]
      by (intro JArray.IH [OF x]) (auto simp: list_all_iff)
  qed (use JArray.prems in simp_all)
next
  case (JObject es)
  show ?case
  proof (rule reads_back_object)
    fix k v
    assume kv: "(k, v) \<in> set es"
    show "reads_back v (d + 1 + 1)"
      using JObject.prems kv jdepth_entry [OF kv]
      by (intro JObject.IH [OF kv]) (force simp: list_all_iff)+
  qed (use JObject.prems in \<open>auto simp: list_all_iff comp_def\<close>)
qed (simp_all add: reads_back_int reads_back_scalar)

section \<open>The brace count\<close>

definition count_up :: "int \<Rightarrow> int \<Rightarrow> brace_state \<Rightarrow> brace_state" where
  "count_up m n b =
     b\<lparr>open_braces := open_braces b + m, close_braces := close_braces b + m,
       open_brackets := open_brackets b + n, close_brackets := close_brackets b + n\<rparr>"

definition outside :: "brace_state \<Rightarrow> bool" where
  "outside b \<longleftrightarrow> \<not> in_string b \<and> \<not> escaped b"

definition balanced :: "string \<Rightarrow> bool" where
  "balanced s \<longleftrightarrow> (\<forall>b. outside b \<longrightarrow> (\<exists>m n. brace_scan b s = count_up m n b))"

lemma brace_scan_append [simp]: "brace_scan b (s @ t) = brace_scan (brace_scan b s) t"
  by (simp add: brace_scan_def)

lemma brace_scan_simps [simp]:
  "brace_scan b [] = b" "brace_scan b (c # s) = brace_scan (brace_step b c) s"
  by (simp_all add: brace_scan_def)

lemma outside_count_up [simp]: "outside (count_up m n b) = outside b"
  by (simp add: outside_def count_up_def)

lemma count_up_count_up [simp]: "count_up m n (count_up m' n' b) = count_up (m + m') (n + n') b"
  by (simp add: count_up_def algebra_simps)

lemma balanced_Nil: "balanced []"
proof -
  have "count_up 0 0 b = b" for b by (simp add: count_up_def)
  then show ?thesis unfolding balanced_def by (metis brace_scan_simps(1))
qed

lemma balanced_append: "balanced s \<Longrightarrow> balanced t \<Longrightarrow> balanced (s @ t)"
  unfolding balanced_def by (metis brace_scan_append count_up_count_up outside_count_up)

lemma balanced_other:
  "c \<notin> set [CHR ''{'', CHR ''}'', CHR ''['', CHR '']'', quote] \<Longrightarrow> balanced [c]"
  using balanced_Nil by (simp add: balanced_def brace_step_def outside_def)

lemma balanced_others:
  "(\<And>c. c \<in> set s \<Longrightarrow> c \<notin> set [CHR ''{'', CHR ''}'', CHR ''['', CHR '']'', quote]) \<Longrightarrow> balanced s"
proof (induction s)
  case (Cons c s)
  then show ?case using balanced_append [OF balanced_other, of c s] by simp
qed (simp add: balanced_Nil)

lemma scan_escape_body:
  "in_string b \<Longrightarrow> \<not> escaped b \<Longrightarrow> brace_scan b (escape_body s) = b"
proof (induction s)
  case (Cons c s)
  have "brace_scan b (escape_char c) = b"
    using Cons.prems escape_char_cases [of c] by (auto simp: brace_step_def)
  with Cons show ?case by simp
qed simp

lemma balanced_escape_string: "balanced (escape_string s)"
proof -
  have "brace_scan b (escape_string s) = count_up 0 0 b" if "outside b" for b
    using that scan_escape_body [of "b\<lparr>in_string := True\<rparr>" s]
    by (simp add: escape_string_def outside_def brace_step_def count_up_def)
  then show ?thesis unfolding balanced_def by blast
qed

lemma balanced_enclose:
  assumes "balanced s"
  shows "balanced (CHR ''{'' # s @ ''}'')" and "balanced (CHR ''['' # s @ '']'')"
proof -
  have "\<exists>m n. brace_scan b (CHR ''{'' # s @ ''}'') = count_up m n b" if b: "outside b" for b
  proof -
    have "outside (b\<lparr>open_braces := open_braces b + 1\<rparr>)" using b by (simp add: outside_def)
    with assms obtain m n where
      "brace_scan (b\<lparr>open_braces := open_braces b + 1\<rparr>) s =
        count_up m n (b\<lparr>open_braces := open_braces b + 1\<rparr>)"
      unfolding balanced_def by blast
    with b have "brace_scan b (CHR ''{'' # s @ ''}'') = count_up (m + 1) n b"
      by (simp add: brace_step_def outside_def count_up_def)
    then show ?thesis by blast
  qed
  then show "balanced (CHR ''{'' # s @ ''}'')" by (simp add: balanced_def)
  have "\<exists>m n. brace_scan b (CHR ''['' # s @ '']'') = count_up m n b" if b: "outside b" for b
  proof -
    have "outside (b\<lparr>open_brackets := open_brackets b + 1\<rparr>)" using b by (simp add: outside_def)
    with assms obtain m n where
      "brace_scan (b\<lparr>open_brackets := open_brackets b + 1\<rparr>) s =
        count_up m n (b\<lparr>open_brackets := open_brackets b + 1\<rparr>)"
      unfolding balanced_def by blast
    with b have "brace_scan b (CHR ''['' # s @ '']'') = count_up m (n + 1) b"
      by (simp add: brace_step_def outside_def count_up_def)
    then show ?thesis by blast
  qed
  then show "balanced (CHR ''['' # s @ '']'')" by (simp add: balanced_def)
qed

lemma balanced_separator:
  "balanced s \<Longrightarrow> balanced (CHR '','' # s)" "balanced s \<Longrightarrow> balanced (CHR '':'' # s)"
  using balanced_append [OF balanced_other, of "CHR '',''" s]
    balanced_append [OF balanced_other, of "CHR '':''" s] by simp_all

lemma balanced_stringify:
  "number_free v \<Longrightarrow> balanced (stringify_value v)"
  "list_all number_free xs \<Longrightarrow> balanced (stringify_items xs)"
  "list_all (\<lambda>e. number_free (snd e)) es \<Longrightarrow> balanced (stringify_entries es)"
proof (induction v and xs and es rule: stringify_value_stringify_items_stringify_entries.induct)
  case (5 xs)
  then show ?case using balanced_enclose(2) [of "stringify_items xs"] balanced_enclose(2) [OF balanced_Nil] by auto
next
  case (6 es)
  then show ?case using balanced_enclose(1) [of "stringify_entries es"] balanced_enclose(1) [OF balanced_Nil] by auto
next
  case (7 i)
  have "c \<notin> set [CHR ''{'', CHR ''}'', CHR ''['', CHR '']'', quote]" if "isdigit c \<or> c = CHR ''-''" for c
    using that by (auto simp: isdigit_def uchar_def)
  moreover have "isdigit c \<or> c = CHR ''-''" if "c \<in> set (int_str (sint i))" for c
    using that dec_str_digits [of "sint i" c] dec_str_digits [of "- sint i" c]
    by (auto simp: int_str_def split: if_splits)
  ultimately show ?case by (simp only: stringify_value.simps) (blast intro: balanced_others)
next
  case (9 x xs)
  then show ?case by (auto intro!: balanced_append balanced_separator)
next
  case (11 k v es)
  then show ?case by (auto intro!: balanced_append balanced_escape_string balanced_separator)
qed (auto intro!: balanced_others balanced_Nil simp: balanced_escape_string)

section \<open>The round trip\<close>

definition reads_ok :: "json \<Rightarrow> bool" where
  "reads_ok v \<longleftrightarrow> number_free v \<and> strings_fit v \<and> json_wf (escaped_json v) \<and> jdepth v \<le> 10 \<and>
     int (length (stringify_value v)) \<le> max_json_input_size"

lemma json_parse_stringify_lemma:
  assumes "reads_ok v"
  shows "json_parse (json_stringify (Some v)) = Some (escaped_json v)"
proof -
  have "reads_back v 0"
    using assms by (intro reads_back_json) (simp_all add: reads_ok_def)
  then have "parse_value (stringify_value v @ []) = Some (escaped_json v, [])"
    unfolding reads_back_def parse_value_def by (metis stops_punct(1))
  moreover obtain m n where "brace_scan brace_init (stringify_value v) = count_up m n brace_init"
    using balanced_stringify(1) [of v] assms
    unfolding balanced_def reads_ok_def outside_def by (fastforce simp: brace_init_def)
  ultimately show ?thesis
    using assms by (simp add: json_parse_def json_stringify_def reads_ok_def count_up_def brace_init_def Let_def)
qed

text \<open>
  C5. Printing a value and parsing the text gives the value back with every string
  (keys included) replaced by its escaped text, for a value without \<^verbatim>\<open>double\<close>s that is
  at most ten containers deep and within the reader's size limits.
\<close>

theorem json_parse_stringify:
  assumes "reads_ok v"
  shows "json_parse (json_stringify (Some v)) = Some (escaped_json v)"
  using assms by (rule json_parse_stringify_lemma)

theorem json_parse_stringify_witness:
  "reads_ok (JObject [(''k'', JArray [JInteger 7, JString [quote]]), (''m'', JObject [])]) \<and>
   json_parse (json_stringify
     (Some (JObject [(''k'', JArray [JInteger 7, JString [quote]]), (''m'', JObject [])]))) =
   Some (JObject [(''k'', JArray [JInteger 7, JString [backslash, quote]]), (''m'', JObject [])])"
proof -
  let ?v = "JObject [(''k'', JArray [JInteger 7, JString [quote]]), (''m'', JObject [])]"
  have ok: "reads_ok ?v"
    unfolding reads_ok_def max_json_input_size_def by code_simp
  show ?thesis using json_parse_stringify [OF ok] ok by (simp add: escape_char_def)
qed

text \<open>
  A value whose strings and keys hold none of the characters the writer escapes
  survives printing and parsing unchanged.
\<close>

theorem json_parse_stringify_plain:
  assumes "reads_ok v" and "plain_json v"
  shows "json_parse (json_stringify (Some v)) = Some v"
  using assms json_parse_stringify_lemma [of v] by (simp add: escaped_json_plain)

theorem json_parse_stringify_plain_witness:
  "json_parse (json_stringify (Some (JArray [JNull, JBoolean True, JString ''ok'', JInteger 12]))) =
   Some (JArray [JNull, JBoolean True, JString ''ok'', JInteger 12])"
proof (rule json_parse_stringify_plain)
  show "reads_ok (JArray [JNull, JBoolean True, JString ''ok'', JInteger 12])"
    unfolding reads_ok_def max_json_input_size_def by code_simp
  show "plain_json (JArray [JNull, JBoolean True, JString ''ok'', JInteger 12])"
    by code_simp
qed

lemma length_escape_char: "length (escape_char c) = (if plain_char c then 1 else 2)"
  by (auto simp: plain_char_def escape_char_def)

lemma length_escape_body: "length (escape_body s) = length s + length (filter (\<lambda>c. \<not> plain_char c) s)"
  by (induction s) (simp_all add: length_escape_char)

text \<open>
  A string that holds a character the writer escapes does not survive: parsing the
  printed text gives a strictly longer string, the escapes now part of it, so every
  further save and load makes it longer again.
\<close>

theorem json_string_grows:
  assumes "string_fits s" and "\<not> list_all plain_char s"
  shows "\<exists>s'. json_parse (json_stringify (Some (JString s))) = Some (JString s') \<and>
    length s < length s'"
proof -
  have "int (length (escape_string s)) \<le> max_json_input_size"
    using assms(1) by (simp add: string_fits_def escape_string_def max_json_string_length_def
        max_json_input_size_def)
  with assms(1) have "json_parse (json_stringify (Some (JString s))) = Some (JString (escape_body s))"
    using json_parse_stringify_lemma [of "JString s"] by (simp add: reads_ok_def)
  moreover have "length s < length (escape_body s)"
    using assms(2) by (auto simp: length_escape_body list_all_iff filter_empty_conv)
  ultimately show ?thesis by blast
qed

theorem json_string_grows_witness:
  "\<exists>s'. json_parse (json_stringify (Some (JString [CHR ''a'', quote]))) = Some (JString s') \<and>
    length [CHR ''a'', quote] < length s'"
  by (rule json_string_grows)
    (simp_all add: string_fits_def escape_char_def max_json_string_length_def plain_char_def)

text \<open>
  The buffer the writer reserves for an escaped string (plus the terminator it adds
  on top) is never too small.
\<close>

theorem escape_string_fits_buffer: "length (escape_string s) \<le> escaped_len s"
proof (induction s)
  case Nil
  then show ?case by (simp add: escape_string_def escaped_len_def)
next
  case (Cons c s)
  have "length (escape_char c) \<le> (if c = quote \<or> c = backslash \<or> schar c < 32 then 2 else 1)"
    by (simp add: escape_char_def schar_def uchar_def)
  with Cons show ?case by (simp add: escape_string_def escaped_len_def)
qed

end
