(* ===== verification/Json_Parse_Inv.thy ===== *)
theory Json_Parse_Inv
  imports Json_Roundtrip
begin

text \<open>
  What the reader guarantees of every value it returns, whatever the input: no
  repeated key, and at most ten containers inside each other (the recursion limit of
  20 is spent twice per container).
\<close>

definition good_value :: "json \<Rightarrow> int \<Rightarrow> bool" where
  "good_value v d \<longleftrightarrow> json_wf v \<and> (jdepth v = 0 \<or> d + 2 * int (jdepth v) \<le> 21)"

lemma foldr_max_witness:
  "foldr (\<lambda>x. max (f x)) xs 0 = (0::nat) \<or> (\<exists>x\<in>set xs. f x = foldr (\<lambda>x. max (f x)) xs 0)"
  by (induction xs) (auto simp: max_def)

lemma good_array:
  assumes "list_all (\<lambda>x. good_value x (d + 1)) xs" and "d \<le> 20"
  shows "good_value (JArray xs) (d - 1)"
  using assms foldr_max_witness [of jdepth xs]
  by (fastforce simp: good_value_def list_all_iff)

lemma good_object:
  assumes "list_all (\<lambda>e. good_value (snd e) (d + 1)) es" and "keys_distinct es" and "d \<le> 20"
  shows "good_value (JObject es) (d - 1)"
  using assms foldr_max_witness [of "\<lambda>e. jdepth (snd e)" es]
  by (fastforce simp: good_value_def list_all_iff keys_distinct_def)

lemma good_scalar: "jdepth v = 0 \<Longrightarrow> json_wf v \<Longrightarrow> good_value v d"
  by (simp add: good_value_def)

lemma good_obj_set:
  "list_all (\<lambda>e. good_value (snd e) d) es \<Longrightarrow> good_value v d \<Longrightarrow>
   list_all (\<lambda>e. good_value (snd e) d) (obj_set es k v)"
  using set_obj_set [of es k v] by (auto simp: list_all_iff)

lemma parse_number_scalar: "parse_number s = (v, t) \<Longrightarrow> good_value v d"
  by (auto simp: parse_number_def Let_def json_create_number_def json_create_integer_def
      intro!: good_scalar split: prod.splits if_splits)

lemmas parse_induct =
  parse_value_with_depth_parse_array_with_depth_parse_items_parse_object_with_depth_parse_members.induct

lemma parse_good:
  shows "\<forall>v t. parse_value_with_depth s d = Some (v, t) \<longrightarrow> good_value v d"
    and "\<forall>v t. parse_array_with_depth s d = Some (v, t) \<longrightarrow> good_value v (d - 1)"
    and "list_all (\<lambda>x. good_value x (d + 1)) xs \<and> d \<le> 20 \<longrightarrow>
      (\<forall>v t. parse_items s xs d = Some (v, t) \<longrightarrow> good_value v (d - 1))"
    and "\<forall>v t. parse_object_with_depth s d = Some (v, t) \<longrightarrow> good_value v (d - 1)"
    and "list_all (\<lambda>e. good_value (snd e) (d + 1)) es \<and> keys_distinct es \<and> d \<le> 20 \<longrightarrow>
      (\<forall>v t. parse_members s es d = Some (v, t) \<longrightarrow> good_value v (d - 1))"
proof (induction s d and s d and s xs d and s d and s es d rule: parse_induct)
  case (1 s d)
  show ?case
  proof (cases "skip_whitespace s")
    case Nil
    then show ?thesis by (simp add: parse_value_with_depth.simps)
  next
    case (Cons c r)
    show ?thesis
    proof (intro allI impI)
      fix v t
      assume p: "parse_value_with_depth s d = Some (v, t)"
      have scalars: "good_value (JString str) d" "good_value (JBoolean b) d" "good_value JNull d" for str b
        by (simp_all add: good_scalar)
      note [simp] = json_create_string_def json_create_boolean_def json_create_null_def
      show "good_value v d"
        using p [unfolded parse_value_with_depth.simps [of s]] 1 [OF _ Cons] Cons scalars
          parse_number_scalar [of "c # r" v t d]
        by (auto split: if_splits)
    qed
  qed
next
  case (2 s d)
  show ?case
  proof (intro allI impI)
    fix v t
    assume p: "parse_array_with_depth s d = Some (v, t)"
    then obtain c r where s: "s = c # r" and d: "\<not> max_json_recursion_depth < d"
      and c: "\<not> c \<noteq> CHR ''[''"
      by (auto simp: parse_array_with_depth.simps split: list.splits if_splits)
    then have "d \<le> 20" by (simp add: max_json_recursion_depth_def)
    then have "good_value (JArray []) (d - 1)" by (intro good_array) simp_all
    with \<open>d \<le> 20\<close> show "good_value v (d - 1)"
      using p [unfolded parse_array_with_depth.simps [of s]] 2 [OF d s c] s d c
      by (cases "skip_whitespace r") (auto split: if_splits simp: json_create_array_def)
  qed
next
  case (3 s xs d)
  show ?case
  proof (intro allI impI)
    fix v t
    assume good: "list_all (\<lambda>x. good_value x (d + 1)) xs \<and> d \<le> 20"
      and p: "parse_items s xs d = Some (v, t)"
    then obtain w r where w: "parse_value_with_depth (skip_whitespace s) (d + 1) = Some (w, r)"
      by (auto simp: parse_items.simps [of s] split: option.splits)
    with 3(1) have "good_value w (d + 1)" by blast
    with good have all: "list_all (\<lambda>x. good_value x (d + 1)) (xs @ [w])" by simp
    from p w obtain c u where u: "skip_whitespace r = c # u"
      by (auto simp: parse_items.simps [of s] split: list.splits)
    have "good_value (JArray (xs @ [w])) (d - 1)" using all good by (intro good_array) simp_all
    moreover have "c = CHR '','' \<Longrightarrow> parse_items u (xs @ [w]) d = Some (v, t) \<Longrightarrow> good_value v (d - 1)"
      using 3(2) [OF w refl u] all good by blast
    ultimately show "good_value v (d - 1)"
      using p [unfolded parse_items.simps [of s]] w u by (simp split: if_splits)
  qed
next
  case (4 s d)
  show ?case
  proof (intro allI impI)
    fix v t
    assume p: "parse_object_with_depth s d = Some (v, t)"
    then obtain c r where s: "s = c # r" and d: "\<not> max_json_recursion_depth < d"
      and c: "\<not> c \<noteq> CHR ''{''"
      by (auto simp: parse_object_with_depth.simps split: list.splits if_splits)
    then have "d \<le> 20" by (simp add: max_json_recursion_depth_def)
    then have "good_value (JObject []) (d - 1)" by (intro good_object obj.ok_empty) simp_all
    with \<open>d \<le> 20\<close> obj.ok_empty show "good_value v (d - 1)"
      using p [unfolded parse_object_with_depth.simps [of s]] 4 [OF d s c] s d c
      by (cases "skip_whitespace r") (auto split: if_splits simp: json_create_object_def)
  qed
next
  case (5 s es d)
  show ?case
  proof (intro allI impI)
    fix v t
    assume good: "list_all (\<lambda>e. good_value (snd e) (d + 1)) es \<and> keys_distinct es \<and> d \<le> 20"
      and p: "parse_members s es d = Some (v, t)"
    then obtain k r where k: "parse_string (skip_whitespace s) = Some (k, r)"
      by (auto simp: parse_members.simps [of s] split: option.splits)
    from p k obtain c u where u: "skip_whitespace r = c # u" and c: "\<not> c \<noteq> CHR '':''"
      by (auto simp: parse_members.simps [of s] split: list.splits if_splits)
    from p k u c obtain w x where w: "parse_value_with_depth (skip_whitespace u) (d + 1) = Some (w, x)"
      by (auto simp: parse_members.simps [of s] split: option.splits)
    with 5(1) [OF k refl u c] have "good_value w (d + 1)" by blast
    with good have all: "list_all (\<lambda>e. good_value (snd e) (d + 1)) (obj_set es k w)"
      by (simp add: good_obj_set)
    have dist: "keys_distinct (obj_set es k w)" using good by (simp add: keys_distinct_set)
    from p k u c w obtain e y where y: "skip_whitespace x = e # y"
      by (auto simp: parse_members.simps [of s] split: list.splits)
    have "good_value (JObject (obj_set es k w)) (d - 1)"
      using all dist good by (intro good_object) simp_all
    moreover have "e = CHR '','' \<Longrightarrow> parse_members y (obj_set es k w) d = Some (v, t) \<Longrightarrow>
        good_value v (d - 1)"
      using 5(2) [OF k refl u c w refl y] all dist good by blast
    ultimately show "good_value v (d - 1)"
      using p [unfolded parse_members.simps [of s]] k u c w y by (simp split: if_splits)
  qed
qed

lemma json_parse_good: "json_parse str = Some v \<Longrightarrow> good_value v 0"
  using parse_good(1) by (auto simp: json_parse_def parse_value_def Let_def split: option.splits if_splits)

text \<open>C38. Whatever text it is given, the parser only returns values without repeated keys
  that are at most ten containers deep.\<close>

theorem json_parse_bounded:
  assumes "json_parse str = Some v"
  shows "json_wf v \<and> jdepth v \<le> 10"
  using json_parse_good [OF assms] by (auto simp: good_value_def)

theorem json_parse_bounded_witness: "json_wf JNull \<and> jdepth JNull \<le> 10"
proof -
  have "json_parse (Some ''null'') = Some JNull" by code_simp
  then show ?thesis by (rule json_parse_bounded)
qed

end
