(* ===== verification/Query_Ops.thy ===== *)
theory Query_Ops
  imports Json
begin

text \<open>
  The operators of the query language (\<^verbatim>\<open>src/src/include/query/query_language.h\<close>) and
  the hash table that \<^verbatim>\<open>src/src/components/query/query_language.c\<close> looks their names up
  in: open addressing with linear probing over 32 slots.
\<close>

datatype query_operator =
    OP_EQ | OP_NE | OP_GT | OP_GTE | OP_LT | OP_LTE | OP_IN | OP_NIN
  | OP_AND | OP_OR | OP_NOT | OP_NOR
  | OP_ALL | OP_ELEM_MATCH | OP_SIZE
  | OP_EXISTS | OP_TYPE
  | OP_FIELD | OP_ROOT

section \<open>The table\<close>

definition operator_hash_size :: nat where
  "operator_hash_size = 32"

text \<open>\<^verbatim>\<open>operator_names\<close> and \<^verbatim>\<open>operator_hash_table\<close>, slot by slot.\<close>

type_synonym operator_table = "(cstr \<times> query_operator) list"

definition hash_operator_name :: "string \<Rightarrow> nat" where
  "hash_operator_name name =
     nat (uint (foldl (\<lambda>hash c. (push_bit 5 hash + hash) + word_of_int (schar c)) (5381 :: c_uint) name)
       mod int operator_hash_size)"

definition operators :: "(string \<times> query_operator) list" where
  "operators =
     [(''$eq'', OP_EQ), (''$ne'', OP_NE), (''$gt'', OP_GT), (''$gte'', OP_GTE),
      (''$lt'', OP_LT), (''$lte'', OP_LTE), (''$in'', OP_IN), (''$nin'', OP_NIN),
      (''$and'', OP_AND), (''$or'', OP_OR), (''$not'', OP_NOT), (''$nor'', OP_NOR),
      (''$all'', OP_ALL), (''$elemMatch'', OP_ELEM_MATCH), (''$size'', OP_SIZE),
      (''$exists'', OP_EXISTS), (''$type'', OP_TYPE)]"

text \<open>The probe for a free slot; \<open>None\<close> when every slot is taken (the loop would not end).\<close>

fun free_slot :: "nat \<Rightarrow> operator_table \<Rightarrow> nat \<Rightarrow> nat option" where
  "free_slot 0 tb hash = None"
| "free_slot (Suc n) tb hash =
     (if fst (tb ! hash) = None then Some hash
      else free_slot n tb ((hash + 1) mod operator_hash_size))"

definition insert_operator :: "operator_table \<Rightarrow> string \<times> query_operator \<Rightarrow> operator_table" where
  "insert_operator tb e =
     (case free_slot operator_hash_size tb (hash_operator_name (fst e)) of
        None \<Rightarrow> tb
      | Some hash \<Rightarrow> tb[hash := (Some (fst e), snd e)])"

definition init_operator_hash_table :: operator_table where
  "init_operator_hash_table =
     foldl insert_operator (replicate operator_hash_size (None, OP_FIELD)) operators"

section \<open>Lookups\<close>

definition query_operator_name :: "query_operator \<Rightarrow> string" where
  "query_operator_name op =
     (case find (\<lambda>e. fst e \<noteq> None \<and> snd e = op) init_operator_hash_table of
        Some (Some name, _) \<Rightarrow> name
      | _ \<Rightarrow> ''unknown'')"

fun probe_operator :: "operator_table \<Rightarrow> string \<Rightarrow> nat \<Rightarrow> nat list \<Rightarrow> query_operator" where
  "probe_operator tb name hash [] = OP_FIELD"
| "probe_operator tb name hash (probe # probes) =
     (case tb ! ((hash + probe) mod operator_hash_size) of
        (None, _) \<Rightarrow> OP_FIELD
      | (Some n, op) \<Rightarrow> if strcmp n name = 0 then op else probe_operator tb name hash probes)"

definition query_parse_operator :: "cstr \<Rightarrow> query_operator" where
  "query_parse_operator op_name =
     (case op_name of
        None \<Rightarrow> OP_FIELD
      | Some name \<Rightarrow>
          probe_operator init_operator_hash_table name (hash_operator_name name)
            [0..<operator_hash_size])"

section \<open>The table as a finite map\<close>

lemma init_operator_hash_table_eq:
  "init_operator_hash_table =
     [(Some ''$in'', OP_IN), (None, OP_FIELD), (Some ''$all'', OP_ALL), (None, OP_FIELD),
      (Some ''$gt'', OP_GT), (Some ''$size'', OP_SIZE), (None, OP_FIELD), (None, OP_FIELD),
      (None, OP_FIELD), (Some ''$gte'', OP_GTE), (Some ''$lt'', OP_LT), (Some ''$or'', OP_OR),
      (Some ''$exists'', OP_EXISTS), (Some ''$type'', OP_TYPE), (Some ''$lte'', OP_LTE),
      (Some ''$nin'', OP_NIN), (None, OP_FIELD), (None, OP_FIELD), (None, OP_FIELD),
      (None, OP_FIELD), (None, OP_FIELD), (None, OP_FIELD), (None, OP_FIELD), (None, OP_FIELD),
      (Some ''$nor'', OP_NOR), (Some ''$elemMatch'', OP_ELEM_MATCH), (Some ''$not'', OP_NOT),
      (None, OP_FIELD), (Some ''$ne'', OP_NE), (Some ''$and'', OP_AND), (None, OP_FIELD),
      (Some ''$eq'', OP_EQ)]"
  by code_simp

lemma probe_unknown:
  assumes "\<forall>e\<in>set tb. fst e \<noteq> Some name" and "length tb = operator_hash_size"
  shows "probe_operator tb name hash probes = OP_FIELD"
proof (induction probes)
  case Nil
  show ?case by simp
next
  case (Cons probe probes)
  have "(hash + probe) mod operator_hash_size < length tb"
    by (simp add: assms(2) operator_hash_size_def)
  then have "tb ! ((hash + probe) mod operator_hash_size) \<in> set tb" by simp
  with assms(1) Cons show ?case by (auto split: prod.splits option.splits)
qed

lemma query_parse_known:
  "list_all (\<lambda>(name, op). query_parse_operator (Some name) = op) operators"
  by code_simp

lemma operator_table_names:
  "e \<in> set init_operator_hash_table \<Longrightarrow> fst e = Some name \<Longrightarrow> name \<in> fst ` set operators"
  unfolding init_operator_hash_table_eq operators_def by auto

lemma query_parse_unknown:
  assumes "name \<notin> fst ` set operators"
  shows "query_parse_operator (Some name) = OP_FIELD"
proof -
  have "length init_operator_hash_table = operator_hash_size"
    by (simp add: init_operator_hash_table_eq operator_hash_size_def)
  then show ?thesis
    using assms operator_table_names
    by (auto simp: query_parse_operator_def intro!: probe_unknown)
qed

lemma query_parse_operator_lookup:
  "query_parse_operator (Some name) =
   (case map_of operators name of Some op \<Rightarrow> op | None \<Rightarrow> OP_FIELD)"
proof (cases "map_of operators name")
  case None
  then have "name \<notin> fst ` set operators" by (simp add: map_of_eq_None_iff)
  with None show ?thesis by (simp add: query_parse_unknown)
next
  case (Some op)
  then have "(name, op) \<in> set operators" by (rule map_of_SomeD)
  with query_parse_known Some show ?thesis by (auto simp: list_all_iff)
qed

text \<open>
  The probing lookup agrees with searching the list of operators: for every string
  it returns the operator of that name, and \<^verbatim>\<open>OP_FIELD\<close> when there is none.
\<close>

theorem query_parse_operator_spec:
  "query_parse_operator (Some name) =
   (case map_of operators name of Some op \<Rightarrow> op | None \<Rightarrow> OP_FIELD)"
  by (rule query_parse_operator_lookup)

text \<open>
  Every operator with a name is found again under the name the reverse lookup
  gives; the two internal operators have none.
\<close>

theorem query_operator_name_roundtrip:
  "query_parse_operator (Some (query_operator_name op)) =
   (if op \<in> {OP_FIELD, OP_ROOT} then OP_FIELD else op)"
proof -
  have "list_all (\<lambda>op. query_parse_operator (Some (query_operator_name op)) =
      (if op \<in> {OP_FIELD, OP_ROOT} then OP_FIELD else op))
    [OP_EQ, OP_NE, OP_GT, OP_GTE, OP_LT, OP_LTE, OP_IN, OP_NIN, OP_AND, OP_OR, OP_NOT, OP_NOR,
     OP_ALL, OP_ELEM_MATCH, OP_SIZE, OP_EXISTS, OP_TYPE, OP_FIELD, OP_ROOT]"
    unfolding query_operator_name_def query_parse_operator_def init_operator_hash_table_eq
    by code_simp
  then show ?thesis by (cases op) simp_all
qed

end
