(* ===== verification/Query.thy ===== *)
theory Query
  imports Query_Ops
begin

text \<open>
  Query expressions, their construction from a JSON query and their evaluation on a
  document: \<^verbatim>\<open>src/src/components/query/query_language.c\<close>, from \<^verbatim>\<open>query_create_expr\<close> to
  \<^verbatim>\<open>query_match_document\<close>.  A child pointer may be \<^verbatim>\<open>NULL\<close>; the number of children is
  the length of the list.
\<close>

section \<open>Expressions\<close>

datatype query_expr =
  QExpr (expr_op: query_operator) (expr_field_path: cstr) (expr_value: jptr)
    (expr_children: "query_expr option list")

definition query_create_expr :: "query_operator \<Rightarrow> query_expr" where
  "query_create_expr op = QExpr op None None []"

definition query_create_field_expr :: "cstr \<Rightarrow> query_operator \<Rightarrow> jptr \<Rightarrow> query_expr" where
  "query_create_field_expr field_path op value = QExpr op field_path (map_option json_clone value) []"

definition query_create_logical_expr ::
    "query_operator \<Rightarrow> query_expr option list \<Rightarrow> query_expr" where
  "query_create_logical_expr op children =
     (if 0 < length children then QExpr op None None children else query_create_expr op)"

section \<open>Parsing\<close>

definition starts_dollar :: "string \<Rightarrow> bool" where
  "starts_dollar k \<longleftrightarrow> (case k of c # _ \<Rightarrow> c = CHR ''$'' | [] \<Rightarrow> False)"

definition is_logical :: "query_operator \<Rightarrow> bool" where
  "is_logical op \<longleftrightarrow> op = OP_AND \<or> op = OP_OR \<or> op = OP_NOT \<or> op = OP_NOR"

fun parse_comparison_expr :: "cstr \<Rightarrow> json \<Rightarrow> query_expr option" where
  "parse_comparison_expr field_path (JObject es) =
     (case es of
        [] \<Rightarrow> None
      | [(op_name, op_value)] \<Rightarrow>
          Some (query_create_field_expr field_path (query_parse_operator (Some op_name)) (Some op_value))
      | _ \<Rightarrow>
          Some (query_create_logical_expr OP_AND
            (map (\<lambda>(k, v). Some (query_create_field_expr field_path
                                    (query_parse_operator (Some k)) (Some v))) es)))"
| "parse_comparison_expr field_path _ = None"

text \<open>
  \<^verbatim>\<open>parse_field_expr\<close> and \<^verbatim>\<open>parse_logical_expr\<close> call each other; \<open>parse_nested\<close>,
  \<open>parse_filters\<close> and \<open>parse_conditions\<close> are their loops over a nested document, over the
  filters of a logical operator and over the conditions of one filter.
\<close>

fun parse_field_expr :: "string \<Rightarrow> json \<Rightarrow> query_expr option"
  and parse_logical_expr :: "string \<Rightarrow> json \<Rightarrow> query_expr option"
  and parse_nested :: "string \<Rightarrow> entries \<Rightarrow> query_expr option list"
  and parse_filters :: "json list \<Rightarrow> query_expr option list option"
  and parse_conditions :: "entries \<Rightarrow> query_expr option list" where
  "parse_field_expr field_path v =
     (if starts_dollar field_path \<and> is_logical (query_parse_operator (Some field_path))
      then parse_logical_expr field_path v
      else case v of
        JObject es \<Rightarrow>
          if es = [] then Some (query_create_field_expr (Some field_path) OP_EQ (Some v))
          else if list_ex (\<lambda>(k, _). starts_dollar k) es then parse_comparison_expr (Some field_path) v
          else Some (query_create_logical_expr OP_AND (parse_nested field_path es))
      | _ \<Rightarrow> Some (query_create_field_expr (Some field_path) OP_EQ (Some v)))"
| "parse_logical_expr op_name v =
     (let op = query_parse_operator (Some op_name) in
      if op = OP_NOT then
        (case v of
           JObject _ \<Rightarrow>
             map_option (\<lambda>child. query_create_logical_expr OP_NOT [Some child])
               (parse_comparison_expr None v)
         | _ \<Rightarrow> None)
      else
        (case v of
           JArray flts \<Rightarrow>
             if flts = [] then None
             else map_option (query_create_logical_expr op) (parse_filters flts)
         | _ \<Rightarrow> None))"
| "parse_nested field_path [] = []"
| "parse_nested field_path ((k, v) # es) =
     parse_field_expr (field_path @ ''.'' @ k) v # parse_nested field_path es"
| "parse_filters [] = Some []"
| "parse_filters (flt # flts) =
     (case flt of
        JObject es \<Rightarrow>
          (case (case es of
                   [(k, v)] \<Rightarrow>
                     if starts_dollar k \<and> k \<in> {''$and'', ''$or'', ''$not'', ''$nor''}
                     then parse_logical_expr k v
                     else parse_field_expr k v
                 | _ \<Rightarrow> Some (query_create_logical_expr OP_AND (parse_conditions es))) of
             None \<Rightarrow> None
           | Some child \<Rightarrow> map_option (\<lambda>cs. Some child # cs) (parse_filters flts))
      | _ \<Rightarrow> None)"
| "parse_conditions [] = []"
| "parse_conditions ((k, v) # es) = parse_field_expr k v # parse_conditions es"

end
