(* ===== verification/Query_Match.thy ===== *)
theory Query_Match
  imports Query
begin

text \<open>
  Evaluation of a query expression on a document: field paths
  (\<^verbatim>\<open>query_extract_field\<close>), the comparison operators (\<^verbatim>\<open>match_comparison_operator\<close>) and
  the expression tree (\<^verbatim>\<open>query_match_document\<close>) of
  \<^verbatim>\<open>src/src/components/query/query_language.c\<close>.
\<close>

section \<open>Field paths\<close>

text \<open>The tokens \<^verbatim>\<open>strtok(path, ".")\<close> returns one after the other: no token is empty.\<close>

fun strtok_dots :: "string \<Rightarrow> string \<Rightarrow> string list" where
  "strtok_dots acc [] = (if acc = [] then [] else [acc])"
| "strtok_dots acc (c # s) =
     (if c = CHR ''.'' then (if acc = [] then strtok_dots [] s else acc # strtok_dots [] s)
      else strtok_dots (acc @ [c]) s)"

text \<open>One turn of the loop: \<open>name[index]\<close> or a plain field name.\<close>

definition path_step :: "json \<Rightarrow> string \<Rightarrow> jptr" where
  "path_step current token =
     (case dropWhile (\<lambda>c. c \<noteq> CHR ''['') token of
        [] \<Rightarrow> json_object_get (Some current) (Some token)
      | _ # index_str \<Rightarrow>
          if CHR '']'' \<notin> set index_str then None
          else
            (let index = atoi (takeWhile (\<lambda>c. c \<noteq> CHR '']'') index_str);
                 name = takeWhile (\<lambda>c. c \<noteq> CHR ''['') token;
                 arr = (if name \<noteq> [] then json_object_get (Some current) (Some name) else Some current)
             in if json_get_type arr = JSON_ARRAY \<and> 0 \<le> sint index \<and> nat (sint index) < json_array_size arr
                then json_array_get arr (nat (sint index)) else None))"

fun walk_path :: "json \<Rightarrow> string list \<Rightarrow> jptr" where
  "walk_path current [] = Some current"
| "walk_path current (token # tokens) =
     (case path_step current token of None \<Rightarrow> None | Some v \<Rightarrow> walk_path v tokens)"

definition query_extract_field :: "jptr \<Rightarrow> cstr \<Rightarrow> jptr" where
  "query_extract_field document field_path =
     (case (document, field_path) of
        (Some doc, Some path) \<Rightarrow>
          if CHR ''.'' \<notin> set path then json_object_get (Some doc) (Some path)
          else walk_path doc (strtok_dots [] path)
      | _ \<Rightarrow> None)"

section \<open>Comparison operators\<close>

text \<open>
  The four order operators share their case analysis on the types; they differ in the
  relation on integers, on \<^verbatim>\<open>double\<close>s and on the sign of \<^verbatim>\<open>strcmp\<close>.
\<close>

definition ordered_match ::
    "(int \<Rightarrow> int \<Rightarrow> bool) \<Rightarrow> (double \<Rightarrow> double \<Rightarrow> bool) \<Rightarrow> json \<Rightarrow> json \<Rightarrow> bool" where
  "ordered_match ri rd field_value query_value =
     (case (field_value, query_value) of
        (JInteger a, JInteger b) \<Rightarrow> ri (sint a) (sint b)
      | (JNumber a, JNumber b) \<Rightarrow> rd a b
      | (JInteger a, JNumber b) \<Rightarrow> rd (double_of_int64 a) b
      | (JNumber a, JInteger b) \<Rightarrow> rd a (double_of_int64 b)
      | (JString a, JString b) \<Rightarrow> ri (strcmp a b) 0
      | _ \<Rightarrow> False)"

text \<open>The type an operand of \<^verbatim>\<open>$type\<close> stands for, as the number it is compared with.\<close>

definition type_operand :: "json \<Rightarrow> c_uint" where
  "type_operand query_value =
     (case query_value of
        JInteger i \<Rightarrow> ucast i
      | JString s \<Rightarrow>
          (if strcmp s ''null'' = 0 then word_of_int (type_rank JSON_NULL)
           else if strcmp s ''boolean'' = 0 then word_of_int (type_rank JSON_BOOLEAN)
           else if strcmp s ''integer'' = 0 then word_of_int (type_rank JSON_INTEGER)
           else if strcmp s ''number'' = 0 then word_of_int (type_rank JSON_NUMBER)
           else if strcmp s ''string'' = 0 then word_of_int (type_rank JSON_STRING)
           else if strcmp s ''array'' = 0 then word_of_int (type_rank JSON_ARRAY)
           else if strcmp s ''object'' = 0 then word_of_int (type_rank JSON_OBJECT)
           else - 1)
      | _ \<Rightarrow> - 1)"

definition size_operand :: "json \<Rightarrow> c_int option" where
  "size_operand query_value =
     (case query_value of
        JInteger i \<Rightarrow> Some (ucast i)
      | JNumber d \<Rightarrow> Some (int_of_double d)
      | _ \<Rightarrow> None)"

fun json_items :: "json \<Rightarrow> json list option" where
  "json_items (JArray xs) = Some xs"
| "json_items _ = None"

fun match_missing :: "query_operator \<Rightarrow> json \<Rightarrow> bool" where
  "match_missing OP_EQ q = (json_type_of q = JSON_NULL)"
| "match_missing OP_NE q = (json_type_of q \<noteq> JSON_NULL)"
| "match_missing OP_EXISTS q = (json_type_of q = JSON_BOOLEAN \<and> \<not> json_get_boolean (Some q))"
| "match_missing _ q = False"

fun match_present :: "query_operator \<Rightarrow> json \<Rightarrow> json \<Rightarrow> bool" where
  "match_present OP_EQ f q = json_equals f q"
| "match_present OP_NE f q = (\<not> json_equals f q)"
| "match_present OP_GT f q = ordered_match (>) (\<lambda>a b. double_lt b a) f q"
| "match_present OP_GTE f q = ordered_match (\<ge>) (\<lambda>a b. double_le b a) f q"
| "match_present OP_LT f q = ordered_match (<) double_lt f q"
| "match_present OP_LTE f q = ordered_match (\<le>) double_le f q"
| "match_present OP_IN f q =
     (case json_items q of None \<Rightarrow> False | Some xs \<Rightarrow> list_ex (json_equals f) xs)"
| "match_present OP_NIN f q =
     (case json_items q of None \<Rightarrow> True | Some xs \<Rightarrow> list_all (\<lambda>x. \<not> json_equals f x) xs)"
| "match_present OP_EXISTS f q = json_get_boolean (Some q)"
| "match_present OP_TYPE f q = (word_of_int (type_rank (json_type_of f)) = type_operand q)"
| "match_present OP_ALL f q =
     (case (json_items f, json_items q) of
        (Some fs, Some qs) \<Rightarrow> list_all (\<lambda>s. list_ex (\<lambda>a. json_equals a s) fs) qs
      | _ \<Rightarrow> False)"
| "match_present OP_SIZE f q =
     (case (json_items f, size_operand q) of
        (Some fs, Some n) \<Rightarrow> word_of_nat (length fs) = n
      | _ \<Rightarrow> False)"
| "match_present _ f q = False"

definition match_comparison_operator :: "query_operator \<Rightarrow> jptr \<Rightarrow> json \<Rightarrow> bool" where
  "match_comparison_operator op field_value query_value =
     (case field_value of
        None \<Rightarrow> match_missing op query_value
      | Some f \<Rightarrow> match_present op f query_value)"

section \<open>The expression tree\<close>

definition is_comparison :: "query_operator \<Rightarrow> bool" where
  "is_comparison op \<longleftrightarrow>
     op \<in> {OP_EQ, OP_NE, OP_GT, OP_GTE, OP_LT, OP_LTE, OP_IN, OP_NIN, OP_EXISTS, OP_TYPE, OP_ALL, OP_SIZE}"

text \<open>
  A comparison node without a value would be a null dereference; no expression the
  parser builds has one (\<open>expr_wf\<close> below), and the model answers \<open>False\<close> there.
\<close>

fun query_match_document :: "query_expr option \<Rightarrow> json \<Rightarrow> bool"
  and match_all :: "query_expr option list \<Rightarrow> json \<Rightarrow> bool"
  and match_any :: "query_expr option list \<Rightarrow> json \<Rightarrow> bool" where
  "query_match_document None document = False"
| "query_match_document (Some (QExpr op field_path value children)) document =
     (if op = OP_ROOT \<or> op = OP_AND then match_all children document
      else if op = OP_OR then match_any children document
      else if op = OP_NOT then
        (case children of
           [Some child] \<Rightarrow> \<not> query_match_document (Some child) document
         | _ \<Rightarrow> False)
      else if op = OP_NOR then \<not> match_any children document
      else if is_comparison op then
        (case value of
           None \<Rightarrow> False
         | Some v \<Rightarrow>
             match_comparison_operator op (query_extract_field (Some document) field_path) v)
      else if op = OP_ELEM_MATCH then
        (case query_extract_field (Some document) field_path of
           Some (JArray xs) \<Rightarrow>
             list_ex (\<lambda>x. json_type_of x = JSON_OBJECT \<and> match_all children x) xs
         | _ \<Rightarrow> False)
      else False)"
| "match_all [] document = True"
| "match_all (c # cs) document = (query_match_document c document \<and> match_all cs document)"
| "match_any [] document = False"
| "match_any (c # cs) document = (query_match_document c document \<or> match_any cs document)"

end
