(* ===== verification/Query_Exec.thy ===== *)
theory Query_Exec
  imports Query_Match Json_Print
begin

text \<open>
  The rest of \<^verbatim>\<open>src/src/components/query/query_language.c\<close>: the query document with
  its options, projection, sorting, pagination and the execution of a query over an
  array of documents.  \<^verbatim>\<open>int\<close> fields are 32-bit words read with \<open>sint\<close>.
\<close>

section \<open>Options\<close>

datatype pagination_type = PAGINATION_NONE | PAGINATION_OFFSET | PAGINATION_CURSOR

record query_options =
  limit :: c_int
  skip :: c_int
  page :: c_int
  page_size :: c_int
  pagination_type :: pagination_type
  cursor :: cstr
  sort_spec :: jptr
  projection :: jptr

record query_parse_result =
  expr :: "query_expr option"
  options :: query_options
  error :: cstr

text \<open>\<^verbatim>\<open>BUFFER_ALLOC(n)\<close> returns \<^verbatim>\<open>NULL\<close> for 0 bytes (\<^verbatim>\<open>buffer_pool_alloc_safe\<close>).\<close>

definition buffer_alloc_ok :: "nat \<Rightarrow> bool" where
  "buffer_alloc_ok n \<longleftrightarrow> 0 < n"

definition int_option :: "jptr \<Rightarrow> c_int \<Rightarrow> c_int" where
  "int_option v old = (case v of Some (JInteger i) \<Rightarrow> ucast i | _ \<Rightarrow> old)"

definition object_option :: "jptr \<Rightarrow> jptr \<Rightarrow> jptr" where
  "object_option v old = (case v of Some (JObject es) \<Rightarrow> Some (json_clone (JObject es)) | _ \<Rightarrow> old)"

text \<open>
  \<^verbatim>\<open>query_parse\<close> declares its result on the stack and leaves \<^verbatim>\<open>page\<close>, \<^verbatim>\<open>page_size\<close>,
  \<^verbatim>\<open>pagination_type\<close> and \<^verbatim>\<open>cursor\<close> unset: \<open>stack\<close> holds what is there.
\<close>

definition first_logical :: "entries \<Rightarrow> (string \<times> json) option" where
  "first_logical es =
     find (\<lambda>(k, _). starts_dollar k \<and> is_logical (query_parse_operator (Some k))) es"

definition query_parse :: "query_options \<Rightarrow> jptr \<Rightarrow> query_parse_result" where
  "query_parse stack query_json =
     (let opts = stack\<lparr>limit := 0, skip := 0, sort_spec := None, projection := None\<rparr> in
      case query_json of
        None \<Rightarrow> \<lparr>expr = None, options = opts, error = Some ''Query JSON is NULL''\<rparr>
      | Some q \<Rightarrow>
          (let inner = json_object_get (Some q) (Some ''query'');
               opts = (if inner = None then opts else
                 opts\<lparr>limit := int_option (json_object_get (Some q) (Some ''limit'')) (limit opts),
                      skip := int_option (json_object_get (Some q) (Some ''skip'')) (skip opts),
                      sort_spec := object_option (json_object_get (Some q) (Some ''sort'')) None,
                      projection := object_option (json_object_get (Some q) (Some ''projection'')) None\<rparr>);
               query = (case inner of None \<Rightarrow> q | Some i \<Rightarrow> i)
           in case query of
                JObject es \<Rightarrow>
                  (case first_logical es of
                     Some (qkey, qvalue) \<Rightarrow>
                       \<lparr>expr = parse_logical_expr qkey qvalue, options = opts, error = None\<rparr>
                   | None \<Rightarrow>
                       if \<not> buffer_alloc_ok (length es)
                       then \<lparr>expr = None, options = opts, error = Some ''Out of memory''\<rparr>
                       else \<lparr>expr = Some (query_create_logical_expr OP_AND (parse_conditions es)),
                             options = opts, error = None\<rparr>)
              | _ \<Rightarrow> \<lparr>expr = None, options = opts,
                      error = Some ''Query must be a JSON object''\<rparr>))"

section \<open>Projection\<close>

definition projection_flag :: "json \<Rightarrow> bool option" where
  "projection_flag v =
     (case v of
        JInteger i \<Rightarrow> Some ((ucast i :: c_int) \<noteq> 0)
      | JBoolean b \<Rightarrow> Some b
      | _ \<Rightarrow> None)"

text \<open>
  The first loop: \<open>Some None\<close> when no field other than \<^verbatim>\<open>uuid\<close> has a usable flag,
  \<open>Some (Some m)\<close> for include (\<open>True\<close>) or exclude mode, \<open>None\<close> when both are mixed.
\<close>

fun projection_mode :: "entries \<Rightarrow> bool option \<Rightarrow> bool option option" where
  "projection_mode [] mode = Some mode"
| "projection_mode ((k, v) # es) mode =
     (if strcmp k ''uuid'' = 0 then projection_mode es mode
      else case projection_flag v of
        None \<Rightarrow> projection_mode es mode
      | Some flag \<Rightarrow>
          (case mode of
             None \<Rightarrow> projection_mode es (Some flag)
           | Some m \<Rightarrow> if m \<noteq> flag then None else projection_mode es mode))"

definition include_field :: "entries \<Rightarrow> bool \<Rightarrow> string \<Rightarrow> bool" where
  "include_field proj include_mode k =
     (case obj_get proj k of
        None \<Rightarrow> \<not> include_mode
      | Some v \<Rightarrow> (case projection_flag v of None \<Rightarrow> \<not> include_mode | Some flag \<Rightarrow> flag))"

definition include_id :: "entries \<Rightarrow> bool" where
  "include_id proj =
     (case obj_get proj ''uuid'' of
        None \<Rightarrow> True
      | Some v \<Rightarrow> (case projection_flag v of None \<Rightarrow> True | Some flag \<Rightarrow> flag))"

fun project_fields :: "entries \<Rightarrow> bool \<Rightarrow> entries \<Rightarrow> jptr \<Rightarrow> jptr" where
  "project_fields proj include_mode [] result = result"
| "project_fields proj include_mode ((k, v) # es) result =
     (if strcmp k ''uuid'' = 0 then project_fields proj include_mode es result
      else
        (let inc = include_field proj include_mode k in
         if include_mode \<and> inc \<or> \<not> include_mode \<and> \<not> inc
         then project_fields proj include_mode es
                (json_object_set result (Some k) (Some (json_clone v)))
         else project_fields proj include_mode es result))"

definition query_apply_projection :: "jptr \<Rightarrow> jptr \<Rightarrow> jptr" where
  "query_apply_projection document proj =
     (case (document, proj) of
        (Some (JObject doc), Some (JObject es)) \<Rightarrow>
          (case projection_mode es None of
             Some (Some include_mode) \<Rightarrow>
               (let result = Some json_create_object;
                    result = (if include_id es
                              then (case obj_get doc ''uuid'' of
                                      None \<Rightarrow> result
                                    | Some uid \<Rightarrow> json_object_set result (Some ''uuid'') (Some (json_clone uid)))
                              else result)
                in project_fields es include_mode doc result)
           | _ \<Rightarrow> Some (json_clone (JObject doc)))
      | (Some doc, _) \<Rightarrow> Some (json_clone doc)
      | _ \<Rightarrow> None)"

section \<open>Sorting\<close>

definition cmp3 :: "bool \<Rightarrow> bool \<Rightarrow> int" where
  "cmp3 lt gt = (if lt then - 1 else if gt then 1 else 0)"

text \<open>The \<^verbatim>\<open>switch\<close> of \<^verbatim>\<open>compare_documents\<close> on two values.\<close>

definition compare_values :: "json \<Rightarrow> json \<Rightarrow> int" where
  "compare_values a b =
     (if json_type_of a \<noteq> json_type_of b then type_rank (json_type_of a) - type_rank (json_type_of b)
      else case (a, b) of
        (JBoolean x, JBoolean y) \<Rightarrow> of_bool x - of_bool y
      | (JInteger x, JInteger y) \<Rightarrow> cmp3 (sint x < sint y) (sint x > sint y)
      | (JNumber x, JNumber y) \<Rightarrow> cmp3 (double_lt x y) (double_lt y x)
      | (JString x, JString y) \<Rightarrow> strcmp x y
      | _ \<Rightarrow> 0)"

definition compare_documents :: "json \<Rightarrow> json \<Rightarrow> string \<Rightarrow> bool \<Rightarrow> int" where
  "compare_documents a b field ascending =
     (case (query_extract_field (Some a) (Some field), query_extract_field (Some b) (Some field)) of
        (None, None) \<Rightarrow> 0
      | (None, Some _) \<Rightarrow> if ascending then - 1 else 1
      | (Some _, None) \<Rightarrow> if ascending then 1 else - 1
      | (Some x, Some y) \<Rightarrow>
          (let result = compare_values x y in if ascending then result else - result))"

definition sort_ascending :: "json \<Rightarrow> bool" where
  "sort_ascending v =
     (case v of
        JInteger i \<Rightarrow> 0 \<le> sint i
      | JString s \<Rightarrow> strcmp s ''asc'' = 0
      | _ \<Rightarrow> True)"

definition sort_fields :: "entries \<Rightarrow> (string \<times> bool) list" where
  "sort_fields es = map (\<lambda>(k, v). (k, sort_ascending v)) es"

text \<open>The loop over the sort fields: whether two neighbours are swapped.\<close>

fun needs_swap :: "(string \<times> bool) list \<Rightarrow> json \<Rightarrow> json \<Rightarrow> bool" where
  "needs_swap [] a b = False"
| "needs_swap ((field, ascending) # rest) a b =
     (let cmp = compare_documents a b field ascending in
      if cmp < 0 then False else if 0 < cmp then True else needs_swap rest a b)"

text \<open>
  The bubble sort.  The loop bounds are \<^verbatim>\<open>size_t\<close> subtractions: for an empty array
  \<^verbatim>\<open>result_size - 1\<close> wraps around to \<open>2 ^ 64 - 1\<close>.  The inner loop reads through
  \<^verbatim>\<open>json_array_get\<close>, which is \<^verbatim>\<open>NULL\<close> out of range, and two \<^verbatim>\<open>NULL\<close> documents are never
  swapped.
\<close>

definition swap_step :: "('a \<Rightarrow> 'a \<Rightarrow> bool) \<Rightarrow> 'a list \<Rightarrow> nat \<Rightarrow> 'a list" where
  "swap_step sw docs j =
     (if j + 1 < length docs \<and> sw (docs ! j) (docs ! (j + 1))
      then (docs[j := docs ! (j + 1)])[j + 1 := docs ! j] else docs)"

definition inner_bound :: "nat \<Rightarrow> nat \<Rightarrow> nat" where
  "inner_bound n i = unat (of_nat n - of_nat i - 1 :: c_size)"

definition outer_bound :: "nat \<Rightarrow> nat" where
  "outer_bound n = unat (of_nat n - 1 :: c_size)"

definition bubble_pass :: "('a \<Rightarrow> 'a \<Rightarrow> bool) \<Rightarrow> 'a list \<Rightarrow> nat \<Rightarrow> 'a list" where
  "bubble_pass sw docs m = foldl (swap_step sw) docs [0..<m]"

definition bubble_sort :: "('a \<Rightarrow> 'a \<Rightarrow> bool) \<Rightarrow> 'a list \<Rightarrow> 'a list" where
  "bubble_sort sw docs =
     foldl (\<lambda>ds i. bubble_pass sw ds (inner_bound (length docs) i)) docs [0..<outer_bound (length docs)]"

text \<open>The number of comparisons the two loops make.\<close>

definition sort_comparisons :: "nat \<Rightarrow> nat" where
  "sort_comparisons n = (\<Sum>i<outer_bound n. inner_bound n i)"

definition query_apply_sort :: "jptr \<Rightarrow> jptr \<Rightarrow> jptr" where
  "query_apply_sort docs_ptr srt =
     (case (docs_ptr, srt) of
        (Some (JArray docs), Some (JObject es)) \<Rightarrow>
          if es = [] then docs_ptr
          else Some (JArray (bubble_sort (needs_swap (sort_fields es)) docs))
      | _ \<Rightarrow> docs_ptr)"

section \<open>Cursors\<close>

definition query_generate_cursor :: "jptr \<Rightarrow> query_options option \<Rightarrow> cstr" where
  "query_generate_cursor document opts =
     (case (document, opts) of
        (Some doc, Some o') \<Rightarrow>
          (case sort_spec o' of
             Some (JObject es) \<Rightarrow>
               json_stringify
                 (foldl (\<lambda>cursor_data (key, _).
                    case query_extract_field (Some doc) (Some key) of
                      None \<Rightarrow> cursor_data
                    | Some v \<Rightarrow> json_object_set cursor_data (Some key) (Some (json_clone v)))
                  (Some json_create_object) es)
           | _ \<Rightarrow> None)
      | _ \<Rightarrow> None)"

definition query_parse_cursor :: "cstr \<Rightarrow> query_options option \<Rightarrow> bool" where
  "query_parse_cursor cur opts =
     (cur \<noteq> None \<and> opts \<noteq> None \<and>
      (case json_parse cur of Some (JObject _) \<Rightarrow> True | _ \<Rightarrow> False))"

section \<open>Pagination\<close>

record pagination_info =
  pi_total_count :: c_int
  pi_page_count :: c_int
  pi_page :: c_int
  pi_page_size :: c_int
  pi_total_pages :: c_int
  pi_has_next_page :: bool
  pi_has_prev_page :: bool
  pi_next_cursor :: cstr
  pi_prev_cursor :: cstr

text \<open>An \<^verbatim>\<open>int\<close> division by zero stops the process (\<^verbatim>\<open>SIGFPE\<close>).\<close>

datatype fault = Division_Fault

definition c_int_div :: "c_int \<Rightarrow> c_int \<Rightarrow> fault + c_int" where
  "c_int_div a b =
     (if b = 0 \<or> b = - 1 \<and> sint a = - (2 ^ 31) then Inl Division_Fault
      else Inr (word_of_int (sgn (sint a) * sgn (sint b) * (\<bar>sint a\<bar> div \<bar>sint b\<bar>))))"

definition c_int_of_size :: "nat \<Rightarrow> c_int" where
  "c_int_of_size n = word_of_nat n"

definition query_create_pagination_info ::
    "query_options option \<Rightarrow> c_int \<Rightarrow> jptr \<Rightarrow> fault + pagination_info option" where
  "query_create_pagination_info opts total_count documents =
     (case opts of
        None \<Rightarrow> Inr None
      | Some o' \<Rightarrow>
          if sint total_count \<le> 0 then Inr None
          else
            (let page_count = c_int_of_size (json_array_size documents) in
             case pagination_type o' of
               PAGINATION_OFFSET \<Rightarrow>
                 (case c_int_div (total_count + page_size o' - 1) (page_size o') of
                    Inl f \<Rightarrow> Inl f
                  | Inr total_pages \<Rightarrow>
                      Inr (Some \<lparr>pi_total_count = total_count, pi_page_count = page_count,
                        pi_page = page o', pi_page_size = page_size o', pi_total_pages = total_pages,
                        pi_has_next_page = (sint (page o') < sint total_pages),
                        pi_has_prev_page = (1 < sint (page o')),
                        pi_next_cursor = None, pi_prev_cursor = None\<rparr>))
             | PAGINATION_CURSOR \<Rightarrow>
                 (let has_next = (page_count = limit o') in
                  Inr (Some \<lparr>pi_total_count = total_count, pi_page_count = page_count,
                    pi_page = 0, pi_page_size = limit o', pi_total_pages = 0,
                    pi_has_next_page = has_next,
                    pi_has_prev_page = (cursor o' \<noteq> None),
                    pi_next_cursor =
                      (if has_next \<and> 0 < json_array_size documents
                       then query_generate_cursor
                              (json_array_get documents (json_array_size documents - 1)) (Some o')
                       else None),
                    pi_prev_cursor = cursor o'\<rparr>))
             | PAGINATION_NONE \<Rightarrow>
                 Inr (Some \<lparr>pi_total_count = total_count, pi_page_count = page_count,
                   pi_page = 1, pi_page_size = total_count, pi_total_pages = 1,
                   pi_has_next_page = False, pi_has_prev_page = False,
                   pi_next_cursor = None, pi_prev_cursor = None\<rparr>)))"

definition put_if :: "bool \<Rightarrow> string \<Rightarrow> json \<Rightarrow> jptr \<Rightarrow> jptr" where
  "put_if b k v j = (if b then json_object_set j (Some k) (Some v) else j)"

definition query_pagination_to_json :: "pagination_info option \<Rightarrow> jptr" where
  "query_pagination_to_json pagination =
     (case pagination of
        None \<Rightarrow> None
      | Some p \<Rightarrow>
          (let int_json = (\<lambda>i. json_create_integer (scast i));
               json = Some json_create_object;
               json = put_if True ''total_count'' (int_json (pi_total_count p)) json;
               json = put_if True ''page_count'' (int_json (pi_page_count p)) json;
               json = put_if True ''has_next_page'' (json_create_boolean (of_bool (pi_has_next_page p))) json;
               json = put_if True ''has_prev_page'' (json_create_boolean (of_bool (pi_has_prev_page p))) json;
               json = put_if (0 < sint (pi_page p)) ''page'' (int_json (pi_page p)) json;
               json = put_if (0 < sint (pi_page_size p)) ''page_size'' (int_json (pi_page_size p)) json;
               json = put_if (0 < sint (pi_total_pages p)) ''total_pages'' (int_json (pi_total_pages p)) json;
               json = (case pi_next_cursor p of None \<Rightarrow> json
                       | Some c \<Rightarrow> put_if True ''next_cursor'' (json_create_string c) json)
           in case pi_prev_cursor p of None \<Rightarrow> json
              | Some c \<Rightarrow> put_if True ''prev_cursor'' (json_create_string c) json))"

section \<open>Execution\<close>

record query_result =
  documents :: "json list"
  count :: c_int
  total_count :: c_int
  pagination :: "pagination_info option"

text \<open>The elements the result loop visits: the indices from \<open>from\<close> below \<open>to\<close>, as \<^verbatim>\<open>int\<close>s.\<close>

definition page_slice :: "'a list \<Rightarrow> c_int \<Rightarrow> c_int \<Rightarrow> 'a list" where
  "page_slice xs from to = map (\<lambda>i. xs ! nat i) [sint from..sint to - 1]"

definition clamp_nonneg :: "c_int \<Rightarrow> c_int" where
  "clamp_nonneg x = (if sint x < 0 then 0 else x)"

definition page_end :: "nat \<Rightarrow> c_int \<Rightarrow> c_int \<Rightarrow> c_int" where
  "page_end n sk lm =
     (let max_index = c_int_of_size n in
      if 0 < sint lm then (if sint (sk + lm) < sint max_index then sk + lm else max_index)
      else max_index)"

definition project_one :: "query_options option \<Rightarrow> json \<Rightarrow> jptr" where
  "project_one opts doc =
     (case opts of
        None \<Rightarrow> Some (json_clone doc)
      | Some o' \<Rightarrow>
          (case projection o' of
             None \<Rightarrow> Some (json_clone doc)
           | Some p \<Rightarrow> query_apply_projection (Some doc) (Some p)))"

definition matching_documents :: "query_expr \<Rightarrow> json list \<Rightarrow> json list" where
  "matching_documents e docs = map json_clone (filter (query_match_document (Some e)) docs)"

definition sorted_matches :: "query_options option \<Rightarrow> json list \<Rightarrow> json list" where
  "sorted_matches opts matches =
     (case opts of
        None \<Rightarrow> matches
      | Some o' \<Rightarrow>
          (case query_apply_sort (Some (JArray matches)) (sort_spec o') of
             Some (JArray ms) \<Rightarrow> ms
           | _ \<Rightarrow> matches))"

definition query_execute ::
    "query_expr option \<Rightarrow> jptr \<Rightarrow> query_options option \<Rightarrow> fault + query_result" where
  "query_execute e docs opts =
     (case (e, docs) of
        (Some ex, Some (JArray ds)) \<Rightarrow>
          (let matches = matching_documents ex ds;
               total = c_int_of_size (length matches);
               ordered = sorted_matches opts matches;
               sk = clamp_nonneg (case opts of None \<Rightarrow> 0 | Some o' \<Rightarrow> skip o');
               lm = clamp_nonneg (case opts of None \<Rightarrow> 0 | Some o' \<Rightarrow> limit o');
               slice = page_slice ordered sk (page_end (length ordered) sk lm);
               results = map (\<lambda>d. the (project_one opts d)) slice;
               info = (case opts of
                         None \<Rightarrow> Inr None
                       | Some o' \<Rightarrow>
                           if pagination_type o' = PAGINATION_NONE then Inr None
                           else query_create_pagination_info opts total (Some (JArray results)))
           in case info of
                Inl f \<Rightarrow> Inl f
              | Inr p \<Rightarrow>
                  Inr \<lparr>documents = results, count = c_int_of_size (length results),
                       total_count = total, pagination = p\<rparr>)
      | _ \<Rightarrow> Inr \<lparr>documents = [], count = 0, total_count = 0, pagination = None\<rparr>)"

section \<open>Option parsing\<close>

definition int_or_number :: "jptr \<Rightarrow> c_int option" where
  "int_or_number v =
     (case v of
        Some (JInteger i) \<Rightarrow> Some (ucast i)
      | Some (JNumber d) \<Rightarrow> Some (int_of_double d)
      | _ \<Rightarrow> None)"

definition default_options :: query_options where
  "default_options = \<lparr>limit = 0, skip = 0, page = 1, page_size = 0,
     pagination_type = PAGINATION_NONE, cursor = None, sort_spec = None, projection = None\<rparr>"

definition parse_page_size :: "jptr \<Rightarrow> query_options \<Rightarrow> query_options" where
  "parse_page_size v o' =
     (case int_or_number v of
        None \<Rightarrow> o'
      | Some n \<Rightarrow>
          (let ps = clamp_nonneg n;
               o' = o'\<lparr>page_size := ps, pagination_type := PAGINATION_OFFSET\<rparr>
           in if 0 < sint ps then o'\<lparr>limit := ps, skip := (page o' - 1) * ps\<rparr> else o'))"

definition query_parse_options :: "jptr \<Rightarrow> query_options" where
  "query_parse_options options_json =
     (case options_json of
        Some (JObject es) \<Rightarrow>
          (let get = obj_get es; o' = default_options;
               o' = (case int_or_number (get ''limit'') of None \<Rightarrow> o'
                     | Some n \<Rightarrow> o'\<lparr>limit := clamp_nonneg n\<rparr>);
               o' = (case int_or_number (get ''skip'') of None \<Rightarrow> o'
                     | Some n \<Rightarrow> o'\<lparr>skip := clamp_nonneg n\<rparr>);
               o' = (case int_or_number (get ''page'') of None \<Rightarrow> o'
                     | Some n \<Rightarrow> o'\<lparr>page := (if sint n < 1 then 1 else n),
                                      pagination_type := PAGINATION_OFFSET\<rparr>);
               o' = parse_page_size (get ''page_size'') o';
               o' = (case get ''cursor'' of
                       Some (JString c) \<Rightarrow>
                         o'\<lparr>cursor := Some c, pagination_type := PAGINATION_CURSOR\<rparr>
                     | _ \<Rightarrow> o');
               o' = o'\<lparr>sort_spec := object_option (get ''sort'') None\<rparr>
           in o'\<lparr>projection := object_option (get ''projection'') None\<rparr>)
      | _ \<Rightarrow> default_options)"

end
