(* ===== verification/Query_Sem.thy ===== *)
theory Query_Sem
  imports Query_Exec
begin

text \<open>
  A direct meaning of query documents, without expression trees, and the proof that
  parsing a query and matching the resulting tree computes it.
\<close>

section \<open>The meaning of a query\<close>

text \<open>One operator on one field; what \<^verbatim>\<open>op\<close> applies to is the value found, if any.\<close>

definition op_holds :: "query_operator \<Rightarrow> jptr \<Rightarrow> json \<Rightarrow> bool" where
  "op_holds op found operand =
     (if is_comparison op then match_comparison_operator op found operand
      else if op = OP_ELEM_MATCH then
        (case found of
           Some (JArray xs) \<Rightarrow> list_ex (\<lambda>x. json_type_of x = JSON_OBJECT) xs
         | _ \<Rightarrow> False)
      else op = OP_AND \<or> op = OP_ROOT \<or> op = OP_NOR)"

definition ops_hold :: "entries \<Rightarrow> jptr \<Rightarrow> bool" where
  "ops_hold es found \<longleftrightarrow>
     list_all (\<lambda>(k, v). op_holds (query_parse_operator (Some k)) found v) es"

text \<open>
  A logical operator whose operand has the wrong shape makes the whole expression
  \<^verbatim>\<open>NULL\<close>, which matches nothing.
\<close>

function (sequential) logical_ok :: "string \<Rightarrow> json \<Rightarrow> bool"
  and filters_ok :: "json list \<Rightarrow> bool"
  and filter_ok :: "entries \<Rightarrow> bool" where
  "logical_ok name v =
     (if query_parse_operator (Some name) = OP_NOT
      then (case v of JObject es \<Rightarrow> es \<noteq> [] | _ \<Rightarrow> False)
      else (case v of JArray fs \<Rightarrow> fs \<noteq> [] \<and> filters_ok fs | _ \<Rightarrow> False))"
| "filters_ok [] = True"
| "filters_ok (JObject es # fs) = (filter_ok es \<and> filters_ok fs)"
| "filters_ok (_ # fs) = False"
| "filter_ok [(k, v)] = (is_logical (query_parse_operator (Some k)) \<longrightarrow> logical_ok k v)"
| "filter_ok _ = True"
  by pat_completeness auto
termination
  by (relation "measure (\<lambda>x. case x of Inl (n, v) \<Rightarrow> 2 * size v
       | Inr (Inl fs) \<Rightarrow> 2 * size_list size fs
       | Inr (Inr es) \<Rightarrow> 2 * size_list (size_prod (\<lambda>_. 0) size) es)") simp_all

function (sequential) field_holds :: "string \<Rightarrow> json \<Rightarrow> json \<Rightarrow> bool"
  and logical_holds :: "string \<Rightarrow> json \<Rightarrow> json \<Rightarrow> bool"
  and nested_holds :: "string \<Rightarrow> entries \<Rightarrow> json \<Rightarrow> bool"
  and filters_hold :: "json list \<Rightarrow> json \<Rightarrow> bool list"
  and conditions_hold :: "entries \<Rightarrow> json \<Rightarrow> bool" where
  "field_holds path v doc =
     (if is_logical (query_parse_operator (Some path)) then logical_holds path v doc
      else case v of
        JObject es \<Rightarrow>
          if es = [] then op_holds OP_EQ (query_extract_field (Some doc) (Some path)) v
          else if list_ex (\<lambda>(k, _). starts_dollar k) es
          then ops_hold es (query_extract_field (Some doc) (Some path))
          else nested_holds path es doc
      | _ \<Rightarrow> op_holds OP_EQ (query_extract_field (Some doc) (Some path)) v)"
| "logical_holds name v doc =
     (logical_ok name v \<and>
      (case v of
         JObject es \<Rightarrow> \<not> ops_hold es None
       | JArray fs \<Rightarrow>
           (let op = query_parse_operator (Some name) in
            if op = OP_AND then list_all id (filters_hold fs doc)
            else if op = OP_OR then list_ex id (filters_hold fs doc)
            else op = OP_NOR \<and> \<not> list_ex id (filters_hold fs doc))
       | _ \<Rightarrow> False))"
| "nested_holds path [] doc = True"
| "nested_holds path ((k, v) # es) doc =
     (field_holds (path @ ''.'' @ k) v doc \<and> nested_holds path es doc)"
| "filters_hold [] doc = []"
| "filters_hold (f # fs) doc =
     (case f of JObject es \<Rightarrow> conditions_hold es doc | _ \<Rightarrow> False) # filters_hold fs doc"
| "conditions_hold [] doc = True"
| "conditions_hold ((k, v) # es) doc = (field_holds k v doc \<and> conditions_hold es doc)"
  by pat_completeness auto
termination
  by (relation "measure (\<lambda>x. case x of
       Inl (Inl (p, v, d)) \<Rightarrow> 2 * size v + 1
     | Inl (Inr (n, v, d)) \<Rightarrow> 2 * size v
     | Inr (Inl (p, es, d)) \<Rightarrow> 2 * size_list (size_prod (\<lambda>_. 0) size) es
     | Inr (Inr (Inl (fs, d))) \<Rightarrow> 2 * size_list size fs
     | Inr (Inr (Inr (es, d))) \<Rightarrow> 2 * size_list (size_prod (\<lambda>_. 0) size) es)") simp_all

declare logical_ok.simps [simp del] field_holds.simps [simp del] logical_holds.simps [simp del]
  parse_field_expr.simps [simp del] parse_logical_expr.simps [simp del]
  parse_comparison_expr.simps [simp del]

section \<open>Matching lists of children\<close>

lemma match_all_iff: "match_all cs d \<longleftrightarrow> list_all (\<lambda>c. query_match_document c d) cs"
  by (induction cs) simp_all

lemma match_any_iff: "match_any cs d \<longleftrightarrow> list_ex (\<lambda>c. query_match_document c d) cs"
  by (induction cs) simp_all

lemma match_logical [simp]:
  "query_match_document (Some (query_create_logical_expr OP_AND cs)) d = match_all cs d"
  "query_match_document (Some (query_create_logical_expr OP_OR cs)) d = match_any cs d"
  "query_match_document (Some (query_create_logical_expr OP_NOR cs)) d = (\<not> match_any cs d)"
  "query_match_document (Some (query_create_logical_expr OP_NOT [Some c])) d =
     (\<not> query_match_document (Some c) d)"
  by (auto simp: query_create_logical_expr_def query_create_expr_def)

lemma match_field_expr:
  assumes "json_wf v"
  shows "query_match_document (Some (query_create_field_expr p op (Some v))) d =
    op_holds op (query_extract_field (Some d) p) v"
  using json_clone_wf [OF assms]
  by (simp add: query_create_field_expr_def op_holds_def is_comparison_def split: option.splits json.splits)

lemma match_comparison_expr:
  assumes "json_wf (JObject es)"
  shows "query_match_document (parse_comparison_expr p (JObject es)) d =
    (es \<noteq> [] \<and> ops_hold es (query_extract_field (Some d) p))"
proof -
  have wf: "list_all (\<lambda>e. json_wf (snd e)) es" using assms by simp
  have all: "match_all (map (\<lambda>(k, v). Some (query_create_field_expr p (query_parse_operator (Some k)) (Some v))) gs) d =
      ops_hold gs (query_extract_field (Some d) p)" if "list_all (\<lambda>e. json_wf (snd e)) gs" for gs
    using that by (induction gs) (auto simp: ops_hold_def match_field_expr simp del: query_match_document.simps)
  show ?thesis
  proof (cases es)
    case (Cons e gs)
    show ?thesis
    proof (cases gs)
      case Nil
      with Cons wf show ?thesis
        by (cases e) (simp add: parse_comparison_expr.simps ops_hold_def match_field_expr
            del: query_match_document.simps)
    next
      case (Cons e' gs')
      with \<open>es = e # gs\<close> all [OF wf] show ?thesis
        by (cases e) (simp add: parse_comparison_expr.simps del: query_match_document.simps)
    qed
  qed (simp add: parse_comparison_expr.simps ops_hold_def)
qed

section \<open>Parsing and matching compute the meaning\<close>

lemma is_logical_name:
  "is_logical (query_parse_operator (Some k)) \<longleftrightarrow> k \<in> {''$and'', ''$or'', ''$not'', ''$nor''}"
  unfolding query_parse_operator_lookup operators_def is_logical_def by auto

lemma is_logical_dollar: "is_logical (query_parse_operator (Some k)) \<Longrightarrow> starts_dollar k"
  by (auto simp: is_logical_name starts_dollar_def)

lemma parse_dollar_simp [simp]:
  "starts_dollar k \<and> is_logical (query_parse_operator (Some k)) \<longleftrightarrow>
     is_logical (query_parse_operator (Some k))"
  "starts_dollar k \<and> (k = ''$and'' \<or> k = ''$or'' \<or> k = ''$not'' \<or> k = ''$nor'') \<longleftrightarrow>
     is_logical (query_parse_operator (Some k))"
  using is_logical_dollar is_logical_name by auto

lemma parse_comparison_None [simp]: "parse_comparison_expr p v = None \<longleftrightarrow> \<not> (\<exists>es. v = JObject es \<and> es \<noteq> [])"
  by (cases "(p, v)" rule: parse_comparison_expr.cases)
    (auto simp: parse_comparison_expr.simps split: list.splits)

lemma extract_None: "query_extract_field d None = None"
  by (simp add: query_extract_field_def split: option.splits)

lemma parse_field_Some:
  "\<not> is_logical (query_parse_operator (Some p)) \<Longrightarrow> \<exists>e. parse_field_expr p v = Some e"
  by (cases v) (auto simp: parse_field_expr.simps parse_comparison_expr.simps split: list.split)

lemma list_all_map_eq: "map f xs = ys \<Longrightarrow> list_all f xs = list_all id ys"
  by (induction xs arbitrary: ys) auto

lemma list_ex_map_eq: "map f xs = ys \<Longrightarrow> list_ex f xs = list_ex id ys"
  by (induction xs arbitrary: ys) auto

lemma parse_match:
  shows "json_wf v \<Longrightarrow> query_match_document (parse_field_expr p v) d = field_holds p v d"
    and "json_wf v \<Longrightarrow> is_logical (query_parse_operator (Some n)) \<Longrightarrow>
      (parse_logical_expr n v \<noteq> None) = logical_ok n v \<and>
      query_match_document (parse_logical_expr n v) d = logical_holds n v d"
    and "json_wf (JObject es) \<Longrightarrow> match_all (parse_nested p es) d = nested_holds p es d"
    and "list_all json_wf fs \<Longrightarrow>
      (parse_filters fs \<noteq> None) = filters_ok fs \<and>
      (\<forall>cs. parse_filters fs = Some cs \<longrightarrow> map (\<lambda>c. query_match_document c d) cs = filters_hold fs d)"
    and "json_wf (JObject gs) \<Longrightarrow> match_all (parse_conditions gs) d = conditions_hold gs d"
proof (induction p v and n v and p es and fs and gs
    rule: parse_field_expr_parse_logical_expr_parse_nested_parse_filters_parse_conditions.induct)
  case (1 p v)
  show ?case
  proof (cases "is_logical (query_parse_operator (Some p))")
    case True
    with 1 is_logical_dollar [OF True] show ?thesis
      by (simp add: parse_field_expr.simps field_holds.simps [of p])
  next
    case False
    show ?thesis
    proof (cases v)
      case (JObject es)
      with 1 False show ?thesis
        by (auto simp: parse_field_expr.simps [of p] field_holds.simps [of p] match_field_expr
            match_comparison_expr)
    qed (use False 1(3) in \<open>simp_all add: parse_field_expr.simps field_holds.simps match_field_expr\<close>)
  qed
next
  case (2 n v)
  show ?case
  proof (cases "query_parse_operator (Some n) = OP_NOT")
    case True
    show ?thesis
    proof (cases v)
      case (JObject es)
      have nn: "query_match_document (map_option (\<lambda>c. query_create_logical_expr OP_NOT [Some c]) x) d =
          (x \<noteq> None \<and> \<not> query_match_document x d)" for x
        by (cases x) simp_all
      show ?thesis
        using True 2 JObject match_comparison_expr [of es None d]
        by (auto simp: parse_logical_expr.simps logical_ok.simps logical_holds.simps nn extract_None
            simp del: query_match_document.simps)
    qed (use True in \<open>simp_all add: parse_logical_expr.simps logical_ok.simps logical_holds.simps\<close>)
  next
    case False
    show ?thesis
    proof (cases v)
      case (JArray fs)
      have ops: "query_parse_operator (Some n) \<in> {OP_AND, OP_OR, OP_NOR}"
        using 2(3) False by (auto simp: is_logical_def)
      have IH: "fs \<noteq> [] \<Longrightarrow> (parse_filters fs \<noteq> None) = filters_ok fs \<and>
          (\<forall>cs. parse_filters fs = Some cs \<longrightarrow> map (\<lambda>c. query_match_document c d) cs = filters_hold fs d)"
        using 2(1) [OF refl False JArray] 2(2) JArray by simp
      show ?thesis
      proof (cases "parse_filters fs")
        case None
        with IH JArray False show ?thesis
          by (cases "fs = []") (simp_all add: parse_logical_expr.simps logical_ok.simps logical_holds.simps)
      next
        case (Some cs)
        have cs: "fs \<noteq> [] \<Longrightarrow> map (\<lambda>c. query_match_document c d) cs = filters_hold fs d"
            "fs \<noteq> [] \<Longrightarrow> filters_ok fs"
          using IH Some by auto
        show ?thesis
        proof (cases "fs = []")
          case True
          with JArray False show ?thesis
            by (simp add: parse_logical_expr.simps logical_ok.simps logical_holds.simps)
        next
          case ne: False
          with ops JArray False Some cs(2) show ?thesis
            by (auto simp: parse_logical_expr.simps logical_ok.simps logical_holds.simps match_all_iff
                match_any_iff list_all_map_eq [OF cs(1)] list_ex_map_eq [OF cs(1)]
                simp del: query_match_document.simps)
        qed
      qed
    qed (use False in \<open>simp_all add: parse_logical_expr.simps logical_ok.simps logical_holds.simps\<close>)
  qed
next
  case (6 f fs)
  show ?case
  proof (cases f)
    case (JObject es)
    let ?c = "case es of
        [(k, v)] \<Rightarrow>
          if starts_dollar k \<and> k \<in> {''$and'', ''$or'', ''$not'', ''$nor''}
          then parse_logical_expr k v else parse_field_expr k v
      | _ \<Rightarrow> Some (query_create_logical_expr OP_AND (parse_conditions es))"
    have wf: "json_wf (JObject es)" and wfs: "list_all json_wf fs"
      using 6(6) JObject by auto
    have c: "(?c \<noteq> None) = filter_ok es \<and> query_match_document ?c d = conditions_hold es d"
    proof (cases es)
      case Nil
      with 6(1) [OF JObject] show ?thesis by simp
    next
      case (Cons e es')
      obtain k v where e: "e = (k, v)" by force
      show ?thesis
      proof (cases es')
        case Nil
        have v: "json_wf v" using wf Cons e by simp
        show ?thesis
        proof (cases "is_logical (query_parse_operator (Some k))")
          case True
          then have d: "starts_dollar k \<and> k \<in> {''$and'', ''$or'', ''$not'', ''$nor''}"
            by (simp only: is_logical_dollar is_logical_name [symmetric])
          have "(parse_logical_expr k v \<noteq> None) = logical_ok k v \<and>
              query_match_document (parse_logical_expr k v) d = logical_holds k v d"
            using 6(2) [OF JObject Cons e [symmetric] Nil d v True] .
          with True d Cons e Nil show ?thesis by (simp add: field_holds.simps)
        next
          case False
          then have d: "\<not> (starts_dollar k \<and> k \<in> {''$and'', ''$or'', ''$not'', ''$nor''})"
            by (simp only: is_logical_name) simp
          have "query_match_document (parse_field_expr k v) d = field_holds k v d"
            using 6(3) [OF JObject Cons e [symmetric] Nil d v] .
          with False d Cons e Nil show ?thesis by (simp add: parse_field_Some)
        qed
      next
        case (Cons e'' es'')
        with \<open>es = e # es'\<close> 6(4) [OF JObject \<open>es = e # es'\<close> e [symmetric] Cons wf]
        show ?thesis by (simp del: conditions_hold.simps parse_conditions.simps)
      qed
    qed
    show ?thesis
    proof (cases ?c)
      case None
      with JObject c show ?thesis by simp
    next
      case (Some x)
      with JObject c 6(5) [OF JObject Some wfs] show ?thesis by auto
    qed
  qed simp_all
next
  case (3 p)
  show ?case by simp
next
  case (4 p k v es)
  then show ?case by simp
next
  case 5
  show ?case by simp
next
  case 7
  show ?case by simp
next
  case (8 k v es)
  then show ?case by simp
qed

end
