(* ===== verification/Query_Sort.thy ===== *)
theory Query_Sort
  imports Query_Exec "HOL-Library.Multiset"
begin

text \<open>
  Sorting of query results: the bubble sort of \<^verbatim>\<open>query_apply_sort\<close> over any three-way
  comparison that is a total preorder on the elements at hand, and the proof that the
  field-by-field comparison of documents is one, as long as no sort key is a NaN.
\<close>

section \<open>Three-way comparisons\<close>

locale three_way =
  fixes cmp :: "'a \<Rightarrow> 'a \<Rightarrow> int" and carrier :: "'a \<Rightarrow> bool"
  assumes cmp_anti: "carrier a \<Longrightarrow> carrier b \<Longrightarrow> sgn (cmp b a) = - sgn (cmp a b)"
    and cmp_trans: "carrier a \<Longrightarrow> carrier b \<Longrightarrow> carrier c \<Longrightarrow>
      cmp a b \<le> 0 \<Longrightarrow> cmp b c \<le> 0 \<Longrightarrow> cmp a c \<le> 0"
begin

lemma cmp_flip:
  assumes "carrier a" and "carrier b"
  shows "cmp b a \<le> 0 \<longleftrightarrow> 0 \<le> cmp a b" and "cmp b a = 0 \<longleftrightarrow> cmp a b = 0"
  using cmp_anti [OF assms] by (auto simp: sgn_if split: if_splits)

lemma cmp_refl: "carrier a \<Longrightarrow> cmp a a = 0"
  using cmp_anti [of a a] by (simp add: sgn_if split: if_splits)

lemma cmp_eq_trans:
  assumes "carrier a" "carrier b" "carrier c" and "cmp a b = 0" and "cmp b c = 0"
  shows "cmp a c = 0"
  using cmp_trans [of a b c] cmp_trans [of c b a] cmp_flip assms by (metis order.antisym order.refl)

end

section \<open>One step of the inner loop\<close>

lemma split_pair: "Suc j < length xs \<Longrightarrow> \<exists>p a b q. xs = p @ a # b # q \<and> length p = j"
proof -
  assume j: "Suc j < length xs"
  have "xs = take j xs @ xs ! j # xs ! Suc j # drop (Suc (Suc j)) xs"
    using j by (simp add: Cons_nth_drop_Suc)
  moreover have "length (take j xs) = j" using j by simp
  ultimately show ?thesis by metis
qed

lemma swap_step_pair:
  "swap_step sw (p @ a # b # q) (length p) = (if sw a b then p @ b # a # q else p @ a # b # q)"
  by (simp add: swap_step_def nth_append list_update_append)

lemma length_swap_step [simp]: "length (swap_step sw xs j) = length xs"
  by (simp add: swap_step_def)

lemma mset_swap_step [simp]: "mset (swap_step sw xs j) = mset xs"
proof (cases "Suc j < length xs")
  case True
  then obtain p a b q where "xs = p @ a # b # q" "length p = j" using split_pair by blast
  then show ?thesis using swap_step_pair [of sw p a b q] by auto
qed (simp add: swap_step_def)

lemma bubble_pass_0 [simp]: "bubble_pass sw xs 0 = xs"
  by (simp add: bubble_pass_def)

lemma bubble_pass_Suc: "bubble_pass sw xs (Suc m) = swap_step sw (bubble_pass sw xs m) m"
  by (simp add: bubble_pass_def)

lemma bubble_pass_mset [simp]:
  "mset (bubble_pass sw xs m) = mset xs" "length (bubble_pass sw xs m) = length xs"
  by (induction m) (simp_all add: bubble_pass_Suc)

lemma bubble_pass_set [simp]: "set (bubble_pass sw xs m) = set xs"
  by (metis bubble_pass_mset(1) set_mset_mset)

text \<open>Nothing behind the last index compared is touched.\<close>

lemma bubble_pass_drop: "m < length xs \<Longrightarrow> drop (Suc m) (bubble_pass sw xs m) = drop (Suc m) xs"
proof (induction m)
  case (Suc m)
  let ?ys = "bubble_pass sw xs m"
  have "Suc m < length ?ys" using Suc.prems by simp
  then obtain p a b q where ys: "?ys = p @ a # b # q" "length p = m" using split_pair by blast
  have "drop (Suc m) ?ys = drop (Suc m) xs" using Suc by simp
  then have "drop (Suc (Suc m)) ?ys = drop (Suc (Suc m)) xs"
    by (metis drop_Suc tl_drop)
  with ys show ?case
    using swap_step_pair [of sw p a b q] by (auto simp: bubble_pass_Suc)
qed simp

lemma bubble_pass_take:
  assumes "m < length xs"
  shows "set (take (Suc m) (bubble_pass sw xs m)) = set (take (Suc m) xs)"
proof -
  have "mset (take (Suc m) (bubble_pass sw xs m)) + mset (drop (Suc m) (bubble_pass sw xs m)) =
      mset (take (Suc m) xs) + mset (drop (Suc m) xs)"
    by (metis append_take_drop_id bubble_pass_mset(1) mset_append)
  then have "mset (take (Suc m) (bubble_pass sw xs m)) = mset (take (Suc m) xs)"
    using bubble_pass_drop [OF assms, of sw] by simp
  then show ?thesis by (metis set_mset_mset)
qed

section \<open>The sort\<close>

context three_way
begin

abbreviation gt :: "'a \<Rightarrow> 'a \<Rightarrow> bool" where "gt a b \<equiv> 0 < cmp a b"

lemma swap_step_stable:
  assumes "\<forall>y\<in>set xs. carrier y" and "carrier x"
  shows "filter (\<lambda>y. cmp x y = 0) (swap_step gt xs j) = filter (\<lambda>y. cmp x y = 0) xs"
proof (cases "Suc j < length xs")
  case True
  then obtain p a b q where xs: "xs = p @ a # b # q" "length p = j" using split_pair by blast
  have "\<not> (cmp x a = 0 \<and> cmp x b = 0)" if "gt a b"
    using that assms xs cmp_eq_trans [of a x b] cmp_flip(2) [of x a] by auto
  then show ?thesis using swap_step_pair [of gt p a b q] xs by auto
qed (simp add: swap_step_def)

lemma bubble_pass_stable:
  assumes "\<forall>y\<in>set xs. carrier y" and "carrier x"
  shows "filter (\<lambda>y. cmp x y = 0) (bubble_pass gt xs m) = filter (\<lambda>y. cmp x y = 0) xs"
  using assms by (induction m) (simp_all add: bubble_pass_Suc swap_step_stable)

text \<open>A pass over the first indices moves a greatest element to the last of them.\<close>

lemma bubble_pass_max:
  assumes "\<forall>y\<in>set xs. carrier y" and "m < length xs" and "k < m"
  shows "cmp (bubble_pass gt xs m ! k) (bubble_pass gt xs m ! m) \<le> 0"
  using assms(2,3)
proof (induction m arbitrary: k)
  case (Suc m)
  let ?ys = "bubble_pass gt xs m"
  have "Suc m < length ?ys" using Suc.prems by simp
  then obtain p a b q where ys: "?ys = p @ a # b # q" "length p = m" using split_pair by blast
  have "set (p @ a # b # q) = set xs" using bubble_pass_set [of gt xs m] unfolding ys(1) .
  then have car: "carrier y" if "y \<in> set (p @ a # b # q)" for y using that assms(1) by metis
  have le: "cmp (p ! i) a \<le> 0" if "i < m" for i
    using Suc.IH [of i] that Suc.prems ys by (simp add: nth_append)
  have le': "cmp (p ! i) b \<le> 0" if "i < m" "\<not> gt a b" for i
    using cmp_trans [of "p ! i" a b] le [OF that(1)] that ys car by simp
  have "cmp b a \<le> 0" if "gt a b" using that cmp_flip(1) [of a b] car by simp
  with le le' Suc.prems(2) ys show ?case
    using swap_step_pair [of gt p a b q]
    by (auto simp: bubble_pass_Suc nth_append less_Suc_eq nth_Cons')
qed simp

definition suffix_sorted :: "'a list \<Rightarrow> nat \<Rightarrow> bool" where
  "suffix_sorted xs i \<longleftrightarrow>
     (\<forall>p q. p < q \<and> q < length xs \<and> length xs \<le> q + i \<longrightarrow> cmp (xs ! p) (xs ! q) \<le> 0)"

lemma suffix_sorted_pass:
  assumes car: "\<forall>y\<in>set xs. carrier y" and i: "i < length xs" and inv: "suffix_sorted xs i"
  shows "suffix_sorted (bubble_pass gt xs (length xs - i - 1)) (Suc i)"
proof -
  let ?m = "length xs - i - 1" and ?ys = "bubble_pass gt xs (length xs - i - 1)"
  have m: "?m < length xs" using i by simp
  have same: "?ys ! q = xs ! q" if "?m < q" "q < length xs" for q
  proof -
    have "drop (Suc ?m) ?ys ! (q - Suc ?m) = drop (Suc ?m) xs ! (q - Suc ?m)"
      using bubble_pass_drop [OF m, of gt] by simp
    with that m show ?thesis by simp
  qed
  have "cmp (?ys ! p) (?ys ! q) \<le> 0" if pq: "p < q" "q < length xs" "length xs \<le> q + Suc i" for p q
  proof (cases "q = ?m")
    case True
    with bubble_pass_max [OF car m] pq show ?thesis by simp
  next
    case False
    with pq have q: "?m < q" "length xs \<le> q + i" by auto
    show ?thesis
    proof (cases "p \<le> ?m")
      case True
      then have "?ys ! p \<in> set (take (Suc ?m) ?ys)"
        using m by (auto simp: in_set_conv_nth intro!: exI [of _ p])
      then have "?ys ! p \<in> set (take (Suc ?m) xs)" using bubble_pass_take [OF m] by simp
      then obtain p' where "p' < Suc ?m" "p' < length xs" "?ys ! p = xs ! p'"
        by (auto simp: in_set_conv_nth)
      with inv q pq(2) same [of q] show ?thesis by (auto simp: suffix_sorted_def)
    next
      case False
      with inv q pq same [of q] same [of p] show ?thesis by (auto simp: suffix_sorted_def)
    qed
  qed
  then show ?thesis by (simp add: suffix_sorted_def)
qed

lemma bounds_small:
  assumes "i < n" and "n < 2 ^ 64"
  shows "inner_bound n i = n - i - 1" and "outer_bound n = n - 1"
proof -
  have u: "unat (of_nat k :: c_size) = k" if "k < n" for k
    using that assms(2) by (simp add: unsigned_of_nat take_bit_nat_eq_self)
  have "(of_nat n - of_nat i - 1 :: c_size) = of_nat (n - i - 1)"
    using assms by (simp add: of_nat_diff)
  then show "inner_bound n i = n - i - 1"
    unfolding inner_bound_def using u [of "n - i - 1"] assms(1) by presburger
  have "(of_nat n - 1 :: c_size) = of_nat (n - 1)"
    using assms by (simp add: of_nat_diff)
  then show "outer_bound n = n - 1"
    unfolding outer_bound_def using u [of "n - 1"] assms(1) by presburger
qed

lemma bubble_sort_invariant:
  assumes car: "\<forall>y\<in>set xs. carrier y" and len: "length xs < 2 ^ 64" and k: "k < length xs"
  shows "let ys = foldl (\<lambda>ds i. bubble_pass gt ds (inner_bound (length xs) i)) xs [0..<k] in
    mset ys = mset xs \<and> suffix_sorted ys k \<and>
    (\<forall>x. carrier x \<longrightarrow> filter (\<lambda>y. cmp x y = 0) ys = filter (\<lambda>y. cmp x y = 0) xs)"
  using k
proof (induction k)
  case (Suc k)
  let ?ys = "foldl (\<lambda>ds i. bubble_pass gt ds (inner_bound (length xs) i)) xs [0..<k]"
  have IH: "mset ?ys = mset xs" "suffix_sorted ?ys k"
    "\<And>x. carrier x \<Longrightarrow> filter (\<lambda>y. cmp x y = 0) ?ys = filter (\<lambda>y. cmp x y = 0) xs"
    using Suc by (simp_all add: Let_def)
  have "length ?ys = length xs" "set ?ys = set xs"
    using IH(1) by (metis size_mset, metis set_mset_mset)
  then show ?case
    using IH car Suc.prems len suffix_sorted_pass [of ?ys k]
    by (simp add: Let_def bounds_small bubble_pass_stable)
qed (simp add: suffix_sorted_def)

lemma bubble_sort_sorts:
  assumes car: "\<forall>y\<in>set xs. carrier y" and len: "length xs < 2 ^ 64" and ne: "xs \<noteq> []"
  shows "mset (bubble_sort gt xs) = mset xs"
    and "sorted_wrt (\<lambda>a b. cmp a b \<le> 0) (bubble_sort gt xs)"
    and "carrier x \<Longrightarrow> filter (\<lambda>y. cmp x y = 0) (bubble_sort gt xs) = filter (\<lambda>y. cmp x y = 0) xs"
proof -
  have b: "outer_bound (length xs) = length xs - 1" using ne len bounds_small(2) [of 0] by simp
  have inv: "mset (bubble_sort gt xs) = mset xs \<and> suffix_sorted (bubble_sort gt xs) (length xs - 1) \<and>
    (\<forall>x. carrier x \<longrightarrow> filter (\<lambda>y. cmp x y = 0) (bubble_sort gt xs) = filter (\<lambda>y. cmp x y = 0) xs)"
    using bubble_sort_invariant [OF car len, of "length xs - 1"] ne
    by (simp add: bubble_sort_def b Let_def)
  then show "mset (bubble_sort gt xs) = mset xs"
    and "carrier x \<Longrightarrow> filter (\<lambda>y. cmp x y = 0) (bubble_sort gt xs) = filter (\<lambda>y. cmp x y = 0) xs"
    by auto
  have "length (bubble_sort gt xs) = length xs" using inv by (metis size_mset)
  with inv show "sorted_wrt (\<lambda>a b. cmp a b \<le> 0) (bubble_sort gt xs)"
    by (auto simp: suffix_sorted_def sorted_wrt_iff_nth_less)
qed

end

section \<open>The order on documents\<close>

lemma three_way_uminus:
  assumes "three_way c P"
  shows "three_way (\<lambda>a b. - c a b) P"
proof
  fix x y assume "P x" "P y"
  then show "sgn (- c y x) = - sgn (- c x y)"
    using three_way.cmp_anti [OF assms, of x y] by (simp add: sgn_minus)
next
  fix x y z
  assume P: "P x" "P y" "P z" and "- c x y \<le> 0" "- c y z \<le> 0"
  then have "c y x \<le> 0" "c z y \<le> 0"
    using three_way.cmp_flip(1) [OF assms] by simp_all
  then have "c z x \<le> 0" using three_way.cmp_trans [OF assms] P by blast
  then show "- c x z \<le> 0" using three_way.cmp_flip(1) [OF assms, of x z] P by simp
qed

lemma three_way_lex:
  assumes c: "three_way c P" and d: "three_way d P"
  shows "three_way (\<lambda>a b. if c a b \<noteq> 0 then c a b else d a b) P"
proof
  fix a b assume P: "P a" "P b"
  show "sgn (if c b a \<noteq> 0 then c b a else d b a) = - sgn (if c a b \<noteq> 0 then c a b else d a b)"
    using three_way.cmp_anti [OF c P] three_way.cmp_anti [OF d P] three_way.cmp_flip(2) [OF c P] by simp
next
  fix x y z
  assume P: "P x" "P y" "P z"
    and xy: "(if c x y \<noteq> 0 then c x y else d x y) \<le> 0"
    and yz: "(if c y z \<noteq> 0 then c y z else d y z) \<le> 0"
  have "c x y \<le> 0" "c y z \<le> 0" using xy yz by (auto split: if_splits)
  then have xz: "c x z \<le> 0" using three_way.cmp_trans [OF c] P by blast
  have "c x y = 0 \<and> c y z = 0" if "c x z = 0"
  proof -
    have zx: "c z x \<le> 0" using that three_way.cmp_flip(1) [OF c P(1,3)] by simp
    have "c y x \<le> 0" using three_way.cmp_trans [OF c P(2,3,1) \<open>c y z \<le> 0\<close> zx] .
    moreover have "c z y \<le> 0" using three_way.cmp_trans [OF c P(3,1,2) zx \<open>c x y \<le> 0\<close>] .
    ultimately show ?thesis
      using \<open>c x y \<le> 0\<close> \<open>c y z \<le> 0\<close> three_way.cmp_flip(1) [OF c P(1,2)] three_way.cmp_flip(1) [OF c P(2,3)]
      by simp
  qed
  with xy yz xz three_way.cmp_trans [OF d P] show "(if c x z \<noteq> 0 then c x z else d x z) \<le> 0"
    by (auto split: if_splits)
qed

definition comparable :: "json \<Rightarrow> bool" where
  "comparable v \<longleftrightarrow> v \<noteq> JNumber NaN"

lemma strcmp_flip: "sgn (strcmp t s) = - sgn (strcmp s t)"
  using strcmp_neg [of s t] by (simp add: sgn_minus)

lemma compare_values_anti: "sgn (compare_values b a) = - sgn (compare_values a b)"
proof (cases "json_type_of a = json_type_of b")
  case True
  then show ?thesis
    by (cases a; cases b)
      (auto simp: compare_values_def cmp3_def sgn_minus intro: strcmp_flip dest: double_lt_asym)
next
  case False
  then show ?thesis
    by (simp add: compare_values_def sgn_if)
qed

lemma compare_values_same_trans:
  assumes "json_type_of a = json_type_of b" and "json_type_of b = json_type_of c" and "comparable b"
    and "compare_values a b \<le> 0" and "compare_values b c \<le> 0"
  shows "compare_values a c \<le> 0"
proof (cases a)
  case (JNumber x)
  with assms obtain y z where "b = JNumber y" "c = JNumber z"
    by (cases b; cases c) auto
  with assms JNumber show ?thesis
    using double_not_lt_trans [of y x z] double_lt_asym [of x z] double_lt_asym [of x y]
      double_lt_asym [of y z]
    by (auto simp: compare_values_def cmp3_def comparable_def split: if_splits)
next
  case (JString x)
  with assms obtain y z where "b = JString y" "c = JString z"
    by (cases b; cases c) auto
  with assms JString show ?thesis
    using strcmp_le_trans [of x y z] by (simp add: compare_values_def)
next
  case (JInteger x)
  with assms obtain y z where "b = JInteger y" "c = JInteger z"
    by (cases b; cases c) auto
  with assms JInteger show ?thesis
    by (auto simp: compare_values_def cmp3_def split: if_splits)
next
  case (JBoolean x)
  with assms obtain y z where "b = JBoolean y" "c = JBoolean z"
    by (cases b; cases c) auto
  with assms JBoolean show ?thesis
    by (auto simp: compare_values_def split: if_splits)
qed (use assms in \<open>auto simp: compare_values_def split: json.splits\<close>)

lemma compare_values_trans:
  assumes "comparable b" and "compare_values a b \<le> 0" and "compare_values b c \<le> 0"
  shows "compare_values a c \<le> 0"
proof (cases "json_type_of a = json_type_of b \<and> json_type_of b = json_type_of c")
  case True
  with assms compare_values_same_trans [of a b c] show ?thesis by simp
next
  case False
  have le: "type_rank (json_type_of x) \<le> type_rank (json_type_of y)" if "compare_values x y \<le> 0" for x y
    using that by (auto simp: compare_values_def split: if_splits)
  have "type_rank (json_type_of a) \<noteq> type_rank (json_type_of c)"
    using False le [OF assms(2)] le [OF assms(3)] by (auto simp: type_rank_inj [symmetric])
  with le [OF assms(2)] le [OF assms(3)] show ?thesis
    by (simp add: compare_values_def type_rank_inj)
qed

definition key_ok :: "string \<Rightarrow> json \<Rightarrow> bool" where
  "key_ok f d \<longleftrightarrow> (case query_extract_field (Some d) (Some f) of None \<Rightarrow> True | Some v \<Rightarrow> comparable v)"

lemma three_way_asc: "three_way (\<lambda>a b. compare_documents a b f True) (key_ok f)"
proof
  fix a b
  show "sgn (compare_documents b a f True) = - sgn (compare_documents a b f True)"
  proof (cases "query_extract_field (Some a) (Some f)"; cases "query_extract_field (Some b) (Some f)")
    fix x y
    assume "query_extract_field (Some a) (Some f) = Some x" "query_extract_field (Some b) (Some f) = Some y"
    then show ?thesis using compare_values_anti [of y x] by (simp add: compare_documents_def)
  qed (simp_all add: compare_documents_def)
next
  fix a b c
  assume ok: "key_ok f a" "key_ok f b" "key_ok f c"
    and le: "compare_documents a b f True \<le> 0" "compare_documents b c f True \<le> 0"
  show "compare_documents a c f True \<le> 0"
  proof (cases "query_extract_field (Some b) (Some f)")
    case None
    with le show ?thesis by (simp add: compare_documents_def split: option.split_asm)
  next
    case (Some y)
    have "compare_values x z \<le> 0" if "compare_values x y \<le> 0" "compare_values y z \<le> 0" for x z
      using compare_values_trans [OF _ that] ok(2) Some by (simp add: key_ok_def)
    with Some le show ?thesis
      by (cases "query_extract_field (Some a) (Some f)"; cases "query_extract_field (Some c) (Some f)")
        (simp_all add: compare_documents_def)
  qed
qed

lemma three_way_field: "three_way (\<lambda>a b. compare_documents a b f asc) (key_ok f)"
proof (cases asc)
  case False
  have "(\<lambda>a b. compare_documents a b f False) = (\<lambda>a b. - compare_documents a b f True)"
    by (intro ext) (simp add: compare_documents_def split: option.split)
  with False three_way_uminus [OF three_way_asc, of f] show ?thesis by simp
qed (simp add: three_way_asc)

text \<open>The comparison by all sort fields in turn, which \<open>needs_swap\<close> is the strict part of.\<close>

fun lex_cmp :: "(string \<times> bool) list \<Rightarrow> json \<Rightarrow> json \<Rightarrow> int" where
  "lex_cmp [] a b = 0"
| "lex_cmp ((f, asc) # fs) a b =
     (if compare_documents a b f asc \<noteq> 0 then compare_documents a b f asc else lex_cmp fs a b)"

definition sortable :: "(string \<times> bool) list \<Rightarrow> json \<Rightarrow> bool" where
  "sortable fs d \<longleftrightarrow> (\<forall>(f, asc)\<in>set fs. key_ok f d)"

lemma three_way_mono: "three_way c P \<Longrightarrow> (\<And>x. Q x \<Longrightarrow> P x) \<Longrightarrow> three_way c Q"
  unfolding three_way_def by blast

lemma three_way_lex_cmp: "three_way (lex_cmp fs) (sortable fs)"
proof (induction fs)
  case Nil
  show ?case by unfold_locales simp_all
next
  case (Cons x fs)
  obtain f asc where x: "x = (f, asc)" by force
  have eq: "lex_cmp (x # fs) =
      (\<lambda>a b. if compare_documents a b f asc \<noteq> 0 then compare_documents a b f asc else lex_cmp fs a b)"
    by (intro ext) (simp add: x)
  show ?case
    unfolding eq
    by (rule three_way_lex; rule three_way_mono [OF three_way_field] three_way_mono [OF Cons])
      (auto simp: sortable_def x)
qed

interpretation sort: three_way "lex_cmp fs" "sortable fs" for fs
  by (rule three_way_lex_cmp)

lemma needs_swap_lex: "needs_swap fs = (\<lambda>a b. 0 < lex_cmp fs a b)"
proof (induction fs)
  case (Cons x fs)
  obtain f asc where "x = (f, asc)" by force
  then show ?case using Cons by (simp add: fun_eq_iff Let_def)
qed (simp add: fun_eq_iff)

end
