(* ===== verification/Query_Props.thy ===== *)
theory Query_Props
  imports Query_Sem Query_Sort
begin

text \<open>
  Properties of query documents: what a parsed query matches, projection, sorting,
  pagination and execution.
\<close>

section \<open>Sorting\<close>

text \<open>C3. \<^verbatim>\<open>query_apply_sort\<close> returns, for a non-empty result and sort keys that are not NaN,
  a permutation of the documents in the order of the sort fields, and keeps the order of
  documents that agree on all of them.\<close>

theorem query_apply_sort_correct:
  assumes "es \<noteq> []" and "docs \<noteq> []" and "length docs < 2 ^ 64"
    and "\<forall>d\<in>set docs. sortable (sort_fields es) d"
  shows "\<exists>ds. query_apply_sort (Some (JArray docs)) (Some (JObject es)) = Some (JArray ds) \<and>
    mset ds = mset docs \<and>
    sorted_wrt (\<lambda>a b. lex_cmp (sort_fields es) a b \<le> 0) ds \<and>
    (\<forall>x. sortable (sort_fields es) x \<longrightarrow>
       filter (\<lambda>y. lex_cmp (sort_fields es) x y = 0) ds =
       filter (\<lambda>y. lex_cmp (sort_fields es) x y = 0) docs)"
  using sort.bubble_sort_sorts [OF assms(4,3,2)] assms(1)
  by (auto simp: query_apply_sort_def needs_swap_lex)

definition sort_sample :: "json list" where
  "sort_sample = [JObject [(''a'', JInteger 2)], JObject [(''a'', JInteger 1)]]"

lemma sort_sample_ok:
  "\<forall>d\<in>set sort_sample. sortable (sort_fields [(''a'', JInteger 1)]) d"
  by (simp add: sort_sample_def sortable_def sort_fields_def key_ok_def query_extract_field_def comparable_def)

theorem query_apply_sort_correct_witness:
  "\<exists>ds. query_apply_sort (Some (JArray sort_sample)) (Some (JObject [(''a'', JInteger 1)])) =
      Some (JArray ds) \<and> mset ds = mset sort_sample"
  using query_apply_sort_correct [OF _ _ _ sort_sample_ok] by (auto simp: sort_sample_def)

lemma sum_countdown: "(\<Sum>i<n. n - i) * 2 = n * (n + 1)" for n :: nat
proof (induction n)
  case (Suc n)
  have "(\<Sum>i<Suc n. Suc n - i) = Suc n + (\<Sum>i<n. n - i)"
    by (subst sum.lessThan_Suc_shift) simp
  with Suc show ?case by simp
qed simp

lemma empty_bounds: "outer_bound 0 = 2 ^ 64 - 1" "i < 2 ^ 64 - 1 \<Longrightarrow> inner_bound 0 i = 2 ^ 64 - 1 - i"
proof -
  show "outer_bound 0 = 2 ^ 64 - 1"
    by (simp add: outer_bound_def unsigned_minus_1_eq_mask mask_eq_exp_minus_1)
  assume i: "i < 2 ^ 64 - 1"
  have "unat (of_nat (2 ^ 64 - 1 - i) :: c_size) = 2 ^ 64 - 1 - i"
    by (simp only: unsigned_of_nat of_nat_id) (rule take_bit_nat_eq_self, simp)
  moreover have "(of_nat 0 - of_nat i - 1 :: c_size) = of_nat (2 ^ 64 - 1 - i)"
    using i by (simp add: of_nat_diff)
  ultimately show "inner_bound 0 i = 2 ^ 64 - 1 - i" by (simp add: inner_bound_def)
qed

lemma sort_comparisons_0: "sort_comparisons 0 = (2 ^ 64 - 1) * 2 ^ 63"
proof -
  define N :: nat where "N = 2 ^ 64 - 1"
  have "sort_comparisons 0 = (\<Sum>i<N. N - i)"
    unfolding sort_comparisons_def empty_bounds(1) N_def [symmetric]
    by (rule sum.cong) (simp_all add: empty_bounds(2) N_def)
  then have "sort_comparisons 0 * 2 = N * (N + 1)" using sum_countdown [of N] by simp
  then show ?thesis by (simp add: N_def)
qed

text \<open>Sorting an empty result makes (2^64 - 1) * 2^63 comparisons, because the loop bound
  \<^verbatim>\<open>result_size - 1\<close> wraps around: a query with a sort that matches nothing does not
  come back in practice.\<close>

theorem query_apply_sort_empty_wraps: "sort_comparisons 0 = (2 ^ 64 - 1) * 2 ^ 63"
  by (rule sort_comparisons_0)

section \<open>Projection\<close>

lemma json_wf_clone_entry: "json_wf (JObject doc) \<Longrightarrow> (k, v) \<in> set doc \<Longrightarrow> json_clone v = v"
  by (auto simp: list_all_iff json_clone_wf)

lemma projection_mode_stays: "projection_mode es (Some c) = Some (Some m) \<Longrightarrow> c = m"
  by (induction es "Some c" rule: projection_mode.induct) (auto split: if_splits option.splits)

lemma projection_mode_flag:
  "projection_mode es m0 = Some (Some m) \<Longrightarrow> obj_get es k = Some v \<Longrightarrow> k \<noteq> ''uuid'' \<Longrightarrow>
   projection_flag v = Some b \<Longrightarrow> b = m"
proof (induction es arbitrary: m0)
  case (Cons e es)
  obtain k' v' where e: "e = (k', v')" by force
  show ?case
  proof (cases "k' = k")
    case True
    with Cons.prems e have "projection_mode es (Some b) = Some (Some m)"
      by (auto split: if_splits option.splits)
    then show ?thesis by (rule projection_mode_stays)
  next
    case False
    with Cons.prems e have "\<exists>m1. projection_mode es m1 = Some (Some m)"
      by (auto split: if_splits option.splits)
    with Cons.IH Cons.prems(2-) False e show ?thesis by auto
  qed
qed simp

definition listed :: "entries \<Rightarrow> string \<Rightarrow> bool" where
  "listed es k \<longleftrightarrow> (\<exists>v. obj_get es k = Some v \<and> projection_flag v \<noteq> None)"

lemma include_field_listed:
  assumes "projection_mode es None = Some (Some m)" and "k \<noteq> ''uuid''"
  shows "(m \<and> include_field es m k \<or> \<not> m \<and> \<not> include_field es m k) \<longleftrightarrow> listed es k"
  using projection_mode_flag [OF assms(1) _ assms(2)]
  by (auto simp: include_field_def listed_def split: option.splits)

lemma project_fields_spec:
  assumes "projection_mode es None = Some (Some m)"
    and "json_wf (JObject doc)" and "json_wf (JObject rs)"
  shows "\<exists>qs. project_fields es m doc (Some (JObject rs)) = Some (JObject qs) \<and> json_wf (JObject qs) \<and>
    (\<forall>k. obj_get qs k =
       (if k \<noteq> ''uuid'' \<and> listed es k \<and> obj_get doc k \<noteq> None then obj_get doc k else obj_get rs k))"
  using assms(2,3)
proof (induction doc arbitrary: rs)
  case (Cons kv doc)
  obtain k v where kv: "kv = (k, v)" by force
  have wf: "json_wf (JObject doc)" "json_wf v" "obj_get doc k = None" "json_clone v = v"
    using Cons.prems(1) kv by (auto simp: obj_get_None_iff json_clone_wf)
  show ?case
  proof (cases "k \<noteq> ''uuid'' \<and> listed es k")
    case True
    have "json_wf (JObject (obj_set rs k v))" using json_wf_obj_set Cons.prems(2) wf(2) by blast
    from Cons.IH [OF wf(1) this] True kv wf include_field_listed [OF assms(1), of k] show ?thesis
      by (auto simp: obj_get_set Let_def simp del: json_wf.simps)
  next
    case False
    from Cons.IH [OF wf(1) Cons.prems(2)] False kv include_field_listed [OF assms(1), of k] show ?thesis
      by (auto simp: Let_def simp del: json_wf.simps)
  qed
qed simp

lemma apply_projection_spec:
  assumes mode: "projection_mode es None = Some (Some m)" and wf: "json_wf (JObject doc)"
  shows "\<exists>qs. query_apply_projection (Some (JObject doc)) (Some (JObject es)) = Some (JObject qs) \<and>
    json_wf (JObject qs) \<and>
    (\<forall>k. obj_get qs k =
       (if (if k = ''uuid'' then include_id es else listed es k) then obj_get doc k else None))"
proof -
  let ?rs = "if include_id es then (case obj_get doc ''uuid'' of None \<Rightarrow> [] | Some u \<Rightarrow> [(''uuid'', u)]) else []"
  have u: "json_wf u \<and> json_clone u = u" if "obj_get doc ''uuid'' = Some u" for u
    using json_wf_obj_get [OF wf that] json_clone_wf by blast
  have rs: "json_wf (JObject ?rs)" using u by (auto split: option.splits)
  have "query_apply_projection (Some (JObject doc)) (Some (JObject es)) =
      project_fields es m doc (Some (JObject ?rs))"
    using mode u by (auto simp: query_apply_projection_def json_create_object_def split: option.splits)
  moreover obtain qs where "project_fields es m doc (Some (JObject ?rs)) = Some (JObject qs)"
    and "json_wf (JObject qs)"
    and "\<forall>k. obj_get qs k =
       (if k \<noteq> ''uuid'' \<and> listed es k \<and> obj_get doc k \<noteq> None then obj_get doc k else obj_get ?rs k)"
    using project_fields_spec [OF mode wf rs] by blast
  moreover have "obj_get ?rs k = (if k = ''uuid'' \<and> include_id es then obj_get doc k else None)" for k
    by (auto split: option.splits)
  ultimately show ?thesis by auto
qed

text \<open>A projection that is not mixed keeps exactly the fields it lists (and \<^verbatim>\<open>uuid\<close> unless
  that is switched off), in both modes: a projection that excludes fields returns the
  excluded fields and drops all the others.\<close>

theorem query_apply_projection_keeps_listed:
  assumes "projection_mode es None = Some (Some m)" and "json_wf (JObject doc)"
  shows "\<exists>qs. query_apply_projection (Some (JObject doc)) (Some (JObject es)) = Some (JObject qs) \<and>
    json_wf (JObject qs) \<and>
    (\<forall>k. obj_get qs k =
       (if (if k = ''uuid'' then include_id es else listed es k) then obj_get doc k else None))"
  by (rule apply_projection_spec [OF assms])

theorem query_apply_projection_keeps_listed_witness:
  "\<exists>qs. query_apply_projection (Some (JObject [(''name'', JNull), (''password'', JBoolean True)]))
      (Some (JObject [(''password'', JInteger 0)])) = Some (JObject qs) \<and>
    obj_get qs ''password'' = Some (JBoolean True) \<and> obj_get qs ''name'' = None"
proof -
  have "projection_mode [(''password'', JInteger 0)] None = Some (Some False)"
    by (simp add: projection_flag_def)
  from query_apply_projection_keeps_listed [OF this, of "[(''name'', JNull), (''password'', JBoolean True)]"]
  show ?thesis by (force simp: listed_def projection_flag_def)
qed

section \<open>What a query matches\<close>



lemma first_logical_in: "first_logical es = Some (k, v) \<Longrightarrow>
    (k, v) \<in> set es \<and> is_logical (query_parse_operator (Some k))"
  by (auto simp: first_logical_def find_Some_iff dest: nth_mem)

lemma query_parse_expr:
  assumes "json_wf (JObject es)" and "es \<noteq> []" and "obj_get es ''query'' = None"
  shows "error (query_parse stack (Some (JObject es))) = None \<and>
    query_match_document (expr (query_parse stack (Some (JObject es)))) doc =
      (case first_logical es of
         Some (k, v) \<Rightarrow> logical_holds k v doc
       | None \<Rightarrow> conditions_hold es doc)"
proof (cases "first_logical es")
  case None
  with assms parse_match(5) [OF assms(1), of doc] show ?thesis
    by (simp add: query_parse_def Let_def buffer_alloc_ok_def del: query_match_document.simps)
next
  case (Some kv)
  obtain k v where kv: "kv = (k, v)" by force
  have "json_wf v" "is_logical (query_parse_operator (Some k))"
    using first_logical_in [of es k v] Some kv assms(1) by (auto simp: list_all_iff)
  from parse_match(2) [OF this, of doc] Some kv assms show ?thesis
    by (simp add: query_parse_def Let_def del: query_match_document.simps)
qed


definition mixed_query :: entries where
  "mixed_query = [(''owner'', JString ''me''), (''$or'', JArray [JObject [(''a'', JInteger 1)]])]"


lemma comparison_None_constant:
  "query_match_document (parse_comparison_expr None v) d = query_match_document (parse_comparison_expr None v) d'"
proof (cases v)
  case (JObject es)
  have ind: "query_match_document (Some (query_create_field_expr None op w)) d =
      query_match_document (Some (query_create_field_expr None op w)) d'" for op w
    by (auto simp: query_create_field_expr_def extract_None split: option.split)
  then have all: "match_all (map (\<lambda>(k, w). Some (query_create_field_expr None (query_parse_operator (Some k)) (Some w))) gs) d =
      match_all (map (\<lambda>(k, w). Some (query_create_field_expr None (query_parse_operator (Some k)) (Some w))) gs) d'" for gs
    by (induction gs) (auto simp del: query_match_document.simps)
  show ?thesis
    using JObject ind all [of es]
    by (auto simp: parse_comparison_expr.simps simp del: query_match_document.simps(2) split: list.splits)
qed (simp_all add: parse_comparison_expr.simps)

text \<open>A \<^verbatim>\<open>$not\<close> filter does not look at the document: its operators are applied to no
  field, so it accepts every document or none.\<close>

theorem not_filter_ignores_document:
  "query_match_document (parse_field_expr ''$not'' v) d = query_match_document (parse_field_expr ''$not'' v) d'"
proof -
  have op: "query_parse_operator (Some ''$not'') = OP_NOT"
    by (simp add: query_parse_operator_lookup operators_def)
  have neg: "query_match_document (map_option (\<lambda>c. query_create_logical_expr OP_NOT [Some c]) x) e =
      (x \<noteq> None \<and> \<not> query_match_document x e)" for x e
    by (cases x) simp_all
  show ?thesis
    using comparison_None_constant [of v d d']
    by (cases v) (simp_all add: parse_field_expr.simps parse_logical_expr.simps op is_logical_def
        starts_dollar_def neg del: query_match_document.simps(2))
qed

text \<open>The empty query, which should match everything, is refused: \<^verbatim>\<open>BUFFER_ALLOC(0)\<close>
  returns \<^verbatim>\<open>NULL\<close> and the parser reports that memory ran out.\<close>

theorem query_parse_empty:
  "expr (query_parse stack (Some (JObject []))) = None \<and>
   error (query_parse stack (Some (JObject []))) = Some ''Out of memory''"
  by (simp add: query_parse_def first_logical_def buffer_alloc_ok_def Let_def)

text \<open>On every value, and on a missing one, \<^verbatim>\<open>$ne\<close> is the negation of \<^verbatim>\<open>$eq\<close>; on a
  value that is there \<^verbatim>\<open>$nin\<close> is the negation of \<^verbatim>\<open>$in\<close>, but on a missing field both fail.\<close>

theorem negated_operators:
  "match_comparison_operator OP_NE f q = (\<not> match_comparison_operator OP_EQ f q) \<and>
   match_comparison_operator OP_NIN (Some x) q = (\<not> match_comparison_operator OP_IN (Some x) q) \<and>
   \<not> match_comparison_operator OP_NIN None q \<and> \<not> match_comparison_operator OP_IN None q"
  by (cases f) (auto simp: match_comparison_operator_def list_all_iff list_ex_iff split: option.splits)

end
