(* ===== verification/Query_Page.thy ===== *)
theory Query_Page
  imports Query_Sem Query_Sort
begin

text \<open>
  Properties of pagination and of the execution of a query: the slice of the matches a
  query returns, the page numbers it reports, and what the options of a request become.
\<close>

section \<open>Signed 32-bit arithmetic\<close>

lemma sint_of_int32: "- (2 ^ 31) \<le> k \<Longrightarrow> k < 2 ^ 31 \<Longrightarrow> sint (of_int k :: c_int) = k"
  by (simp add: signed_of_int signed_take_bit_int_eq_self)

lemma sint_of_nat32: "n < 2 ^ 31 \<Longrightarrow> sint (of_nat n :: c_int) = int n"
  using sint_of_int32 [of "int n"] by simp

lemma sint_add32:
  assumes "- (2 ^ 31) \<le> sint a + sint b" and "sint a + sint b < 2 ^ 31"
  shows "sint (a + b :: c_int) = sint a + sint b"
  using sint_of_int32 [OF assms] by simp

lemma sint_range32: "- (2 ^ 31) \<le> sint (a :: c_int)" "sint (a :: c_int) < 2 ^ 31"
  using sint_ge [of a] sint_lt [of a] by simp_all

lemma c_int_div_pos:
  assumes "0 \<le> sint a" and "0 < sint b"
  shows "c_int_div a b = Inr (of_int (sint a div sint b))"
    and "sint (of_int (sint a div sint b) :: c_int) = sint a div sint b"
proof -
  have "b \<noteq> 0" and "b \<noteq> - 1" using assms(2) by auto
  then show "c_int_div a b = Inr (of_int (sint a div sint b))"
    using assms by (simp add: c_int_div_def sgn_if)
  have "sint a div sint b \<le> sint a"
    using zdiv_mono2 [of "sint a" 1 "sint b"] assms by simp
  moreover have "0 \<le> sint a div sint b" using assms by (simp add: pos_imp_zdiv_nonneg_iff)
  ultimately show "sint (of_int (sint a div sint b) :: c_int) = sint a div sint b"
    using sint_range32(2) [of a] by (intro sint_of_int32) auto
qed

lemma ceiling_next_page:
  fixes n s p :: int
  assumes "0 < s"
  shows "p < (n + s - 1) div s \<longleftrightarrow> p * s < n"
proof -
  have "p < (n + s - 1) div s \<longleftrightarrow> p + 1 \<le> (n + s - 1) div s" by (simp only: add1_zle_eq)
  also have "\<dots> \<longleftrightarrow> (p + 1) * s \<le> n + s - 1"
  proof
    assume "p + 1 \<le> (n + s - 1) div s"
    then have "(p + 1) * s \<le> (n + s - 1) div s * s" using assms by simp
    also have "\<dots> \<le> n + s - 1" using pos_mod_sign [OF assms, of "n + s - 1"]
      by (simp add: minus_mod_eq_div_mult [symmetric])
    finally show "(p + 1) * s \<le> n + s - 1" .
  next
    assume "(p + 1) * s \<le> n + s - 1"
    from zdiv_mono1 [OF this assms] show "p + 1 \<le> (n + s - 1) div s" using assms by simp
  qed
  finally show ?thesis by (simp add: distrib_right)
qed

section \<open>Slices\<close>

lemma page_slice_take_drop:
  assumes "0 \<le> sint a" and "sint b \<le> int (length xs)"
  shows "page_slice xs a b = take (nat (sint b - sint a)) (drop (nat (sint a)) xs)"
proof (rule nth_equalityI)
  show len: "length (page_slice xs a b) = length (take (nat (sint b - sint a)) (drop (nat (sint a)) xs))"
    using assms by (simp add: page_slice_def)
  fix i
  assume "i < length (page_slice xs a b)"
  then have i: "int i < sint b - sint a" by (simp add: page_slice_def)
  then have "nat (sint a + int i) = nat (sint a) + i" using assms(1) by simp
  moreover have "[sint a..sint b - 1] ! i = sint a + int i"
    by (rule nth_upto) (use i in simp)
  ultimately show "page_slice xs a b ! i = take (nat (sint b - sint a)) (drop (nat (sint a)) xs) ! i"
    using i assms by (simp add: page_slice_def)
qed

definition slice :: "nat \<Rightarrow> nat \<Rightarrow> 'a list \<Rightarrow> 'a list" where
  "slice sk lm xs = (if lm = 0 then drop sk xs else take lm (drop sk xs))"

lemma page_slice_slice:
  assumes "0 \<le> sint sk" and "0 \<le> sint lm" and "sint sk + sint lm < 2 ^ 31" and "length xs < 2 ^ 31"
  shows "page_slice xs sk (page_end (length xs) sk lm) = slice (nat (sint sk)) (nat (sint lm)) xs"
proof -
  have n: "sint (c_int_of_size (length xs)) = int (length xs)"
    using assms(4) by (simp add: c_int_of_size_def sint_of_nat32)
  have s: "sint (sk + lm) = sint sk + sint lm" using assms by (intro sint_add32) simp_all
  have e: "sint (page_end (length xs) sk lm) =
      (if 0 < sint lm \<and> sint sk + sint lm < int (length xs) then sint sk + sint lm else int (length xs))"
    by (simp add: page_end_def Let_def n s)
  have "page_slice xs sk (page_end (length xs) sk lm) =
      take (nat (sint (page_end (length xs) sk lm) - sint sk)) (drop (nat (sint sk)) xs)"
    by (rule page_slice_take_drop) (use assms(1) in \<open>simp_all add: e\<close>)
  also have "\<dots> = slice (nat (sint sk)) (nat (sint lm)) xs"
    using assms(1,2) by (auto simp: e slice_def nat_le_iff)
  finally show ?thesis .
qed

lemma concat_slices:
  "concat (map (\<lambda>i. take s (drop (i * s) xs)) [0..<n]) = take (n * s) xs"
proof (induction n)
  case (Suc n)
  have "take (n * s) xs @ take s (drop (n * s) xs) = take (n * s + s) xs" by (simp only: take_add)
  with Suc show ?case by (simp add: add.commute)
qed simp

section \<open>Execution\<close>

lemma bubble_sort_length [simp]: "length (bubble_sort sw xs) = length xs"
proof -
  have "length (foldl (\<lambda>ds i. bubble_pass sw ds (f i)) xs is) = length xs" for f :: "nat \<Rightarrow> nat" and "is"
    by (induction "is" arbitrary: xs) simp_all
  then show ?thesis by (simp add: bubble_sort_def)
qed

lemma sorted_matches_length [simp]: "length (sorted_matches opts ms) = length ms"
  by (simp add: sorted_matches_def query_apply_sort_def split: option.split json.split)

lemma sorted_matches_None [simp]: "sort_spec o' = None \<Longrightarrow> sorted_matches (Some o') ms = ms"
  by (simp add: sorted_matches_def query_apply_sort_def)

lemma matching_documents_wf:
  "list_all json_wf ds \<Longrightarrow> matching_documents e ds = filter (query_match_document (Some e)) ds"
  by (induction ds) (simp_all add: matching_documents_def json_clone_wf)

lemma length_matching: "length (matching_documents e ds) \<le> length ds"
  by (simp add: matching_documents_def)

lemma clamp_nonneg_id [simp]: "0 \<le> sint x \<Longrightarrow> clamp_nonneg x = x"
  by (simp add: clamp_nonneg_def)

lemma clamp_nonneg_ge [simp]: "0 \<le> sint (clamp_nonneg x)"
  by (simp add: clamp_nonneg_def)

lemma query_execute_documents:
  assumes "length ds < 2 ^ 31" and "0 \<le> sint (skip o')" and "0 \<le> sint (limit o')"
    and "sint (skip o') + sint (limit o') < 2 ^ 31"
    and "query_execute (Some e) (Some (JArray ds)) (Some o') = Inr r"
  shows "documents r = map (\<lambda>d. the (project_one (Some o') d))
      (slice (nat (sint (skip o'))) (nat (sint (limit o'))) (sorted_matches (Some o') (matching_documents e ds)))"
proof -
  have "length (sorted_matches (Some o') (matching_documents e ds)) < 2 ^ 31"
    using assms(1) length_matching [of e ds] by simp
  from page_slice_slice [OF assms(2-4) this] assms(5) assms(2,3) show ?thesis
    by (auto simp: query_execute_def Let_def split: sum.splits)
qed



section \<open>Pagination\<close>

lemma pagination_offset:
  assumes "pagination_type o' = PAGINATION_OFFSET" and "0 < sint tot" and "0 < sint (page_size o')"
    and "sint tot + sint (page_size o') \<le> 2 ^ 31"
  shows "\<exists>p. query_create_pagination_info (Some o') tot docs = Inr (Some p) \<and>
    sint (pi_total_pages p) = (sint tot + sint (page_size o') - 1) div sint (page_size o') \<and>
    (pi_has_next_page p \<longleftrightarrow> sint (page o') * sint (page_size o') < sint tot) \<and>
    (pi_has_prev_page p \<longleftrightarrow> 1 < sint (page o')) \<and> pi_page p = page o'"
proof -
  let ?s = "page_size o'"
  have eq: "tot + ?s - 1 = (of_int (sint tot + sint ?s - 1) :: c_int)" by simp
  have n: "sint (tot + ?s - 1) = sint tot + sint ?s - 1"
    unfolding eq by (rule sint_of_int32) (use assms in simp_all)
  from c_int_div_pos [of "tot + ?s - 1" ?s] assms(2,3)
  have d: "c_int_div (tot + ?s - 1) ?s = Inr (of_int ((sint tot + sint ?s - 1) div sint ?s))"
    "sint (of_int ((sint tot + sint ?s - 1) div sint ?s) :: c_int) =
      (sint tot + sint ?s - 1) div sint ?s"
    by (simp_all add: n)
  with assms(1,2) ceiling_next_page [OF assms(3)] show ?thesis
    by (simp add: query_create_pagination_info_def Let_def)
qed

text \<open>With offset pagination and no overflow the number of pages is the quotient rounded
  up, and a next page is announced exactly when documents remain behind this one.\<close>

theorem query_pagination_pages:
  assumes "pagination_type o' = PAGINATION_OFFSET" and "0 < sint tot" and "0 < sint (page_size o')"
    and "sint tot + sint (page_size o') \<le> 2 ^ 31"
  shows "\<exists>p. query_create_pagination_info (Some o') tot docs = Inr (Some p) \<and>
    sint (pi_total_pages p) = (sint tot + sint (page_size o') - 1) div sint (page_size o') \<and>
    (pi_has_next_page p \<longleftrightarrow> sint (page o') * sint (page_size o') < sint tot) \<and>
    (pi_has_prev_page p \<longleftrightarrow> 1 < sint (page o')) \<and> pi_page p = page o'"
  by (rule pagination_offset [OF assms])

theorem query_pagination_pages_witness:
  "\<exists>p. query_create_pagination_info
      (Some (default_options\<lparr>pagination_type := PAGINATION_OFFSET, page_size := 10, page := 3\<rparr>)) 21 None =
      Inr (Some p) \<and> sint (pi_total_pages p) = 3 \<and> \<not> pi_has_next_page p"
  using query_pagination_pages
    [of "default_options\<lparr>pagination_type := PAGINATION_OFFSET, page_size := 10, page := 3\<rparr>" 21 None]
  by auto

lemma options_page_only:
  "query_parse_options (Some (JObject [(''page'', JInteger n)])) =
     default_options\<lparr>page := (if sint (ucast n :: c_int) < 1 then 1 else ucast n),
       pagination_type := PAGINATION_OFFSET\<rparr>"
  by (simp add: query_parse_options_def Let_def int_or_number_def parse_page_size_def object_option_def
      default_options_def)

text \<open>A request for a page that names no page size divides by zero as soon as one document
  matches.\<close>

theorem query_execute_page_without_size:
  assumes "length ds < 2 ^ 31" and "\<exists>d\<in>set ds. query_match_document (Some e) d"
  shows "query_execute (Some e) (Some (JArray ds))
      (Some (query_parse_options (Some (JObject [(''page'', JInteger n)])))) = Inl Division_Fault"
proof -
  have "0 < length (matching_documents e ds)"
    using assms(2) by (auto simp: matching_documents_def filter_empty_conv)
  moreover have "length (matching_documents e ds) < 2 ^ 31"
    using length_matching [of e ds] assms(1) by simp
  ultimately have "0 < sint (c_int_of_size (length (matching_documents e ds)))"
    by (simp add: c_int_of_size_def sint_of_nat32)
  then show ?thesis
    by (simp add: query_execute_def Let_def options_page_only query_create_pagination_info_def
        c_int_div_def default_options_def)
qed

theorem query_execute_page_without_size_witness:
  "query_execute (Some (query_create_logical_expr OP_AND [])) (Some (JArray [JNull]))
      (Some (query_parse_options (Some (JObject [(''page'', JInteger 2)])))) = Inl Division_Fault"
  by (rule query_execute_page_without_size)
    (simp_all add: query_create_logical_expr_def query_create_expr_def)

text \<open>A request for page \<open>p\<close> of \<open>s\<close> documents.\<close>

definition page_request :: "nat \<Rightarrow> nat \<Rightarrow> json" where
  "page_request p s = JObject [(''page'', JInteger (of_nat p)), (''page_size'', JInteger (of_nat s))]"

lemma ucast_of_nat32: "n < 2 ^ 31 \<Longrightarrow> (ucast (of_nat n :: c_int64) :: c_int) = of_nat n"
  by (simp add: unsigned_of_nat take_bit_nat_eq_self)

lemma page_request_options:
  assumes p: "1 \<le> p" "p < 2 ^ 31" and s: "1 \<le> s" "s < 2 ^ 31"
  shows "query_parse_options (Some (page_request p s)) =
    default_options\<lparr>page := of_nat p, page_size := of_nat s, limit := of_nat s,
      skip := (of_nat p - 1) * of_nat s, pagination_type := PAGINATION_OFFSET\<rparr>"
  using assms
  by (simp add: query_parse_options_def Let_def int_or_number_def parse_page_size_def object_option_def
      default_options_def page_request_def ucast_of_nat32 sint_of_nat32)

lemma query_execute_returns:
  assumes "\<And>x. \<exists>pg. query_create_pagination_info (Some o')
      (c_int_of_size (length (matching_documents e ds))) x = Inr pg"
  shows "\<exists>r. query_execute (Some e) (Some (JArray ds)) (Some o') = Inr r"
proof (cases "query_execute (Some e) (Some (JArray ds)) (Some o')")
  case (Inl f)
  then have "\<exists>x. query_create_pagination_info (Some o')
      (c_int_of_size (length (matching_documents e ds))) x = Inl f"
    by (auto simp: query_execute_def Let_def split: sum.splits if_splits)
  with assms show ?thesis by (metis sum.distinct(1))
qed simp

lemma page_request_execute:
  assumes p: "1 \<le> p" and s: "1 \<le> s" and ps: "p * s < 2 ^ 31"
    and ds: "length ds + s \<le> 2 ^ 31" "list_all json_wf ds"
  shows "\<exists>r. query_execute (Some e) (Some (JArray ds)) (Some (query_parse_options (Some (page_request p s)))) =
      Inr r \<and> documents r = take s (drop ((p - 1) * s) (filter (query_match_document (Some e)) ds))"
proof -
  let ?o = "query_parse_options (Some (page_request p s))"
  let ?ms = "filter (query_match_document (Some e)) ds"
  have le: "p \<le> p * s" "s \<le> p * s" using p s by simp_all
  then have small: "p < 2 ^ 31" "s < 2 ^ 31" using ps by linarith+
  note o = page_request_options [OF p small(1) s small(2)]
  have sk: "(of_nat p - 1) * of_nat s = (of_nat ((p - 1) * s) :: c_int)"
    using p by (simp add: of_nat_diff)
  have le': "(p - 1) * s + s = p * s" using p by (cases p) simp_all
  then have lt: "(p - 1) * s < 2 ^ 31" using ps by linarith
  have f: "pagination_type ?o = PAGINATION_OFFSET" "sint (page_size ?o) = int s" "sint (limit ?o) = int s"
    "sint (skip ?o) = int ((p - 1) * s)" "sort_spec ?o = None" "projection ?o = None"
    unfolding o sk using small(2) lt by (simp_all add: sint_of_nat32 default_options_def del: of_nat_mult)
  have len: "length (matching_documents e ds) < 2 ^ 31"
    using length_matching [of e ds] ds(1) s by linarith
  then have t: "sint (c_int_of_size (length (matching_documents e ds))) = int (length (matching_documents e ds))"
    by (simp add: c_int_of_size_def sint_of_nat32)
  have "\<exists>pg. query_create_pagination_info (Some ?o) (c_int_of_size (length (matching_documents e ds))) x = Inr pg"
    for x
  proof (cases "length (matching_documents e ds) = 0")
    case True
    then show ?thesis by (simp add: query_create_pagination_info_def c_int_of_size_def)
  next
    case False
    with pagination_offset [of ?o "c_int_of_size (length (matching_documents e ds))" x] f s t ds(1)
      length_matching [of e ds]
    show ?thesis by auto
  qed
  then obtain r where r: "query_execute (Some e) (Some (JArray ds)) (Some ?o) = Inr r"
    using query_execute_returns by blast
  have "int ((p - 1) * s) + int s < 2 ^ 31" using le' ps by (metis of_nat_add of_nat_less_numeral_power_cancel_iff)
  then have "documents r = map (\<lambda>d. the (project_one (Some ?o) d))
      (slice (nat (sint (skip ?o))) (nat (sint (limit ?o))) (sorted_matches (Some ?o) (matching_documents e ds)))"
    using ds(1) s f by (intro query_execute_documents [OF _ _ _ _ r]) simp_all
  also have "\<dots> = map json_clone (take s (drop ((p - 1) * s) ?ms))"
    using f s by (simp add: project_one_def slice_def matching_documents_wf [OF ds(2)] del: of_nat_mult)
  also have "\<dots> = take s (drop ((p - 1) * s) ?ms)"
    using ds(2) by (intro map_idI json_clone_wf) (auto simp: list_all_iff dest!: in_set_takeD in_set_dropD)
  finally show ?thesis using r by blast
qed

text \<open>Page \<open>p\<close> of size \<open>s\<close> holds the matching documents from position \<open>(p - 1) * s\<close> on, at most
  \<open>s\<close> of them, in the order of the collection.\<close>

theorem query_execute_page:
  assumes "1 \<le> p" and "1 \<le> s" and "p * s < 2 ^ 31"
    and "length ds + s \<le> 2 ^ 31" and "list_all json_wf ds"
  shows "\<exists>r. query_execute (Some e) (Some (JArray ds)) (Some (query_parse_options (Some (page_request p s)))) =
      Inr r \<and> documents r = take s (drop ((p - 1) * s) (filter (query_match_document (Some e)) ds))"
  by (rule page_request_execute [OF assms])

theorem query_execute_page_witness:
  "\<exists>r. query_execute (Some (query_create_logical_expr OP_AND [])) (Some (JArray [JNull, JBoolean True]))
      (Some (query_parse_options (Some (page_request 2 1)))) = Inr r \<and> documents r = [JBoolean True]"
  using query_execute_page [of 2 1 "[JNull, JBoolean True]" "query_create_logical_expr OP_AND []"]
  by (simp add: query_create_logical_expr_def query_create_expr_def)

definition page_documents :: "query_expr \<Rightarrow> json list \<Rightarrow> nat \<Rightarrow> nat \<Rightarrow> json list" where
  "page_documents e ds s p =
     (case query_execute (Some e) (Some (JArray ds)) (Some (query_parse_options (Some (page_request p s)))) of
        Inr r \<Rightarrow> documents r
      | Inl _ \<Rightarrow> [])"

text \<open>The pages put one after the other are the matching documents, each exactly once and
  in order.\<close>

theorem query_pages_cover:
  assumes "1 \<le> s" and "list_all json_wf ds" and "length ds \<le> n * s"
    and "n * s < 2 ^ 31" and "length ds + s \<le> 2 ^ 31"
  shows "concat (map (page_documents e ds s) [1..<Suc n]) = filter (query_match_document (Some e)) ds"
proof -
  let ?ms = "filter (query_match_document (Some e)) ds"
  have "page_documents e ds s (Suc i) = take s (drop (i * s) ?ms)" if "i < n" for i
  proof -
    have "Suc i * s \<le> n * s" using that by (intro mult_right_mono) simp_all
    then have "Suc i * s < 2 ^ 31" using assms(4) by linarith
    from page_request_execute [OF _ assms(1) this assms(5,2), of e] show ?thesis
      by (auto simp: page_documents_def)
  qed
  then have "map (page_documents e ds s) [1..<Suc n] = map (\<lambda>i. take s (drop (i * s) ?ms)) [0..<n]"
    by (simp only: One_nat_def map_Suc_upt [symmetric] map_map) simp
  then have "concat (map (page_documents e ds s) [1..<Suc n]) = take (n * s) ?ms"
    by (simp only: concat_slices)
  moreover have "length ?ms \<le> n * s" using assms(3) length_filter_le [of _ ds] le_trans by blast
  ultimately show ?thesis by simp
qed

theorem query_pages_cover_witness:
  "concat (map (page_documents (query_create_logical_expr OP_AND []) [JNull, JBoolean True] 1) [1..<Suc 2]) =
     [JNull, JBoolean True]"
  by (subst query_pages_cover) (simp_all add: query_create_logical_expr_def query_create_expr_def)

text \<open>A cursor changes nothing: the documents of the answer do not depend on it, so following
  \<^verbatim>\<open>next_cursor\<close> returns the first page again.\<close>

theorem query_execute_ignores_cursor:
  "map_sum id documents (query_execute e docs (Some (o'\<lparr>cursor := c, pagination_type := PAGINATION_CURSOR\<rparr>))) =
   map_sum id documents (query_execute e docs (Some (o'\<lparr>cursor := None, pagination_type := PAGINATION_CURSOR\<rparr>)))"
proof -
  have "sorted_matches (Some (o'\<lparr>cursor := c, pagination_type := t\<rparr>)) ms = sorted_matches (Some o') ms"
    "project_one (Some (o'\<lparr>cursor := c, pagination_type := t\<rparr>)) d = project_one (Some o') d" for c t ms d
    by (simp_all add: sorted_matches_def project_one_def)
  then show ?thesis
    by (auto simp: query_execute_def Let_def query_create_pagination_info_def
        split: option.split json.split)
qed

lemma clamp_options:
  "1 \<le> sint (page (query_parse_options j)) \<and> 0 \<le> sint (page_size (query_parse_options j)) \<and>
   0 \<le> sint (limit (query_parse_options j))"
proof -
  have ps: "1 \<le> sint (page o') \<and> 0 \<le> sint (page_size o') \<and> 0 \<le> sint (limit o') \<Longrightarrow>
    1 \<le> sint (page (parse_page_size v o')) \<and> 0 \<le> sint (page_size (parse_page_size v o')) \<and>
    0 \<le> sint (limit (parse_page_size v o'))" for v o'
    by (auto simp: parse_page_size_def Let_def split: option.split)
  show ?thesis
    by (auto simp: query_parse_options_def Let_def default_options_def
        split: option.split json.split intro!: ps)
qed

text \<open>Whatever the request holds, the page number is at least 1 and the page size and limit
  are not negative; only \<^verbatim>\<open>skip\<close> can be, when \<open>(page - 1) * page_size\<close> overflows.\<close>

theorem query_parse_options_bounds:
  "1 \<le> sint (page (query_parse_options j)) \<and> 0 \<le> sint (page_size (query_parse_options j)) \<and>
   0 \<le> sint (limit (query_parse_options j))"
  by (rule clamp_options)

end
