(* ===== verification/Chains.thy ===== *)
theory Chains
  imports Prelude
begin

text \<open>
  Hash tables with chaining, the shape of the lock table (\<^verbatim>\<open>lock_manager.c\<close>) and of the
  transaction table (\<^verbatim>\<open>transaction.c\<close>): an array of chains, new entries in front, the hash
  of a string computed in \<^verbatim>\<open>unsigned int\<close> with factor 31 over signed characters.
\<close>

section \<open>The hash of a string\<close>

definition hash31_from :: "c_uint \<Rightarrow> string \<Rightarrow> c_uint" where
  "hash31_from h s = foldl (\<lambda>h c. h * 31 + word_of_int (schar c)) h s"

definition hash_index :: "c_uint \<Rightarrow> nat \<Rightarrow> nat" where
  "hash_index h table_size = unat h mod table_size"

lemma hash_index_less: "0 < n \<Longrightarrow> hash_index h n < n"
  by (simp add: hash_index_def)

section \<open>Chains\<close>

text \<open>The search loops unlink the first entry that matches.\<close>

fun chain_remove :: "('e \<Rightarrow> bool) \<Rightarrow> 'e list \<Rightarrow> 'e list" where
  "chain_remove p [] = []"
| "chain_remove p (e # es) = (if p e then es else e # chain_remove p es)"

definition bucket_push :: "'e list list \<Rightarrow> nat \<Rightarrow> 'e \<Rightarrow> 'e list list" where
  "bucket_push table h e = table[h := e # table ! h]"

definition bucket_remove :: "'e list list \<Rightarrow> nat \<Rightarrow> ('e \<Rightarrow> bool) \<Rightarrow> 'e list list" where
  "bucket_remove table h p = table[h := chain_remove p (table ! h)]"

definition bucket_update :: "'e list list \<Rightarrow> nat \<Rightarrow> ('e \<Rightarrow> bool) \<Rightarrow> ('e \<Rightarrow> 'e) \<Rightarrow> 'e list list" where
  "bucket_update table h p f = table[h := map (\<lambda>e. if p e then f e else e) (table ! h)]"

lemma chain_remove_None: "find p es = None \<Longrightarrow> chain_remove p es = es"
  by (induction es) (auto split: if_splits)

lemma set_chain_remove: "set (chain_remove p es) \<subseteq> set es"
  by (induction es) auto

lemma length_buckets [simp]:
  "length (bucket_push table h e) = length table"
  "length (bucket_remove table h p) = length table"
  "length (bucket_update table h p f) = length table"
  by (simp_all add: bucket_push_def bucket_remove_def bucket_update_def)

section \<open>Tables\<close>

text \<open>
  A table is well formed when every entry stands in the chain of its hash and no two
  entries of a chain have the same key.
\<close>

locale chained =
  fixes key_of :: "'e \<Rightarrow> 'k" and hash :: "nat \<Rightarrow> 'k \<Rightarrow> nat"
  assumes hash_less: "0 < n \<Longrightarrow> hash n k < n"
begin

definition wf :: "'e list list \<Rightarrow> bool" where
  "wf table \<longleftrightarrow> table \<noteq> [] \<and>
     (\<forall>h<length table. distinct (map key_of (table ! h)) \<and>
        (\<forall>e\<in>set (table ! h). hash (length table) (key_of e) = h))"

definition lookup :: "'e list list \<Rightarrow> 'k \<Rightarrow> 'e option" where
  "lookup table k = find (\<lambda>e. key_of e = k) (table ! hash (length table) k)"

definition entries_of :: "'e list list \<Rightarrow> 'e set" where
  "entries_of table = \<Union> (set ` set table)"

lemma in_range: "table \<noteq> [] \<Longrightarrow> hash (length table) k < length table"
  by (simp add: hash_less)

lemma wf_replicate: "0 < n \<Longrightarrow> wf (replicate n [])"
  by (simp add: wf_def)

lemma lookup_replicate: "0 < n \<Longrightarrow> lookup (replicate n []) k = None"
  by (simp add: lookup_def hash_less)

lemma lookup_Some: "lookup table k = Some e \<Longrightarrow> key_of e = k"
  by (auto simp: lookup_def find_Some_iff)

lemma lookup_entry: "wf table \<Longrightarrow> lookup table k = Some e \<Longrightarrow> e \<in> entries_of table"
  unfolding lookup_def entries_of_def wf_def
  by (metis (no_types, lifting) UN_I find_Some_iff in_range nth_mem)

lemma find_distinct: "distinct (map key_of es) \<Longrightarrow> e \<in> set es \<Longrightarrow> find (\<lambda>x. key_of x = key_of e) es = Some e"
  by (induction es) (auto simp: image_iff)

lemma entry_lookup: "wf table \<Longrightarrow> e \<in> entries_of table \<Longrightarrow> lookup table (key_of e) = Some e"
  unfolding lookup_def entries_of_def wf_def
  by (metis UN_E find_distinct in_set_conv_nth)

lemma wf_unique: "wf table \<Longrightarrow> e \<in> entries_of table \<Longrightarrow> e' \<in> entries_of table \<Longrightarrow> key_of e = key_of e' \<Longrightarrow> e = e'"
  using entry_lookup by (metis option.inject)

lemma find_None_map: "find (\<lambda>e. key_of e = k) es = None \<longleftrightarrow> k \<notin> key_of ` set es"
  by (auto simp: find_None_iff)

lemma wf_push:
  assumes "wf table" and "lookup table (key_of e) = None"
  shows "wf (bucket_push table (hash (length table) (key_of e)) e)"
proof -
  let ?h = "hash (length table) (key_of e)"
  have "key_of e \<notin> key_of ` set (table ! ?h)" using assms(2) by (simp add: lookup_def find_None_map)
  moreover have "?h < length table" using assms(1) in_range [of table] by (simp add: wf_def)
  ultimately show ?thesis using assms(1)
    by (auto simp: wf_def bucket_push_def nth_list_update)
qed

lemma lookup_push:
  assumes "table \<noteq> []"
  shows "lookup (bucket_push table (hash (length table) (key_of e)) e) k =
    (if k = key_of e then Some e else lookup table k)"
  using in_range [OF assms] by (auto simp: lookup_def bucket_push_def nth_list_update)

lemma distinct_chain_remove: "distinct (map key_of es) \<Longrightarrow> distinct (map key_of (chain_remove p es))"
proof (induction es)
  case (Cons e es)
  with set_chain_remove [of p es] show ?case by auto
qed simp

lemma wf_remove: "wf table \<Longrightarrow> wf (bucket_remove table h p)"
proof (cases "h < length table")
  case True
  with set_chain_remove [of p "table ! h"] show "wf table \<Longrightarrow> ?thesis"
    by (auto simp: wf_def bucket_remove_def nth_list_update distinct_chain_remove)
qed (simp add: bucket_remove_def list_update_beyond)

lemma find_chain_remove:
  "distinct (map key_of es) \<Longrightarrow>
   find (\<lambda>e. key_of e = k') (chain_remove (\<lambda>e. key_of e = k) es) =
     (if k' = k then None else find (\<lambda>e. key_of e = k') es)"
  by (induction es) (auto simp: find_None_map image_iff)

lemma lookup_remove:
  assumes "wf table"
  shows "lookup (bucket_remove table (hash (length table) k) (\<lambda>e. key_of e = k)) k' =
    (if k' = k then None else lookup table k')"
  using assms in_range [of table]
  by (auto simp: lookup_def bucket_remove_def nth_list_update find_chain_remove wf_def)

lemma map_key_update: "(\<And>e. key_of (f e) = key_of e) \<Longrightarrow>
   map key_of (map (\<lambda>e. if p e then f e else e) es) = map key_of es"
  by (induction es) auto

lemma wf_update: "wf table \<Longrightarrow> (\<And>e. key_of (f e) = key_of e) \<Longrightarrow> wf (bucket_update table h p f)"
proof (cases "h < length table")
  case True
  then show "wf table \<Longrightarrow> (\<And>e. key_of (f e) = key_of e) \<Longrightarrow> ?thesis"
    by (auto simp: wf_def bucket_update_def nth_list_update map_key_update simp del: map_map)
qed (simp add: bucket_update_def list_update_beyond)

lemma find_update:
  "(\<And>e. key_of (f e) = key_of e) \<Longrightarrow>
   find (\<lambda>e. key_of e = k') (map (\<lambda>e. if key_of e = k then f e else e) es) =
     (if k' = k then map_option f (find (\<lambda>e. key_of e = k) es) else find (\<lambda>e. key_of e = k') es)"
  by (induction es) auto

lemma lookup_update:
  assumes "table \<noteq> []" and "\<And>e. key_of (f e) = key_of e"
  shows "lookup (bucket_update table (hash (length table) k) (\<lambda>e. key_of e = k) f) k' =
    (if k' = k then map_option f (lookup table k) else lookup table k')"
  using assms in_range [of table]
  by (auto simp: lookup_def bucket_update_def nth_list_update find_update)

lemma entries_iff: "wf table \<Longrightarrow> e \<in> entries_of table \<longleftrightarrow> lookup table (key_of e) = Some e"
  using lookup_entry entry_lookup by blast

lemma entries_push:
  assumes "wf table" and "lookup table (key_of e) = None"
  shows "entries_of (bucket_push table (hash (length table) (key_of e)) e) = insert e (entries_of table)"
proof -
  have ne: "table \<noteq> []" using assms(1) by (simp add: wf_def)
  show ?thesis
  proof (rule set_eqI)
    fix x
    show "x \<in> entries_of (bucket_push table (hash (length table) (key_of e)) e) \<longleftrightarrow>
        x \<in> insert e (entries_of table)"
      using assms(2) by (cases "key_of x = key_of e")
        (auto simp: entries_iff [OF wf_push [OF assms]] entries_iff [OF assms(1)] lookup_push [OF ne])
  qed
qed

lemma entries_remove:
  assumes "wf table"
  shows "entries_of (bucket_remove table (hash (length table) k) (\<lambda>e. key_of e = k)) =
    {e \<in> entries_of table. key_of e \<noteq> k}"
  by (rule set_eqI) (simp add: entries_iff [OF wf_remove [OF assms]] entries_iff [OF assms]
      lookup_remove [OF assms])

lemma entries_replicate [simp]: "entries_of (replicate n []) = {}"
  by (simp add: entries_of_def)

text \<open>Moving all entries to a larger table one by one.\<close>

definition rehash :: "nat \<Rightarrow> 'e list list \<Rightarrow> 'e list list" where
  "rehash n table = foldl (\<lambda>t e. bucket_push t (hash n (key_of e)) e) (replicate n []) (concat table)"

lemma wf_concat_distinct: "wf table \<Longrightarrow> distinct (map key_of (concat table))"
proof -
  have "distinct (map key_of (concat ts))"
    if "\<forall>h<length ts. distinct (map key_of (ts ! h)) \<and> (\<forall>e\<in>set (ts ! h). g (key_of e) = h + m)" for ts g m
    using that
  proof (induction ts arbitrary: m)
    case (Cons t ts)
    have hd: "distinct (map key_of t)" "\<forall>e\<in>set t. g (key_of e) = m"
      using spec [OF Cons.prems, of 0] by simp_all
    have tl: "\<forall>h<length ts. distinct (map key_of (ts ! h)) \<and> (\<forall>e\<in>set (ts ! h). g (key_of e) = h + Suc m)"
    proof (intro allI impI)
      fix h assume "h < length ts"
      then show "distinct (map key_of (ts ! h)) \<and> (\<forall>e\<in>set (ts ! h). g (key_of e) = h + Suc m)"
        using spec [OF Cons.prems, of "Suc h"] by simp
    qed
    have "g (key_of e) \<noteq> m" if "e \<in> set (concat ts)" for e
    proof -
      from that obtain x where x: "x \<in> set ts" "e \<in> set x" by auto
      then obtain h where "h < length ts" "ts ! h = x" by (auto simp: in_set_conv_nth)
      with tl x have "g (key_of e) = h + Suc m" by blast
      then show ?thesis by simp
    qed
    then have "key_of ` set t \<inter> key_of ` set (concat ts) = {}" using hd(2) by fastforce
    with hd Cons.IH [OF tl] show ?case by simp
  qed simp
  from this [of table "hash (length table)" 0] show "wf table \<Longrightarrow> ?thesis" by (simp add: wf_def)
qed

lemma rehash_fold:
  assumes "distinct (map key_of es)" and "wf t" and "length t = n"
    and "\<forall>e\<in>set es. lookup t (key_of e) = None"
  shows "wf (foldl (\<lambda>t e. bucket_push t (hash n (key_of e)) e) t es) \<and>
    length (foldl (\<lambda>t e. bucket_push t (hash n (key_of e)) e) t es) = n \<and>
    (\<forall>k. lookup (foldl (\<lambda>t e. bucket_push t (hash n (key_of e)) e) t es) k =
       (case find (\<lambda>e. key_of e = k) es of None \<Rightarrow> lookup t k | Some e \<Rightarrow> Some e))"
  using assms
proof (induction es arbitrary: t)
  case (Cons e es)
  let ?t = "bucket_push t (hash n (key_of e)) e"
  have t: "wf ?t" "length ?t = n" "t \<noteq> []"
    using Cons.prems wf_push [of t e] by (auto simp: wf_def)
  then have l: "lookup ?t k = (if k = key_of e then Some e else lookup t k)" for k
    using lookup_push [of t e k] Cons.prems(3) by simp
  have "\<forall>x\<in>set es. lookup ?t (key_of x) = None"
  proof
    fix x assume x: "x \<in> set es"
    then have "key_of x \<noteq> key_of e" using Cons.prems(1) by (auto simp: image_iff)
    with x l Cons.prems(4) show "lookup ?t (key_of x) = None" by simp
  qed
  with Cons.IH [of ?t] Cons.prems(1) t have IH:
    "wf (foldl (\<lambda>t e. bucket_push t (hash n (key_of e)) e) ?t es)"
    "length (foldl (\<lambda>t e. bucket_push t (hash n (key_of e)) e) ?t es) = n"
    "\<And>k. lookup (foldl (\<lambda>t e. bucket_push t (hash n (key_of e)) e) ?t es) k =
       (case find (\<lambda>e. key_of e = k) es of None \<Rightarrow> lookup ?t k | Some e \<Rightarrow> Some e)"
    by auto
  have "find (\<lambda>x. key_of x = key_of e) es = None"
    using Cons.prems(1) by (auto simp: find_None_map)
  moreover have "find (\<lambda>x. key_of x = k) es \<noteq> None \<Longrightarrow> k \<noteq> key_of e" for k
    using calculation by auto
  ultimately show ?case using IH l by (auto split: option.splits)
qed simp

lemma rehash_correct:
  assumes "wf table" and "0 < n"
  shows "wf (rehash n table) \<and> length (rehash n table) = n \<and>
    (\<forall>k. lookup (rehash n table) k = lookup table k)"
proof -
  have r: "wf (rehash n table)" "length (rehash n table) = n"
    "\<And>k. lookup (rehash n table) k = (case find (\<lambda>e. key_of e = k) (concat table) of None \<Rightarrow> None | Some e \<Rightarrow> Some e)"
    using rehash_fold [OF wf_concat_distinct [OF assms(1)] wf_replicate [OF assms(2)]]
      lookup_replicate [OF assms(2)] unfolding rehash_def by (auto split: option.split)
  have "find (\<lambda>e. key_of e = k) (concat table) = lookup table k" for k
  proof (cases "lookup table k")
    case (Some e)
    then have "e \<in> set (concat table)" "key_of e = k"
      using lookup_entry [OF assms(1)] lookup_Some by (auto simp: entries_of_def)
    with Some find_distinct [OF wf_concat_distinct [OF assms(1)], of e] show ?thesis by simp
  next
    case None
    have "k \<notin> key_of ` set (concat table)"
    proof
      assume "k \<in> key_of ` set (concat table)"
      then obtain e where "e \<in> entries_of table" "key_of e = k" by (auto simp: entries_of_def)
      with None entry_lookup [OF assms(1)] show False by fastforce
    qed
    with None show ?thesis using find_None_map [of k "concat table"] by simp
  qed
  with r show ?thesis by (simp split: option.split)
qed

lemma entries_rehash: "wf table \<Longrightarrow> 0 < n \<Longrightarrow> entries_of (rehash n table) = entries_of table"
  using rehash_correct [of table n] by (auto simp: entries_iff)

end

end
