(* ===== verification/Transaction.thy ===== *)
theory Transaction
  imports Chains Json
begin

text \<open>
  Transactions and their manager: \<^verbatim>\<open>src/src/components/transaction/transaction.c\<close> and the
  types of \<^verbatim>\<open>transaction.h\<close>.  A \<^verbatim>\<open>transaction_t*\<close> is the index of the transaction in
  \<^verbatim>\<open>active_transactions\<close>, an array that only grows.  The clock and \<^verbatim>\<open>rand()\<close> are
  arguments.  Operations are prepended to a list whose cells are never changed, so a
  pointer into it (a savepoint) is the list itself.
\<close>

section \<open>Names\<close>

datatype transaction_state =
  TRANSACTION_ACTIVE | TRANSACTION_COMMITTING | TRANSACTION_COMMITTED
  | TRANSACTION_ABORTING | TRANSACTION_ABORTED

datatype isolation_level =
  ISOLATION_INVALID | ISOLATION_READ_UNCOMMITTED | ISOLATION_READ_COMMITTED | ISOLATION_SERIALIZABLE

datatype operation_type = OPERATION_INSERT | OPERATION_UPDATE | OPERATION_DELETE

definition tolower :: "char \<Rightarrow> char" where
  "tolower c = (if 65 \<le> uchar c \<and> uchar c \<le> 90 then char_of (uchar c + 32) else c)"

definition strcasecmp_eq :: "string \<Rightarrow> string \<Rightarrow> bool" where
  "strcasecmp_eq s t \<longleftrightarrow> map tolower s = map tolower t"

definition isolation_level_names :: "(string \<times> isolation_level) list" where
  "isolation_level_names =
     [(''read_uncommitted'', ISOLATION_READ_UNCOMMITTED),
      (''read_committed'', ISOLATION_READ_COMMITTED),
      (''serializable'', ISOLATION_SERIALIZABLE)]"

definition transaction_state_names :: "(string \<times> transaction_state) list" where
  "transaction_state_names =
     [(''active'', TRANSACTION_ACTIVE), (''committing'', TRANSACTION_COMMITTING),
      (''committed'', TRANSACTION_COMMITTED), (''aborting'', TRANSACTION_ABORTING),
      (''aborted'', TRANSACTION_ABORTED)]"

definition transaction_operation_names :: "(string \<times> operation_type) list" where
  "transaction_operation_names =
     [(''insert'', OPERATION_INSERT), (''update'', OPERATION_UPDATE), (''delete'', OPERATION_DELETE)]"

text \<open>The name at an enumerator's index, and the search for a name, ignoring case.\<close>

definition name_of :: "(string \<times> 'e) list \<Rightarrow> 'e \<Rightarrow> string" where
  "name_of names e = (case find (\<lambda>(_, e'). e' = e) names of None \<Rightarrow> ''unknown'' | Some (n, _) \<Rightarrow> n)"

definition from_name :: "(string \<times> 'e) list \<Rightarrow> string \<Rightarrow> 'e option" where
  "from_name names s = map_option snd (find (\<lambda>(n, _). strcasecmp_eq s n) names)"

definition isolation_level_to_string :: "isolation_level \<Rightarrow> string" where
  "isolation_level_to_string level = name_of isolation_level_names level"

definition isolation_level_from_string :: "cstr \<Rightarrow> isolation_level" where
  "isolation_level_from_string level_str =
     (case level_str of
        None \<Rightarrow> ISOLATION_INVALID
      | Some s \<Rightarrow> (case from_name isolation_level_names s of None \<Rightarrow> ISOLATION_INVALID | Some l \<Rightarrow> l))"

definition transaction_state_to_string :: "transaction_state \<Rightarrow> string" where
  "transaction_state_to_string st = name_of transaction_state_names st"

definition transaction_state_from_string :: "cstr \<Rightarrow> transaction_state option" where
  "transaction_state_from_string state_str =
     (case state_str of None \<Rightarrow> None | Some s \<Rightarrow> from_name transaction_state_names s)"

definition transaction_operation_to_string :: "operation_type \<Rightarrow> string" where
  "transaction_operation_to_string op = name_of transaction_operation_names op"

definition transaction_operation_from_string :: "cstr \<Rightarrow> operation_type option" where
  "transaction_operation_from_string operation_str =
     (case operation_str of None \<Rightarrow> None | Some s \<Rightarrow> from_name transaction_operation_names s)"

definition transaction_error_to_string :: "c_int \<Rightarrow> string" where
  "transaction_error_to_string error_code =
     (let e = sint error_code in
      if e = 0 then ''Success''
      else if e = - 1 then ''Invalid transaction''
      else if e = - 2 then ''Transaction already committed''
      else if e = - 3 then ''Transaction already rolled back''
      else if e = - 4 then ''Transaction failed''
      else if e = - 5 then ''Deadlock detected''
      else if e = - 6 then ''Lock timeout''
      else if e = - 7 then ''Invalid isolation level''
      else if e = - 8 then ''Invalid savepoint''
      else if e = - 9 then ''Savepoint not found''
      else if e = - 10 then ''Document not found''
      else if e = - 11 then ''Collection not found''
      else if e = - 12 then ''Invalid document''
      else if e = - 13 then ''Conflict with another transaction''
      else ''Unknown error'')"

section \<open>Transactions\<close>

record transaction_operation =
  op_type :: operation_type
  op_collection_name :: string
  op_document_id :: string
  before_state :: jptr
  after_state :: jptr

record savepoint =
  sp_name :: string
  sp_operation :: "transaction_operation list"
  sp_operation_count :: c_int

record transaction =
  tx_id :: string
  tx_state :: transaction_state
  start_time :: int
  commit_time :: int
  user_id :: string
  operations :: "transaction_operation list"
  operation_count :: c_int
  isolation_level :: isolation_level
  timeout_sec :: c_int
  savepoints :: "savepoint list"

text \<open>\<^verbatim>\<open>snprintf(id, 40, "tx_%ld_%06u", now, random_part)\<close>.\<close>

definition pad6 :: "string \<Rightarrow> string" where
  "pad6 s = replicate (6 - length s) (CHR ''0'') @ s"

definition generate_transaction_id :: "int \<Rightarrow> c_uint \<Rightarrow> string" where
  "generate_transaction_id now rnd =
     take 39 (''tx_'' @ int_str now @ ''_'' @ pad6 (dec_str (uint rnd mod 1000000)))"

definition new_transaction :: "isolation_level \<Rightarrow> string \<Rightarrow> int \<Rightarrow> c_uint \<Rightarrow> transaction" where
  "new_transaction level user now rnd =
     \<lparr>tx_id = generate_transaction_id now rnd, tx_state = TRANSACTION_ACTIVE,
      start_time = now, commit_time = 0, user_id = user, operations = [], operation_count = 0,
      isolation_level = level, timeout_sec = 30, savepoints = []\<rparr>"

definition transaction_to_json :: "transaction option \<Rightarrow> jptr" where
  "transaction_to_json transaction =
     (case transaction of
        None \<Rightarrow> None
      | Some t \<Rightarrow>
          (let put = (\<lambda>k v j. json_object_set j (Some k) (Some v));
               json = Some json_create_object;
               json = put ''id'' (json_create_string (tx_id t)) json;
               json = put ''state'' (json_create_string (transaction_state_to_string (tx_state t))) json;
               json = put ''isolation_level''
                        (json_create_string (isolation_level_to_string (isolation_level t))) json;
               json = put ''start_time'' (json_create_integer (word_of_int (start_time t))) json
           in if tx_state t = TRANSACTION_COMMITTED
              then put ''commit_time'' (json_create_integer (word_of_int (commit_time t))) json
              else if tx_state t = TRANSACTION_ABORTED
              then put ''rollback_time'' (json_create_integer (word_of_int (commit_time t))) json
              else json))"

section \<open>Operations on one transaction\<close>

text \<open>Each function returns its error code and the transaction afterwards.\<close>

definition push_operation :: "transaction_operation \<Rightarrow> transaction \<Rightarrow> transaction" where
  "push_operation op t =
     t\<lparr>operations := op # operations t, operation_count := operation_count t + 1\<rparr>"

text \<open>The document is stamped with a generated \<^verbatim>\<open>uuid\<close> when it has none.\<close>

definition transaction_insert_document ::
    "transaction \<Rightarrow> string \<Rightarrow> json \<Rightarrow> int \<Rightarrow> c_uint \<Rightarrow> int \<times> transaction \<times> json" where
  "transaction_insert_document t collection document now rnd =
     (if tx_state t \<noteq> TRANSACTION_ACTIVE then (- 1, t, document)
      else
        (let (doc_id, doc) =
           (case json_object_get (Some document) (Some ''uuid'') of
              Some (JString s) \<Rightarrow> (s, document)
            | _ \<Rightarrow>
                (let new_id = generate_transaction_id now rnd in
                 (new_id, the (json_object_set (Some document) (Some ''uuid'')
                                (Some (json_create_string new_id))))))
         in (0, push_operation \<lparr>op_type = OPERATION_INSERT, op_collection_name = collection,
                  op_document_id = doc_id, before_state = None,
                  after_state = Some (json_clone doc)\<rparr> t, doc)))"

definition transaction_update_document ::
    "transaction \<Rightarrow> string \<Rightarrow> string \<Rightarrow> json \<Rightarrow> int \<times> transaction" where
  "transaction_update_document t collection doc_id document =
     (if tx_state t \<noteq> TRANSACTION_ACTIVE then (- 1, t)
      else (0, push_operation \<lparr>op_type = OPERATION_UPDATE, op_collection_name = collection,
                 op_document_id = doc_id, before_state = None,
                 after_state = Some (json_clone document)\<rparr> t))"

definition transaction_delete_document ::
    "transaction \<Rightarrow> string \<Rightarrow> string \<Rightarrow> int \<times> transaction" where
  "transaction_delete_document t collection doc_id =
     (if tx_state t \<noteq> TRANSACTION_ACTIVE then (- 1, t)
      else (0, push_operation \<lparr>op_type = OPERATION_DELETE, op_collection_name = collection,
                 op_document_id = doc_id, before_state = None, after_state = None\<rparr> t))"

definition transaction_query_documents :: "transaction \<Rightarrow> string \<Rightarrow> jptr \<Rightarrow> jptr" where
  "transaction_query_documents t collection query =
     (if tx_state t \<noteq> TRANSACTION_ACTIVE then None
      else json_object_set
             (json_object_set (Some json_create_object) (Some ''documents'') (Some json_create_array))
             (Some ''count'') (Some (json_create_integer 0)))"

definition transaction_set_timeout :: "transaction \<Rightarrow> c_int \<Rightarrow> int \<times> transaction" where
  "transaction_set_timeout t timeout =
     (if sint timeout < 0 then (- 2, t) else (0, t\<lparr>timeout_sec := timeout\<rparr>))"

definition transaction_create_savepoint :: "transaction \<Rightarrow> string \<Rightarrow> int \<times> transaction" where
  "transaction_create_savepoint t nm =
     (if tx_state t \<noteq> TRANSACTION_ACTIVE then (- 1, t)
      else (0, t\<lparr>savepoints :=
                 \<lparr>sp_name = nm, sp_operation = operations t, sp_operation_count = operation_count t\<rparr>
                 # savepoints t\<rparr>))"

definition transaction_rollback_to_savepoint :: "transaction \<Rightarrow> string \<Rightarrow> int \<times> transaction" where
  "transaction_rollback_to_savepoint t nm =
     (if tx_state t \<noteq> TRANSACTION_ACTIVE then (- 1, t)
      else case find (\<lambda>s. strcmp (sp_name s) nm = 0) (savepoints t) of
        None \<Rightarrow> (- 9, t)
      | Some s \<Rightarrow> (0, t\<lparr>operations := sp_operation s, operation_count := sp_operation_count s\<rparr>))"

definition transaction_release_savepoint :: "transaction \<Rightarrow> string \<Rightarrow> int \<times> transaction" where
  "transaction_release_savepoint t nm =
     (if tx_state t \<noteq> TRANSACTION_ACTIVE then (- 1, t)
      else case find (\<lambda>s. strcmp (sp_name s) nm = 0) (savepoints t) of
        None \<Rightarrow> (- 9, t)
      | Some _ \<Rightarrow> (0, t\<lparr>savepoints := chain_remove (\<lambda>s. strcmp (sp_name s) nm = 0) (savepoints t)\<rparr>))"

section \<open>The manager\<close>

record transaction_manager =
  active_transactions :: "transaction list"
  capacity :: c_int
  tx_hash_table :: "nat list list"

text \<open>
  An allocation of \<open>n\<close> elements, \<open>n\<close> an \<^verbatim>\<open>int\<close>, fails when \<open>n\<close> is not positive: a
  negative one becomes a huge \<^verbatim>\<open>size_t\<close>, and zero bytes are refused.
\<close>

definition alloc_count_ok :: "c_int \<Rightarrow> bool" where
  "alloc_count_ok n \<longleftrightarrow> 0 < sint n"

definition transaction_manager_create :: "c_int \<Rightarrow> transaction_manager option" where
  "transaction_manager_create cap =
     (let c = (if 0 < sint cap then cap else 100) in
      if \<not> alloc_count_ok (c * 2) then None
      else Some \<lparr>active_transactions = [], capacity = c,
                 tx_hash_table = replicate (unat (c * 2)) []\<rparr>)"

definition hash_transaction_id :: "nat \<Rightarrow> string \<Rightarrow> nat" where
  "hash_transaction_id table_size s = hash_index (hash31_from 0 s) table_size"

definition id_at :: "transaction_manager \<Rightarrow> nat \<Rightarrow> string" where
  "id_at m i = tx_id (active_transactions m ! i)"

definition transaction_hash_table_add :: "transaction_manager \<Rightarrow> nat \<Rightarrow> transaction_manager" where
  "transaction_hash_table_add m i =
     m\<lparr>tx_hash_table := bucket_push (tx_hash_table m)
         (hash_transaction_id (length (tx_hash_table m)) (id_at m i)) i\<rparr>"

definition transaction_hash_table_remove :: "transaction_manager \<Rightarrow> string \<Rightarrow> transaction_manager" where
  "transaction_hash_table_remove m s =
     m\<lparr>tx_hash_table := bucket_remove (tx_hash_table m)
         (hash_transaction_id (length (tx_hash_table m)) s) (\<lambda>i. strcmp (id_at m i) s = 0)\<rparr>"

definition transaction_hash_table_find :: "transaction_manager \<Rightarrow> string \<Rightarrow> nat option" where
  "transaction_hash_table_find m s =
     find (\<lambda>i. strcmp (id_at m i) s = 0)
       (tx_hash_table m ! hash_transaction_id (length (tx_hash_table m)) s)"

definition transaction_manager_get_transaction :: "transaction_manager \<Rightarrow> cstr \<Rightarrow> nat option" where
  "transaction_manager_get_transaction m s =
     (case s of None \<Rightarrow> None | Some i \<Rightarrow> transaction_hash_table_find m i)"

text \<open>Doubling the array and the hash table; \<open>None\<close> when the array cannot grow.\<close>

definition rehash_transactions :: "transaction_manager \<Rightarrow> nat \<Rightarrow> nat list list" where
  "rehash_transactions m n =
     foldl (\<lambda>t i. bucket_push t (hash_transaction_id n (id_at m i)) i) (replicate n [])
       (concat (tx_hash_table m))"

definition grow_manager :: "transaction_manager \<Rightarrow> transaction_manager option" where
  "grow_manager m =
     (if int (length (active_transactions m)) < sint (capacity m) then Some m
      else
        (let new_capacity = capacity m * 2; new_hash_size = new_capacity * 2 in
         if \<not> alloc_count_ok new_capacity then None
         else Some (m\<lparr>capacity := new_capacity,
                tx_hash_table := (if alloc_count_ok new_hash_size
                                  then rehash_transactions m (unat new_hash_size)
                                  else tx_hash_table m)\<rparr>)))"

definition valid_isolation :: "isolation_level \<Rightarrow> isolation_level" where
  "valid_isolation level =
     (if level = ISOLATION_INVALID then ISOLATION_READ_COMMITTED else level)"

definition transaction_begin ::
    "transaction_manager \<Rightarrow> isolation_level \<Rightarrow> string \<Rightarrow> int \<Rightarrow> c_uint \<Rightarrow>
     transaction_manager \<times> nat option" where
  "transaction_begin m level user now rnd =
     (case grow_manager m of
        None \<Rightarrow> (m, None)
      | Some g \<Rightarrow>
          (let i = length (active_transactions g);
               t = new_transaction (valid_isolation level) user now rnd;
               g = g\<lparr>active_transactions := active_transactions g @ [t]\<rparr>
           in (transaction_hash_table_add g i, Some i)))"

text \<open>Ending a transaction: no operation is applied or undone, only the state changes.\<close>

definition set_transaction :: "transaction_manager \<Rightarrow> nat \<Rightarrow> transaction \<Rightarrow> transaction_manager" where
  "set_transaction m i t = m\<lparr>active_transactions := (active_transactions m)[i := t]\<rparr>"

definition finish_transaction ::
    "transaction_manager \<Rightarrow> nat \<Rightarrow> transaction_state \<Rightarrow> int \<Rightarrow> int \<times> transaction_manager" where
  "finish_transaction m i final now =
     (let t = active_transactions m ! i in
      if tx_state t = TRANSACTION_COMMITTED then (- 2, m)
      else if tx_state t = TRANSACTION_ABORTED then (- 3, m)
      else (0, transaction_hash_table_remove
                 (set_transaction m i (t\<lparr>tx_state := final, commit_time := now\<rparr>)) (tx_id t)))"

definition transaction_commit :: "transaction_manager \<Rightarrow> nat \<Rightarrow> int \<Rightarrow> int \<times> transaction_manager" where
  "transaction_commit m i now = finish_transaction m i TRANSACTION_COMMITTED now"

definition transaction_rollback :: "transaction_manager \<Rightarrow> nat \<Rightarrow> int \<Rightarrow> int \<times> transaction_manager" where
  "transaction_rollback m i now = finish_transaction m i TRANSACTION_ABORTED now"

definition transaction_manager_check_deadlocks :: "transaction_manager option \<Rightarrow> int" where
  "transaction_manager_check_deadlocks m = (case m of None \<Rightarrow> - 1 | Some _ \<Rightarrow> 0)"

definition count_state :: "transaction_manager \<Rightarrow> transaction_state set \<Rightarrow> nat" where
  "count_state m sts = length (filter (\<lambda>t. tx_state t \<in> sts) (active_transactions m))"

definition transaction_manager_get_metrics :: "transaction_manager \<Rightarrow> jptr" where
  "transaction_manager_get_metrics m =
     (let put = (\<lambda>k n j. json_object_set j (Some k) (Some (json_create_integer (word_of_nat n))));
          json = Some json_create_object;
          json = put ''active_transactions''
            (count_state m {TRANSACTION_ACTIVE, TRANSACTION_COMMITTING, TRANSACTION_ABORTING}) json;
          json = put ''committed_transactions'' (count_state m {TRANSACTION_COMMITTED}) json;
          json = put ''aborted_transactions'' (count_state m {TRANSACTION_ABORTED}) json
      in put ''total_transactions'' (length (active_transactions m)) json)"

end
