(* ===== verification/Transaction_Props.thy ===== *)
theory Transaction_Props
  imports Transaction
begin

text \<open>
  Properties of transactions: a step relation over everything clients and the lock manager
  can do, invariants of the reachable managers, lookup by id through growth of the hash
  table, savepoints, and the names of states and isolation levels.
\<close>

section \<open>Steps\<close>

text \<open>What a client does to one transaction.\<close>

inductive client_step :: "transaction \<Rightarrow> transaction \<Rightarrow> bool" where
  insert: "transaction_insert_document t c d now rnd = (r, t', d') \<Longrightarrow> client_step t t'"
| update: "transaction_update_document t c i d = (r, t') \<Longrightarrow> client_step t t'"
| delete: "transaction_delete_document t c i = (r, t') \<Longrightarrow> client_step t t'"
| save: "transaction_create_savepoint t n = (r, t') \<Longrightarrow> client_step t t'"
| restore: "transaction_rollback_to_savepoint t n = (r, t') \<Longrightarrow> client_step t t'"
| release: "transaction_release_savepoint t n = (r, t') \<Longrightarrow> client_step t t'"
| timeout: "transaction_set_timeout t x = (r, t') \<Longrightarrow> client_step t t'"

definition finished :: "transaction \<Rightarrow> bool" where
  "finished t \<longleftrightarrow> tx_state t = TRANSACTION_COMMITTED \<or> tx_state t = TRANSACTION_ABORTED"

text \<open>\<open>victim\<close> is what \<^verbatim>\<open>abort_transaction_for_deadlock\<close> does.\<close>

inductive manager_step :: "transaction_manager \<Rightarrow> transaction_manager \<Rightarrow> bool" where
  start: "transaction_begin m level user now rnd = (m', p) \<Longrightarrow> manager_step m m'"
| client: "i < length (active_transactions m) \<Longrightarrow> client_step (active_transactions m ! i) t \<Longrightarrow>
    manager_step m (set_transaction m i t)"
| commit: "i < length (active_transactions m) \<Longrightarrow> transaction_commit m i now = (r, m') \<Longrightarrow>
    manager_step m m'"
| rollback: "i < length (active_transactions m) \<Longrightarrow> transaction_rollback m i now = (r, m') \<Longrightarrow>
    manager_step m m'"
| victim: "i < length (active_transactions m) \<Longrightarrow>
    tx_state (active_transactions m ! i) = TRANSACTION_ACTIVE \<Longrightarrow>
    manager_step m (set_transaction m i ((active_transactions m ! i)\<lparr>tx_state := TRANSACTION_ABORTING\<rparr>))"

inductive reachable :: "transaction_manager \<Rightarrow> bool" where
  create: "transaction_manager_create cap = Some m \<Longrightarrow> reachable m"
| step: "reachable m \<Longrightarrow> manager_step m m' \<Longrightarrow> reachable m'"

inductive_cases client_step_cases: "client_step t t'"
inductive_cases manager_step_cases: "manager_step m m'"

lemmas client_defs = transaction_insert_document_def transaction_update_document_def
  transaction_delete_document_def transaction_create_savepoint_def
  transaction_rollback_to_savepoint_def transaction_release_savepoint_def transaction_set_timeout_def

lemmas manager_defs = transaction_commit_def transaction_rollback_def finish_transaction_def
  set_transaction_def transaction_hash_table_remove_def transaction_hash_table_add_def

lemma client_step_id: "client_step t t' \<Longrightarrow> tx_id t' = tx_id t \<and> tx_state t' = tx_state t"
  by (elim client_step_cases)
    (auto simp: client_defs push_operation_def Let_def split: if_splits option.splits prod.splits)

lemma client_step_finished: "client_step t t' \<Longrightarrow> finished t \<Longrightarrow> \<exists>x. t' = t\<lparr>timeout_sec := x\<rparr>"
  by (elim client_step_cases)
    (auto simp: client_defs finished_def Let_def split: if_splits option.splits prod.splits
      intro: exI [of _ "timeout_sec t"])

section \<open>Counters\<close>

definition tx_ok :: "transaction \<Rightarrow> bool" where
  "tx_ok t \<longleftrightarrow> operation_count t = of_nat (length (operations t)) \<and>
     (\<forall>s\<in>set (savepoints t). sp_operation_count s = of_nat (length (sp_operation s)))"

lemma client_step_ok: "client_step t t' \<Longrightarrow> tx_ok t \<Longrightarrow> tx_ok t'"
  using set_chain_remove
  by (elim client_step_cases)
    (fastforce simp: client_defs tx_ok_def push_operation_def Let_def find_Some_iff
      split: if_splits option.splits prod.splits)+

lemma active_grow: "grow_manager m = Some g \<Longrightarrow> active_transactions g = active_transactions m"
  by (auto simp: grow_manager_def Let_def split: if_splits)

lemma finish_array:
  "finish_transaction m i st now = (r, m') \<Longrightarrow> active_transactions m' = active_transactions m \<or>
   active_transactions m' = (active_transactions m)
     [i := (active_transactions m ! i)\<lparr>tx_state := st, commit_time := now\<rparr>] \<and>
   \<not> finished (active_transactions m ! i)"
  by (auto simp: manager_defs finished_def Let_def split: if_splits)

text \<open>What a step does to the array of transactions.\<close>

lemma manager_step_array:
  assumes "manager_step m m'"
  shows "(\<exists>level user now rnd. active_transactions m' =
      active_transactions m @ [new_transaction level user now rnd]) \<or>
    active_transactions m' = active_transactions m \<or>
    (\<exists>i t. i < length (active_transactions m) \<and>
      active_transactions m' = (active_transactions m)[i := t] \<and>
      (client_step (active_transactions m ! i) t \<or>
       \<not> finished (active_transactions m ! i) \<and>
       (\<exists>st now. t = (active_transactions m ! i)\<lparr>tx_state := st, commit_time := now\<rparr>)))"
  using assms
proof (cases rule: manager_step.cases)
  case (start level user now rnd p)
  show ?thesis
  proof (cases "grow_manager m")
    case None
    with start show ?thesis by (simp add: transaction_begin_def)
  next
    case (Some g)
    with start active_grow [OF Some] show ?thesis
      by (intro disjI1) (auto simp: transaction_begin_def manager_defs Let_def, blast)
  qed
next
  case (commit i now r)
  then show ?thesis
    using finish_array unfolding transaction_commit_def by blast
next
  case (rollback i now r)
  then show ?thesis
    using finish_array unfolding transaction_rollback_def by blast
next
  case (victim i)
  let ?t = "active_transactions m ! i"
  have "?t\<lparr>tx_state := TRANSACTION_ABORTING\<rparr> = ?t\<lparr>tx_state := TRANSACTION_ABORTING, commit_time := commit_time ?t\<rparr>"
    by simp
  then have "active_transactions m' =
      (active_transactions m)[i := ?t\<lparr>tx_state := TRANSACTION_ABORTING, commit_time := commit_time ?t\<rparr>]"
    using victim by (simp add: set_transaction_def)
  moreover have "\<not> finished ?t" using victim by (simp add: finished_def)
  ultimately show ?thesis using victim by blast
qed (auto simp: set_transaction_def)

lemma reachable_ok: "reachable m \<Longrightarrow> \<forall>t\<in>set (active_transactions m). tx_ok t"
proof (induction rule: reachable.induct)
  case (create cap m)
  then show ?case by (auto simp: transaction_manager_create_def Let_def split: if_splits)
next
  case (step m m')
  have upd: "tx_ok (t\<lparr>tx_state := s, commit_time := n\<rparr>)" if "tx_ok t" for t s n
    using that by (simp add: tx_ok_def)
  have new: "tx_ok (new_transaction level user now rnd)" for level user now rnd
    by (simp add: tx_ok_def new_transaction_def)
  from manager_step_array [OF step(2)] step(3) show ?case
    by (auto simp: new upd client_step_ok dest!: set_update_subset_insert [THEN subsetD])
qed

text \<open>In every reachable state the operation counter of a transaction is the number of its
  operations, and the counters kept in its savepoints agree with the lists they point to.\<close>

theorem transaction_counts:
  assumes "reachable m" and "t \<in> set (active_transactions m)"
  shows "operation_count t = of_nat (length (operations t)) \<and>
    (\<forall>s\<in>set (savepoints t). sp_operation_count s = of_nat (length (sp_operation s)))"
  using reachable_ok [OF assms(1)] assms(2) by (simp add: tx_ok_def)

definition sample_manager :: transaction_manager where
  "sample_manager = fst (transaction_begin (the (transaction_manager_create 1))
     ISOLATION_SERIALIZABLE ''u'' 7 3)"

lemma replicate_2: "replicate 2 x = [x, x]"
  by (simp add: numeral_2_eq_2)

lemma sample_manager_simp:
  "active_transactions sample_manager = [new_transaction ISOLATION_SERIALIZABLE ''u'' 7 3]"
  "capacity sample_manager = 1"
  "tx_hash_table sample_manager = bucket_push [[], []]
     (hash_transaction_id (Suc (Suc 0)) (tx_id (new_transaction ISOLATION_SERIALIZABLE ''u'' 7 3))) 0"
  by (simp_all add: sample_manager_def transaction_begin_def transaction_manager_create_def
      alloc_count_ok_def grow_manager_def Let_def valid_isolation_def transaction_hash_table_add_def
      id_at_def replicate_2)

lemma sample_manager_reachable: "reachable sample_manager"
proof (rule reachable.step)
  show "reachable (the (transaction_manager_create 1))"
    by (rule reachable.create [of 1]) (simp add: transaction_manager_create_def alloc_count_ok_def)
  show "manager_step (the (transaction_manager_create 1)) sample_manager"
    by (rule manager_step.start) (simp add: sample_manager_def prod_eq_iff)
qed

theorem transaction_counts_witness:
  "operation_count (new_transaction ISOLATION_SERIALIZABLE ''u'' 7 3) =
     of_nat (length (operations (new_transaction ISOLATION_SERIALIZABLE ''u'' 7 3)))"
  using transaction_counts [OF sample_manager_reachable] by (simp add: sample_manager_simp)

section \<open>Finished transactions\<close>

lemma finished_stays:
  assumes "manager_step m m'" and "i < length (active_transactions m)"
    and "finished (active_transactions m ! i)"
  shows "\<exists>x. active_transactions m' ! i = (active_transactions m ! i)\<lparr>timeout_sec := x\<rparr>"
proof -
  have same: "active_transactions m ! i = (active_transactions m ! i)\<lparr>timeout_sec := timeout_sec (active_transactions m ! i)\<rparr>"
    by simp
  from manager_step_array [OF assms(1)] consider
    (app) level user now rnd where "active_transactions m' = active_transactions m @ [new_transaction level user now rnd]"
  | (eq) "active_transactions m' = active_transactions m"
  | (upd) j t where "j < length (active_transactions m)" "active_transactions m' = (active_transactions m)[j := t]"
      "client_step (active_transactions m ! j) t \<or> \<not> finished (active_transactions m ! j)"
    by blast
  then show ?thesis
  proof cases
    case (upd j t)
    with assms client_step_finished same show ?thesis by (cases "i = j") 
        (auto intro: exI [of _ "timeout_sec (active_transactions m ! i)"])
  qed (use assms in \<open>auto simp: nth_append
      intro: exI [of _ "timeout_sec (active_transactions m ! i)"]\<close>)
qed


definition committed_manager :: transaction_manager where
  "committed_manager = snd (transaction_commit sample_manager 0 9)"

lemma committed_manager_active:
  "active_transactions committed_manager =
     [(new_transaction ISOLATION_SERIALIZABLE ''u'' 7 3)\<lparr>tx_state := TRANSACTION_COMMITTED, commit_time := 9\<rparr>]"
  by (simp add: committed_manager_def manager_defs sample_manager_simp Let_def new_transaction_def)


text \<open>A deadlock victim, put in the state \<^verbatim>\<open>TRANSACTION_ABORTING\<close>, can still be committed:
  \<^verbatim>\<open>transaction_commit\<close> only refuses transactions that are already finished.\<close>

theorem aborting_transaction_commits:
  assumes "i < length (active_transactions m)"
    and "tx_state (active_transactions m ! i) = TRANSACTION_ABORTING"
  shows "fst (transaction_commit m i now) = 0 \<and>
    tx_state (active_transactions (snd (transaction_commit m i now)) ! i) = TRANSACTION_COMMITTED"
  using assms by (simp add: manager_defs Let_def)

theorem aborting_transaction_commits_witness:
  "fst (transaction_commit (set_transaction sample_manager 0
     ((active_transactions sample_manager ! 0)\<lparr>tx_state := TRANSACTION_ABORTING\<rparr>)) 0 9) = 0"
  using aborting_transaction_commits [of 0 "set_transaction sample_manager 0
     ((active_transactions sample_manager ! 0)\<lparr>tx_state := TRANSACTION_ABORTING\<rparr>)" 9]
  by (simp add: set_transaction_def sample_manager_simp)

section \<open>Lookup by id\<close>

interpretation ids: chained "id_at m" hash_transaction_id for m
  by unfold_locales (simp add: hash_transaction_id_def hash_index_less)

lemma ids_wf_cong:
  assumes "\<forall>i\<in>ids.entries_of table. id_at m' i = id_at m i"
  shows "ids.wf m' table = ids.wf m table"
proof -
  have e: "h < length table \<Longrightarrow> i \<in> set (table ! h) \<Longrightarrow> id_at m' i = id_at m i" for h i
    using assms by (auto simp: ids.entries_of_def)
  have "h < length table \<Longrightarrow> map (id_at m') (table ! h) = map (id_at m) (table ! h)" for h
    by (rule map_cong) (simp_all add: e)
  then have "h < length table \<Longrightarrow> distinct (map (id_at m') (table ! h)) = distinct (map (id_at m) (table ! h))" for h
    by presburger
  with e show ?thesis by (simp add: ids.wf_def cong: conj_cong)
qed

lemma find_eq_lookup: "transaction_hash_table_find m s = ids.lookup m (tx_hash_table m) s"
  by (simp add: transaction_hash_table_find_def ids.lookup_def)

definition live :: "transaction_manager \<Rightarrow> nat set" where
  "live m = {i. i < length (active_transactions m) \<and> \<not> finished (active_transactions m ! i)}"

text \<open>The hash table holds exactly the transactions that are not finished.\<close>

definition table_ok :: "transaction_manager \<Rightarrow> bool" where
  "table_ok m \<longleftrightarrow> ids.wf m (tx_hash_table m) \<and> ids.entries_of (tx_hash_table m) = live m"

lemma id_at_cong: "active_transactions m' = active_transactions m \<Longrightarrow> id_at m' = id_at m"
  by (simp add: id_at_def fun_eq_iff)

lemma id_at_set: "tx_id t = id_at m i \<Longrightarrow> id_at (set_transaction m i t) = id_at m"
  by (cases "i < length (active_transactions m)")
    (auto simp: id_at_def set_transaction_def fun_eq_iff nth_list_update list_update_beyond)

lemma table_ok_set:
  assumes "table_ok m" and "tx_id t = id_at m i" and "finished t = finished (active_transactions m ! i)"
  shows "table_ok (set_transaction m i t)"
proof -
  have "live (set_transaction m i t) = live m"
    using assms(3) by (cases "i < length (active_transactions m)")
      (auto simp: live_def set_transaction_def nth_list_update list_update_beyond)
  with assms show ?thesis by (simp add: table_ok_def id_at_set) (simp add: set_transaction_def)
qed

lemma table_ok_create: "transaction_manager_create cap = Some m \<Longrightarrow> table_ok m"
  by (auto simp: transaction_manager_create_def alloc_count_ok_def table_ok_def live_def Let_def
      unat_gt_0 intro!: ids.wf_replicate split: if_splits)

lemma table_ok_grow:
  assumes "grow_manager m = Some g" and "table_ok m"
  shows "table_ok g"
proof -
  have id: "id_at g = id_at m" using active_grow [OF assms(1)] by (rule id_at_cong)
  have live: "live g = live m" using active_grow [OF assms(1)] by (simp add: live_def)
  have "0 < unat n" if "alloc_count_ok n" for n
    using that by (auto simp: alloc_count_ok_def unat_gt_0)
  then have re: "ids.wf m (rehash_transactions m (unat n)) \<and>
      ids.entries_of (rehash_transactions m (unat n)) = live m" if "alloc_count_ok n" for n
    using that ids.rehash_correct [of m "tx_hash_table m" "unat n"]
      ids.entries_rehash [of m "tx_hash_table m" "unat n"] assms(2)
    by (simp add: table_ok_def rehash_transactions_def ids.rehash_def)
  moreover have "tx_hash_table g = tx_hash_table m \<or>
      (\<exists>n. alloc_count_ok n \<and> tx_hash_table g = rehash_transactions m (unat n))"
    using assms(1) by (auto simp: grow_manager_def Let_def split: if_splits)
  ultimately show ?thesis
    using assms(2) unfolding table_ok_def id live by metis
qed

lemma table_ok_begin:
  assumes "transaction_begin m level user now rnd = (m', p)" and "table_ok m"
    and "distinct (map tx_id (active_transactions m'))"
  shows "table_ok m'"
proof (cases "grow_manager m")
  case None
  with assms show ?thesis by (simp add: transaction_begin_def)
next
  case (Some g)
  let ?i = "length (active_transactions g)" and ?t = "new_transaction (valid_isolation level) user now rnd"
  let ?h = "g\<lparr>active_transactions := active_transactions g @ [?t]\<rparr>"
  have g: "ids.wf g (tx_hash_table g)" "ids.entries_of (tx_hash_table g) = live g"
    using table_ok_grow [OF Some assms(2)] by (simp_all add: table_ok_def)
  have m': "m' = transaction_hash_table_add ?h ?i"
    using assms(1) Some by (simp add: transaction_begin_def Let_def)
  have id: "id_at ?h j = id_at g j" if "j < ?i" for j
    using that by (simp add: id_at_def nth_append)
  have "\<forall>j\<in>ids.entries_of (tx_hash_table g). id_at ?h j = id_at g j"
    using g(2) id by (auto simp: live_def)
  then have wf: "ids.wf ?h (tx_hash_table ?h)" using g(1) ids_wf_cong [of "tx_hash_table g" ?h g] by simp
  have none: "ids.lookup ?h (tx_hash_table ?h) (id_at ?h ?i) = None"
  proof (rule ccontr)
    assume "ids.lookup ?h (tx_hash_table ?h) (id_at ?h ?i) \<noteq> None"
    then obtain j where j: "ids.lookup ?h (tx_hash_table ?h) (id_at ?h ?i) = Some j" by blast
    then have "j < ?i" using ids.lookup_entry [OF wf j] g(2) by (simp add: live_def)
    with id ids.lookup_Some [OF j] have "tx_id (active_transactions g ! j) = tx_id ?t"
      by (simp add: id_at_def)
    moreover have "tx_id ?t \<notin> tx_id ` set (active_transactions g)"
      using assms(3) by (simp add: m' transaction_hash_table_add_def)
    ultimately show False using nth_mem [OF \<open>j < ?i\<close>] by (metis image_eqI)
  qed
  have "live ?h = insert ?i (live g)"
    by (auto simp: live_def nth_append finished_def new_transaction_def)
  moreover have "id_at m' = id_at ?h" "live m' = live ?h"
    by (simp_all add: m' transaction_hash_table_add_def id_at_def live_def fun_eq_iff)
  moreover have "tx_hash_table m' = bucket_push (tx_hash_table ?h)
      (hash_transaction_id (length (tx_hash_table ?h)) (id_at ?h ?i)) ?i"
    by (simp add: m' transaction_hash_table_add_def)
  ultimately show ?thesis
    using ids.wf_push [OF wf none] ids.entries_push [OF wf none] g(2) by (simp add: table_ok_def)
qed

lemma table_ok_finish:
  assumes "finish_transaction m i st now = (r, m')" and "table_ok m"
    and "i < length (active_transactions m)" and "st = TRANSACTION_COMMITTED \<or> st = TRANSACTION_ABORTED"
    and "distinct (map tx_id (active_transactions m))"
  shows "table_ok m'"
proof (cases "finished (active_transactions m ! i)")
  case True
  with assms(1,2) show ?thesis by (auto simp: finish_transaction_def finished_def Let_def)
next
  case False
  let ?t = "(active_transactions m ! i)\<lparr>tx_state := st, commit_time := now\<rparr>"
  let ?s = "set_transaction m i ?t"
  have m': "m' = transaction_hash_table_remove ?s (id_at m i)"
    using False assms(1) by (auto simp: finish_transaction_def finished_def id_at_def Let_def)
  have id: "id_at ?s = id_at m" by (rule id_at_set) (simp add: id_at_def)
  have table: "tx_hash_table ?s = tx_hash_table m" by (simp add: set_transaction_def)
  have wf: "ids.wf ?s (tx_hash_table ?s)" and ent: "ids.entries_of (tx_hash_table ?s) = live m"
    using assms(2) by (simp_all add: table_ok_def id table)
  have inj: "id_at m j = id_at m i \<longleftrightarrow> j = i" if "j < length (active_transactions m)" for j
    using that assms(3,5) by (auto simp: id_at_def distinct_conv_nth)
  have "live ?s = live m - {i}"
    using assms(3,4) by (auto simp: live_def set_transaction_def finished_def nth_list_update)
  also have "\<dots> = {j \<in> live m. id_at ?s j \<noteq> id_at m i}"
    using inj by (auto simp: live_def id)
  finally have l: "live ?s = {j \<in> live m. id_at ?s j \<noteq> id_at m i}" .
  have "live m' = live ?s" "id_at m' = id_at ?s"
    by (simp_all add: m' transaction_hash_table_remove_def live_def id_at_def fun_eq_iff)
  with l ids.wf_remove [OF wf] ids.entries_remove [OF wf, of "id_at m i"] ent show ?thesis
    by (simp add: table_ok_def m' transaction_hash_table_remove_def)
qed

lemma ids_prefix: "manager_step m m' \<Longrightarrow> distinct (map tx_id (active_transactions m')) \<Longrightarrow>
    distinct (map tx_id (active_transactions m))"
proof (drule manager_step_array, elim disjE exE conjE)
  fix i t
  assume "i < length (active_transactions m)" "active_transactions m' = (active_transactions m)[i := t]"
    "client_step (active_transactions m ! i) t" "distinct (map tx_id (active_transactions m'))"
  then show ?thesis
    using client_step_id by (metis list_update_id map_update)
next
  fix i t st now
  assume "active_transactions m' = (active_transactions m)[i := t]"
    "t = (active_transactions m ! i)\<lparr>tx_state := st, commit_time := now\<rparr>"
    "distinct (map tx_id (active_transactions m'))"
  moreover have "tx_id ((active_transactions m ! i)\<lparr>tx_state := st, commit_time := now\<rparr>) =
      tx_id (active_transactions m ! i)" by simp
  ultimately show ?thesis by (metis list_update_id map_update)
qed simp_all

lemma reachable_table_ok:
  "reachable m \<Longrightarrow> distinct (map tx_id (active_transactions m)) \<Longrightarrow> table_ok m"
proof (induction rule: reachable.induct)
  case (create cap m)
  then show ?case using table_ok_create by blast
next
  case (step m m')
  note dist = ids_prefix [OF step(2,4)]
  note ok = step(3) [OF dist]
  from step(2) show ?case
  proof (cases rule: manager_step.cases)
    case (start level user now rnd p)
    with table_ok_begin ok step(4) show ?thesis by blast
  next
    case (client i t)
    have "finished t = finished (active_transactions m ! i)"
      using client_step_id [OF client(3)] by (simp add: finished_def)
    with client client_step_id [OF client(3)] table_ok_set [OF ok] show ?thesis by (simp add: id_at_def)
  next
    case (commit i now r)
    with table_ok_finish [OF _ ok _ _ dist] show ?thesis by (simp add: transaction_commit_def)
  next
    case (rollback i now r)
    with table_ok_finish [OF _ ok _ _ dist] show ?thesis by (simp add: transaction_rollback_def)
  next
    case (victim i)
    with table_ok_set [OF ok] show ?thesis by (simp add: id_at_def finished_def)
  qed
qed



section \<open>Savepoints\<close>

datatype tx_command =
  Insert string json int c_uint | Update string string json | Delete string string | Save string | Release string

fun run_command :: "tx_command \<Rightarrow> transaction \<Rightarrow> transaction" where
  "run_command (Insert c d now rnd) t = fst (snd (transaction_insert_document t c d now rnd))"
| "run_command (Update c i d) t = snd (transaction_update_document t c i d)"
| "run_command (Delete c i) t = snd (transaction_delete_document t c i)"
| "run_command (Save n) t = snd (transaction_create_savepoint t n)"
| "run_command (Release n) t = snd (transaction_release_savepoint t n)"

definition other_name :: "string \<Rightarrow> tx_command \<Rightarrow> bool" where
  "other_name n c \<longleftrightarrow> c \<noteq> Save n \<and> c \<noteq> Release n"

lemma find_chain_remove_other:
  "a \<noteq> n \<Longrightarrow> find (\<lambda>s. sp_name s = n) (chain_remove (\<lambda>s. sp_name s = a) ss) = find (\<lambda>s. sp_name s = n) ss"
  by (induction ss) auto

lemma run_command_keeps:
  assumes "tx_state t = TRANSACTION_ACTIVE" and "other_name n c"
  shows "tx_state (run_command c t) = TRANSACTION_ACTIVE \<and>
    find (\<lambda>s. sp_name s = n) (savepoints (run_command c t)) = find (\<lambda>s. sp_name s = n) (savepoints t)"
  using assms
  by (cases c) (auto simp: client_defs push_operation_def other_name_def find_chain_remove_other Let_def
      split: option.splits prod.splits)

lemma run_commands_keep:
  assumes "tx_state t = TRANSACTION_ACTIVE" and "list_all (other_name n) cs"
  shows "tx_state (fold run_command cs t) = TRANSACTION_ACTIVE \<and>
    find (\<lambda>s. sp_name s = n) (savepoints (fold run_command cs t)) = find (\<lambda>s. sp_name s = n) (savepoints t)"
  using assms run_command_keeps by (induction cs arbitrary: t) auto



text \<open>Rolling back to a savepoint does not discard the later ones: rolling back to an older
  savepoint and then to a newer one brings the undone operations back.\<close>

theorem savepoint_resurrects:
  assumes "tx_state t = TRANSACTION_ACTIVE" and "a \<noteq> b"
  shows "let t1 = snd (transaction_create_savepoint t a);
      t2 = snd (transaction_delete_document t1 c i);
      t3 = snd (transaction_create_savepoint t2 b);
      t4 = snd (transaction_rollback_to_savepoint t3 a);
      t5 = snd (transaction_rollback_to_savepoint t4 b)
    in operations t4 = operations t \<and> operations t5 = operations t2 \<and> operations t2 \<noteq> operations t"
  using assms by (simp add: client_defs push_operation_def Let_def)

theorem savepoint_resurrects_witness:
  "let t = new_transaction ISOLATION_SERIALIZABLE ''u'' 7 3;
      t1 = snd (transaction_create_savepoint t ''a'');
      t2 = snd (transaction_delete_document t1 ''c'' ''x'');
      t3 = snd (transaction_create_savepoint t2 ''b'');
      t4 = snd (transaction_rollback_to_savepoint t3 ''a'');
      t5 = snd (transaction_rollback_to_savepoint t4 ''b'')
    in operations t4 = [] \<and> operations t5 = operations t2"
  using savepoint_resurrects [of "new_transaction ISOLATION_SERIALIZABLE ''u'' 7 3" "''a''" "''b''" "''c''" "''x''"]
  by (simp add: new_transaction_def Let_def)

section \<open>Names\<close>

text \<open>Printing a state, an isolation level or an operation type and reading it back gives it
  again; an unknown or missing name is reported as such.\<close>

theorem names_roundtrip:
  "transaction_state_from_string (Some (transaction_state_to_string st)) = Some st \<and>
   transaction_operation_from_string (Some (transaction_operation_to_string op)) = Some op \<and>
   isolation_level_from_string (Some (isolation_level_to_string level)) = level \<and>
   isolation_level_from_string None = ISOLATION_INVALID"
  by (cases st; cases op; cases level)
    (simp_all add: transaction_state_from_string_def transaction_state_to_string_def
      transaction_operation_from_string_def transaction_operation_to_string_def
      isolation_level_from_string_def isolation_level_to_string_def name_of_def from_name_def
      transaction_state_names_def transaction_operation_names_def isolation_level_names_def
      strcasecmp_eq_def tolower_def uchar_def)

end
