(* ===== verification/Lock_Manager.thy ===== *)
theory Lock_Manager
  imports Transaction
begin

text \<open>
  The lock manager: \<^verbatim>\<open>src/src/components/database/lock_manager.c\<close>.  A transaction is the
  index of its record, as in \<open>Transaction\<close>; a request is identified by its address.
  Allocations succeed.  The functions that wait are split where they release the mutex:
  up to the first wait, one turn after a wake-up, and one turn after a timeout.
\<close>

section \<open>Types\<close>

datatype lock_type = LOCK_NONE | LOCK_SHARED | LOCK_EXCLUSIVE

datatype lock_status = LOCK_STATUS_GRANTED | LOCK_STATUS_WAITING | LOCK_STATUS_DEADLOCK | LOCK_STATUS_ERROR

type_synonym lock_key = "string \<times> cstr"

record lock_request =
  req_address :: nat
  req_transaction :: nat
  req_lock_type :: lock_type
  req_status :: lock_status

record lock_entry =
  entry_key :: lock_key
  current_lock_type :: lock_type
  reader_count :: c_int
  waiting_queue :: "lock_request list"
  granted_queue :: "lock_request list"

text \<open>The manager with the module's globals; \<open>next_request\<close> is the next free address.\<close>

record lock_manager =
  lock_table :: "lock_entry list list"
  deadlock_detection :: bool
  timeout_ms :: c_int
  next_request :: nat
  retry_count :: c_int
  retry_count_shared :: c_int

section \<open>Keys and the table\<close>

definition hash_key :: "nat \<Rightarrow> lock_key \<Rightarrow> nat" where
  "hash_key table_size key =
     (let h = hash31_from 0 (fst key) in
      hash_index (case snd key of None \<Rightarrow> h | Some d \<Rightarrow> hash31_from h d) table_size)"

definition compare_keys :: "lock_key \<Rightarrow> lock_key \<Rightarrow> int" where
  "compare_keys key1 key2 =
     (let coll_cmp = strcmp (fst key1) (fst key2) in
      if coll_cmp \<noteq> 0 then coll_cmp
      else case (snd key1, snd key2) of
        (None, None) \<Rightarrow> 0
      | (None, Some _) \<Rightarrow> - 1
      | (Some _, None) \<Rightarrow> 1
      | (Some d1, Some d2) \<Rightarrow> strcmp d1 d2)"

definition create_lock_key :: "cstr \<Rightarrow> cstr \<Rightarrow> lock_key option" where
  "create_lock_key collection doc_id = map_option (\<lambda>c. (c, doc_id)) collection"

definition create_lock_request :: "nat \<Rightarrow> nat \<Rightarrow> lock_type \<Rightarrow> lock_request" where
  "create_lock_request addr tx ty =
     \<lparr>req_address = addr, req_transaction = tx, req_lock_type = ty, req_status = LOCK_STATUS_WAITING\<rparr>"

definition create_lock_entry :: "lock_key \<Rightarrow> lock_entry" where
  "create_lock_entry key =
     \<lparr>entry_key = key, current_lock_type = LOCK_NONE, reader_count = 0,
      waiting_queue = [], granted_queue = []\<rparr>"

definition find_lock_entry :: "lock_manager \<Rightarrow> lock_key \<Rightarrow> lock_entry option" where
  "find_lock_entry m key =
     find (\<lambda>e. compare_keys (entry_key e) key = 0)
       (lock_table m ! hash_key (length (lock_table m)) key)"

definition add_lock_entry :: "lock_manager \<Rightarrow> lock_entry \<Rightarrow> lock_manager" where
  "add_lock_entry m e =
     m\<lparr>lock_table := bucket_push (lock_table m) (hash_key (length (lock_table m)) (entry_key e)) e\<rparr>"

definition remove_lock_entry :: "lock_manager \<Rightarrow> lock_key \<Rightarrow> lock_manager" where
  "remove_lock_entry m key =
     m\<lparr>lock_table := bucket_remove (lock_table m) (hash_key (length (lock_table m)) key)
         (\<lambda>e. compare_keys (entry_key e) key = 0)\<rparr>"

text \<open>A change of the entry found under a key, through the pointer \<^verbatim>\<open>find_lock_entry\<close> returns.\<close>

definition modify_entry :: "lock_manager \<Rightarrow> lock_key \<Rightarrow> (lock_entry \<Rightarrow> lock_entry) \<Rightarrow> lock_manager" where
  "modify_entry m key f =
     m\<lparr>lock_table := bucket_update (lock_table m) (hash_key (length (lock_table m)) key)
         (\<lambda>e. compare_keys (entry_key e) key = 0) f\<rparr>"

section \<open>Queues\<close>

definition is_lock_compatible :: "lock_entry \<Rightarrow> lock_request \<Rightarrow> bool" where
  "is_lock_compatible e r =
     (if current_lock_type e = LOCK_NONE then True
      else if current_lock_type e = LOCK_EXCLUSIVE then False
      else if current_lock_type e = LOCK_SHARED then req_lock_type r = LOCK_SHARED
      else False)"

definition add_waiting_request :: "lock_entry \<Rightarrow> lock_request \<Rightarrow> lock_entry" where
  "add_waiting_request e r = e\<lparr>waiting_queue := waiting_queue e @ [r]\<rparr>"

definition add_granted_request :: "lock_entry \<Rightarrow> lock_request \<Rightarrow> lock_entry" where
  "add_granted_request e r =
     e\<lparr>current_lock_type := (if current_lock_type e = LOCK_NONE then req_lock_type r else current_lock_type e),
       reader_count := (if req_lock_type r = LOCK_SHARED then reader_count e + 1 else reader_count e),
       granted_queue := r\<lparr>req_status := LOCK_STATUS_GRANTED\<rparr> # granted_queue e\<rparr>"

definition remove_granted_request :: "lock_entry \<Rightarrow> nat \<Rightarrow> bool \<times> lock_entry" where
  "remove_granted_request e tx =
     (case find (\<lambda>r. req_transaction r = tx) (granted_queue e) of
        None \<Rightarrow> (False, e)
      | Some r \<Rightarrow>
          (let rest = chain_remove (\<lambda>r. req_transaction r = tx) (granted_queue e) in
           (True, e\<lparr>granted_queue := rest,
             reader_count := (if req_lock_type r = LOCK_SHARED then reader_count e - 1 else reader_count e),
             current_lock_type :=
               (if rest = [] then LOCK_NONE
                else if req_lock_type r = LOCK_EXCLUSIVE then LOCK_SHARED
                else current_lock_type e)\<rparr>)))"

text \<open>One walk down the waiting queue; the second component is what stays in it.\<close>

fun grant_waiting :: "lock_entry \<Rightarrow> lock_request list \<Rightarrow> lock_entry \<times> lock_request list" where
  "grant_waiting e [] = (e, [])"
| "grant_waiting e (r # rs) =
     (if is_lock_compatible e r then grant_waiting (add_granted_request e r) rs
      else (let (e', ws) = grant_waiting e rs in (e', r # ws)))"

definition process_waiting_requests :: "lock_entry \<Rightarrow> lock_entry" where
  "process_waiting_requests e =
     (let (e', ws) = grant_waiting e (waiting_queue e) in e'\<lparr>waiting_queue := ws\<rparr>)"

section \<open>Locking\<close>

definition lock_manager_create :: lock_manager where
  "lock_manager_create =
     \<lparr>lock_table = replicate 1024 [], deadlock_detection = True, timeout_ms = 30000,
      next_request = 0, retry_count = 0, retry_count_shared = 0\<rparr>"

definition ensure_entry :: "lock_manager \<Rightarrow> lock_key \<Rightarrow> lock_manager" where
  "ensure_entry m key =
     (case find_lock_entry m key of
        None \<Rightarrow> add_lock_entry m (create_lock_entry key)
      | Some _ \<Rightarrow> m)"

text \<open>What the caller gets: the lock, or the address of the request it now waits with.\<close>

datatype lock_outcome = Locked | Waits nat

definition enqueue_request ::
    "(lock_entry \<Rightarrow> lock_request \<Rightarrow> bool) \<Rightarrow> lock_type \<Rightarrow> lock_manager \<Rightarrow> lock_key \<Rightarrow> nat \<Rightarrow>
     lock_outcome \<times> lock_manager" where
  "enqueue_request free ty m key tx =
     (let m = ensure_entry m key;
          a = next_request m;
          r = create_lock_request a tx ty;
          m = m\<lparr>next_request := a + 1\<rparr>;
          e = the (find_lock_entry m key)
      in if free e r then (Locked, modify_entry m key (\<lambda>e. add_granted_request e r))
         else (Waits a, modify_entry m key (\<lambda>e. add_waiting_request e r)))"

text \<open>Every isolation level asks for an exclusive lock.\<close>

definition lock_type_for :: "isolation_level \<Rightarrow> lock_type" where
  "lock_type_for level =
     (case level of
        ISOLATION_READ_UNCOMMITTED \<Rightarrow> LOCK_EXCLUSIVE
      | ISOLATION_READ_COMMITTED \<Rightarrow> LOCK_EXCLUSIVE
      | ISOLATION_SERIALIZABLE \<Rightarrow> LOCK_EXCLUSIVE
      | _ \<Rightarrow> LOCK_EXCLUSIVE)"

definition lock_manager_lock_document ::
    "lock_manager \<Rightarrow> lock_key \<Rightarrow> nat \<Rightarrow> isolation_level \<Rightarrow> lock_outcome \<times> lock_manager" where
  "lock_manager_lock_document m key tx level =
     enqueue_request is_lock_compatible (lock_type_for level) m key tx"

definition lock_manager_lock_document_shared ::
    "lock_manager \<Rightarrow> lock_key \<Rightarrow> nat \<Rightarrow> lock_outcome \<times> lock_manager" where
  "lock_manager_lock_document_shared m key tx =
     enqueue_request (\<lambda>e r. current_lock_type e \<noteq> LOCK_EXCLUSIVE) LOCK_SHARED m key tx"

definition lock_manager_unlock_document ::
    "lock_manager \<Rightarrow> lock_key \<Rightarrow> nat \<Rightarrow> bool \<times> lock_manager" where
  "lock_manager_unlock_document m key tx =
     (case find_lock_entry m key of
        None \<Rightarrow> (False, m)
      | Some e \<Rightarrow>
          (let (res, e1) = remove_granted_request e tx;
               e2 = (if res then process_waiting_requests e1 else e1)
           in (res, if current_lock_type e2 = LOCK_NONE \<and> waiting_queue e2 = []
                    then remove_lock_entry m key else modify_entry m key (\<lambda>_. e2))))"

section \<open>Waiting\<close>

definition request_of :: "lock_entry \<Rightarrow> nat \<Rightarrow> lock_request option" where
  "request_of e a = find (\<lambda>r. req_address r = a) (granted_queue e @ waiting_queue e)"

definition set_status :: "lock_status \<Rightarrow> nat \<Rightarrow> lock_request \<Rightarrow> lock_request" where
  "set_status st a r = (if req_address r = a then r\<lparr>req_status := st\<rparr> else r)"

text \<open>
  After the loop: a request that is not granted is unlinked from the waiting queue (and
  only from there).
\<close>

definition finish_wait :: "lock_status \<Rightarrow> nat \<Rightarrow> lock_entry \<Rightarrow> lock_entry" where
  "finish_wait st a e =
     (let e = e\<lparr>granted_queue := map (set_status st a) (granted_queue e),
                waiting_queue := map (set_status st a) (waiting_queue e)\<rparr>
      in e\<lparr>waiting_queue := chain_remove (\<lambda>r. req_address r = a) (waiting_queue e)\<rparr>)"

datatype wait_outcome = Still_Waiting | Result bool

definition wait_result :: "lock_entry option \<Rightarrow> nat \<Rightarrow> wait_outcome" where
  "wait_result e a =
     (case e of
        None \<Rightarrow> Result False
      | Some e \<Rightarrow>
          (case request_of e a of
             Some r \<Rightarrow> if req_status r = LOCK_STATUS_WAITING then Still_Waiting
                       else Result (req_status r = LOCK_STATUS_GRANTED)
           | None \<Rightarrow> Result False))"

definition wake_up :: "lock_manager \<Rightarrow> lock_key \<Rightarrow> nat \<Rightarrow> wait_outcome \<times> lock_manager" where
  "wake_up m key a =
     (let m = modify_entry m key process_waiting_requests in
      (wait_result (find_lock_entry m key) a, m))"

text \<open>
  After a timeout: \<open>deadlock\<close> is the answer of \<^verbatim>\<open>lock_manager_check_deadlocks\<close>, asked only
  when detection is on.  Three retries, counted in a static variable all callers share,
  go back to the loop test.
\<close>

definition timed_out ::
    "bool \<Rightarrow> bool \<Rightarrow> lock_manager \<Rightarrow> lock_key \<Rightarrow> nat \<Rightarrow> wait_outcome \<times> lock_manager" where
  "timed_out shared deadlock m key a =
     (let retries = (if shared then retry_count_shared m else retry_count m);
          set_retries = (\<lambda>n m. if shared then m\<lparr>retry_count_shared := n\<rparr> else m\<lparr>retry_count := n\<rparr>)
      in if deadlock_detection m \<and> deadlock
         then (Result False, modify_entry m key (finish_wait LOCK_STATUS_DEADLOCK a))
         else if deadlock_detection m \<and> sint retries < 3
         then (wait_result (find_lock_entry m key) a, set_retries (retries + 1) m)
         else (Result False,
               modify_entry (if deadlock_detection m then set_retries 0 m else m) key
                 (finish_wait LOCK_STATUS_ERROR a)))"

section \<open>Configuration and statistics\<close>

definition lock_manager_configure :: "lock_manager \<Rightarrow> c_int \<Rightarrow> c_int \<Rightarrow> lock_manager" where
  "lock_manager_configure m detection ms = m\<lparr>deadlock_detection := detection \<noteq> 0, timeout_ms := ms\<rparr>"

definition count_granted :: "lock_manager \<Rightarrow> lock_type \<Rightarrow> nat" where
  "count_granted m ty =
     (\<Sum>e\<leftarrow>concat (lock_table m). length (filter (\<lambda>r. req_lock_type r = ty) (granted_queue e)))"

definition lock_manager_get_stats :: "lock_manager \<Rightarrow> jptr" where
  "lock_manager_get_stats m =
     (let put = (\<lambda>k v j. json_object_set j (Some k) (Some v));
          num = (\<lambda>n. json_create_integer (word_of_nat n));
          j = Some json_create_object;
          j = put ''total_resources'' (num (length (concat (lock_table m)))) j;
          j = put ''shared_locks'' (num (count_granted m LOCK_SHARED)) j;
          j = put ''exclusive_locks'' (num (count_granted m LOCK_EXCLUSIVE)) j;
          j = put ''waiting_requests''
                (num (\<Sum>e\<leftarrow>concat (lock_table m). length (waiting_queue e))) j;
          j = put ''deadlock_detection'' (json_create_boolean (if deadlock_detection m then 1 else 0)) j
      in put ''timeout_ms'' (json_create_integer (scast (timeout_ms m))) j)"

end
