(* ===== verification/Deadlock.thy ===== *)
theory Deadlock
  imports Lock_Manager
begin

text \<open>
  Deadlock detection of \<^verbatim>\<open>src/src/components/database/lock_manager.c\<close>: the wait-for
  graph, its depth-first search, the choice of a victim and
  \<^verbatim>\<open>lock_manager_check_deadlocks\<close>, which calls itself again after aborting a victim.
\<close>

section \<open>The wait-for graph\<close>

datatype deadlock_visit_state = DL_NOT_VISITED | DL_IN_PROGRESS | DL_VISITED

record wait_for_node =
  node_transaction :: nat
  node_state :: deadlock_visit_state
  waiting_for :: "nat list"

definition add_waiting_for :: "wait_for_node \<Rightarrow> nat \<Rightarrow> wait_for_node" where
  "add_waiting_for node tx =
     (if tx \<in> set (waiting_for node) then node
      else node\<lparr>waiting_for := waiting_for node @ [tx]\<rparr>)"

text \<open>The index of the first node of a transaction.\<close>

fun node_index :: "wait_for_node list \<Rightarrow> nat \<Rightarrow> nat option" where
  "node_index [] tx = None"
| "node_index (n # ns) tx =
     (if node_transaction n = tx then Some 0 else map_option Suc (node_index ns tx))"

definition add_node :: "nat \<Rightarrow> wait_for_node list \<Rightarrow> wait_for_node list" where
  "add_node tx nodes =
     (if node_index nodes tx \<noteq> None then nodes
      else nodes @ [\<lparr>node_transaction = tx, node_state = DL_NOT_VISITED, waiting_for = []\<rparr>])"

definition conflicting :: "lock_request \<Rightarrow> lock_request \<Rightarrow> bool" where
  "conflicting granted waiting \<longleftrightarrow>
     req_lock_type granted = LOCK_EXCLUSIVE \<or> req_lock_type waiting = LOCK_EXCLUSIVE"

text \<open>The transactions in the order of the second pass, and the edges in the order of the third.\<close>

definition graph_transactions :: "lock_manager \<Rightarrow> nat list" where
  "graph_transactions m =
     concat (map (\<lambda>e. map req_transaction (granted_queue e) @ map req_transaction (waiting_queue e))
       (concat (lock_table m)))"

definition graph_edges :: "lock_manager \<Rightarrow> (nat \<times> nat) list" where
  "graph_edges m =
     concat (map (\<lambda>e. concat (map (\<lambda>w. map (\<lambda>g. (req_transaction w, req_transaction g))
                                  (filter (\<lambda>g. conflicting g w) (granted_queue e)))
                            (waiting_queue e)))
       (concat (lock_table m)))"

definition add_edge :: "nat \<times> nat \<Rightarrow> wait_for_node list \<Rightarrow> wait_for_node list" where
  "add_edge edge nodes =
     (case (node_index nodes (fst edge), node_index nodes (snd edge)) of
        (Some i, Some _) \<Rightarrow> nodes[i := add_waiting_for (nodes ! i) (snd edge)]
      | _ \<Rightarrow> nodes)"

definition build_wait_for_graph :: "lock_manager \<Rightarrow> wait_for_node list" where
  "build_wait_for_graph m =
     fold add_edge (graph_edges m) (fold add_node (graph_transactions m) [])"

section \<open>Depth-first search\<close>

definition set_state :: "deadlock_visit_state \<Rightarrow> nat \<Rightarrow> wait_for_node list \<Rightarrow> wait_for_node list" where
  "set_state st i nodes = nodes[i := (nodes ! i)\<lparr>node_state := st\<rparr>]"

text \<open>
  \<^verbatim>\<open>detect_cycle\<close> with its loop over the neighbours.  The first argument bounds the depth of
  the recursion; the number of nodes is enough (see \<open>Deadlock_Props\<close>).
\<close>

fun detect_cycle :: "nat \<Rightarrow> wait_for_node list \<Rightarrow> nat \<Rightarrow> bool \<times> wait_for_node list"
  and visit_neighbours :: "nat \<Rightarrow> wait_for_node list \<Rightarrow> nat list \<Rightarrow> bool \<times> wait_for_node list" where
  "detect_cycle 0 nodes i = (False, nodes)"
| "detect_cycle (Suc n) nodes i =
     (if length nodes \<le> i then (False, nodes)
      else case visit_neighbours n (set_state DL_IN_PROGRESS i nodes) (waiting_for (nodes ! i)) of
        (True, ns) \<Rightarrow> (True, ns)
      | (False, ns) \<Rightarrow> (False, set_state DL_VISITED i ns))"
| "visit_neighbours n nodes [] = (False, nodes)"
| "visit_neighbours n nodes (tx # txs) =
     (case node_index nodes tx of
        None \<Rightarrow> visit_neighbours n nodes txs
      | Some j \<Rightarrow>
          (case node_state (nodes ! j) of
             DL_IN_PROGRESS \<Rightarrow> (True, nodes)
           | DL_NOT_VISITED \<Rightarrow>
               (case detect_cycle n nodes j of
                  (True, ns) \<Rightarrow> (True, ns)
                | (False, ns) \<Rightarrow> visit_neighbours n ns txs)
           | DL_VISITED \<Rightarrow> visit_neighbours n nodes txs))"

text \<open>The loop over all nodes; the node of \<open>skip\<close> is not started from.\<close>

fun scan_nodes :: "nat option \<Rightarrow> wait_for_node list \<Rightarrow> nat list \<Rightarrow> bool \<times> wait_for_node list" where
  "scan_nodes skip nodes [] = (False, nodes)"
| "scan_nodes skip nodes (i # is) =
     (if node_state (nodes ! i) = DL_NOT_VISITED \<and> Some (node_transaction (nodes ! i)) \<noteq> skip
      then (case detect_cycle (length nodes) nodes i of
              (True, ns) \<Rightarrow> (True, ns)
            | (False, ns) \<Rightarrow> scan_nodes skip ns is)
      else scan_nodes skip nodes is)"

section \<open>Resolution\<close>

text \<open>The youngest transaction in progress; a start time of 0 counts as not set.\<close>

definition better_victim :: "transaction list \<Rightarrow> wait_for_node \<Rightarrow> nat option \<times> int \<Rightarrow> nat option \<times> int" where
  "better_victim txs node best =
     (let t = start_time (txs ! node_transaction node) in
      if node_state node = DL_IN_PROGRESS \<and> (snd best = 0 \<or> snd best < t)
      then (Some (node_transaction node), t) else best)"

definition select_deadlock_victim :: "transaction list \<Rightarrow> wait_for_node list \<Rightarrow> nat option" where
  "select_deadlock_victim txs nodes = fst (fold (better_victim txs) nodes (None, 0))"

definition abort_transaction_for_deadlock :: "nat \<Rightarrow> transaction list \<Rightarrow> transaction list" where
  "abort_transaction_for_deadlock i txs =
     (if tx_state (txs ! i) = TRANSACTION_ACTIVE
      then txs[i := (txs ! i)\<lparr>tx_state := TRANSACTION_ABORTING\<rparr>] else txs)"

definition reset_nodes :: "wait_for_node list \<Rightarrow> wait_for_node list" where
  "reset_nodes nodes = map (\<lambda>n. n\<lparr>node_state := DL_NOT_VISITED\<rparr>) nodes"

text \<open>
  The recursion of the code is kept: the result is \<open>None\<close> when it does not end.
\<close>

partial_function (option) lock_manager_check_deadlocks ::
    "lock_manager \<Rightarrow> transaction list \<Rightarrow> (bool \<times> transaction list) option" where
  "lock_manager_check_deadlocks m txs =
     (if \<not> deadlock_detection m then Some (False, txs)
      else if build_wait_for_graph m = [] then Some (False, txs)
      else (case scan_nodes None (build_wait_for_graph m) [0..<length (build_wait_for_graph m)] of
          (found, ns) \<Rightarrow>
            if \<not> found then Some (False, txs)
            else (case select_deadlock_victim txs ns of
               None \<Rightarrow> Some (True, txs)
             | Some v \<Rightarrow>
                 if fst (scan_nodes (Some v) (reset_nodes ns) [0..<length ns])
                 then lock_manager_check_deadlocks m (abort_transaction_for_deadlock v txs)
                 else Some (True, abort_transaction_for_deadlock v txs))))"

end
