(* ===== verification/Lock_Props.thy ===== *)
theory Lock_Props
  imports Lock_Manager
begin

text \<open>
  Invariants of the lock manager over every interleaving of its callers: mutual exclusion
  and that nothing waits for a lock it could have.
\<close>

section \<open>The table as a chained hash table\<close>

lemma compare_keys_eq [simp]: "compare_keys k1 k2 = 0 \<longleftrightarrow> k1 = k2"
  by (cases k1; cases k2) (auto simp: compare_keys_def Let_def split: option.split)

interpretation locks: chained entry_key hash_key
  by unfold_locales (simp add: hash_key_def hash_index_less Let_def)

lemma find_lock_entry_lookup: "find_lock_entry m key = locks.lookup (lock_table m) key"
  by (simp add: find_lock_entry_def locks.lookup_def)

definition table_wf :: "lock_manager \<Rightarrow> bool" where
  "table_wf m \<longleftrightarrow> locks.wf (lock_table m)"

lemma table_wf_create: "table_wf lock_manager_create"
  by (simp add: table_wf_def lock_manager_create_def locks.wf_replicate)

lemma table_ne: "table_wf m \<Longrightarrow> lock_table m \<noteq> []"
  by (simp add: table_wf_def locks.wf_def)

lemma find_lock_entry_key: "find_lock_entry m key = Some e \<Longrightarrow> entry_key e = key"
  by (simp add: find_lock_entry_lookup locks.lookup_Some)

lemma find_add_entry:
  "table_wf m \<Longrightarrow> find_lock_entry (add_lock_entry m e) key =
     (if key = entry_key e then Some e else find_lock_entry m key)"
  using table_ne [of m]
  by (simp add: find_lock_entry_lookup add_lock_entry_def locks.lookup_push)

lemma wf_add_entry:
  "table_wf m \<Longrightarrow> find_lock_entry m (entry_key e) = None \<Longrightarrow> table_wf (add_lock_entry m e)"
  by (simp add: table_wf_def find_lock_entry_lookup add_lock_entry_def locks.wf_push)

lemma find_remove_entry:
  "table_wf m \<Longrightarrow> find_lock_entry (remove_lock_entry m k) key =
     (if key = k then None else find_lock_entry m key)"
  by (simp add: table_wf_def find_lock_entry_lookup remove_lock_entry_def locks.lookup_remove)

lemma wf_remove_entry: "table_wf m \<Longrightarrow> table_wf (remove_lock_entry m k)"
  by (simp add: table_wf_def remove_lock_entry_def locks.wf_remove)

lemma find_modify_entry:
  "table_wf m \<Longrightarrow> (\<And>e. entry_key (f e) = entry_key e) \<Longrightarrow>
   find_lock_entry (modify_entry m k f) key =
     (if key = k then map_option f (find_lock_entry m k) else find_lock_entry m key)"
  using table_ne [of m]
  by (simp add: find_lock_entry_lookup modify_entry_def locks.lookup_update)

lemma find_modified:
  "table_wf m \<Longrightarrow> (\<And>e. entry_key (f e) = entry_key e) \<Longrightarrow> find_lock_entry m key = Some e \<Longrightarrow>
   find_lock_entry (modify_entry m key f) key = Some (f e)"
  by (simp add: find_modify_entry)

lemma wf_modify_entry:
  "table_wf m \<Longrightarrow> (\<And>e. entry_key (f e) = entry_key e) \<Longrightarrow> table_wf (modify_entry m k f)"
  by (simp add: table_wf_def modify_entry_def locks.wf_update)

text \<open>An update by a constant, as unlocking does it, is one by a function that keeps the key.\<close>

lemma modify_entry_const:
  assumes "entry_key e = k"
  shows "modify_entry m k (\<lambda>_. e) = modify_entry m k (\<lambda>x. e\<lparr>entry_key := entry_key x\<rparr>)"
  using assms by (auto simp: modify_entry_def bucket_update_def intro!: arg_cong [of _ _ "\<lambda>t. m\<lparr>lock_table := t\<rparr>"]
      arg_cong [of _ _ "\<lambda>c. (lock_table m)[_ := c]"])

section \<open>One entry\<close>

text \<open>
  The invariant of an entry: its lock type and reader count describe the granted queue,
  an exclusive holder is alone, and no waiting request is compatible with what is held.
\<close>

definition entry_ok :: "lock_entry \<Rightarrow> bool" where
  "entry_ok e \<longleftrightarrow>
     (case current_lock_type e of
        LOCK_NONE \<Rightarrow> granted_queue e = [] \<and> reader_count e = 0
      | LOCK_SHARED \<Rightarrow> granted_queue e \<noteq> [] \<and>
          (\<forall>r\<in>set (granted_queue e). req_lock_type r = LOCK_SHARED) \<and>
          reader_count e = of_nat (length (granted_queue e))
      | LOCK_EXCLUSIVE \<Rightarrow> (\<exists>r. granted_queue e = [r] \<and> req_lock_type r = LOCK_EXCLUSIVE) \<and>
          reader_count e = 0)"

definition none_grantable :: "lock_entry \<Rightarrow> bool" where
  "none_grantable e \<longleftrightarrow>
     (\<forall>w\<in>set (waiting_queue e). \<not> is_lock_compatible e w \<and> req_lock_type w \<noteq> LOCK_NONE)"

lemma entry_key_ops [simp]:
  "entry_key (add_granted_request e r) = entry_key e"
  "entry_key (add_waiting_request e r) = entry_key e"
  "entry_key (finish_wait st a e) = entry_key e"
  "entry_key (create_lock_entry k) = k"
  by (simp_all add: add_granted_request_def add_waiting_request_def finish_wait_def create_lock_entry_def Let_def)

lemma grant_waiting_key [simp]: "entry_key (fst (grant_waiting e ws)) = entry_key e"
  by (induction e ws rule: grant_waiting.induct) (auto split: prod.splits)

lemma process_key [simp]: "entry_key (process_waiting_requests e) = entry_key e"
  using grant_waiting_key [of e "waiting_queue e"]
  by (cases "grant_waiting e (waiting_queue e)") (simp add: process_waiting_requests_def)

lemma remove_granted_key [simp]: "entry_key (snd (remove_granted_request e tx)) = entry_key e"
  by (simp add: remove_granted_request_def Let_def split: option.split)

lemma entry_ok_key: "entry_ok (e\<lparr>entry_key := k\<rparr>) = entry_ok e"
  by (simp add: entry_ok_def split: lock_type.split)

lemma none_grantable_key: "none_grantable (e\<lparr>entry_key := k\<rparr>) = none_grantable e"
  by (simp add: none_grantable_def is_lock_compatible_def)

lemma grant_ok:
  assumes "entry_ok e" and "is_lock_compatible e r" and "req_lock_type r \<noteq> LOCK_NONE"
  shows "entry_ok (add_granted_request e r)"
  using assms
  by (cases "current_lock_type e"; cases "req_lock_type r")
    (auto simp: entry_ok_def is_lock_compatible_def add_granted_request_def)

lemma compatible_mono:
  "is_lock_compatible (add_granted_request e r) w \<Longrightarrow> is_lock_compatible e r \<Longrightarrow>
   req_lock_type r \<noteq> LOCK_NONE \<Longrightarrow> is_lock_compatible e w"
  by (auto simp: is_lock_compatible_def add_granted_request_def split: if_splits)

lemma compatible_cong:
  "current_lock_type e' = current_lock_type e \<Longrightarrow> is_lock_compatible e' w = is_lock_compatible e w"
  by (simp add: is_lock_compatible_def)

lemma grant_waiting_ok:
  "entry_ok e \<Longrightarrow> \<forall>w\<in>set ws. req_lock_type w \<noteq> LOCK_NONE \<Longrightarrow> grant_waiting e ws = (e', rest) \<Longrightarrow>
   entry_ok e' \<and> set rest \<subseteq> set ws \<and> (\<forall>w\<in>set rest. \<not> is_lock_compatible e' w) \<and>
   (\<forall>w. is_lock_compatible e' w \<longrightarrow> is_lock_compatible e w)"
proof (induction e ws arbitrary: e' rest rule: grant_waiting.induct)
  case (2 e r rs)
  show ?case
  proof (cases "is_lock_compatible e r")
    case True
    with 2(1) [OF True grant_ok [OF 2(3) True]] 2(3-) compatible_mono [OF _ True]
    show ?thesis by fastforce
  next
    case False
    then obtain e1 ws1 where g: "grant_waiting e rs = (e1, ws1)" "e' = e1" "rest = r # ws1"
      using 2(5) by (auto split: prod.splits)
    with 2(2) [OF False 2(3) _ g(1)] 2(4) False show ?thesis by auto
  qed
qed simp

lemma process_ok:
  assumes "entry_ok e" and "\<forall>w\<in>set (waiting_queue e). req_lock_type w \<noteq> LOCK_NONE"
  shows "entry_ok (process_waiting_requests e) \<and> none_grantable (process_waiting_requests e)"
proof -
  obtain e' ws where g: "grant_waiting e (waiting_queue e) = (e', ws)" by force
  with grant_waiting_ok [OF assms g] assms(2) show ?thesis
    by (auto simp: process_waiting_requests_def none_grantable_def entry_ok_def is_lock_compatible_def
        split: lock_type.splits)
qed

lemma remove_granted_ok:
  assumes "entry_ok e" and "remove_granted_request e tx = (res, e')"
  shows "entry_ok e' \<and> waiting_queue e' = waiting_queue e \<and> (\<not> res \<longrightarrow> e' = e)"
proof (cases "find (\<lambda>r. req_transaction r = tx) (granted_queue e)")
  case None
  with assms show ?thesis by (simp add: remove_granted_request_def)
next
  case (Some r)
  let ?rest = "chain_remove (\<lambda>r. req_transaction r = tx) (granted_queue e)"
  have len: "length xs = Suc (length (chain_remove p xs))" if "find p xs \<noteq> None" for p and xs :: "lock_request list"
    using that by (induction xs) (auto split: if_splits)
  have l: "length (granted_queue e) = Suc (length ?rest)"
    using Some by (intro len) simp
  have r: "r \<in> set (granted_queue e)" using Some by (auto simp: find_Some_iff)
  have sub: "set ?rest \<subseteq> set (granted_queue e)" by (rule set_chain_remove)
  from assms Some l r sub show ?thesis
    by (cases "current_lock_type e")
      (auto simp: remove_granted_request_def entry_ok_def Let_def split: if_splits dest!: sub [THEN subsetD])
qed

section \<open>The reachable managers\<close>

text \<open>
  A step of any caller.  A timeout may come at any moment and with any answer of the
  deadlock check.
\<close>

inductive lock_step :: "lock_manager \<Rightarrow> lock_manager \<Rightarrow> bool" where
  exclusive: "lock_manager_lock_document m key tx level = (out, m') \<Longrightarrow> lock_step m m'"
| shared: "lock_manager_lock_document_shared m key tx = (out, m') \<Longrightarrow> lock_step m m'"
| unlock: "lock_manager_unlock_document m key tx = (res, m') \<Longrightarrow> lock_step m m'"
| wake: "wake_up m key a = (out, m') \<Longrightarrow> lock_step m m'"
| timeout: "timed_out sh dl m key a = (out, m') \<Longrightarrow> lock_step m m'"
| configure: "lock_step m (lock_manager_configure m d ms)"

inductive lock_reachable :: "lock_manager \<Rightarrow> bool" where
  init: "lock_reachable lock_manager_create"
| step: "lock_reachable m \<Longrightarrow> lock_step m m' \<Longrightarrow> lock_reachable m'"

inductive_cases lock_step_cases: "lock_step m m'"

definition manager_ok :: "lock_manager \<Rightarrow> bool" where
  "manager_ok m \<longleftrightarrow> table_wf m \<and>
     (\<forall>key e. find_lock_entry m key = Some e \<longrightarrow> entry_ok e \<and> none_grantable e)"

lemma manager_ok_entry: "manager_ok m \<Longrightarrow> find_lock_entry m key = Some e \<Longrightarrow> entry_ok e \<and> none_grantable e"
  unfolding manager_ok_def by blast

lemma manager_ok_create: "manager_ok lock_manager_create"
  using table_wf_create
  by (simp add: manager_ok_def find_lock_entry_lookup lock_manager_create_def locks.lookup_replicate)

lemma manager_ok_cong: "lock_table m' = lock_table m \<Longrightarrow> manager_ok m \<Longrightarrow> manager_ok m'"
  by (simp add: manager_ok_def table_wf_def find_lock_entry_lookup)

lemma manager_ok_modify:
  assumes "manager_ok m" and "\<And>e. entry_key (f e) = entry_key e"
    and "\<And>e. find_lock_entry m key = Some e \<Longrightarrow> entry_ok (f e) \<and> none_grantable (f e)"
  shows "manager_ok (modify_entry m key f)"
  using assms by (auto simp: manager_ok_def wf_modify_entry find_modify_entry)

lemma empty_entry_ok: "entry_ok (create_lock_entry key) \<and> none_grantable (create_lock_entry key)"
  by (simp add: create_lock_entry_def entry_ok_def none_grantable_def)

lemma manager_ok_ensure:
  assumes "manager_ok m"
  shows "manager_ok (ensure_entry m key) \<and> (\<exists>e. find_lock_entry (ensure_entry m key) key = Some e)"
proof (cases "find_lock_entry m key")
  case None
  with assms empty_entry_ok show ?thesis
    by (auto simp: ensure_entry_def manager_ok_def wf_add_entry find_add_entry)
qed (use assms in \<open>simp add: ensure_entry_def\<close>)

lemma manager_ok_enqueue:
  assumes "manager_ok m" and "enqueue_request free ty m key tx = (out, m')" and "ty \<noteq> LOCK_NONE"
    and free: "\<And>e r. entry_ok e \<Longrightarrow> req_lock_type r = ty \<Longrightarrow> free e r = is_lock_compatible e r"
  shows "manager_ok m'"
proof -
  let ?m = "(ensure_entry m key)\<lparr>next_request := next_request (ensure_entry m key) + 1\<rparr>"
  let ?r = "create_lock_request (next_request (ensure_entry m key)) tx ty"
  have ok: "manager_ok ?m"
    using manager_ok_cong [OF _ conjunct1 [OF manager_ok_ensure [OF assms(1)]], of ?m] by simp
  have ty: "req_lock_type ?r = ty" by (simp add: create_lock_request_def)
  obtain e where e: "find_lock_entry ?m key = Some e"
    using manager_ok_ensure [OF assms(1), of key] by (auto simp: find_lock_entry_lookup)
  with ok have eok: "entry_ok e" "none_grantable e" using manager_ok_entry by blast+
  show ?thesis
  proof (cases "free e ?r")
    case True
    then have c: "is_lock_compatible e ?r" using free [OF eok(1) ty] by simp
    have "m' = modify_entry ?m key (\<lambda>e. add_granted_request e ?r)"
      using assms(2) True e by (simp add: enqueue_request_def Let_def)
    moreover have "none_grantable (add_granted_request e ?r)"
      using eok(2) compatible_mono [OF _ c] ty assms(3)
      by (auto simp: none_grantable_def add_granted_request_def)
    ultimately show ?thesis
      using manager_ok_modify [OF ok, of "\<lambda>e. add_granted_request e ?r" key] e grant_ok [OF eok(1) c] ty assms(3)
      by simp
  next
    case False
    then have c: "\<not> is_lock_compatible e ?r" using free [OF eok(1) ty] by simp
    have "m' = modify_entry ?m key (\<lambda>e. add_waiting_request e ?r)"
      using assms(2) False e by (simp add: enqueue_request_def Let_def)
    moreover have "entry_ok (add_waiting_request e ?r) \<and> none_grantable (add_waiting_request e ?r)"
      using eok c ty assms(3)
      by (auto simp: none_grantable_def add_waiting_request_def entry_ok_def is_lock_compatible_def
          split: lock_type.splits)
    ultimately show ?thesis
      using manager_ok_modify [OF ok, of "\<lambda>e. add_waiting_request e ?r" key] e by simp
  qed
qed

lemma finish_wait_ok:
  assumes "entry_ok e" and "none_grantable e"
  shows "entry_ok (finish_wait st a e) \<and> none_grantable (finish_wait st a e)"
proof -
  have ty: "req_lock_type (set_status st a r) = req_lock_type r" for r
    by (simp add: set_status_def)
  have "set (waiting_queue (finish_wait st a e)) \<subseteq> set_status st a ` set (waiting_queue e)"
    using set_chain_remove by (fastforce simp: finish_wait_def Let_def)
  with assms ty show ?thesis
    by (fastforce simp: entry_ok_def none_grantable_def finish_wait_def is_lock_compatible_def Let_def
        split: lock_type.splits)
qed

lemma unlock_ok:
  assumes "manager_ok m" and "lock_manager_unlock_document m key tx = (res, m')"
  shows "manager_ok m'"
proof (cases "find_lock_entry m key")
  case None
  with assms show ?thesis by (simp add: lock_manager_unlock_document_def)
next
  case (Some e)
  with assms(1) have eok: "entry_ok e" "none_grantable e" using manager_ok_entry by blast+
  obtain r e1 where r: "remove_granted_request e tx = (r, e1)" by force
  let ?e2 = "if r then process_waiting_requests e1 else e1"
  have e1: "entry_ok e1" "waiting_queue e1 = waiting_queue e" "\<not> r \<longrightarrow> e1 = e"
    using remove_granted_ok [OF eok(1) r] by auto
  have "\<forall>w\<in>set (waiting_queue e1). req_lock_type w \<noteq> LOCK_NONE"
    using eok(2) e1(2) by (simp add: none_grantable_def)
  with process_ok [OF e1(1)] e1 eok have e2: "entry_ok ?e2" "none_grantable ?e2" by auto
  have key: "entry_key ?e2 = key"
    using remove_granted_key [of e tx] r find_lock_entry_key [OF Some] by simp
  have m': "m' = (if current_lock_type ?e2 = LOCK_NONE \<and> waiting_queue ?e2 = []
      then remove_lock_entry m key else modify_entry m key (\<lambda>_. ?e2))"
    using assms(2) Some r by (auto simp: lock_manager_unlock_document_def Let_def)
  have "manager_ok (modify_entry m key (\<lambda>x. ?e2\<lparr>entry_key := entry_key x\<rparr>))"
    by (rule manager_ok_modify [OF assms(1), of "\<lambda>x. ?e2\<lparr>entry_key := entry_key x\<rparr>" key])
      (simp_all add: entry_ok_key none_grantable_key e2 split del: if_split)
  moreover have "manager_ok (remove_lock_entry m key)"
    using assms(1) by (auto simp: manager_ok_def wf_remove_entry find_remove_entry split: if_splits)
  ultimately show ?thesis unfolding m' modify_entry_const [OF key] by simp
qed

lemma lock_step_ok: "lock_step m m' \<Longrightarrow> manager_ok m \<Longrightarrow> manager_ok m'"
proof (induction rule: lock_step.induct)
  case (exclusive m key tx level out m')
  have "lock_type_for level \<noteq> LOCK_NONE" by (simp add: lock_type_for_def split: isolation_level.split)
  then show ?case
    using manager_ok_enqueue [OF exclusive(2), of is_lock_compatible "lock_type_for level" key tx out m']
      exclusive(1) by (simp add: lock_manager_lock_document_def)
next
  case (shared m key tx out m')
  have "current_lock_type e \<noteq> LOCK_EXCLUSIVE \<longleftrightarrow> is_lock_compatible e r" if "req_lock_type r = LOCK_SHARED" for e r
    using that by (cases "current_lock_type e") (simp_all add: is_lock_compatible_def)
  then show ?case
    using manager_ok_enqueue [OF shared(2), of "\<lambda>e r. current_lock_type e \<noteq> LOCK_EXCLUSIVE" LOCK_SHARED key tx out m']
      shared(1) by (simp add: lock_manager_lock_document_shared_def)
next
  case (unlock m key tx res m')
  then show ?case using unlock_ok by blast
next
  case (wake m key a out m')
  have "entry_ok (process_waiting_requests e) \<and> none_grantable (process_waiting_requests e)"
    if "find_lock_entry m key = Some e" for e
    using manager_ok_entry [OF wake(2) that] by (intro process_ok) (simp_all add: none_grantable_def)
  with manager_ok_modify [OF wake(2), of process_waiting_requests key] wake(1) show ?case
    by (auto simp: wake_up_def Let_def)
next
  case (timeout sh dl m key a out m')
  have f: "manager_ok (modify_entry x key (finish_wait st a))" if "lock_table x = lock_table m" for x st
  proof (rule manager_ok_modify)
    show "manager_ok x" using manager_ok_cong [OF that timeout(2)] .
    then show "entry_ok (finish_wait st a e) \<and> none_grantable (finish_wait st a e)"
      if "find_lock_entry x key = Some e" for e
      using manager_ok_entry [OF \<open>manager_ok x\<close> that] finish_wait_ok by blast
  qed simp
  have "manager_ok (m\<lparr>retry_count := n\<rparr>)" "manager_ok (m\<lparr>retry_count_shared := n\<rparr>)" for n
    by (rule manager_ok_cong [OF _ timeout(2)], simp)+
  with timeout(1) f show ?case by (auto simp: timed_out_def Let_def split: if_splits)
next
  case (configure m d ms)
  then show ?case by (elim manager_ok_cong [rotated]) (simp add: lock_manager_configure_def)
qed

lemma lock_reachable_ok: "lock_reachable m \<Longrightarrow> manager_ok m"
  by (induction rule: lock_reachable.induct) (simp_all add: manager_ok_create lock_step_ok)

section \<open>Properties\<close>

lemma reachable_entry:
  "lock_reachable m \<Longrightarrow> find_lock_entry m key = Some e \<Longrightarrow> entry_ok e \<and> none_grantable e"
  using lock_reachable_ok manager_ok_entry by blast

text \<open>C1. Mutual exclusion: in every state the callers can reach, whatever the interleaving, a
  transaction that holds an exclusive lock on a key is the only holder, and otherwise the
  reader count is the number of holders.\<close>

theorem lock_mutual_exclusion:
  assumes "lock_reachable m" and "find_lock_entry m key = Some e" and "r \<in> set (granted_queue e)"
  shows "(req_lock_type r = LOCK_EXCLUSIVE \<longrightarrow> granted_queue e = [r]) \<and>
    (req_lock_type r \<noteq> LOCK_EXCLUSIVE \<longrightarrow>
       (\<forall>q\<in>set (granted_queue e). req_lock_type q = LOCK_SHARED) \<and>
       reader_count e = of_nat (length (granted_queue e)))"
  using reachable_entry [OF assms(1,2)] assms(3)
  by (cases "current_lock_type e") (auto simp: entry_ok_def)

definition sample_locks :: lock_manager where
  "sample_locks = snd (lock_manager_lock_document lock_manager_create (''c'', Some ''d'') 0 ISOLATION_SERIALIZABLE)"

lemma sample_locks_reachable: "lock_reachable sample_locks"
  using lock_reachable.step [OF lock_reachable.init lock_step.exclusive [OF surjective_pairing]]
  by (simp add: sample_locks_def)

lemma find_create: "find_lock_entry lock_manager_create key = None"
  by (simp add: find_lock_entry_lookup lock_manager_create_def locks.lookup_replicate)

lemma find_next_request [simp]: "find_lock_entry (m\<lparr>next_request := n\<rparr>) key = find_lock_entry m key"
  by (simp add: find_lock_entry_def)

lemma table_wf_next_request [simp]: "table_wf (m\<lparr>next_request := n\<rparr>) = table_wf m"
  by (simp add: table_wf_def)

lemma enqueue_found:
  assumes "find_lock_entry m key = Some e" and "table_wf m"
  shows "enqueue_request free ty m key tx =
      (let r = create_lock_request (next_request m) tx ty;
           m' = m\<lparr>next_request := next_request m + 1\<rparr>
       in if free e r then (Locked, modify_entry m' key (\<lambda>e. add_granted_request e r))
          else (Waits (next_request m), modify_entry m' key (\<lambda>e. add_waiting_request e r)))"
  using assms by (simp add: enqueue_request_def ensure_entry_def Let_def)

lemma sample_locks_entry:
  "find_lock_entry sample_locks (''c'', Some ''d'') =
     Some (add_granted_request (create_lock_entry (''c'', Some ''d'')) (create_lock_request 0 0 LOCK_EXCLUSIVE))"
proof -
  let ?k = "(''c'', Some ''d'')"
  let ?m = "add_lock_entry lock_manager_create (create_lock_entry ?k)"
  have wf: "table_wf ?m" using wf_add_entry [OF table_wf_create] find_create by simp
  have f: "find_lock_entry ?m ?k = Some (create_lock_entry ?k)"
    using find_add_entry [OF table_wf_create] by simp
  have n: "next_request ?m = 0" by (simp add: add_lock_entry_def lock_manager_create_def)
  have s: "sample_locks = modify_entry (?m\<lparr>next_request := 1\<rparr>) ?k
      (\<lambda>e. add_granted_request e (create_lock_request 0 0 LOCK_EXCLUSIVE))"
    using f n by (simp add: sample_locks_def lock_manager_lock_document_def enqueue_request_def
        ensure_entry_def find_create Let_def lock_type_for_def is_lock_compatible_def create_lock_entry_def)
  show ?thesis unfolding s by (rule find_modified) (use wf f in simp_all)
qed

theorem lock_mutual_exclusion_witness:
  "\<exists>e. find_lock_entry sample_locks (''c'', Some ''d'') = Some e \<and> (\<exists>r. granted_queue e = [r])"
  using lock_mutual_exclusion [OF sample_locks_reachable sample_locks_entry]
  by (simp add: sample_locks_entry add_granted_request_def create_lock_entry_def create_lock_request_def)

text \<open>C2. No lost wake-ups: a request only waits while some holder conflicts with it.\<close>

theorem lock_waiters_blocked:
  assumes "lock_reachable m" and "find_lock_entry m key = Some e" and "w \<in> set (waiting_queue e)"
  shows "\<exists>r\<in>set (granted_queue e). req_lock_type r = LOCK_EXCLUSIVE \<or> req_lock_type w = LOCK_EXCLUSIVE"
proof -
  have "\<not> is_lock_compatible e w" "req_lock_type w \<noteq> LOCK_NONE" "entry_ok e"
    using reachable_entry [OF assms(1,2)] assms(3) by (auto simp: none_grantable_def)
  then show ?thesis
    by (cases "current_lock_type e"; cases "req_lock_type w"; cases "granted_queue e")
      (auto simp: entry_ok_def is_lock_compatible_def)
qed

definition contended_locks :: lock_manager where
  "contended_locks = snd (lock_manager_lock_document sample_locks (''c'', Some ''d'') 1 ISOLATION_SERIALIZABLE)"

lemma contended_locks_reachable: "lock_reachable contended_locks"
  using lock_reachable.step [OF sample_locks_reachable lock_step.exclusive [OF surjective_pairing]]
  by (simp add: contended_locks_def)

lemma manager_table_wf: "manager_ok m \<Longrightarrow> table_wf m"
  by (simp add: manager_ok_def)

lemma sample_locks_wf: "table_wf sample_locks"
  by (rule manager_table_wf [OF lock_reachable_ok [OF sample_locks_reachable]])

lemma contended_locks_entry:
  "\<exists>e a. find_lock_entry contended_locks (''c'', Some ''d'') = Some e \<and>
     waiting_queue e = [create_lock_request a 1 LOCK_EXCLUSIVE] \<and>
     granted_queue e = [(create_lock_request 0 0 LOCK_EXCLUSIVE)\<lparr>req_status := LOCK_STATUS_GRANTED\<rparr>]"
proof -
  let ?e = "add_granted_request (create_lock_entry (''c'', Some ''d'')) (create_lock_request 0 0 LOCK_EXCLUSIVE)"
  have ty: "current_lock_type ?e = LOCK_EXCLUSIVE"
    by (simp add: add_granted_request_def create_lock_entry_def create_lock_request_def)
  have s: "contended_locks = modify_entry (sample_locks\<lparr>next_request := next_request sample_locks + 1\<rparr>)
      (''c'', Some ''d'') (\<lambda>e. add_waiting_request e (create_lock_request (next_request sample_locks) 1 LOCK_EXCLUSIVE))"
    using ty by (simp add: contended_locks_def lock_manager_lock_document_def lock_type_for_def Let_def
        enqueue_found [OF sample_locks_entry sample_locks_wf] is_lock_compatible_def)
  have "find_lock_entry contended_locks (''c'', Some ''d'') =
      Some (add_waiting_request ?e (create_lock_request (next_request sample_locks) 1 LOCK_EXCLUSIVE))"
    unfolding s by (rule find_modified) (use sample_locks_wf sample_locks_entry in simp_all)
  then show ?thesis
    by (intro exI [of _ "add_waiting_request ?e _"] exI [of _ "next_request sample_locks"])
      (simp add: add_waiting_request_def add_granted_request_def create_lock_entry_def)
qed

theorem lock_waiters_blocked_witness:
  "\<exists>e w. find_lock_entry contended_locks (''c'', Some ''d'') = Some e \<and> w \<in> set (waiting_queue e) \<and>
    (\<exists>r\<in>set (granted_queue e). req_lock_type r = LOCK_EXCLUSIVE \<or> req_lock_type w = LOCK_EXCLUSIVE)"
proof -
  obtain e a where e: "find_lock_entry contended_locks (''c'', Some ''d'') = Some e"
    "waiting_queue e = [create_lock_request a 1 LOCK_EXCLUSIVE]"
    using contended_locks_entry by blast
  then show ?thesis using lock_waiters_blocked [OF contended_locks_reachable e(1)] by auto
qed

lemma granted_stays:
  "r \<in> set (granted_queue e) \<Longrightarrow> r \<in> set (granted_queue (fst (grant_waiting e ws)))"
  by (induction e ws rule: grant_waiting.induct) (auto simp: add_granted_request_def split: prod.split)

text \<open>When the only holder of a lock releases it, the request at the head of the waiting
  queue gets it.\<close>

theorem unlock_hands_over:
  assumes "lock_reachable m" and "find_lock_entry m key = Some e"
    and "granted_queue e = [r]" and "waiting_queue e = w # ws"
  shows "fst (lock_manager_unlock_document m key (req_transaction r)) \<and>
    (\<exists>e'. find_lock_entry (snd (lock_manager_unlock_document m key (req_transaction r))) key = Some e' \<and>
       w\<lparr>req_status := LOCK_STATUS_GRANTED\<rparr> \<in> set (granted_queue e'))"
proof -
  let ?tx = "req_transaction r"
  obtain e1 where e1: "remove_granted_request e ?tx = (True, e1)" "granted_queue e1 = []"
    "current_lock_type e1 = LOCK_NONE" "waiting_queue e1 = w # ws"
    using assms(3,4) by (simp add: remove_granted_request_def Let_def)
  let ?e2 = "process_waiting_requests e1"
  have g: "w\<lparr>req_status := LOCK_STATUS_GRANTED\<rparr> \<in> set (granted_queue ?e2)"
    using granted_stays [of "w\<lparr>req_status := LOCK_STATUS_GRANTED\<rparr>" "add_granted_request e1 w" ws] e1(3,4)
    by (auto simp: process_waiting_requests_def is_lock_compatible_def add_granted_request_def split: prod.split)
  have ok: "entry_ok ?e2"
    using process_ok [of e1] remove_granted_ok [OF _ e1(1)] reachable_entry [OF assms(1,2)]
    by (auto simp: none_grantable_def)
  then have "current_lock_type ?e2 \<noteq> LOCK_NONE" using g by (auto simp: entry_ok_def)
  moreover have key: "entry_key ?e2 = key"
    using remove_granted_key [of e ?tx] e1(1) find_lock_entry_key [OF assms(2)] by simp
  ultimately have m': "lock_manager_unlock_document m key ?tx =
      (True, modify_entry m key (\<lambda>x. ?e2\<lparr>entry_key := entry_key x\<rparr>))"
    using assms(2) e1(1) by (simp add: lock_manager_unlock_document_def modify_entry_const [OF key])
  have "table_wf m" by (rule manager_table_wf [OF lock_reachable_ok [OF assms(1)]])
  from find_modify_entry [OF this, of "\<lambda>x. ?e2\<lparr>entry_key := entry_key x\<rparr>" key key] assms(2) g m'
  show ?thesis by simp
qed

theorem unlock_hands_over_witness:
  "fst (lock_manager_unlock_document contended_locks (''c'', Some ''d'') 0)"
proof -
  obtain e a where e: "find_lock_entry contended_locks (''c'', Some ''d'') = Some e"
    "waiting_queue e = [create_lock_request a 1 LOCK_EXCLUSIVE]"
    "granted_queue e = [(create_lock_request 0 0 LOCK_EXCLUSIVE)\<lparr>req_status := LOCK_STATUS_GRANTED\<rparr>]"
    using contended_locks_entry by blast
  from unlock_hands_over [OF contended_locks_reachable e(1,3,2)] show ?thesis
    by (simp add: create_lock_request_def)
qed

text \<open>A wait that times out after its request was granted meanwhile reports failure once the
  retries are used up, but the request stays in the granted queue: the lock is held by a
  transaction that was told it did not get it.\<close>

theorem timeout_leaks_lock:
  assumes "table_wf m" and "find_lock_entry m key = Some e" and "r \<in> set (granted_queue e)"
    and "req_address r = a" and "deadlock_detection m" and "sint (retry_count m) \<ge> 3"
  shows "fst (timed_out False False m key a) = Result False \<and>
    (\<exists>e'. find_lock_entry (snd (timed_out False False m key a)) key = Some e' \<and>
      current_lock_type e' = current_lock_type e \<and>
      (\<exists>r'\<in>set (granted_queue e'). req_address r' = a \<and> req_transaction r' = req_transaction r))"
proof -
  let ?m = "m\<lparr>retry_count := 0\<rparr>"
  have wf: "table_wf ?m" and f: "find_lock_entry ?m key = Some e"
    using assms(1,2) by (simp_all add: table_wf_def find_lock_entry_def)
  have "timed_out False False m key a = (Result False, modify_entry ?m key (finish_wait LOCK_STATUS_ERROR a))"
    using assms(5,6) by (simp add: timed_out_def Let_def)
  moreover have "set_status LOCK_STATUS_ERROR a r \<in> set (granted_queue (finish_wait LOCK_STATUS_ERROR a e))"
    using assms(3) by (simp add: finish_wait_def Let_def)
  moreover have "find_lock_entry (modify_entry ?m key (finish_wait LOCK_STATUS_ERROR a)) key =
      Some (finish_wait LOCK_STATUS_ERROR a e)"
    by (rule find_modified [OF wf _ f]) simp
  moreover have "current_lock_type (finish_wait LOCK_STATUS_ERROR a e) = current_lock_type e"
    by (simp add: finish_wait_def Let_def)
  moreover have "req_address (set_status LOCK_STATUS_ERROR a r) = a"
    "req_transaction (set_status LOCK_STATUS_ERROR a r) = req_transaction r"
    using assms(4) by (simp_all add: set_status_def)
  ultimately show ?thesis by auto
qed

theorem timeout_leaks_lock_witness:
  "fst (timed_out False False (sample_locks\<lparr>retry_count := 3, deadlock_detection := True\<rparr>) (''c'', Some ''d'') 0) =
     Result False"
proof -
  let ?m = "sample_locks\<lparr>retry_count := 3, deadlock_detection := True\<rparr>"
  let ?e = "add_granted_request (create_lock_entry (''c'', Some ''d'')) (create_lock_request 0 0 LOCK_EXCLUSIVE)"
  have "table_wf ?m" "find_lock_entry ?m (''c'', Some ''d'') = Some ?e"
    using sample_locks_wf sample_locks_entry by (simp_all add: table_wf_def find_lock_entry_def)
  from timeout_leaks_lock [OF this, of "(create_lock_request 0 0 LOCK_EXCLUSIVE)\<lparr>req_status := LOCK_STATUS_GRANTED\<rparr>" 0]
  show ?thesis by (simp add: add_granted_request_def create_lock_request_def)
qed

text \<open>Locks are not re-entrant: a transaction that asks again for a key it has just locked
  exclusively waits for itself.\<close>

theorem lock_not_reentrant:
  assumes "lock_reachable m" and "lock_manager_lock_document m key tx level = (Locked, m')"
  shows "\<exists>a. fst (lock_manager_lock_document m' key tx level') = Waits a"
proof -
  have ok: "manager_ok m'"
    using lock_step_ok [OF lock_step.exclusive [OF assms(2)] lock_reachable_ok [OF assms(1)]] .
  let ?m = "ensure_entry m key"
  obtain e where e: "find_lock_entry ?m key = Some e" and wf: "table_wf ?m"
    using manager_ok_ensure [OF lock_reachable_ok [OF assms(1)], of key] manager_table_wf by blast
  have ty: "lock_type_for l = LOCK_EXCLUSIVE" for l
    by (simp add: lock_type_for_def split: isolation_level.split)
  let ?r = "create_lock_request (next_request ?m) tx LOCK_EXCLUSIVE"
  have c: "is_lock_compatible e ?r"
    and m': "m' = modify_entry (?m\<lparr>next_request := next_request ?m + 1\<rparr>) key (\<lambda>e. add_granted_request e ?r)"
    using assms(2) e by (auto simp: lock_manager_lock_document_def ty enqueue_request_def Let_def split: if_splits)
  have f: "find_lock_entry m' key = Some (add_granted_request e ?r)"
    unfolding m' using find_modify_entry wf e by simp
  have "current_lock_type (add_granted_request e ?r) \<noteq> LOCK_NONE"
    by (auto simp: add_granted_request_def create_lock_request_def)
  then show ?thesis
    using enqueue_found [OF f manager_table_wf [OF ok], of is_lock_compatible LOCK_EXCLUSIVE tx]
    by (simp add: lock_manager_lock_document_def ty Let_def is_lock_compatible_def create_lock_request_def)
qed

theorem lock_not_reentrant_witness:
  "\<exists>a. fst (lock_manager_lock_document
     (snd (lock_manager_lock_document lock_manager_create (''c'', None) 5 ISOLATION_SERIALIZABLE))
     (''c'', None) 5 ISOLATION_SERIALIZABLE) = Waits a"
proof -
  have "fst (lock_manager_lock_document lock_manager_create (''c'', None) 5 ISOLATION_SERIALIZABLE) = Locked"
    using find_add_entry [OF table_wf_create]
    by (simp add: lock_manager_lock_document_def enqueue_request_def ensure_entry_def find_create Let_def
        is_lock_compatible_def create_lock_entry_def)
  then show ?thesis
    using lock_not_reentrant [OF lock_reachable.init] by (metis prod.collapse)
qed

end
