(* ===== verification/Deadlock_Props.thy ===== *)
theory Deadlock_Props
  imports Deadlock Lock_Props
begin

text \<open>
  Deadlock detection: the depth-first search finds a cycle exactly when there is one, the
  graph it searches is the wait-for relation, and resolving a deadlock between two
  transactions does not terminate.
\<close>

section \<open>Nodes\<close>

abbreviation col :: "wait_for_node list \<Rightarrow> nat \<Rightarrow> deadlock_visit_state" where
  "col ns i \<equiv> node_state (ns ! i)"

definition same_graph :: "wait_for_node list \<Rightarrow> wait_for_node list \<Rightarrow> bool" where
  "same_graph ns ns' \<longleftrightarrow>
     map (\<lambda>n. (node_transaction n, waiting_for n)) ns = map (\<lambda>n. (node_transaction n, waiting_for n)) ns'"

definition succs :: "wait_for_node list \<Rightarrow> nat \<Rightarrow> nat set" where
  "succs ns i = {j. \<exists>tx\<in>set (waiting_for (ns ! i)). node_index ns tx = Some j}"

definition graph :: "wait_for_node list \<Rightarrow> (nat \<times> nat) set" where
  "graph ns = {(i, j). i < length ns \<and> j \<in> succs ns i}"

lemma same_graph_refl [simp]: "same_graph ns ns"
  by (simp add: same_graph_def)

lemma same_graph_trans: "same_graph a b \<Longrightarrow> same_graph b c \<Longrightarrow> same_graph a c"
  by (simp add: same_graph_def)

lemma same_graph_length: "same_graph ns ns' \<Longrightarrow> length ns' = length ns"
  unfolding same_graph_def by (metis length_map)

lemma same_graph_nth:
  assumes "same_graph ns ns'" and "i < length ns"
  shows "node_transaction (ns' ! i) = node_transaction (ns ! i) \<and> waiting_for (ns' ! i) = waiting_for (ns ! i)"
proof -
  have "map (\<lambda>n. (node_transaction n, waiting_for n)) ns ! i = map (\<lambda>n. (node_transaction n, waiting_for n)) ns' ! i"
    using assms(1) by (simp add: same_graph_def)
  with assms same_graph_length [OF assms(1)] show ?thesis by simp
qed

lemma node_index_cong: "map node_transaction ns' = map node_transaction ns \<Longrightarrow> node_index ns' tx = node_index ns tx"
proof (induction ns arbitrary: ns')
  case (Cons n ns)
  obtain m ms where ns': "ns' = m # ms" using Cons.prems by (cases ns') auto
  have "node_index ms tx = node_index ns tx" by (rule Cons.IH) (use Cons.prems ns' in simp)
  then show ?case using Cons.prems unfolding ns' by simp
qed simp

lemma same_graph_transactions:
  assumes "same_graph ns ns'"
  shows "map node_transaction ns' = map node_transaction ns"
proof (rule nth_equalityI)
  show "length (map node_transaction ns') = length (map node_transaction ns)"
    using same_graph_length [OF assms] by simp
  show "map node_transaction ns' ! i = map node_transaction ns ! i" if "i < length (map node_transaction ns')" for i
    using that same_graph_nth [OF assms] same_graph_length [OF assms] by simp
qed

lemma same_graph_index: "same_graph ns ns' \<Longrightarrow> node_index ns' tx = node_index ns tx"
  by (rule node_index_cong) (rule same_graph_transactions)

lemma same_graph_succs: "same_graph ns ns' \<Longrightarrow> i < length ns \<Longrightarrow> succs ns' i = succs ns i"
  by (simp add: succs_def same_graph_index same_graph_nth)

lemma same_graph_graph: "same_graph ns ns' \<Longrightarrow> graph ns' = graph ns"
  by (auto simp: graph_def same_graph_succs same_graph_length)

lemma node_index_less: "node_index ns tx = Some j \<Longrightarrow> j < length ns \<and> node_transaction (ns ! j) = tx"
  by (induction ns arbitrary: j) (auto split: if_splits)

lemma succs_less: "j \<in> succs ns i \<Longrightarrow> j < length ns"
  by (auto simp: succs_def dest: node_index_less)

lemma same_graph_set_state [simp]: "same_graph ns (set_state st i ns)"
proof (cases "i < length ns")
  case True
  then show ?thesis
    unfolding same_graph_def set_state_def by (intro nth_equalityI) (auto simp: nth_list_update)
qed (simp add: set_state_def list_update_beyond)

lemma col_set_state: "j < length ns \<Longrightarrow> col (set_state st i ns) j = (if j = i then st else col ns j)"
  by (auto simp: set_state_def nth_list_update)

lemma length_set_state [simp]: "length (set_state st i ns) = length ns"
  by (simp add: set_state_def)

section \<open>What a search leaves\<close>

text \<open>Induction over the search and its result at once.\<close>

lemma search_induct:
  assumes zero: "\<And>nodes i. P 0 nodes i (False, nodes)"
    and out: "\<And>n nodes i. length nodes \<le> i \<Longrightarrow> P (Suc n) nodes i (False, nodes)"
    and enter: "\<And>n nodes i b ns. i < length nodes \<Longrightarrow>
        Q n (set_state DL_IN_PROGRESS i nodes) (waiting_for (nodes ! i)) (b, ns) \<Longrightarrow>
        same_graph nodes ns \<Longrightarrow>
        P (Suc n) nodes i (b, if b then ns else set_state DL_VISITED i ns)"
    and nil: "\<And>n nodes. Q n nodes [] (False, nodes)"
    and skip: "\<And>n nodes tx txs b ns. (\<And>j. node_index nodes tx = Some j \<Longrightarrow> col nodes j = DL_VISITED) \<Longrightarrow>
        Q n nodes txs (b, ns) \<Longrightarrow> Q n nodes (tx # txs) (b, ns)"
    and cycle: "\<And>n nodes tx txs j. node_index nodes tx = Some j \<Longrightarrow> col nodes j = DL_IN_PROGRESS \<Longrightarrow>
        Q n nodes (tx # txs) (True, nodes)"
    and found: "\<And>n nodes tx txs j ns. node_index nodes tx = Some j \<Longrightarrow> col nodes j = DL_NOT_VISITED \<Longrightarrow>
        P n nodes j (True, ns) \<Longrightarrow> Q n nodes (tx # txs) (True, ns)"
    and more: "\<And>n nodes tx txs j ns b ns'. node_index nodes tx = Some j \<Longrightarrow> col nodes j = DL_NOT_VISITED \<Longrightarrow>
        P n nodes j (False, ns) \<Longrightarrow> same_graph nodes ns \<Longrightarrow> detect_cycle n nodes j = (False, ns) \<Longrightarrow>
        Q n ns txs (b, ns') \<Longrightarrow>
        Q n nodes (tx # txs) (b, ns')"
  shows "P n nodes i (detect_cycle n nodes i) \<and> Q m nodes' txs (visit_neighbours m nodes' txs)"
proof -
  have "P n nodes i (detect_cycle n nodes i) \<and> same_graph nodes (snd (detect_cycle n nodes i))"
    and "Q n nodes txs (visit_neighbours n nodes txs) \<and> same_graph nodes (snd (visit_neighbours n nodes txs))"
    for n nodes i txs
  proof (induction n nodes i and n nodes txs rule: detect_cycle_visit_neighbours.induct)
    case (1 nodes i)
    then show ?case by (simp add: zero)
  next
    case (2 n nodes i)
    show ?case
    proof (cases "length nodes \<le> i")
      case True
      then show ?thesis by (simp add: out)
    next
      case False
      obtain b ns where v: "visit_neighbours n (set_state DL_IN_PROGRESS i nodes) (waiting_for (nodes ! i)) = (b, ns)"
        by force
      have g: "same_graph nodes ns"
        using 2 [OF False] v same_graph_trans [OF same_graph_set_state] by fastforce
      have "P (Suc n) nodes i (b, if b then ns else set_state DL_VISITED i ns)"
        using enter [OF _ _ g, of i n b] 2 [OF False] v False by simp
      moreover have "same_graph nodes (set_state DL_VISITED i ns)"
        using same_graph_trans [OF g] by simp
      ultimately show ?thesis using v False g by (auto split: bool.splits)
    qed
  next
    case (3 n nodes)
    then show ?case by (simp add: nil)
  next
    case (4 n nodes tx txs)
    show ?case
    proof (cases "node_index nodes tx")
      case None
      then show ?thesis using 4(1) skip [of nodes tx n txs] by (cases "visit_neighbours n nodes txs") simp
    next
      case (Some j)
      show ?thesis
      proof (cases "col nodes j")
        case DL_NOT_VISITED
        obtain b1 ns1 where d: "detect_cycle n nodes j = (b1, ns1)" by force
        have P: "P n nodes j (b1, ns1)" "same_graph nodes ns1"
          using 4(2) [OF Some DL_NOT_VISITED] d by simp_all
        show ?thesis
        proof (cases b1)
          case True
          then show ?thesis using found [OF Some DL_NOT_VISITED] P d Some DL_NOT_VISITED by simp
        next
          case False
          have "Q n ns1 txs (visit_neighbours n ns1 txs) \<and> same_graph ns1 (snd (visit_neighbours n ns1 txs))"
            using 4(3) [OF Some DL_NOT_VISITED d [symmetric]] False by simp
          then show ?thesis
            using more [OF Some DL_NOT_VISITED] P d False Some DL_NOT_VISITED same_graph_trans [OF P(2)]
            by (cases "visit_neighbours n ns1 txs") simp
        qed
      next
        case DL_IN_PROGRESS
        then show ?thesis using cycle [OF Some] Some by simp
      next
        case DL_VISITED
        then show ?thesis
          using 4(4) [OF Some DL_VISITED] skip [of nodes tx n txs] Some
          by (cases "visit_neighbours n nodes txs") simp
      qed
    qed
  qed
  then show ?thesis by blast
qed

text \<open>A search that finds nothing only turns nodes not visited into visited ones.\<close>

definition ext :: "wait_for_node list \<Rightarrow> wait_for_node list \<Rightarrow> bool" where
  "ext ns ns' \<longleftrightarrow> same_graph ns ns' \<and>
     (\<forall>i<length ns. col ns' i = col ns i \<or> col ns i = DL_NOT_VISITED \<and> col ns' i = DL_VISITED)"

lemma ext_refl [simp]: "ext ns ns"
  by (simp add: ext_def)

lemma ext_length: "ext ns ns' \<Longrightarrow> length ns' = length ns"
  by (simp add: ext_def same_graph_length)

lemma ext_col: "ext ns ns' \<Longrightarrow> i < length ns \<Longrightarrow>
    col ns' i = col ns i \<or> col ns i = DL_NOT_VISITED \<and> col ns' i = DL_VISITED"
  by (simp add: ext_def)

lemma ext_graph: "ext ns ns' \<Longrightarrow> graph ns' = graph ns"
  by (simp add: ext_def same_graph_graph)

lemma ext_trans:
  assumes "ext a b" and "ext b c"
  shows "ext a c"
proof -
  have "same_graph a c" using assms same_graph_trans by (auto simp: ext_def)
  moreover have "col c i = col a i \<or> col a i = DL_NOT_VISITED \<and> col c i = DL_VISITED" if "i < length a" for i
    using ext_col [OF assms(1) that] ext_col [OF assms(2), of i] that ext_length [OF assms(1)] by auto
  ultimately show ?thesis by (simp add: ext_def)
qed

lemma ext_enter:
  assumes "ext (set_state DL_IN_PROGRESS i nodes) ns" and "col nodes i = DL_NOT_VISITED" and "i < length nodes"
  shows "ext nodes (set_state DL_VISITED i ns)"
proof -
  have "same_graph nodes ns" by (rule same_graph_trans [OF same_graph_set_state [of _ DL_IN_PROGRESS i]]) (use assms(1) in \<open>simp add: ext_def\<close>)
  then have "same_graph nodes (set_state DL_VISITED i ns)" by (rule same_graph_trans) simp
  moreover have "col (set_state DL_VISITED i ns) j = col nodes j \<or>
      col nodes j = DL_NOT_VISITED \<and> col (set_state DL_VISITED i ns) j = DL_VISITED" if "j < length nodes" for j
    using ext_col [OF assms(1), of j] ext_length [OF assms(1)] that assms(2) by (auto simp: col_set_state)
  ultimately show ?thesis by (simp add: ext_def)
qed

lemma search_ext_rule:
  "(i < length nodes \<longrightarrow> col nodes i = DL_NOT_VISITED) \<longrightarrow> (\<not> fst (detect_cycle n nodes i) \<longrightarrow> ext nodes (snd (detect_cycle n nodes i)))"
  "\<not> fst (visit_neighbours n nodes txs) \<longrightarrow> ext nodes (snd (visit_neighbours n nodes txs))"
proof -
  let ?P = "\<lambda>n nodes i (b, ns). (i < length nodes \<longrightarrow> col nodes i = DL_NOT_VISITED) \<longrightarrow> \<not> b \<longrightarrow> ext nodes ns"
  let ?Q = "\<lambda>n nodes txs (b, ns). \<not> b \<longrightarrow> ext nodes ns"
  have "?P n nodes i (detect_cycle n nodes i) \<and> ?Q n nodes txs (visit_neighbours n nodes txs)"
    by (rule search_induct [where P = ?P and Q = ?Q])
      (auto intro: ext_enter ext_trans dest: node_index_less)
  then show "(i < length nodes \<longrightarrow> col nodes i = DL_NOT_VISITED) \<longrightarrow> (\<not> fst (detect_cycle n nodes i) \<longrightarrow> ext nodes (snd (detect_cycle n nodes i)))"
    and "\<not> fst (visit_neighbours n nodes txs) \<longrightarrow> ext nodes (snd (visit_neighbours n nodes txs))"
    by (auto split: prod.splits)
qed

lemma search_ext:
  "detect_cycle n nodes i = (False, ns) \<Longrightarrow> col nodes i = DL_NOT_VISITED \<Longrightarrow> ext nodes ns"
  "visit_neighbours n nodes txs = (False, ns) \<Longrightarrow> ext nodes ns"
  using search_ext_rule(1) [of i nodes n] search_ext_rule(2) [of n nodes txs] by simp_all

section \<open>Soundness and completeness of the search\<close>

text \<open>
  What is visited is explored: the successors of a visited node are visited, and it lies on
  no cycle.  The depth bound is never used up while it is at least the number of nodes not
  yet visited.
\<close>

definition explored :: "wait_for_node list \<Rightarrow> bool" where
  "explored ns \<longleftrightarrow> (\<forall>v<length ns. col ns v = DL_VISITED \<longrightarrow>
     (\<forall>j\<in>succs ns v. col ns j = DL_VISITED) \<and> (v, v) \<notin> (graph ns)\<^sup>+)"

lemma exploredI:
  assumes "\<And>v j. v < length ns \<Longrightarrow> col ns v = DL_VISITED \<Longrightarrow> j \<in> succs ns v \<Longrightarrow> col ns j = DL_VISITED"
    and "\<And>v. v < length ns \<Longrightarrow> col ns v = DL_VISITED \<Longrightarrow> (v, v) \<notin> (graph ns)\<^sup>+"
  shows "explored ns"
  using assms unfolding explored_def by blast

lemma explored_succ:
  "explored ns \<Longrightarrow> v < length ns \<Longrightarrow> col ns v = DL_VISITED \<Longrightarrow> j \<in> succs ns v \<Longrightarrow> col ns j = DL_VISITED"
  unfolding explored_def by blast

lemma explored_acyclic:
  "explored ns \<Longrightarrow> v < length ns \<Longrightarrow> col ns v = DL_VISITED \<Longrightarrow> (v, v) \<notin> (graph ns)\<^sup>+"
  unfolding explored_def by blast

definition unvisited :: "wait_for_node list \<Rightarrow> nat set" where
  "unvisited ns = {i. i < length ns \<and> col ns i = DL_NOT_VISITED}"

lemma finite_unvisited [simp]: "finite (unvisited ns)"
  by (rule finite_subset [of _ "{..<length ns}"]) (auto simp: unvisited_def)

lemma unvisited_ext: "ext ns ns' \<Longrightarrow> card (unvisited ns') \<le> card (unvisited ns)"
  by (rule card_mono) (auto simp: unvisited_def ext_length dest: ext_col)

lemma unvisited_enter:
  assumes "i < length ns" and "col ns i = DL_NOT_VISITED"
  shows "card (unvisited (set_state DL_IN_PROGRESS i ns)) < card (unvisited ns)"
proof -
  have "j \<in> unvisited (set_state DL_IN_PROGRESS i ns) \<longleftrightarrow> j \<in> unvisited ns - {i}" for j
    by (cases "j < length ns") (simp_all add: unvisited_def col_set_state)
  then have "unvisited (set_state DL_IN_PROGRESS i ns) = unvisited ns - {i}" by blast
  moreover have "i \<in> unvisited ns" using assms by (simp add: unvisited_def)
  ultimately show ?thesis by (simp only: card_Diff1_less finite_unvisited)
qed

lemma graph_less: "(i, j) \<in> graph ns \<Longrightarrow> i < length ns \<and> j < length ns"
  by (auto simp: graph_def succs_less)

lemma trancl_graph_less: "(i, j) \<in> (graph ns)\<^sup>+ \<Longrightarrow> i < length ns \<and> j < length ns"
  by (induction rule: trancl_induct) (auto dest: graph_less)

lemma explored_closed:
  assumes "explored ns" and "(j, k) \<in> (graph ns)\<^sup>*" and "col ns j = DL_VISITED"
  shows "col ns k = DL_VISITED"
  using assms(2,3)
proof (induction rule: rtrancl_induct)
  case (step y z)
  then have "y < length ns" "z \<in> succs ns y" by (auto simp: graph_def)
  with step explored_succ [OF assms(1)] show ?case by simp
qed simp

lemma set_state_graph:
  "graph (set_state st i ns) = graph ns"
  "v < length ns \<Longrightarrow> succs (set_state st i ns) v = succs ns v"
  by (simp_all add: same_graph_graph [OF same_graph_set_state] same_graph_succs [OF same_graph_set_state])

lemma explored_enter:
  assumes "explored ns" and "i < length ns" and "col ns i = DL_NOT_VISITED"
  shows "explored (set_state DL_IN_PROGRESS i ns)"
proof (rule exploredI, goal_cases)
  case (1 v j)
  then have v: "v < length ns" "col ns v = DL_VISITED" "j \<in> succs ns v"
    by (auto simp: col_set_state set_state_graph split: if_splits)
  then have "col ns j = DL_VISITED" "j < length ns"
    using explored_succ [OF assms(1)] succs_less by simp_all
  then show ?case using assms(3) by (auto simp: col_set_state)
next
  case (2 v)
  then have "v < length ns" "col ns v = DL_VISITED" by (auto simp: col_set_state split: if_splits)
  then show ?case using explored_acyclic [OF assms(1)] by (simp add: set_state_graph)
qed

lemma explored_leave:
  assumes ex: "explored ns" and i: "i < length ns" "col ns i = DL_IN_PROGRESS"
    and succs: "\<forall>j\<in>succs ns i. col ns j = DL_VISITED"
  shows "explored (set_state DL_VISITED i ns)"
proof (rule exploredI, goal_cases)
  case (1 v j)
  then have v: "v < length ns" "j \<in> succs ns v" "v = i \<or> col ns v = DL_VISITED"
    by (auto simp: col_set_state set_state_graph split: if_splits)
  then have "col ns j = DL_VISITED" using explored_succ [OF ex v(1)] succs by blast
  then show ?case using succs_less [OF v(2)] by (simp add: col_set_state)
next
  case (2 v)
  have "(i, i) \<notin> (graph ns)\<^sup>+"
  proof
    assume "(i, i) \<in> (graph ns)\<^sup>+"
    then obtain j where j: "(i, j) \<in> graph ns" "(j, i) \<in> (graph ns)\<^sup>*" by (meson tranclD)
    then have "col ns j = DL_VISITED" using succs by (auto simp: graph_def)
    with explored_closed [OF ex j(2)] i(2) show False by simp
  qed
  moreover from 2 have "v < length ns" "v = i \<or> col ns v = DL_VISITED"
    by (auto simp: col_set_state split: if_splits)
  ultimately show ?case using explored_acyclic [OF ex] by (auto simp: set_state_graph)
qed

text \<open>A search that finds nothing has explored what it was asked to.\<close>

lemma search_explored:
  "detect_cycle n nodes i = (False, ns) \<Longrightarrow> i < length nodes \<Longrightarrow> col nodes i = DL_NOT_VISITED \<Longrightarrow>
     explored nodes \<Longrightarrow> card (unvisited nodes) \<le> n \<Longrightarrow> explored ns \<and> col ns i = DL_VISITED"
  "visit_neighbours n nodes txs = (False, ns) \<Longrightarrow> explored nodes \<Longrightarrow> card (unvisited nodes) \<le> n \<Longrightarrow>
     explored ns \<and> (\<forall>tx\<in>set txs. \<forall>j. node_index nodes tx = Some j \<longrightarrow> col ns j = DL_VISITED)"
proof -
  let ?P = "\<lambda>n nodes i (b, ns). i < length nodes \<and> col nodes i = DL_NOT_VISITED \<and> explored nodes \<and>
      card (unvisited nodes) \<le> n \<longrightarrow> \<not> b \<longrightarrow> explored ns \<and> col ns i = DL_VISITED \<and> ext nodes ns"
  let ?Q = "\<lambda>n nodes txs (b, ns). explored nodes \<and> card (unvisited nodes) \<le> n \<longrightarrow> \<not> b \<longrightarrow>
      explored ns \<and> ext nodes ns \<and> (\<forall>tx\<in>set txs. \<forall>j. node_index nodes tx = Some j \<longrightarrow> col ns j = DL_VISITED)"
  have rules: "?P n nodes i (detect_cycle n nodes i) \<and> ?Q n nodes txs (visit_neighbours n nodes txs)"
    for n nodes i txs
  proof (rule search_induct [where P = ?P and Q = ?Q], goal_cases)
    case (1 nodes i)
    have False if "i < length nodes" "col nodes i = DL_NOT_VISITED" "card (unvisited nodes) = 0"
      using that by (auto simp: unvisited_def)
    then show ?case by auto
  next
    case (3 n nodes i b ns)
    let ?ns = "set_state DL_IN_PROGRESS i nodes"
    show ?case
    proof (clarsimp split del: if_split, goal_cases)
      case 1
      have ex: "explored ns" "ext ?ns ns"
        and vis: "\<And>tx j. tx \<in> set (waiting_for (nodes ! i)) \<Longrightarrow> node_index ?ns tx = Some j \<Longrightarrow> col ns j = DL_VISITED"
        using 3(2) 1 explored_enter unvisited_enter [of i nodes] by auto
      have len: "length ns = length nodes" using ext_length [OF ex(2)] by simp
      have ip: "col ns i = DL_IN_PROGRESS" using ext_col [OF ex(2), of i] 1 by (simp add: col_set_state)
      have "waiting_for (ns ! i) = waiting_for (nodes ! i)"
        using same_graph_nth [OF 3(3,1)] by simp
      then have "\<forall>j\<in>succs ns i. col ns j = DL_VISITED"
        using vis same_graph_index [OF 3(3)] same_graph_index [OF same_graph_set_state] by (fastforce simp: succs_def)
      from explored_leave [OF ex(1) _ ip this] ext_enter [OF ex(2)] 1 len
      show ?case by (simp add: col_set_state)
    qed
  next
    case (5 n nodes tx txs b ns)
    then show ?case
    proof (clarsimp, goal_cases)
      case (1 j)
      then have "ext nodes ns" "col nodes j = DL_VISITED" "j < length nodes" by (auto dest: node_index_less)
      then show ?case using ext_col by fastforce
    qed
  next
    case (8 n nodes tx txs j ns b ns')
    then show ?case
    proof (clarsimp, goal_cases)
      case 1
      have j: "j < length nodes" using 1 by (simp add: node_index_less)
      have ns: "explored ns" "col ns j = DL_VISITED" "ext nodes ns" using 1 j by auto
      have "card (unvisited ns) \<le> n" using unvisited_ext [OF ns(3)] 1 by simp
      with 1 ns have ns': "explored ns'" "ext ns ns'"
        and vis: "\<forall>tx\<in>set txs. \<forall>j. node_index ns tx = Some j \<longrightarrow> col ns' j = DL_VISITED" by auto
      have "col ns' j = DL_VISITED" using ext_col [OF ns'(2), of j] ns j ext_length [OF ns(3)] by simp
      with ns ns' vis ext_trans [OF ns(3) ns'(2)] same_graph_index [of nodes ns] 1 show ?case by auto
    qed
  qed auto
  show "detect_cycle n nodes i = (False, ns) \<Longrightarrow> i < length nodes \<Longrightarrow> col nodes i = DL_NOT_VISITED \<Longrightarrow>
     explored nodes \<Longrightarrow> card (unvisited nodes) \<le> n \<Longrightarrow> explored ns \<and> col ns i = DL_VISITED"
    using rules [where n = n and nodes = nodes and i = i] by simp
  show "visit_neighbours n nodes txs = (False, ns) \<Longrightarrow> explored nodes \<Longrightarrow> card (unvisited nodes) \<le> n \<Longrightarrow>
     explored ns \<and> (\<forall>tx\<in>set txs. \<forall>j. node_index nodes tx = Some j \<longrightarrow> col ns j = DL_VISITED)"
    using rules [where n = n and nodes = nodes and txs = txs] by simp
qed

text \<open>A search that finds something has closed a cycle, and leaves a node in progress.\<close>

definition stack_to :: "wait_for_node list \<Rightarrow> nat \<Rightarrow> bool" where
  "stack_to ns i \<longleftrightarrow> (\<forall>g<length ns. col ns g = DL_IN_PROGRESS \<longrightarrow> (g, i) \<in> (graph ns)\<^sup>*)"

definition has_cycle :: "wait_for_node list \<Rightarrow> bool" where
  "has_cycle ns \<longleftrightarrow> (\<exists>v. (v, v) \<in> (graph ns)\<^sup>+)"

lemma stack_to_step: "stack_to ns c \<Longrightarrow> (c, j) \<in> graph ns \<Longrightarrow> stack_to ns j"
  unfolding stack_to_def by (meson rtrancl.rtrancl_into_rtrancl)

lemma stack_to_ext: "stack_to ns c \<Longrightarrow> ext ns ns' \<Longrightarrow> stack_to ns' c"
  unfolding stack_to_def
  by (metis ext_col ext_def ext_length same_graph_graph deadlock_visit_state.distinct(5))

lemma stack_to_enter:
  assumes "stack_to ns i" shows "stack_to (set_state DL_IN_PROGRESS i ns) i"
  unfolding stack_to_def
proof (intro allI impI)
  fix g assume g: "g < length (set_state DL_IN_PROGRESS i ns)" "col (set_state DL_IN_PROGRESS i ns) g = DL_IN_PROGRESS"
  show "(g, i) \<in> (graph (set_state DL_IN_PROGRESS i ns))\<^sup>*"
  proof (cases "g = i")
    case False
    with g assms show ?thesis by (simp add: stack_to_def col_set_state set_state_graph)
  qed simp
qed

lemma search_finds:
  assumes "fst (detect_cycle n nodes i)" and "stack_to nodes i"
  shows "has_cycle nodes"
proof -
  let ?P = "\<lambda>n nodes i (b, ns). b \<longrightarrow> stack_to nodes i \<longrightarrow> has_cycle nodes"
  let ?Q = "\<lambda>n nodes txs (b, ns). b \<longrightarrow> (\<forall>c. c < length nodes \<longrightarrow> stack_to nodes c \<longrightarrow>
      set txs \<subseteq> set (waiting_for (nodes ! c)) \<longrightarrow> has_cycle nodes)"
  have edge: "(c, j) \<in> graph ns" if "c < length ns" "node_index ns tx = Some j" "tx \<in> set (waiting_for (ns ! c))" for c j tx ns
    using that by (auto simp: graph_def succs_def)
  have "?P n nodes i (detect_cycle n nodes i) \<and> ?Q 0 [] [] (visit_neighbours 0 [] [])"
  proof (rule search_induct [where P = ?P and Q = ?Q], goal_cases)
    case (3 n nodes i b ns)
    let ?ns = "set_state DL_IN_PROGRESS i nodes"
    show ?case
    proof (clarsimp split del: if_split)
      assume b: "b" and st: "stack_to nodes i"
      have "has_cycle ?ns"
        using 3(2) b stack_to_enter [OF st] 3(1) same_graph_nth [OF same_graph_set_state 3(1)] by fastforce
      then show "has_cycle nodes" by (simp add: has_cycle_def set_state_graph)
    qed
  next
    case (6 n nodes tx txs j)
    show ?case
    proof (clarsimp)
      fix c assume c: "c < length nodes" "stack_to nodes c" "tx \<in> set (waiting_for (nodes ! c))"
      have "(j, c) \<in> (graph nodes)\<^sup>*" using c(2) 6 node_index_less [OF 6(1)] by (simp add: stack_to_def)
      with edge [OF c(1) 6(1) c(3)] have "(c, c) \<in> (graph nodes)\<^sup>+" by (rule rtrancl_into_trancl2)
      then show "has_cycle nodes" unfolding has_cycle_def by blast
    qed
  next
    case (7 n nodes tx txs j ns)
    then show ?case using edge stack_to_step by fastforce
  next
    case (8 n nodes tx txs j ns b ns')
    show ?case
    proof (clarsimp)
      fix c assume b: "b" and c: "c < length nodes" "stack_to nodes c" "tx \<in> set (waiting_for (nodes ! c))"
        "set txs \<subseteq> set (waiting_for (nodes ! c))"
      have ext: "ext nodes ns" by (rule search_ext(1) [OF 8(5,2)])
      have "has_cycle ns"
        using 8(6) b c stack_to_ext [OF c(2) ext] same_graph_nth [OF 8(4) c(1)] ext_length [OF ext] by auto
      then show "has_cycle nodes" by (simp add: has_cycle_def same_graph_graph [OF 8(4)])
    qed
  qed auto
  then show ?thesis using assms by (auto split: prod.splits)
qed

lemma search_in_progress:
  assumes "fst (detect_cycle n nodes i)"
  shows "\<exists>g<length nodes. col (snd (detect_cycle n nodes i)) g = DL_IN_PROGRESS"
proof -
  let ?P = "\<lambda>(n :: nat) (nodes :: wait_for_node list) (i :: nat) (b, ns). b \<longrightarrow> (\<exists>g<length nodes. col ns g = DL_IN_PROGRESS)"
  let ?Q = "\<lambda>(n :: nat) (nodes :: wait_for_node list) (txs :: nat list) (b, ns). b \<longrightarrow> (\<exists>g<length nodes. col ns g = DL_IN_PROGRESS)"
  have "?P n nodes i (detect_cycle n nodes i) \<and> ?Q 0 [] [] (visit_neighbours 0 [] [])"
    by (rule search_induct [where P = ?P and Q = ?Q])
      (auto dest: node_index_less simp: same_graph_length)
  with assms show ?thesis by (auto split: prod.splits)
qed

lemma search_same_graph: "same_graph nodes (snd (detect_cycle n nodes i))"
proof -
  let ?P = "\<lambda>n nodes (i :: nat) (b :: bool, ns). same_graph nodes ns"
  let ?Q = "\<lambda>n nodes (txs :: nat list) (b :: bool, ns). same_graph nodes ns"
  have "?P n nodes i (detect_cycle n nodes i) \<and> ?Q 0 [] [] (visit_neighbours 0 [] [])"
    by (rule search_induct [where P = ?P and Q = ?Q])
      (auto intro: same_graph_trans)
  then show ?thesis by (auto split: prod.splits)
qed

section \<open>The scan\<close>

definition idle :: "wait_for_node list \<Rightarrow> bool" where
  "idle ns \<longleftrightarrow> (\<forall>i<length ns. col ns i \<noteq> DL_IN_PROGRESS)"

lemma idle_stack: "idle ns \<Longrightarrow> stack_to ns i"
  by (simp add: idle_def stack_to_def)

lemma idle_ext: "idle ns \<Longrightarrow> ext ns ns' \<Longrightarrow> idle ns'"
  unfolding idle_def by (metis ext_col ext_length deadlock_visit_state.distinct(5))

lemma scan_nodes_spec:
  assumes "scan_nodes skip nodes is = (b, ns)" and "explored nodes" and "idle nodes"
    and "\<forall>i\<in>set is. i < length nodes"
  shows "same_graph nodes ns \<and>
    (b \<longrightarrow> has_cycle nodes \<and> (\<exists>g<length nodes. col ns g = DL_IN_PROGRESS)) \<and>
    (\<not> b \<longrightarrow> explored ns \<and> ext nodes ns \<and>
      (\<forall>i\<in>set is. col ns i = DL_VISITED \<or> Some (node_transaction (nodes ! i)) = skip))"
  using assms
proof (induction skip nodes "is" rule: scan_nodes.induct)
  case (2 skip nodes i "is")
  show ?case
  proof (cases "col nodes i = DL_NOT_VISITED \<and> Some (node_transaction (nodes ! i)) \<noteq> skip")
    case True
    obtain b1 ns1 where d: "detect_cycle (length nodes) nodes i = (b1, ns1)" by force
    have i: "i < length nodes" using 2(6) by simp
    have g1: "same_graph nodes ns1" using search_same_graph [of nodes "length nodes" i] d by simp
    show ?thesis
    proof (cases b1)
      case True': True
      have "has_cycle nodes" using search_finds [OF _ idle_stack [OF 2(5)], of "length nodes" i] d True' by simp
      moreover have "\<exists>g<length nodes. col ns1 g = DL_IN_PROGRESS"
        using search_in_progress [of "length nodes" nodes i] d True' by simp
      ultimately show ?thesis using 2(3) True True' d g1 by simp
    next
      case False
      have card: "card (unvisited nodes) \<le> length nodes"
        using card_mono [of "{..<length nodes}" "unvisited nodes"] by (auto simp: unvisited_def)
      have ex: "explored ns1" "col ns1 i = DL_VISITED"
        using search_explored(1) [OF _ i _ 2(4) card] d False True by simp_all
      have ext: "ext nodes ns1" using search_ext(1) [of "length nodes" nodes i ns1] d False True by simp
      have scan: "scan_nodes skip ns1 is = (b, ns)" using 2(3) d False True by simp
      have "\<forall>i\<in>set is. i < length ns1" using 2(6) ext_length [OF ext] by simp
      from 2(1) [OF True d [symmetric] _ scan ex(1) idle_ext [OF 2(5) ext] this] False
      have IH: "same_graph ns1 ns" "b \<longrightarrow> has_cycle ns1 \<and> (\<exists>g<length ns1. col ns g = DL_IN_PROGRESS)"
        "\<not> b \<longrightarrow> explored ns \<and> ext ns1 ns \<and> (\<forall>i\<in>set is. col ns i = DL_VISITED \<or> Some (node_transaction (ns1 ! i)) = skip)"
        by simp_all
      have "\<not> b \<longrightarrow> col ns i = DL_VISITED"
        using IH(3) ext_col [of ns1 ns i] ex(2) i ext_length [OF ext] by auto
      then show ?thesis
        using IH same_graph_trans [OF g1] ext_trans [OF ext] 2(6) same_graph_nth [OF g1] ext_length [OF ext]
        by (auto simp: has_cycle_def same_graph_graph [OF g1])
    qed
  next
    case False
    then have scan: "scan_nodes skip nodes is = (b, ns)" using 2(3) by auto
    have "col nodes i = DL_VISITED \<or> Some (node_transaction (nodes ! i)) = skip"
      using False 2(5,6) by (cases "col nodes i") (auto simp: idle_def)
    with 2(2) [OF False scan 2(4,5)] 2(6) show ?thesis
      by (auto dest: ext_col [of nodes ns i])
  qed
qed simp

section \<open>The graph\<close>

text \<open>The relation the graph stands for: who waits for a conflicting lock of whom.\<close>

definition waits_for :: "lock_manager \<Rightarrow> (nat \<times> nat) set" where
  "waits_for m = {(a, b). \<exists>e\<in>set (concat (lock_table m)). \<exists>w\<in>set (waiting_queue e). \<exists>g\<in>set (granted_queue e).
     (req_lock_type g = LOCK_EXCLUSIVE \<or> req_lock_type w = LOCK_EXCLUSIVE) \<and>
     a = req_transaction w \<and> b = req_transaction g}"

lemma graph_edges_set: "set (graph_edges m) = waits_for m"
  by (auto simp: graph_edges_def waits_for_def conflicting_def)

lemma edge_transactions: "(a, b) \<in> set (graph_edges m) \<Longrightarrow>
    a \<in> set (graph_transactions m) \<and> b \<in> set (graph_transactions m)"
  by (auto simp: graph_edges_def graph_transactions_def)

lemma node_index_None: "node_index ns tx = None \<longleftrightarrow> tx \<notin> node_transaction ` set ns"
  by (induction ns) auto

lemma node_index_Some:
  assumes "distinct (map node_transaction ns)" and "i < length ns"
  shows "node_index ns (node_transaction (ns ! i)) = Some i"
proof -
  have "node_index ns (node_transaction (ns ! i)) \<noteq> None" using assms(2) by (simp add: node_index_None)
  then obtain j where j: "node_index ns (node_transaction (ns ! i)) = Some j" by blast
  with node_index_less [OF j] assms show ?thesis by (auto simp: distinct_conv_nth)
qed

definition fresh_node :: "wait_for_node \<Rightarrow> bool" where
  "fresh_node n \<longleftrightarrow> node_state n = DL_NOT_VISITED \<and> waiting_for n = []"

lemma add_nodes:
  "distinct (map node_transaction ns) \<Longrightarrow> list_all fresh_node ns \<Longrightarrow>
   distinct (map node_transaction (fold add_node txs ns)) \<and> list_all fresh_node (fold add_node txs ns) \<and>
   node_transaction ` set (fold add_node txs ns) = node_transaction ` set ns \<union> set txs"
proof (induction txs arbitrary: ns)
  case (Cons tx txs)
  have "distinct (map node_transaction (add_node tx ns))" "list_all fresh_node (add_node tx ns)"
    "node_transaction ` set (add_node tx ns) = insert tx (node_transaction ` set ns)"
    using Cons.prems node_index_None [of ns tx]
      fresh_node_def [of "\<lparr>node_transaction = tx, node_state = DL_NOT_VISITED, waiting_for = []\<rparr>"]
    by (auto simp: add_node_def)
  from Cons.IH [OF this(1,2)] this(3) show ?case by simp
qed simp

lemma add_waiting_for_set: "set (waiting_for (add_waiting_for n tx)) = insert tx (set (waiting_for n))"
  by (auto simp: add_waiting_for_def)

lemma add_waiting_for_rest [simp]:
  "node_transaction (add_waiting_for n tx) = node_transaction n"
  "node_state (add_waiting_for n tx) = node_state n"
  by (simp_all add: add_waiting_for_def)

lemma add_edge_spec:
  assumes "distinct (map node_transaction ns)" and "fst e \<in> node_transaction ` set ns" "snd e \<in> node_transaction ` set ns"
  shows "length (add_edge e ns) = length ns"
    and "map node_transaction (add_edge e ns) = map node_transaction ns"
    and "map node_state (add_edge e ns) = map node_state ns"
    and "i < length ns \<Longrightarrow> set (waiting_for (add_edge e ns ! i)) =
      set (waiting_for (ns ! i)) \<union> (if fst e = node_transaction (ns ! i) then {snd e} else {})"
proof -
  obtain j k where j: "node_index ns (fst e) = Some j" and k: "node_index ns (snd e) = Some k"
    using assms(2,3) node_index_None by blast
  have e: "add_edge e ns = ns[j := add_waiting_for (ns ! j) (snd e)]" by (simp add: add_edge_def j k)
  have jl: "j < length ns" "node_transaction (ns ! j) = fst e" using node_index_less [OF j] by simp_all
  show "length (add_edge e ns) = length ns" by (simp add: e)
  show "map node_transaction (add_edge e ns) = map node_transaction ns"
    using jl by (intro nth_equalityI) (auto simp: e nth_list_update)
  show "map node_state (add_edge e ns) = map node_state ns"
    using jl by (intro nth_equalityI) (auto simp: e nth_list_update)
  show "set (waiting_for (add_edge e ns ! i)) =
      set (waiting_for (ns ! i)) \<union> (if fst e = node_transaction (ns ! i) then {snd e} else {})" if "i < length ns"
    using that jl node_index_Some [OF assms(1) that] j by (auto simp: e nth_list_update add_waiting_for_set)
qed

lemma add_edges:
  assumes "distinct (map node_transaction ns)" and "set es \<subseteq> node_transaction ` set ns \<times> node_transaction ` set ns"
  shows "map node_transaction (fold add_edge es ns) = map node_transaction ns \<and>
    map node_state (fold add_edge es ns) = map node_state ns \<and>
    (\<forall>i<length ns. set (waiting_for (fold add_edge es ns ! i)) =
       set (waiting_for (ns ! i)) \<union> {b. (node_transaction (ns ! i), b) \<in> set es})"
  using assms
proof (induction es arbitrary: ns)
  case (Cons e es)
  have e: "fst e \<in> node_transaction ` set ns" "snd e \<in> node_transaction ` set ns" using Cons.prems(2) by auto
  note spec = add_edge_spec [OF Cons.prems(1) e]
  have img: "node_transaction ` set (add_edge e ns) = node_transaction ` set ns"
    using arg_cong [OF spec(2), of set] by simp
  have nth: "node_transaction (add_edge e ns ! i) = node_transaction (ns ! i)" if "i < length ns" for i
    using arg_cong [OF spec(2), of "\<lambda>xs. xs ! i"] spec(1) that by simp
  have "distinct (map node_transaction (add_edge e ns))"
    "set es \<subseteq> node_transaction ` set (add_edge e ns) \<times> node_transaction ` set (add_edge e ns)"
    using Cons.prems spec(2) img by auto
  from Cons.IH [OF this] show ?case
    using spec nth by (auto simp: prod_eq_iff)
qed simp

lemma build_graph_spec:
  defines "g \<equiv> build_wait_for_graph"
  shows "distinct (map node_transaction (g m))"
    and "node_transaction ` set (g m) = set (graph_transactions m)"
    and "i < length (g m) \<Longrightarrow> col (g m) i = DL_NOT_VISITED"
    and "i < length (g m) \<Longrightarrow> set (waiting_for (g m ! i)) = {b. (node_transaction (g m ! i), b) \<in> waits_for m}"
proof -
  let ?ns = "fold add_node (graph_transactions m) []"
  have ns: "distinct (map node_transaction ?ns)" "list_all fresh_node ?ns"
    "node_transaction ` set ?ns = set (graph_transactions m)"
    using add_nodes [of "[]" "graph_transactions m"] by simp_all
  have "set (graph_edges m) \<subseteq> node_transaction ` set ?ns \<times> node_transaction ` set ?ns"
    using edge_transactions [of _ _ m] ns(3) by auto
  note spec = add_edges [OF ns(1) this]
  have tx: "map node_transaction (g m) = map node_transaction ?ns"
    and st: "map node_state (g m) = map node_state ?ns"
    and wf: "\<forall>i<length ?ns. set (waiting_for (g m ! i)) =
       set (waiting_for (?ns ! i)) \<union> {b. (node_transaction (?ns ! i), b) \<in> waits_for m}"
    using spec by (simp_all add: g_def build_wait_for_graph_def graph_edges_set)
  have len: "length (g m) = length ?ns" using arg_cong [OF tx, of length] by simp
  show "distinct (map node_transaction (g m))" using ns(1) tx by simp
  show "node_transaction ` set (g m) = set (graph_transactions m)" using arg_cong [OF tx, of set] ns(3) by simp
  assume i: "i < length (g m)"
  with len ns(2) have fresh: "fresh_node (?ns ! i)" by (simp add: list_all_length)
  show "col (g m) i = DL_NOT_VISITED"
    using arg_cong [OF st, of "\<lambda>xs. xs ! i"] i len fresh by (simp add: fresh_node_def)
  have "node_transaction (g m ! i) = node_transaction (?ns ! i)"
    using arg_cong [OF tx, of "\<lambda>xs. xs ! i"] i len by simp
  then show "set (waiting_for (g m ! i)) = {b. (node_transaction (g m ! i), b) \<in> waits_for m}"
    using wf i len fresh by (simp add: fresh_node_def)
qed

lemma graph_iff:
  assumes "i < length (build_wait_for_graph m)"
  shows "(i, j) \<in> graph (build_wait_for_graph m) \<longleftrightarrow> j < length (build_wait_for_graph m) \<and>
    (node_transaction (build_wait_for_graph m ! i), node_transaction (build_wait_for_graph m ! j)) \<in> waits_for m"
  using assms build_graph_spec(4) [OF assms] node_index_Some [OF build_graph_spec(1)]
    node_index_less [of "build_wait_for_graph m"]
  by (auto simp: graph_def succs_def)

lemma waits_for_nodes:
  assumes "(a, b) \<in> waits_for m"
  shows "\<exists>i<length (build_wait_for_graph m). node_transaction (build_wait_for_graph m ! i) = a"
    and "\<exists>i<length (build_wait_for_graph m). node_transaction (build_wait_for_graph m ! i) = b"
  using edge_transactions [of a b m] assms build_graph_spec(2) [of m]
  by (metis graph_edges_set image_iff in_set_conv_nth)+

lemma waits_for_trancl:
  assumes "(a, b) \<in> (waits_for m)\<^sup>+" and "i < length (build_wait_for_graph m)"
    and "node_transaction (build_wait_for_graph m ! i) = a"
  shows "\<exists>j<length (build_wait_for_graph m). node_transaction (build_wait_for_graph m ! j) = b \<and>
    (i, j) \<in> (graph (build_wait_for_graph m))\<^sup>+"
  using assms(1)
proof (induction rule: trancl_induct)
  case (base b)
  then obtain j where "j < length (build_wait_for_graph m)" "node_transaction (build_wait_for_graph m ! j) = b"
    using waits_for_nodes by blast
  with base assms graph_iff show ?case by blast
next
  case (step b c)
  then obtain j where j: "j < length (build_wait_for_graph m)" "node_transaction (build_wait_for_graph m ! j) = b"
    "(i, j) \<in> (graph (build_wait_for_graph m))\<^sup>+" by blast
  obtain k where k: "k < length (build_wait_for_graph m)" "node_transaction (build_wait_for_graph m ! k) = c"
    using waits_for_nodes(2) [OF step(2)] by blast
  with j step(2) graph_iff have "(j, k) \<in> graph (build_wait_for_graph m)" by simp
  with j(3) have "(i, k) \<in> (graph (build_wait_for_graph m))\<^sup>+" by (rule trancl_into_trancl)
  with k show ?case by blast
qed

lemma graph_trancl:
  assumes "(i, j) \<in> (graph (build_wait_for_graph m))\<^sup>+"
  shows "(node_transaction (build_wait_for_graph m ! i), node_transaction (build_wait_for_graph m ! j)) \<in> (waits_for m)\<^sup>+"
  using assms
proof (induction rule: trancl_induct)
  case (base j)
  then show ?case using graph_iff graph_less by blast
next
  case (step j k)
  then have "(node_transaction (build_wait_for_graph m ! j), node_transaction (build_wait_for_graph m ! k)) \<in> waits_for m"
    using graph_iff graph_less by blast
  with step show ?case by (meson trancl.trancl_into_trancl)
qed

lemma has_cycle_iff: "has_cycle (build_wait_for_graph m) \<longleftrightarrow> (\<exists>a. (a, a) \<in> (waits_for m)\<^sup>+)"
proof
  assume "has_cycle (build_wait_for_graph m)"
  then show "\<exists>a. (a, a) \<in> (waits_for m)\<^sup>+" using graph_trancl unfolding has_cycle_def by blast
next
  assume "\<exists>a. (a, a) \<in> (waits_for m)\<^sup>+"
  then obtain a where a: "(a, a) \<in> (waits_for m)\<^sup>+" by blast
  then obtain b where "(a, b) \<in> waits_for m" by (meson tranclD)
  then obtain i where i: "i < length (build_wait_for_graph m)" "node_transaction (build_wait_for_graph m ! i) = a"
    using waits_for_nodes by blast
  from waits_for_trancl [OF a i] obtain j where "j < length (build_wait_for_graph m)"
    "node_transaction (build_wait_for_graph m ! j) = a" "(i, j) \<in> (graph (build_wait_for_graph m))\<^sup>+" by blast
  moreover from this i have "i = j"
    using build_graph_spec(1) [of m] by (auto simp: distinct_conv_nth)
  ultimately show "has_cycle (build_wait_for_graph m)" unfolding has_cycle_def by blast
qed

section \<open>Detection\<close>

lemma not_visited_start:
  assumes "\<forall>i<length ns. col ns i = DL_NOT_VISITED"
  shows "explored ns" and "idle ns"
  using assms by (auto simp: idle_def intro: exploredI)

lemma scan_none_iff:
  assumes "\<forall>i<length ns. col ns i = DL_NOT_VISITED"
  shows "fst (scan_nodes None ns [0..<length ns]) \<longleftrightarrow> has_cycle ns"
proof -
  obtain b ns' where s: "scan_nodes None ns [0..<length ns] = (b, ns')" by force
  note spec = scan_nodes_spec [OF s not_visited_start [OF assms]]
  have "\<not> has_cycle ns" if "\<not> b"
  proof
    assume "has_cycle ns"
    then obtain v where v: "(v, v) \<in> (graph ns)\<^sup>+" unfolding has_cycle_def by blast
    then have "v < length ns" by (rule trancl_graph_less [THEN conjunct1])
    with spec that have "explored ns'" "ext ns ns'" "col ns' v = DL_VISITED" by auto
    moreover from this(2) have "graph ns' = graph ns" "length ns' = length ns"
      by (simp_all add: ext_length ext_graph)
    ultimately show False using explored_acyclic [of ns' v] v \<open>v < length ns\<close> by simp
  qed
  with spec s show ?thesis by auto
qed

lemma build_not_visited: "\<forall>i<length (build_wait_for_graph m). col (build_wait_for_graph m) i = DL_NOT_VISITED"
  using build_graph_spec(3) by blast

lemma scan_found_iff:
  "fst (scan_nodes None (build_wait_for_graph m) [0..<length (build_wait_for_graph m)]) \<longleftrightarrow>
     (\<exists>a. (a, a) \<in> (waits_for m)\<^sup>+)"
  using scan_none_iff [OF build_not_visited] has_cycle_iff by simp

text \<open>
  C30. The search finds a deadlock exactly when the transactions wait for each other in a
  cycle, for lock tables of any size and shape.
\<close>

theorem deadlock_detected_iff:
  "fst (scan_nodes None (build_wait_for_graph m) [0..<length (build_wait_for_graph m)]) \<longleftrightarrow>
     (\<exists>a. (a, a) \<in> (waits_for m)\<^sup>+)"
  by (rule scan_found_iff)

text \<open>Without a cycle the check returns, reports no deadlock and aborts nothing.\<close>

theorem no_deadlock_no_victim:
  assumes "\<forall>a. (a, a) \<notin> (waits_for m)\<^sup>+"
  shows "lock_manager_check_deadlocks m txs = Some (False, txs)"
  using scan_found_iff [of m] assms
  by (subst lock_manager_check_deadlocks.simps) (auto split: prod.splits)

section \<open>Resolution\<close>

lemma select_victim_None:
  "(fst best = None \<longrightarrow> snd best = 0) \<Longrightarrow>
   fst (fold (better_victim txs) ns best) = None \<longleftrightarrow>
     fst best = None \<and> (\<forall>n\<in>set ns. node_state n \<noteq> DL_IN_PROGRESS)"
proof (induction ns arbitrary: best)
  case (Cons n ns)
  have "fst (better_victim txs n best) = None \<longrightarrow> snd (better_victim txs n best) = 0"
    using Cons.prems by (auto simp: better_victim_def Let_def)
  from Cons.IH [OF this] Cons.prems show ?case by (auto simp: better_victim_def Let_def)
qed simp

lemma select_deadlock_victim_None:
  "select_deadlock_victim txs ns = None \<longleftrightarrow> (\<forall>n\<in>set ns. node_state n \<noteq> DL_IN_PROGRESS)"
  by (simp add: select_deadlock_victim_def select_victim_None)

lemma reset_nodes_graph:
  "same_graph ns (reset_nodes ns)" "\<forall>i<length (reset_nodes ns). col (reset_nodes ns) i = DL_NOT_VISITED"
  by (simp_all add: same_graph_def reset_nodes_def)

text \<open>The second scan, which leaves out the victim as a start only, finds the cycle again.\<close>

lemma rescan_finds:
  assumes "same_graph (build_wait_for_graph m) ns" and "a \<noteq> b"
    and "(a, b) \<in> (waits_for m)\<^sup>+" and "(b, a) \<in> (waits_for m)\<^sup>+"
  shows "fst (scan_nodes (Some v) (reset_nodes ns) [0..<length ns])"
proof (rule ccontr)
  let ?g = "build_wait_for_graph m" and ?r = "reset_nodes ns"
  assume n: "\<not> ?thesis"
  have sg: "same_graph ?g ?r" by (rule same_graph_trans [OF assms(1) reset_nodes_graph(1)])
  have len: "length ns = length ?g" "length ?r = length ?g"
    using same_graph_length [OF assms(1)] same_graph_length [OF sg] by simp_all
  obtain ns' where s: "scan_nodes (Some v) ?r [0..<length ns] = (False, ns')"
    using n by (metis (full_types) prod.collapse)
  have "explored ns'" "ext ?r ns'"
    and vis: "\<forall>i\<in>set [0..<length ns]. col ns' i = DL_VISITED \<or> Some (node_transaction (?r ! i)) = Some v"
    using scan_nodes_spec [OF s not_visited_start [OF reset_nodes_graph(2)]] len by simp_all
  have gr: "graph ns' = graph ?g" "length ns' = length ?g"
    using ext_graph [OF \<open>ext ?r ns'\<close>] ext_length [OF \<open>ext ?r ns'\<close>] same_graph_graph [OF sg] len by simp_all
  have cyc: False if c: "c \<noteq> v" "(c, c) \<in> (waits_for m)\<^sup>+" for c
  proof -
    obtain i where i: "i < length ?g" "node_transaction (?g ! i) = c"
      using tranclD [OF c(2)] waits_for_nodes(1) by blast
    obtain j where j: "j < length ?g" "node_transaction (?g ! j) = c" "(i, j) \<in> (graph ?g)\<^sup>+"
      using waits_for_trancl [OF c(2) i] by blast
    have "i = j" using build_graph_spec(1) [of m] i j by (auto simp: distinct_conv_nth)
    moreover have "col ns' i = DL_VISITED" using vis i c(1) len same_graph_nth [OF sg i(1)] by auto
    ultimately show False using explored_acyclic [OF \<open>explored ns'\<close>, of i] gr i j by simp
  qed
  have "(a, a) \<in> (waits_for m)\<^sup>+" "(b, b) \<in> (waits_for m)\<^sup>+" using assms(3,4) trancl_trans by metis+
  with cyc [of a] cyc [of b] assms(2) show False by blast
qed

lemma check_deadlocks_diverges:
  assumes "deadlock_detection m" and "a \<noteq> b" and "(a, b) \<in> (waits_for m)\<^sup>+" and "(b, a) \<in> (waits_for m)\<^sup>+"
  shows "lock_manager_check_deadlocks m txs \<noteq> Some r"
proof -
  have "deadlock_detection m \<and> (a, b) \<in> (waits_for m)\<^sup>+ \<and> (b, a) \<in> (waits_for m)\<^sup>+ \<longrightarrow> False"
    if "lock_manager_check_deadlocks m txs = Some r"
  proof (rule lock_manager_check_deadlocks.raw_induct [OF _ that,
        where P = "\<lambda>m txs r. deadlock_detection m \<and> (a, b) \<in> (waits_for m)\<^sup>+ \<and> (b, a) \<in> (waits_for m)\<^sup>+ \<longrightarrow> False"],
      goal_cases)
    case (1 check m txs r)
    show ?case
    proof
      assume d: "deadlock_detection m \<and> (a, b) \<in> (waits_for m)\<^sup>+ \<and> (b, a) \<in> (waits_for m)\<^sup>+"
      let ?g = "build_wait_for_graph m"
      obtain found ns where s: "scan_nodes None ?g [0..<length ?g] = (found, ns)" by force
      have "(a, a) \<in> (waits_for m)\<^sup>+" using d trancl_trans by metis
      then have found: "found" using scan_found_iff [of m] s by auto
      have ne: "?g \<noteq> []" using found s by auto
      note spec = scan_nodes_spec [OF s not_visited_start [OF build_not_visited]]
      have sg: "same_graph ?g ns" and ip: "\<exists>g<length ?g. col ns g = DL_IN_PROGRESS" using spec found by simp_all
      have "select_deadlock_victim txs ns \<noteq> None"
        using ip same_graph_length [OF sg] unfolding select_deadlock_victim_None by (metis nth_mem)
      then obtain v where v: "select_deadlock_victim txs ns = Some v" by blast
      have "fst (scan_nodes (Some v) (reset_nodes ns) [0..<length ns])"
        by (rule rescan_finds [OF sg assms(2)]) (use d in simp_all)
      then have "check m (abort_transaction_for_deadlock v txs) = Some r"
        using 1(2) d ne s found v by simp
      from 1(1) [OF this] d show False by blast
    qed
  qed
  with assms show ?thesis by blast
qed

text \<open>
  C40. Resolving a deadlock between two transactions does not return: aborting the victim
  changes neither the lock table nor its requests, the second search meets the same cycle
  from another transaction in it, and the function calls itself on the same lock table
  again, without end.
\<close>

theorem deadlock_resolution_diverges:
  assumes "deadlock_detection m" and "a \<noteq> b" and "(a, b) \<in> (waits_for m)\<^sup>+" and "(b, a) \<in> (waits_for m)\<^sup>+"
  shows "lock_manager_check_deadlocks m txs = None"
  using check_deadlocks_diverges [OF assms, of txs] by (cases "lock_manager_check_deadlocks m txs") auto

text \<open>
  Transactions 0 and 1 hold a document each, and 0 waits for the document of 1; the
  argument lists who waits for the document of 0.
\<close>

definition held_by :: "string \<Rightarrow> nat \<Rightarrow> lock_request list \<Rightarrow> lock_entry" where
  "held_by d tx ws =
     \<lparr>entry_key = (''c'', Some d), current_lock_type = LOCK_EXCLUSIVE, reader_count = 0, waiting_queue = ws,
      granted_queue = [(create_lock_request tx tx LOCK_EXCLUSIVE)\<lparr>req_status := LOCK_STATUS_GRANTED\<rparr>]\<rparr>"

definition crossed_locks :: "lock_request list \<Rightarrow> lock_manager" where
  "crossed_locks ws = lock_manager_create\<lparr>lock_table :=
     [[held_by ''d'' 0 ws, held_by ''e'' 1 [create_lock_request 2 0 LOCK_EXCLUSIVE]]]\<rparr>"

lemma crossed_locks_waits:
  "waits_for (crossed_locks ws) = insert (0, 1) ((\<lambda>w. (req_transaction w, 0)) ` set ws)"
  by (auto simp: waits_for_def crossed_locks_def held_by_def create_lock_request_def)

theorem deadlock_resolution_diverges_witness:
  "lock_manager_check_deadlocks (crossed_locks [create_lock_request 3 1 LOCK_EXCLUSIVE]) [] = None"
proof (rule deadlock_resolution_diverges [where a = 0 and b = 1])
  show "deadlock_detection (crossed_locks [create_lock_request 3 1 LOCK_EXCLUSIVE])"
    by (simp add: crossed_locks_def lock_manager_create_def)
qed (auto simp: crossed_locks_waits create_lock_request_def)

theorem no_deadlock_no_victim_witness:
  "lock_manager_check_deadlocks (crossed_locks []) [] = Some (False, [])"
proof (rule no_deadlock_no_victim)
  have "a < b" if "(a, b) \<in> (waits_for (crossed_locks []))\<^sup>+" for a b :: nat
    using that by (induction rule: trancl_induct) (auto simp: crossed_locks_waits)
  then show "\<forall>a. (a, a) \<notin> (waits_for (crossed_locks []))\<^sup>+" by blast
qed

definition bystander_locks :: lock_manager where
  "bystander_locks = lock_manager_create\<lparr>lock_table :=
     [[held_by ''f'' 2 [],
       held_by ''d'' 0 [create_lock_request 3 2 LOCK_EXCLUSIVE, create_lock_request 4 1 LOCK_EXCLUSIVE],
       held_by ''e'' 1 [create_lock_request 5 0 LOCK_EXCLUSIVE]]]\<rparr>"

lemma bystander_waits: "waits_for bystander_locks = {(2, 0), (1, 0), (0, 1)}"
  by (auto simp: waits_for_def bystander_locks_def held_by_def create_lock_request_def)

lemma bystander_graph:
  "build_wait_for_graph bystander_locks =
     [\<lparr>node_transaction = 2, node_state = DL_NOT_VISITED, waiting_for = [0]\<rparr>,
      \<lparr>node_transaction = 0, node_state = DL_NOT_VISITED, waiting_for = [1]\<rparr>,
      \<lparr>node_transaction = 1, node_state = DL_NOT_VISITED, waiting_for = [0]\<rparr>]"
  by (simp add: build_wait_for_graph_def graph_transactions_def graph_edges_def bystander_locks_def
      held_by_def create_lock_request_def conflicting_def add_node_def add_edge_def add_waiting_for_def)

lemma bystander_scan:
  "\<exists>ns. scan_nodes None (build_wait_for_graph bystander_locks) [0..<3] = (True, ns) \<and>
    map node_transaction ns = [2, 0, 1] \<and> map node_state ns = [DL_IN_PROGRESS, DL_IN_PROGRESS, DL_IN_PROGRESS]"
  by (simp add: bystander_graph upt_rec set_state_def eval_nat_numeral)

text \<open>
  The victim need not be part of the deadlock: the youngest transaction on the way to
  the cycle is chosen, here one that nobody waits for, and only that one is aborted.
\<close>

theorem victim_outside_cycle:
  assumes "0 < start_time (txs ! 0)" "0 < start_time (txs ! 1)"
    and "start_time (txs ! 0) < start_time (txs ! 2)" and "start_time (txs ! 1) < start_time (txs ! 2)"
  shows "(2, 2) \<notin> (waits_for bystander_locks)\<^sup>+ \<and>
    select_deadlock_victim txs (snd (scan_nodes None (build_wait_for_graph bystander_locks) [0..<3])) = Some 2"
proof
  have "b \<noteq> 2" if "(a, b) \<in> (waits_for bystander_locks)\<^sup>+" for a b :: nat
    using that by (induction rule: trancl_induct) (auto simp: bystander_waits)
  then show "(2, 2) \<notin> (waits_for bystander_locks)\<^sup>+" by blast
  show "select_deadlock_victim txs (snd (scan_nodes None (build_wait_for_graph bystander_locks) [0..<3])) = Some 2"
    using assms bystander_scan
    by (auto simp: select_deadlock_victim_def better_victim_def Let_def map_eq_Cons_conv)
qed

text \<open>Transactions begun one second after the other.\<close>

definition started :: "int \<Rightarrow> transaction" where
  "started t = new_transaction ISOLATION_SERIALIZABLE ''u'' t 0"

theorem victim_outside_cycle_witness:
  "(2, 2) \<notin> (waits_for bystander_locks)\<^sup>+ \<and>
    select_deadlock_victim [started 1, started 2, started 3]
      (snd (scan_nodes None (build_wait_for_graph bystander_locks) [0..<3])) = Some 2"
  by (rule victim_outside_cycle) (simp_all add: started_def new_transaction_def)

end
