(* ===== verification/Doc_Store.thy ===== *)
theory Doc_Store
  imports Json
begin

text \<open>
  The container the database keeps its documents in, \<^verbatim>\<open>src/src/components/utils/art.c\<close>:
  announced as an adaptive radix tree behind the interface of a skip list, it is an array
  of leaves that is searched from the front.  A key and a value are byte strings (for a C
  string, the terminator included).  The atomic root is \<open>None\<close> until the first insertion.
\<close>

section \<open>Data\<close>

text \<open>A C string as bytes, \<^verbatim>\<open>strlen(s) + 1\<close> of them, and the string read from bytes.\<close>

definition c_bytes :: "string \<Rightarrow> string" where
  "c_bytes s = s @ [CHR 0x00]"

definition c_read :: "string \<Rightarrow> string" where
  "c_read bs = takeWhile (\<lambda>c. c \<noteq> CHR 0x00) bs"

definition nul_free :: "string \<Rightarrow> bool" where
  "nul_free s \<longleftrightarrow> CHR 0x00 \<notin> set s"

lemma c_bytes_inject [simp]: "c_bytes s = c_bytes t \<longleftrightarrow> s = t"
  by (simp add: c_bytes_def)

lemma c_bytes_nonempty [simp]: "c_bytes s \<noteq> []"
  by (simp add: c_bytes_def)

lemma c_read_bytes [simp]: "nul_free s \<Longrightarrow> c_read (c_bytes s) = s"
  unfolding c_read_def c_bytes_def nul_free_def by (subst takeWhile_append2) auto

record art_leaf =
  leaf_key :: string
  leaf_value :: string

record art_document_list =
  doc_leaves :: "art_leaf list"
  list_capacity :: nat

record art =
  art_root :: "art_document_list option"
  art_size :: c_size
  insert_count :: c_size
  delete_count :: c_size
  search_count :: c_size

section \<open>Operations\<close>

text \<open>A leaf is refused when its key or value is empty: \<^verbatim>\<open>BUFFER_ALLOC(0)\<close> is \<^verbatim>\<open>NULL\<close>.\<close>

definition art_create_leaf :: "string \<Rightarrow> string \<Rightarrow> art_leaf option" where
  "art_create_leaf key val =
     (if key = [] \<or> val = [] then None else Some \<lparr>leaf_key = key, leaf_value = val\<rparr>)"

definition skiplist_create :: art where
  "skiplist_create =
     \<lparr>art_root = None, art_size = 0, insert_count = 0, delete_count = 0, search_count = 0\<rparr>"

definition art_create_document_list :: art_document_list where
  "art_create_document_list = \<lparr>doc_leaves = [], list_capacity = 16\<rparr>"

definition art_add_to_list :: "art_document_list \<Rightarrow> art_leaf \<Rightarrow> art_document_list" where
  "art_add_to_list l leaf =
     l\<lparr>doc_leaves := doc_leaves l @ [leaf],
       list_capacity := (if list_capacity l \<le> length (doc_leaves l) then list_capacity l * 2
                         else list_capacity l)\<rparr>"

definition art_search_in_list :: "art_document_list \<Rightarrow> string \<Rightarrow> art_leaf option" where
  "art_search_in_list l key =
     find (\<lambda>leaf. length (leaf_key leaf) = length key \<and> leaf_key leaf = key) (doc_leaves l)"

definition art_search_helper :: "art \<Rightarrow> string \<Rightarrow> art_leaf option" where
  "art_search_helper art key =
     (case art_root art of None \<Rightarrow> None | Some l \<Rightarrow> art_search_in_list l key)"

definition count_insert :: "art \<Rightarrow> art_document_list \<Rightarrow> art" where
  "count_insert art l =
     art\<lparr>art_root := Some l, art_size := art_size art + 1, insert_count := insert_count art + 1\<rparr>"

definition skiplist_insert :: "art \<Rightarrow> string \<Rightarrow> string \<Rightarrow> bool \<times> art" where
  "skiplist_insert art key val =
     (case art_create_leaf key val of
        None \<Rightarrow> (False, art)
      | Some leaf \<Rightarrow>
          (case art_root art of
             None \<Rightarrow> (True, count_insert art (art_add_to_list art_create_document_list leaf))
           | Some l \<Rightarrow>
               (case art_search_in_list l key of
                  Some _ \<Rightarrow> (False, art)
                | None \<Rightarrow> (True, count_insert art (art_add_to_list l leaf)))))"

definition skiplist_search :: "art \<Rightarrow> string \<Rightarrow> string option \<times> art" where
  "skiplist_search art key =
     (if key = [] then (None, art)
      else (map_option leaf_value (art_search_helper art key),
            art\<lparr>search_count := search_count art + 1\<rparr>))"

text \<open>The loop of \<^verbatim>\<open>skiplist_delete\<close>: the first index that holds the key.\<close>

fun leaf_index :: "art_leaf list \<Rightarrow> string \<Rightarrow> nat option" where
  "leaf_index [] key = None"
| "leaf_index (leaf # leaves) key =
     (if length (leaf_key leaf) = length key \<and> leaf_key leaf = key then Some 0
      else map_option Suc (leaf_index leaves key))"

definition skiplist_delete :: "art \<Rightarrow> string \<Rightarrow> bool \<times> art" where
  "skiplist_delete art key =
     (if key = [] then (False, art)
      else case art_root art of
        None \<Rightarrow> (False, art)
      | Some l \<Rightarrow>
          (case leaf_index (doc_leaves l) key of
             None \<Rightarrow> (False, art)
           | Some i \<Rightarrow>
               (True, art\<lparr>art_root := Some (l\<lparr>doc_leaves := butlast (shift_down (doc_leaves l) i)\<rparr>),
                          art_size := art_size art - 1, delete_count := delete_count art + 1\<rparr>)))"

definition skiplist_size :: "art \<Rightarrow> c_size" where
  "skiplist_size art = art_size art"

definition skiplist_stats :: "art \<Rightarrow> c_size \<times> c_size \<times> c_size" where
  "skiplist_stats art = (insert_count art, delete_count art, search_count art)"

section \<open>Iteration\<close>

text \<open>An iterator is the index of the next leaf.\<close>

definition skiplist_iterator_create :: nat where
  "skiplist_iterator_create = 0"

definition skiplist_iterator_next :: "art \<Rightarrow> nat \<Rightarrow> (art_leaf \<times> nat) option" where
  "skiplist_iterator_next art i =
     (case art_root art of
        None \<Rightarrow> None
      | Some l \<Rightarrow>
          if length (doc_leaves l) \<le> i then None else Some (doc_leaves l ! i, i + 1))"

definition remaining_leaves :: "art \<Rightarrow> nat \<Rightarrow> nat" where
  "remaining_leaves art i =
     (case art_root art of None \<Rightarrow> 0 | Some l \<Rightarrow> length (doc_leaves l) - i)"

text \<open>What a loop over the iterator visits.\<close>

function iterate :: "art \<Rightarrow> nat \<Rightarrow> art_leaf list" where
  "iterate art i =
     (case skiplist_iterator_next art i of
        None \<Rightarrow> []
      | Some (leaf, j) \<Rightarrow> leaf # iterate art j)"
  by pat_completeness auto
termination iterate
  by (relation "measure (\<lambda>(art, i). remaining_leaves art i)")
    (auto simp: skiplist_iterator_next_def remaining_leaves_def split: option.splits if_splits)

declare iterate.simps [simp del]

section \<open>The store as a map\<close>

definition leaves :: "art \<Rightarrow> art_leaf list" where
  "leaves art = (case art_root art of None \<Rightarrow> [] | Some l \<Rightarrow> doc_leaves l)"

definition art_ok :: "art \<Rightarrow> bool" where
  "art_ok art \<longleftrightarrow> distinct (map leaf_key (leaves art)) \<and>
     (\<forall>leaf\<in>set (leaves art). leaf_key leaf \<noteq> [] \<and> leaf_value leaf \<noteq> [])"

text \<open>The value under a key, \<open>art_get\<close>, and the two ways the database changes it.\<close>

definition art_get :: "art \<Rightarrow> string \<Rightarrow> string option" where
  "art_get art key = map_of (map (\<lambda>leaf. (leaf_key leaf, leaf_value leaf)) (leaves art)) key"

definition art_replace :: "art \<Rightarrow> string \<Rightarrow> string \<Rightarrow> art" where
  "art_replace art key val = snd (skiplist_insert (snd (skiplist_delete art key)) key val)"

lemma find_leaf:
  "map_option leaf_value (find (\<lambda>leaf. length (leaf_key leaf) = length key \<and> leaf_key leaf = key) ls) =
   map_of (map (\<lambda>leaf. (leaf_key leaf, leaf_value leaf)) ls) key"
  by (induction ls) auto

lemma leaf_index_spec:
  "(leaf_index ls key = None \<longleftrightarrow> key \<notin> leaf_key ` set ls) \<and>
   (leaf_index ls key = Some i \<longrightarrow> i < length ls \<and> leaf_key (ls ! i) = key)"
  by (induction ls arbitrary: i) (auto split: if_splits)

lemma leaf_index_filter:
  assumes "distinct (map leaf_key ls)" and "leaf_index ls key = Some i"
  shows "take i ls @ drop (Suc i) ls = filter (\<lambda>leaf. leaf_key leaf \<noteq> key) ls"
  using assms
proof (induction ls arbitrary: i)
  case (Cons l ls)
  show ?case
  proof (cases "leaf_key l = key")
    case True
    then have "\<forall>x\<in>set ls. leaf_key x \<noteq> key" using Cons.prems(1) by (auto simp: image_iff)
    with True Cons.prems(2) show ?thesis by (simp add: filter_id_conv)
  next
    case False
    with Cons.prems Cons.IH show ?thesis by auto
  qed
qed simp

lemma delete_leaves:
  assumes "art_ok art"
  shows "leaves (snd (skiplist_delete art key)) = filter (\<lambda>leaf. leaf_key leaf \<noteq> key) (leaves art)"
    and "fst (skiplist_delete art key) \<longleftrightarrow> art_get art key \<noteq> None"
proof -
  have "leaves (snd (skiplist_delete art key)) = filter (\<lambda>leaf. leaf_key leaf \<noteq> key) (leaves art) \<and>
      (fst (skiplist_delete art key) \<longleftrightarrow> art_get art key \<noteq> None)"
  proof (cases "key = [] \<or> art_root art = None")
    case True
    then have "\<forall>leaf\<in>set (leaves art). leaf_key leaf \<noteq> key"
      using assms by (auto simp: art_ok_def leaves_def)
    with True show ?thesis
      by (auto simp: skiplist_delete_def art_get_def map_of_eq_None_iff image_image split: option.splits)
  next
    case False
    then obtain l where l: "art_root art = Some l" "key \<noteq> []" by blast
    have d: "distinct (map leaf_key (doc_leaves l))" using assms l by (simp add: art_ok_def leaves_def)
    show ?thesis
    proof (cases "leaf_index (doc_leaves l) key")
      case None
      then have "key \<notin> leaf_key ` set (doc_leaves l)" using leaf_index_spec by blast
      moreover from this have "filter (\<lambda>leaf. leaf_key leaf \<noteq> key) (doc_leaves l) = doc_leaves l"
        by (intro filter_True) auto
      ultimately show ?thesis using l None
        by (simp add: skiplist_delete_def art_get_def leaves_def map_of_eq_None_iff image_image)
    next
      case (Some i)
      then have i: "i < length (doc_leaves l)" "key \<in> leaf_key ` set (doc_leaves l)"
        using leaf_index_spec [of "doc_leaves l" key i] by auto
      with l Some butlast_shift_down [OF i(1)] leaf_index_filter [OF d Some] show ?thesis
        by (auto simp: skiplist_delete_def art_get_def leaves_def map_of_eq_None_iff image_image)
    qed
  qed
  then show "leaves (snd (skiplist_delete art key)) = filter (\<lambda>leaf. leaf_key leaf \<noteq> key) (leaves art)"
    and "fst (skiplist_delete art key) \<longleftrightarrow> art_get art key \<noteq> None" by simp_all
qed

lemma art_get_None: "art_get art key = None \<longleftrightarrow> key \<notin> leaf_key ` set (leaves art)"
  by (simp add: art_get_def map_of_eq_None_iff image_image)

lemma insert_leaves:
  "leaves (snd (skiplist_insert art key val)) =
     (if key = [] \<or> val = [] \<or> art_get art key \<noteq> None then leaves art
      else leaves art @ [\<lparr>leaf_key = key, leaf_value = val\<rparr>])"
  "fst (skiplist_insert art key val) \<longleftrightarrow> key \<noteq> [] \<and> val \<noteq> [] \<and> art_get art key = None"
proof -
  have "(art_search_in_list l key = None) = (art_get art key = None)" if "art_root art = Some l" for l
    using that arg_cong [OF find_leaf [of key "leaves art"], of "\<lambda>x. x = None"]
    by (simp add: art_search_in_list_def art_get_def leaves_def)
  then show "leaves (snd (skiplist_insert art key val)) =
     (if key = [] \<or> val = [] \<or> art_get art key \<noteq> None then leaves art
      else leaves art @ [\<lparr>leaf_key = key, leaf_value = val\<rparr>])"
    and "fst (skiplist_insert art key val) \<longleftrightarrow> key \<noteq> [] \<and> val \<noteq> [] \<and> art_get art key = None"
    by (fastforce simp: skiplist_insert_def art_create_leaf_def count_insert_def art_add_to_list_def
        art_create_document_list_def leaves_def art_get_None split: option.splits)+
qed

lemma search_get [simp]:
  "art_ok art \<Longrightarrow> fst (skiplist_search art key) = art_get art key"
  "leaves (snd (skiplist_search art key)) = leaves art"
proof -
  show "fst (skiplist_search art key) = art_get art key" if "art_ok art"
  proof (cases "key = []")
    case True
    then have "key \<notin> leaf_key ` set (leaves art)" using that by (auto simp: art_ok_def)
    with True show ?thesis using art_get_None [of art key] by (simp add: skiplist_search_def)
  next
    case False
    then show ?thesis
      using find_leaf [of key "leaves art"]
      by (simp add: skiplist_search_def art_search_helper_def art_search_in_list_def art_get_def leaves_def
          split: option.splits)
  qed
qed (simp add: skiplist_search_def leaves_def)

lemma iterate_leaves: "iterate art i = drop i (leaves art)"
proof (induction art i rule: iterate.induct)
  case (1 art i)
  show ?case
  proof (cases "skiplist_iterator_next art i")
    case None
    then show ?thesis
      by (auto simp: iterate.simps [of art i] leaves_def skiplist_iterator_next_def split: option.splits if_splits)
  next
    case (Some p)
    then obtain l where l: "art_root art = Some l" "i < length (doc_leaves l)" "p = (doc_leaves l ! i, i + 1)"
      by (auto simp: skiplist_iterator_next_def split: option.splits if_splits)
    with 1 [OF Some] Some show ?thesis
      by (simp add: iterate.simps [of art i] leaves_def Cons_nth_drop_Suc)
  qed
qed

lemma art_get_cong: "leaves a = leaves b \<Longrightarrow> art_get a = art_get b"
  by (simp add: art_get_def fun_eq_iff)

lemma art_ok_cong: "leaves a = leaves b \<Longrightarrow> art_ok a = art_ok b"
  by (simp add: art_ok_def)

lemma art_ok_search [simp]: "art_ok (snd (skiplist_search art key)) = art_ok art"
  by (rule art_ok_cong) simp

lemma art_get_search [simp]: "art_get (snd (skiplist_search art key)) = art_get art"
  by (rule art_get_cong) simp

lemma leaves_create: "leaves skiplist_create = []"
  by (simp add: leaves_def skiplist_create_def)

lemma art_ok_create: "art_ok skiplist_create"
  by (simp add: art_ok_def leaves_def skiplist_create_def)

lemma art_get_create: "art_get skiplist_create key = None"
  by (simp add: art_get_def leaves_def skiplist_create_def)

lemma art_ok_insert: "art_ok art \<Longrightarrow> art_ok (snd (skiplist_insert art key val))"
  using art_get_None [of art key] by (auto simp: art_ok_def insert_leaves)

lemma art_ok_delete: "art_ok art \<Longrightarrow> art_ok (snd (skiplist_delete art key))"
  by (auto simp: art_ok_def delete_leaves [unfolded art_ok_def] distinct_map_filter)

lemma art_get_insert:
  "art_get (snd (skiplist_insert art key val)) k =
     (if k = key \<and> key \<noteq> [] \<and> val \<noteq> [] \<and> art_get art key = None then Some val else art_get art k)"
  using art_get_None [of art key]
  by (auto simp: art_get_def insert_leaves map_add_def split: option.splits)

lemma art_get_delete:
  assumes "art_ok art"
  shows "art_get (snd (skiplist_delete art key)) k = (if k = key then None else art_get art k)"
proof -
  have "map_of (map (\<lambda>leaf. (leaf_key leaf, leaf_value leaf)) (filter (\<lambda>leaf. leaf_key leaf \<noteq> key) ls)) k =
      (if k = key then None else map_of (map (\<lambda>leaf. (leaf_key leaf, leaf_value leaf)) ls) k)"
    for ls :: "art_leaf list"
    by (induction ls) auto
  then show ?thesis by (simp add: art_get_def delete_leaves [OF assms])
qed

text \<open>
  The container under C strings is a keyed store, with the update of the database (delete,
  then insert) as its assignment.
\<close>

definition get_text :: "art \<Rightarrow> string \<Rightarrow> string option" where
  "get_text art k = map_option butlast (art_get art (c_bytes k))"

definition put_text :: "art \<Rightarrow> string \<Rightarrow> string \<Rightarrow> art" where
  "put_text art k v = art_replace art (c_bytes k) (c_bytes v)"

definition del_text :: "art \<Rightarrow> string \<Rightarrow> art" where
  "del_text art k = snd (skiplist_delete art (c_bytes k))"

interpretation store: keyed_store skiplist_create get_text put_text del_text art_ok
proof (unfold_locales, goal_cases)
  case (5 s k v k')
  then show ?case
    by (simp add: get_text_def put_text_def art_replace_def art_get_insert art_get_delete) (simp add: c_bytes_def)
qed (simp_all add: art_ok_create put_text_def art_replace_def del_text_def art_ok_insert art_ok_delete
    get_text_def art_get_create art_get_delete)

section \<open>Histories of the container\<close>

datatype store_op = Insert string string | Delete string | Search string

datatype store_answer = Done bool | Found "string option"

fun store_step :: "art \<Rightarrow> store_op \<Rightarrow> store_answer \<times> art" where
  "store_step art (Insert k v) = (let (r, a) = skiplist_insert art k v in (Done r, a))"
| "store_step art (Delete k) = (let (r, a) = skiplist_delete art k in (Done r, a))"
| "store_step art (Search k) = (let (r, a) = skiplist_search art k in (Found r, a))"

text \<open>The same on a map, where an insertion never overwrites.\<close>

fun map_step :: "(string \<rightharpoonup> string) \<Rightarrow> store_op \<Rightarrow> store_answer \<times> (string \<rightharpoonup> string)" where
  "map_step m (Insert k v) =
     (if k \<noteq> [] \<and> v \<noteq> [] \<and> m k = None then (Done True, m(k \<mapsto> v)) else (Done False, m))"
| "map_step m (Delete k) = (Done (m k \<noteq> None), m(k := None))"
| "map_step m (Search k) = (Found (m k), m)"

definition counters_ok :: "art \<Rightarrow> bool" where
  "counters_ok art \<longleftrightarrow> art_size art = of_nat (length (leaves art)) \<and>
     insert_count art = delete_count art + art_size art \<and>
     (case art_root art of None \<Rightarrow> True
      | Some l \<Rightarrow> 0 < list_capacity l \<and> length (doc_leaves l) \<le> list_capacity l)"

lemma counters_insert: "counters_ok art \<Longrightarrow> counters_ok (snd (skiplist_insert art k v))"
  by (auto simp: counters_ok_def skiplist_insert_def count_insert_def art_add_to_list_def leaves_def
      art_create_document_list_def split: option.splits)

lemma counters_delete: "counters_ok art \<Longrightarrow> counters_ok (snd (skiplist_delete art k))"
proof -
  assume ok: "counters_ok art"
  show ?thesis
  proof (cases "fst (skiplist_delete art k)")
    case False
    then have "snd (skiplist_delete art k) = art"
      by (auto simp: skiplist_delete_def split: option.splits if_splits)
    with ok show ?thesis by simp
  next
    case True
    then obtain l i where l: "art_root art = Some l" "leaf_index (doc_leaves l) k = Some i" "k \<noteq> []"
      by (auto simp: skiplist_delete_def split: option.splits if_splits)
    then have "i < length (doc_leaves l)" using leaf_index_spec by blast
    then have "0 < length (doc_leaves l)" and
      "length (butlast (shift_down (doc_leaves l) i)) = length (doc_leaves l) - 1"
      by (auto simp: shift_down_def length_shift_fold)
    with ok l show ?thesis
      by (cases "length (doc_leaves l)") (auto simp: counters_ok_def skiplist_delete_def leaves_def)
  qed
qed

lemma counters_search: "counters_ok art \<Longrightarrow> counters_ok (snd (skiplist_search art k))"
  by (simp add: counters_ok_def skiplist_search_def leaves_def)

lemma store_step_simulates:
  assumes "art_ok art"
  shows "fst (store_step art op) = fst (map_step (art_get art) op) \<and>
    art_ok (snd (store_step art op)) \<and> art_get (snd (store_step art op)) = snd (map_step (art_get art) op)"
  using assms
  by (cases op)
    (auto simp: case_prod_beta Let_def fun_eq_iff art_ok_insert art_ok_delete art_get_insert art_get_delete
      insert_leaves(2) delete_leaves(2))

text \<open>
  C26. The container behaves as a map from keys to values in every sequence of insertions,
  deletions and lookups: the answers are the same.  An insertion never replaces a value,
  and an empty key or value is refused.
\<close>

theorem store_refines_map:
  "fst (run_history store_step skiplist_create ops) = fst (run_history map_step Map.empty ops)"
proof -
  have start: "art_ok skiplist_create \<and> art_get skiplist_create = Map.empty"
    by (simp add: art_ok_create fun_eq_iff art_get_create)
  show ?thesis
    by (rule run_history_simulation [of "\<lambda>a m. art_ok a \<and> art_get a = m", OF start, THEN conjunct1])
      (use store_step_simulates in blast)
qed

text \<open>
  After any sequence of operations the size the container reports is the number of its
  leaves, insertions are deletions plus size, and the array never holds more leaves than
  it has room for.
\<close>

theorem store_counters_agree:
  "let art = snd (run_history store_step skiplist_create ops) in
     skiplist_size art = of_nat (length (leaves art)) \<and>
     fst (skiplist_stats art) = fst (snd (skiplist_stats art)) + skiplist_size art \<and>
     (case art_root art of None \<Rightarrow> True
      | Some l \<Rightarrow> 0 < list_capacity l \<and> length (doc_leaves l) \<le> list_capacity l)"
proof -
  have "counters_ok (snd (store_step art op))" if "counters_ok art" for art op
    using that by (cases op) (simp_all add: case_prod_beta Let_def counters_insert counters_delete counters_search)
  then have "counters_ok (snd (run_history store_step art ops))" if "counters_ok art" for art
    using that by (induction ops arbitrary: art) (simp_all add: case_prod_beta Let_def)
  moreover have "counters_ok skiplist_create" by (simp add: counters_ok_def skiplist_create_def leaves_def)
  ultimately show ?thesis by (simp add: counters_ok_def skiplist_size_def skiplist_stats_def Let_def)
qed

end
