(* ===== verification/Generic_Cache.thy ===== *)
theory Generic_Cache
  imports Chains
begin

text \<open>
  The cache of documents and query results, \<^verbatim>\<open>src/src/components/utils/generic_cache.c\<close>: a
  hash table with chaining over entries that are also linked in a list ordered by use.
  Entries are known by their address in a heap; the doubly linked list is the list of the
  addresses on it, head first, and \<^verbatim>\<open>hash_next\<close> is the order of the addresses in a bucket.
\<close>

section \<open>Data\<close>

record 'v generic_cache_entry =
  ce_key :: string
  ce_value :: 'v

record 'v generic_cache =
  gc_capacity :: c_size
  gc_size :: c_size
  lru_list :: "nat list"
  gc_buckets :: "nat list list"
  gc_heap :: "nat \<rightharpoonup> 'v generic_cache_entry"
  gc_next :: nat
  gc_hits :: c_size
  gc_misses :: c_size
  gc_evictions :: c_size

section \<open>Operations\<close>

text \<open>The hash of \<^verbatim>\<open>djb2\<close>, over unsigned bytes.\<close>

definition default_hash :: "string \<Rightarrow> c_uint" where
  "default_hash key = foldl (\<lambda>h c. (push_bit 5 h + h) + word_of_int (uchar c)) 5381 key"

definition cache_bucket :: "nat \<Rightarrow> string \<Rightarrow> nat" where
  "cache_bucket bucket_count key = hash_index (default_hash key) bucket_count"

definition generic_cache_create :: "c_size \<Rightarrow> 'v generic_cache option" where
  "generic_cache_create cap =
     (if cap = 0 \<or> cap * 2 = 0 then None
      else Some \<lparr>gc_capacity = cap, gc_size = 0, lru_list = [],
                 gc_buckets = replicate (unat (cap * 2)) [], gc_heap = Map.empty, gc_next = 0,
                 gc_hits = 0, gc_misses = 0, gc_evictions = 0\<rparr>)"

definition key_at :: "(nat \<rightharpoonup> 'v generic_cache_entry) \<Rightarrow> nat \<Rightarrow> string" where
  "key_at h a = ce_key (the (h a))"

definition find_entry :: "'v generic_cache \<Rightarrow> string \<Rightarrow> nat option" where
  "find_entry c key =
     find (\<lambda>a. length (key_at (gc_heap c) a) = length key \<and> key_at (gc_heap c) a = key)
       (gc_buckets c ! cache_bucket (length (gc_buckets c)) key)"

definition move_to_front :: "'v generic_cache \<Rightarrow> nat \<Rightarrow> 'v generic_cache" where
  "move_to_front c a =
     (if lru_list c \<noteq> [] \<and> a = hd (lru_list c) then c
      else c\<lparr>lru_list := a # remove1 a (lru_list c)\<rparr>)"

text \<open>Unlinking an entry from its bucket and releasing it.\<close>

definition drop_entry :: "'v generic_cache \<Rightarrow> nat \<Rightarrow> 'v generic_cache" where
  "drop_entry c a =
     c\<lparr>gc_buckets := bucket_remove (gc_buckets c)
          (cache_bucket (length (gc_buckets c)) (key_at (gc_heap c) a)) (\<lambda>b. b = a),
       gc_heap := (gc_heap c)(a := None), gc_size := gc_size c - 1\<rparr>"

definition evict_lru :: "'v generic_cache \<Rightarrow> 'v generic_cache" where
  "evict_lru c =
     (if lru_list c = [] then c
      else (drop_entry (c\<lparr>lru_list := butlast (lru_list c)\<rparr>) (last (lru_list c)))
             \<lparr>gc_evictions := gc_evictions c + 1\<rparr>)"

text \<open>
  A hit copies the value under the read lock, then takes the write lock to move the entry;
  \<open>cache_touch\<close> is the second critical section.
\<close>

definition cache_read :: "'v generic_cache \<Rightarrow> string \<Rightarrow> (nat \<times> 'v) option \<times> 'v generic_cache" where
  "cache_read c key =
     (case find_entry c key of
        Some a \<Rightarrow> (Some (a, ce_value (the (gc_heap c a))), c\<lparr>gc_hits := gc_hits c + 1\<rparr>)
      | None \<Rightarrow> (None, c\<lparr>gc_misses := gc_misses c + 1\<rparr>))"

definition cache_touch :: "'v generic_cache \<Rightarrow> nat \<Rightarrow> 'v generic_cache" where
  "cache_touch c a = move_to_front c a"

definition generic_cache_get :: "'v generic_cache \<Rightarrow> string \<Rightarrow> 'v option \<times> 'v generic_cache" where
  "generic_cache_get c key =
     (case cache_read c key of
        (Some (a, v), c') \<Rightarrow> (Some v, cache_touch c' a)
      | (None, c') \<Rightarrow> (None, c'))"

definition generic_cache_put :: "'v generic_cache \<Rightarrow> string \<Rightarrow> 'v \<Rightarrow> 'v generic_cache" where
  "generic_cache_put c key val =
     (case find_entry c key of
        Some a \<Rightarrow>
          move_to_front
            (c\<lparr>gc_heap := (gc_heap c)(a := Some ((the (gc_heap c a))\<lparr>ce_value := val\<rparr>))\<rparr>) a
      | None \<Rightarrow>
          (let c = (if gc_capacity c \<le> gc_size c then evict_lru c else c); a = gc_next c in
           c\<lparr>gc_heap := (gc_heap c)(a := Some \<lparr>ce_key = key, ce_value = val\<rparr>),
             gc_next := a + 1,
             gc_buckets := bucket_push (gc_buckets c) (cache_bucket (length (gc_buckets c)) key) a,
             lru_list := a # lru_list c,
             gc_size := gc_size c + 1\<rparr>))"

definition generic_cache_clear :: "'v generic_cache \<Rightarrow> 'v generic_cache" where
  "generic_cache_clear c =
     c\<lparr>gc_heap := gc_heap c |` (- set (lru_list c)),
       gc_buckets := replicate (length (gc_buckets c)) [], lru_list := [], gc_size := 0\<rparr>"

definition generic_cache_remove :: "'v generic_cache \<Rightarrow> string \<Rightarrow> 'v generic_cache" where
  "generic_cache_remove c key =
     (case find_entry c key of
        None \<Rightarrow> c
      | Some a \<Rightarrow> drop_entry (c\<lparr>lru_list := remove1 a (lru_list c)\<rparr>) a)"

definition generic_cache_stats :: "'v generic_cache \<Rightarrow> c_size \<times> c_size \<times> c_size" where
  "generic_cache_stats c = (gc_hits c, gc_misses c, gc_evictions c)"

section \<open>The specification: a list of bindings, most recently used first\<close>

definition lru_view :: "'v generic_cache \<Rightarrow> (string \<times> 'v) list" where
  "lru_view c = map (\<lambda>a. (key_at (gc_heap c) a, ce_value (the (gc_heap c a)))) (lru_list c)"

definition lru_without :: "string \<Rightarrow> (string \<times> 'v) list \<Rightarrow> (string \<times> 'v) list" where
  "lru_without key xs = filter (\<lambda>x. fst x \<noteq> key) xs"

definition lru_get :: "(string \<times> 'v) list \<Rightarrow> string \<Rightarrow> 'v option \<times> (string \<times> 'v) list" where
  "lru_get xs key =
     (case map_of xs key of
        None \<Rightarrow> (None, xs)
      | Some v \<Rightarrow> (Some v, (key, v) # lru_without key xs))"

definition lru_put :: "nat \<Rightarrow> (string \<times> 'v) list \<Rightarrow> string \<Rightarrow> 'v \<Rightarrow> (string \<times> 'v) list" where
  "lru_put cap xs key v =
     (key, v) # (if map_of xs key \<noteq> None then lru_without key xs
                 else if cap \<le> length xs then butlast xs else xs)"

end
