(* ===== verification/Deep_Copy.thy ===== *)
theory Deep_Copy
  imports Json_Print
begin

text \<open>
  The recursive copy of \<^verbatim>\<open>src/src/components/utils/json_deep_copy.c\<close>, which gives up below
  100 levels, and the keys of an object as the loops of the database read them.
\<close>

definition max_recursion_depth :: int where
  "max_recursion_depth = 100"

fun json_deep_copy_internal_safe :: "json \<Rightarrow> int \<Rightarrow> json"
  and copy_array_safe :: "json list \<Rightarrow> int \<Rightarrow> jptr \<Rightarrow> jptr"
  and copy_object_safe :: "entries \<Rightarrow> int \<Rightarrow> jptr \<Rightarrow> jptr" where
  "json_deep_copy_internal_safe v depth =
     (if max_recursion_depth < depth then json_create_null
      else case v of
        JNull \<Rightarrow> json_create_null
      | JBoolean b \<Rightarrow> json_create_boolean (if b then 1 else 0)
      | JNumber d \<Rightarrow> json_create_number d
      | JInteger i \<Rightarrow> json_create_integer i
      | JString s \<Rightarrow> json_create_string s
      | JArray xs \<Rightarrow> the (copy_array_safe xs depth (Some json_create_array))
      | JObject es \<Rightarrow> the (copy_object_safe es depth (Some json_create_object)))"
| "copy_array_safe [] depth new_array = new_array"
| "copy_array_safe (x # xs) depth new_array =
     copy_array_safe xs depth
       (json_array_append new_array (Some (json_deep_copy_internal_safe x (depth + 1))))"
| "copy_object_safe [] depth new_obj = new_obj"
| "copy_object_safe ((k, v) # es) depth new_obj =
     copy_object_safe es depth
       (json_object_set new_obj (Some k) (Some (json_deep_copy_internal_safe v (depth + 1))))"

definition json_deep_copy :: "jptr \<Rightarrow> jptr" where
  "json_deep_copy v = map_option (\<lambda>v. json_deep_copy_internal_safe v 0) v"

declare json_deep_copy_internal_safe.simps [simp del]

section \<open>The copy is the value\<close>

text \<open>At most \<open>n\<close> containers deep.\<close>

fun shallower :: "nat \<Rightarrow> json \<Rightarrow> bool" where
  "shallower n (JArray xs) = (case n of 0 \<Rightarrow> False | Suc m \<Rightarrow> list_all (shallower m) xs)"
| "shallower n (JObject es) = (case n of 0 \<Rightarrow> False | Suc m \<Rightarrow> list_all (\<lambda>e. shallower m (snd e)) es)"
| "shallower n _ = True"

lemma copy_array_append:
  "(\<And>x. x \<in> set xs \<Longrightarrow> json_deep_copy_internal_safe x (d + 1) = x) \<Longrightarrow>
   copy_array_safe xs d (Some (JArray ys)) = Some (JArray (ys @ xs))"
  by (induction xs arbitrary: ys) simp_all

lemma copy_object_append:
  "(\<And>k v. (k, v) \<in> set es \<Longrightarrow> json_deep_copy_internal_safe v (d + 1) = v) \<Longrightarrow>
   distinct (map fst (fs @ es)) \<Longrightarrow>
   copy_object_safe es d (Some (JObject fs)) = Some (JObject (fs @ es))"
proof (induction es arbitrary: fs)
  case Nil
  then show ?case by simp
next
  case (Cons e es)
  obtain k v where e: "e = (k, v)" by (cases e)
  with Cons.prems have "k \<notin> fst ` set fs" by auto
  moreover have "copy_object_safe es d (Some (JObject (fs @ [(k, v)]))) =
      Some (JObject ((fs @ [(k, v)]) @ es))"
    using Cons.prems e by (intro Cons.IH) auto
  moreover have "json_deep_copy_internal_safe v (d + 1) = v" using e by (intro Cons.prems(1) [of k]) simp
  ultimately show ?case
    using e by (simp add: obj_set_fresh)
qed

lemma deep_copy_internal:
  "json_wf v \<Longrightarrow> shallower n v \<Longrightarrow> d + int n \<le> 100 \<Longrightarrow> json_deep_copy_internal_safe v d = v"
proof (induction v arbitrary: n d)
  case (JArray xs)
  from JArray.prems(2) obtain m where n: "n = Suc m" "\<forall>x\<in>set xs. shallower m x"
    by (cases n) (auto simp: list_all_iff)
  have "json_deep_copy_internal_safe x (d + 1) = x" if "x \<in> set xs" for x
    using JArray.prems n that by (intro JArray.IH [of x m]) (auto simp: list_all_iff)
  then have "copy_array_safe xs d (Some (JArray [])) = Some (JArray ([] @ xs))"
    by (rule copy_array_append)
  with JArray.prems(3) show ?case
    by (simp add: json_deep_copy_internal_safe.simps max_recursion_depth_def json_create_array_def)
next
  case (JObject es)
  from JObject.prems(2) obtain m where n: "n = Suc m" "\<forall>e\<in>set es. shallower m (snd e)"
    by (cases n) (auto simp: list_all_iff)
  have "json_deep_copy_internal_safe v (d + 1) = v" if "(k, v) \<in> set es" for k v
    using JObject.prems n that
    by (intro JObject.IH [of "(k, v)" v m]) (force simp: list_all_iff snds.simps)+
  then have "copy_object_safe es d (Some (JObject [])) = Some (JObject ([] @ es))"
    using JObject.prems(1) by (intro copy_object_append) simp_all
  with JObject.prems(3) show ?case
    by (simp add: json_deep_copy_internal_safe.simps max_recursion_depth_def json_create_object_def)
qed (simp_all add: json_deep_copy_internal_safe.simps max_recursion_depth_def json_create_null_def
    json_create_boolean_def json_create_number_def json_create_integer_def json_create_string_def)

lemma deep_copy_id: "json_wf v \<Longrightarrow> shallower 100 v \<Longrightarrow> json_deep_copy (Some v) = Some v"
  by (simp add: json_deep_copy_def deep_copy_internal)

section \<open>The keys of an object\<close>

definition key_strings :: "jptr \<Rightarrow> string list" where
  "key_strings keys =
     (case keys of
        Some (JArray ks) \<Rightarrow> concat (map (\<lambda>k. case k of JString s \<Rightarrow> [s] | _ \<Rightarrow> []) ks)
      | _ \<Rightarrow> [])"

lemma key_strings_object [simp]:
  "key_strings (json_object_get_keys (Some (JObject es))) = map fst es"
  by (simp add: json_object_get_keys_def json_create_array_def get_keys_fold key_strings_def comp_def)

end
