(* ===== verification/Database.thy ===== *)
theory Database
  imports Doc_Store Generic_Cache Deep_Copy
begin

text \<open>
  The document database, \<^verbatim>\<open>src/src/components/database/database.c\<close>.  All documents live in
  one container, under their uuid, as the text the JSON writer gives; a document is parsed
  again whenever it is read.  Three layers work on it: \<open>storage_*\<close> on the container alone,
  \<open>virtual_*\<close> with a cache of documents, \<open>db_*\<close> with that cache and a cache of query results.
  Each function holds the lock of the collection while it works and is one step.  A call of
  \<^verbatim>\<open>strcmp\<close> on \<^verbatim>\<open>NULL\<close> is the value \<open>Null_Strcmp\<close>.  The counters of the metrics and the tracker
  of queries are left out, and so is the sharing of subtrees between a cached value and the
  one handed out.
\<close>

section \<open>State\<close>

record database =
  documents :: art
  doc_cache :: "json generic_cache option"
  query_cache :: "json generic_cache option"

datatype db_fault = Null_Strcmp

type_synonym 'a faulty = "db_fault + 'a"

text \<open>What \<^verbatim>\<open>db_init\<close> sets up.\<close>

definition db_init :: database where
  "db_init =
     \<lparr>documents = skiplist_create, doc_cache = generic_cache_create 10000,
      query_cache = generic_cache_create 1000\<rparr>"

text \<open>What a call reads from its surroundings: the clock (read twice) and the thread.\<close>

record moment =
  now_uuid :: c_int64
  now :: c_int64
  nsec :: c_int64
  thread_id :: c_size

section \<open>Names and keys\<close>

text \<open>\<^verbatim>\<open>"doc-%ld-%u"\<close> in a buffer of 64 bytes; \<^verbatim>\<open>db_insert_document\<close> mixes in a constant.\<close>

definition make_uuid :: "moment \<Rightarrow> c_size \<Rightarrow> string" where
  "make_uuid m salt =
     take 63 (''doc-'' @ int_str (sint (now_uuid m)) @ ''-'' @
       int_str (uint (ucast (xor (xor (nsec m) (thread_id m)) salt) :: c_uint)))"

definition parse_collection_path :: "string \<Rightarrow> string \<times> string" where
  "parse_collection_path path =
     (if CHR ''/'' \<notin> set path then (''default'', path)
      else (takeWhile (\<lambda>c. c \<noteq> CHR ''/'') path, tl (dropWhile (\<lambda>c. c \<noteq> CHR ''/'') path)))"

definition generate_doc_cache_key_fast :: "cstr \<Rightarrow> nat \<Rightarrow> cstr" where
  "generate_doc_cache_key_fast uuid buffer_size =
     (case uuid of
        None \<Rightarrow> None
      | Some u \<Rightarrow>
          if buffer_size < 5 then None
          else if length u + 5 > buffer_size then None
          else Some (''doc:'' @ u))"

definition hex_digit :: "nat \<Rightarrow> char" where
  "hex_digit n = ''0123456789abcdef'' ! n"

text \<open>\<^verbatim>\<open>%08x\<close>\<close>

definition hex8 :: "c_uint \<Rightarrow> string" where
  "hex8 w = map (\<lambda>i. hex_digit (unat w div 16 ^ i mod 16)) [7, 6, 5, 4, 3, 2, 1, 0]"

definition query_hash :: "jptr \<Rightarrow> c_uint" where
  "query_hash query =
     (case json_stringify query of
        None \<Rightarrow> 0
      | Some s \<Rightarrow> foldl (\<lambda>h c. (push_bit 5 h + h) + word_of_int (uchar c)) 0 s)"

definition generate_query_cache_key_fast :: "string \<Rightarrow> string \<Rightarrow> jptr \<Rightarrow> nat \<Rightarrow> cstr" where
  "generate_query_cache_key_fast library collection query buffer_size =
     (let key = library @ '':'' @ collection @ '':'' @ hex8 (query_hash query) in
      if length key < buffer_size then Some key else None)"

text \<open>The accesses to the caches, under a key that may not have been generated.\<close>

definition cache_lookup ::
  "json generic_cache option \<Rightarrow> cstr \<Rightarrow> json option \<times> json generic_cache option" where
  "cache_lookup c key =
     (case (key, c) of
        (Some k, Some c') \<Rightarrow> (let (r, c'') = generic_cache_get c' (c_bytes k) in (r, Some c''))
      | _ \<Rightarrow> (None, c))"

definition cache_store ::
  "json generic_cache option \<Rightarrow> cstr \<Rightarrow> json \<Rightarrow> json generic_cache option" where
  "cache_store c key v =
     (case (key, c) of
        (Some k, Some c') \<Rightarrow> Some (generic_cache_put c' (c_bytes k) v)
      | _ \<Rightarrow> c)"

section \<open>The storage layer\<close>

text \<open>The text stored for a value, and the value read from stored bytes.\<close>

definition doc_bytes :: "jptr \<Rightarrow> string" where
  "doc_bytes v = (case json_stringify v of None \<Rightarrow> [] | Some s \<Rightarrow> c_bytes s)"

definition doc_parse :: "string \<Rightarrow> jptr" where
  "doc_parse bs = json_parse (Some (c_read bs))"

definition set_field :: "jptr \<Rightarrow> string \<Rightarrow> json \<Rightarrow> jptr" where
  "set_field ob k v = json_object_set ob (Some k) (Some v)"

definition storage_insert_document :: "moment \<Rightarrow> jptr \<Rightarrow> database \<Rightarrow> jptr \<times> database" where
  "storage_insert_document m document db =
     (let uuid = make_uuid m 0;
          d = set_field (json_deep_copy document) ''uuid'' (json_create_string uuid);
          d = (if json_object_get d (Some ''created_at'') = None
               then set_field d ''created_at'' (json_create_integer (now m)) else d);
          d = set_field d ''modified_at'' (json_create_integer (now m))
      in if json_stringify d = None then (None, db)
         else (json_deep_copy d,
               db\<lparr>documents := snd (skiplist_insert (documents db) (c_bytes uuid) (doc_bytes d))\<rparr>))"

text \<open>The search for a document and the parsing of what is found.\<close>

definition find_document :: "string \<Rightarrow> database \<Rightarrow> jptr \<times> database" where
  "find_document uuid db =
     (let (raw, docs) = skiplist_search (documents db) (c_bytes uuid) in
      (case raw of None \<Rightarrow> None | Some bs \<Rightarrow> if bs = [] then None else doc_parse bs,
       db\<lparr>documents := docs\<rparr>))"

definition storage_get_document :: "string \<Rightarrow> database \<Rightarrow> jptr \<times> database" where
  "storage_get_document uuid db = find_document uuid db"

text \<open>The loop that copies the fields of the update.\<close>

definition merge_fields :: "jptr \<Rightarrow> jptr \<Rightarrow> jptr" where
  "merge_fields document updated =
     foldl (\<lambda>u k. case json_object_get document (Some k) of
                    None \<Rightarrow> u
                  | Some v \<Rightarrow> set_field u k (json_clone v))
       updated (key_strings (json_object_get_keys document))"

definition replace_document :: "string \<Rightarrow> jptr \<Rightarrow> database \<Rightarrow> database" where
  "replace_document uuid v db =
     db\<lparr>documents := art_replace (documents db) (c_bytes uuid) (doc_bytes v)\<rparr>"

definition storage_update_document :: "moment \<Rightarrow> string \<Rightarrow> jptr \<Rightarrow> database \<Rightarrow> jptr \<times> database" where
  "storage_update_document m uuid document db =
     (let (found, db) = find_document uuid db in
      case found of
        None \<Rightarrow> (None, db)
      | Some existing \<Rightarrow>
          (let u = json_deep_copy (Some existing);
               u = (if json_get_type document = JSON_OBJECT then merge_fields document u else u);
               u = set_field u ''modified_at'' (json_create_integer (now m))
           in if json_stringify u = None then (None, db)
              else (json_deep_copy u, replace_document uuid u db)))"

definition storage_delete_document :: "string \<Rightarrow> database \<Rightarrow> bool \<times> database" where
  "storage_delete_document uuid db =
     (let (raw, docs) = skiplist_search (documents db) (c_bytes uuid); db = db\<lparr>documents := docs\<rparr> in
      case raw of
        None \<Rightarrow> (False, db)
      | Some bs \<Rightarrow>
          if bs = [] then (False, db)
          else (let (r, docs) = skiplist_delete (documents db) (c_bytes uuid)
                in (r, db\<lparr>documents := docs\<rparr>)))"

subsection \<open>Queries\<close>

fun storage_values_match :: "json \<Rightarrow> json \<Rightarrow> bool" where
  "storage_values_match (JString q) (JString d) = (strcmp q d = 0)"
| "storage_values_match (JBoolean q) (JBoolean d) = (q = d)"
| "storage_values_match (JNumber q) (JNumber d) = double_eq q d"
| "storage_values_match _ _ = False"

text \<open>The loop over the keys of the query, with the comparison of two values as an argument.\<close>

definition fields_match :: "(json \<Rightarrow> json \<Rightarrow> bool) \<Rightarrow> jptr \<Rightarrow> jptr \<Rightarrow> bool" where
  "fields_match values_match query doc =
     list_all (\<lambda>k. case (json_object_get query (Some k), json_object_get doc (Some k)) of
                     (Some q, Some d) \<Rightarrow> values_match q d
                   | _ \<Rightarrow> False)
       (key_strings (json_object_get_keys query))"

definition query_matches :: "(json \<Rightarrow> json \<Rightarrow> bool) \<Rightarrow> jptr \<Rightarrow> jptr \<Rightarrow> bool" where
  "query_matches values_match query doc =
     (json_get_type query = JSON_OBJECT \<longrightarrow> fields_match values_match query doc)"

text \<open>The documents an iteration looks at: those that parse as objects.\<close>

definition parsed_object :: "string \<Rightarrow> jptr" where
  "parsed_object bs =
     (case (if bs = [] then None else doc_parse bs) of
        Some (JObject es) \<Rightarrow> Some (JObject es)
      | _ \<Rightarrow> None)"

definition stored_objects :: "art \<Rightarrow> json list" where
  "stored_objects docs =
     concat (map (\<lambda>leaf. case parsed_object (leaf_value leaf) of None \<Rightarrow> [] | Some d \<Rightarrow> [d])
       (iterate docs skiplist_iterator_create))"

definition result_object :: "json list \<Rightarrow> jptr" where
  "result_object docs =
     set_field
       (set_field (Some json_create_object) ''documents''
         (the (foldl (\<lambda>ds d. json_array_append ds (Some d)) (Some json_create_array) docs)))
       ''count'' (json_create_integer (scast (of_nat (length docs) :: c_int)))"

definition storage_query_documents :: "jptr \<Rightarrow> database \<Rightarrow> jptr" where
  "storage_query_documents query db =
     (case query of
        None \<Rightarrow> None
      | Some _ \<Rightarrow>
          result_object
            (map json_clone
              (filter (\<lambda>d. query_matches storage_values_match query (Some d))
                (stored_objects (documents db)))))"

section \<open>The virtual layer\<close>

text \<open>\<^verbatim>\<open>"%ss"\<close> in a buffer of 64 bytes, when no collection is given.\<close>

definition collection_or_plural :: "cstr \<Rightarrow> string \<Rightarrow> string" where
  "collection_or_plural collection type =
     (case collection of Some c \<Rightarrow> c | None \<Rightarrow> take 63 (type @ ''s''))"

definition virtual_query :: "cstr \<Rightarrow> cstr \<Rightarrow> cstr \<Rightarrow> jptr \<Rightarrow> database \<Rightarrow> jptr" where
  "virtual_query type library collection filters db =
     (case (type, library) of
        (Some t, Some l) \<Rightarrow>
          (let q = set_field (Some json_create_object) ''type'' (json_create_string t);
               q = set_field q ''library'' (json_create_string l);
               q = set_field q ''collection'' (json_create_string (collection_or_plural collection t));
               q = (if json_get_type filters = JSON_OBJECT then merge_fields filters q else q)
           in storage_query_documents q db)
      | _ \<Rightarrow> None)"

definition virtual_insert ::
  "moment \<Rightarrow> cstr \<Rightarrow> cstr \<Rightarrow> cstr \<Rightarrow> jptr \<Rightarrow> cstr \<Rightarrow> database \<Rightarrow> jptr \<times> database" where
  "virtual_insert m type library collection document owner db =
     (case (type, library, document, owner) of
        (Some t, Some l, Some _, Some w) \<Rightarrow>
          (let d = json_deep_copy document;
               d = set_field d ''type'' (json_create_string t);
               d = set_field d ''library'' (json_create_string l);
               d = set_field d ''collection'' (json_create_string (collection_or_plural collection t));
               d = set_field d ''owner'' (json_create_string w)
           in storage_insert_document m d db)
      | _ \<Rightarrow> (None, db))"

definition virtual_query_users :: "cstr \<Rightarrow> jptr \<Rightarrow> database \<Rightarrow> jptr" where
  "virtual_query_users library filters db =
     virtual_query (Some ''user'') library (Some ''users'') filters db"

definition virtual_update :: "moment \<Rightarrow> cstr \<Rightarrow> jptr \<Rightarrow> database \<Rightarrow> jptr \<times> database" where
  "virtual_update m uuid document db =
     (case (uuid, document) of
        (Some u, Some _) \<Rightarrow>
          storage_update_document m u
            (set_field (json_deep_copy document) ''updated_at'' (json_create_integer (now_uuid m))) db
      | _ \<Rightarrow> (None, db))"

definition virtual_get :: "cstr \<Rightarrow> database \<Rightarrow> jptr \<times> database" where
  "virtual_get uuid db =
     (case uuid of
        None \<Rightarrow> (None, db)
      | Some u \<Rightarrow>
          (let key = generate_doc_cache_key_fast uuid 256;
               (cached, c) = cache_lookup (doc_cache db) key;
               db = db\<lparr>doc_cache := c\<rparr>
           in case cached of
                Some d \<Rightarrow> (Some d, db)
              | None \<Rightarrow>
                  (let (doc, db) = storage_get_document u db in
                   case json_deep_copy doc of
                     None \<Rightarrow> (doc, db)
                   | Some copy \<Rightarrow> (doc, db\<lparr>doc_cache := cache_store (doc_cache db) key copy\<rparr>))))"

definition virtual_delete :: "cstr \<Rightarrow> database \<Rightarrow> c_int \<times> database" where
  "virtual_delete uuid db =
     (case uuid of
        None \<Rightarrow> (- 1, db)
      | Some u \<Rightarrow> (let (r, db) = storage_delete_document u db in (if r then 1 else 0, db)))"

section \<open>The documents of a library and type\<close>

text \<open>
  The test of a document against a library and a type: \<^verbatim>\<open>strcmp\<close> of their strings, the
  second only when the first agrees.  A field that is no string is \<^verbatim>\<open>NULL\<close> there.
\<close>

definition field_is :: "json \<Rightarrow> string \<Rightarrow> bool faulty" where
  "field_is v s =
     (case json_get_string (Some v) of None \<Rightarrow> Inl Null_Strcmp | Some s' \<Rightarrow> Inr (strcmp s' s = 0))"

definition document_belongs :: "jptr \<Rightarrow> string \<Rightarrow> string \<Rightarrow> bool faulty" where
  "document_belongs doc library collection =
     (case (json_object_get doc (Some ''library''), json_object_get doc (Some ''type'')) of
        (Some l, Some t) \<Rightarrow>
          (case field_is l library of
             Inl f \<Rightarrow> Inl f
           | Inr False \<Rightarrow> Inr False
           | Inr True \<Rightarrow> field_is t collection)
      | _ \<Rightarrow> Inr False)"

definition set_missing_string :: "jptr \<Rightarrow> string \<Rightarrow> string \<Rightarrow> jptr" where
  "set_missing_string ob k s =
     (if json_object_get ob (Some k) = None \<or> json_get_type (json_object_get ob (Some k)) \<noteq> JSON_STRING
      then set_field ob k (json_create_string s) else ob)"

definition db_insert_document ::
  "moment \<Rightarrow> string \<Rightarrow> string \<Rightarrow> jptr \<Rightarrow> database \<Rightarrow> jptr \<times> database" where
  "db_insert_document m library collection document db =
     (let uuid = make_uuid m 0x54321;
          d = set_field (json_deep_copy document) ''uuid'' (json_create_string uuid);
          d = set_missing_string d ''type'' collection;
          d = set_missing_string d ''library'' library;
          d = set_missing_string d ''collection'' collection;
          d = set_field d ''created_at'' (json_create_integer (now m));
          d = set_field d ''modified_at'' (json_create_integer (now m))
      in if json_stringify d = None then (None, db)
         else (json_deep_copy d,
               db\<lparr>documents := snd (skiplist_insert (documents db) (c_bytes uuid) (doc_bytes d))\<rparr>))"

text \<open>The fields an update may not change.\<close>

definition protected_fields :: "string list" where
  "protected_fields = [''uuid'', ''type'', ''library'', ''collection'', ''created_at'']"

definition merge_unprotected :: "jptr \<Rightarrow> jptr \<Rightarrow> jptr" where
  "merge_unprotected update updated =
     foldl (\<lambda>u k. if list_all (\<lambda>p. strcmp k p \<noteq> 0) protected_fields
                  then json_object_set u (Some k) (json_deep_copy (json_object_get update (Some k)))
                  else u)
       updated (key_strings (json_object_get_keys update))"

definition db_update_document ::
  "moment \<Rightarrow> string \<Rightarrow> string \<Rightarrow> string \<Rightarrow> json \<Rightarrow> database \<Rightarrow> (jptr \<times> database) faulty" where
  "db_update_document m library collection uuid update db =
     (let (found, db) = find_document uuid db in
      case found of
        None \<Rightarrow> Inr (None, db)
      | Some existing \<Rightarrow>
          (case document_belongs (Some existing) library collection of
             Inl f \<Rightarrow> Inl f
           | Inr False \<Rightarrow> Inr (None, db)
           | Inr True \<Rightarrow>
               (let u = json_deep_copy (Some existing);
                    u = (if json_type_of update = JSON_OBJECT then merge_unprotected (Some update) u else u);
                    u = set_field u ''modified_at'' (json_create_integer (now m))
                in if json_stringify u = None then Inr (None, db)
                   else Inr (json_deep_copy u, replace_document uuid u db))))"

definition db_delete_document ::
  "string \<Rightarrow> string \<Rightarrow> string \<Rightarrow> database \<Rightarrow> (bool \<times> database) faulty" where
  "db_delete_document library collection uuid db =
     (let (found, db) = find_document uuid db in
      case found of
        None \<Rightarrow> Inr (False, db)
      | Some existing \<Rightarrow>
          (case document_belongs (Some existing) library collection of
             Inl f \<Rightarrow> Inl f
           | Inr False \<Rightarrow> Inr (False, db)
           | Inr True \<Rightarrow>
               (let (r, docs) = skiplist_delete (documents db) (c_bytes uuid)
                in Inr (r, db\<lparr>documents := docs\<rparr>))))"

fun db_values_match :: "json \<Rightarrow> json \<Rightarrow> bool" where
  "db_values_match (JString q) (JString d) = (strcmp d q = 0)"
| "db_values_match (JInteger q) (JInteger d) = (d = q)"
| "db_values_match (JBoolean q) (JBoolean d) = (d = q)"
| "db_values_match _ _ = False"

text \<open>The loop over the documents stops at a fault.\<close>

fun db_query_loop :: "string \<Rightarrow> jptr \<Rightarrow> json list \<Rightarrow> json list faulty" where
  "db_query_loop library query [] = Inr []"
| "db_query_loop library query (d # ds) =
     (case (case json_object_get (Some d) (Some ''library'') of
              None \<Rightarrow> Inr False
            | Some l \<Rightarrow> field_is l library) of
        Inl f \<Rightarrow> Inl f
      | Inr in_library \<Rightarrow>
          (case db_query_loop library query ds of
             Inl f \<Rightarrow> Inl f
           | Inr rest \<Rightarrow>
               Inr (if in_library \<and> query_matches db_values_match query (Some d)
                    then the (json_deep_copy (Some d)) # rest else rest)))"

definition db_query_documents ::
  "string \<Rightarrow> string \<Rightarrow> jptr \<Rightarrow> database \<Rightarrow> (jptr \<times> database) faulty" where
  "db_query_documents library collection query db =
     (let key = generate_query_cache_key_fast library collection query 512;
          (cached, c) = cache_lookup (query_cache db) key;
          db = db\<lparr>query_cache := c\<rparr>
      in case cached of
           Some r \<Rightarrow> Inr (Some r, db)
         | None \<Rightarrow>
             (case db_query_loop library query (stored_objects (documents db)) of
                Inl f \<Rightarrow> Inl f
              | Inr docs \<Rightarrow>
                  (let result = result_object docs in
                   Inr (result,
                        case json_deep_copy result of
                          None \<Rightarrow> db
                        | Some copy \<Rightarrow> db\<lparr>query_cache := cache_store (query_cache db) key copy\<rparr>))))"

definition db_get_document ::
  "string \<Rightarrow> string \<Rightarrow> string \<Rightarrow> database \<Rightarrow> (jptr \<times> database) faulty" where
  "db_get_document library collection uuid db =
     (let key = generate_doc_cache_key_fast (Some uuid) 256;
          (cached, c) = cache_lookup (doc_cache db) key;
          db = db\<lparr>doc_cache := c\<rparr>
      in case (case cached of None \<Rightarrow> Inr False | Some _ \<Rightarrow> document_belongs cached library collection) of
           Inl f \<Rightarrow> Inl f
         | Inr True \<Rightarrow> Inr (cached, db)
         | Inr False \<Rightarrow>
             (let query = set_field (Some json_create_object) ''uuid'' (json_create_string uuid);
                  query = set_field query ''library'' (json_create_string library);
                  query = set_field query ''type'' (json_create_string collection)
              in case db_query_documents library collection query db of
                   Inl f \<Rightarrow> Inl f
                 | Inr (results, db) \<Rightarrow>
                     (let docs = json_object_get results (Some ''documents'');
                          doc = json_deep_copy (json_array_get docs 0)
                      in case json_deep_copy doc of
                           None \<Rightarrow> Inr (doc, db)
                         | Some copy \<Rightarrow> Inr (doc, db\<lparr>doc_cache := cache_store (doc_cache db) key copy\<rparr>))))"

section \<open>Virtual collections\<close>

text \<open>A collection is a document; \<open>stamp\<close> is the time formatted by \<^verbatim>\<open>strftime\<close>.\<close>

definition ensure_virtual_collection_exists ::
  "moment \<Rightarrow> string \<Rightarrow> string \<Rightarrow> string \<Rightarrow> database \<Rightarrow> database faulty" where
  "ensure_virtual_collection_exists m stamp library name db =
     (let key = set_field (Some json_create_object) ''type'' (json_create_string ''collection'');
          key = set_field key ''library'' (json_create_string library);
          key = set_field key ''collection'' (json_create_string ''collections'');
          key = set_field key ''name'' (json_create_string name)
      in case db_query_documents ''default'' ''documents'' key db of
           Inl f \<Rightarrow> Inl f
         | Inr (results, db) \<Rightarrow>
             if 0 < json_array_size (json_object_get results (Some ''documents'')) then Inr db
             else (let doc = set_field key ''created_at'' (json_create_string stamp);
                       doc = set_field doc ''modified_at'' (json_create_string stamp);
                       doc = set_field doc ''owner'' (json_create_string ''system'')
                   in Inr (snd (virtual_insert m (Some ''collection'') (Some library)
                        (Some ''collections'') doc (Some ''system'') db))))"

definition get_or_create_collection ::
  "moment \<Rightarrow> string \<Rightarrow> string \<Rightarrow> string \<Rightarrow> database \<Rightarrow> database faulty" where
  "get_or_create_collection m stamp library collection db =
     (if strcmp library ''default'' = 0 \<and> strcmp collection ''documents'' = 0 then Inr db
      else ensure_virtual_collection_exists m stamp library collection db)"

definition db_create_collection :: "moment \<Rightarrow> string \<Rightarrow> cstr \<Rightarrow> database \<Rightarrow> (bool \<times> database) faulty" where
  "db_create_collection m stamp path db =
     (case path of
        None \<Rightarrow> Inr (False, db)
      | Some p \<Rightarrow>
          (case get_or_create_collection m stamp (fst (parse_collection_path p))
                  (snd (parse_collection_path p)) db of
             Inl f \<Rightarrow> Inl f
           | Inr db \<Rightarrow> Inr (True, db)))"

section \<open>Indexes and invalidation\<close>

text \<open>The loop of \<^verbatim>\<open>db_create_index\<close>: field text to document id, and the number it reports.\<close>

definition index_step :: "string \<Rightarrow> art \<times> c_int \<Rightarrow> art_leaf \<Rightarrow> art \<times> c_int" where
  "index_step field_path s leaf =
     (case (if leaf_value leaf = [] then None else doc_parse (leaf_value leaf)) of
        None \<Rightarrow> s
      | Some doc \<Rightarrow>
          (case json_object_get (Some doc) (Some field_path) of
             None \<Rightarrow> s
           | Some v \<Rightarrow>
               (snd (skiplist_insert (fst s) (doc_bytes (Some v)) (c_bytes (c_read (leaf_key leaf)))),
                snd s + 1)))"

definition index_documents :: "string \<Rightarrow> art \<Rightarrow> art \<times> c_int" where
  "index_documents field_path docs =
     foldl (index_step field_path) (skiplist_create, 0) (iterate docs skiplist_iterator_create)"

definition invalidate_query_cache_pattern :: "database \<Rightarrow> database" where
  "invalidate_query_cache_pattern db =
     db\<lparr>query_cache := map_option generic_cache_clear (query_cache db)\<rparr>"

definition invalidate_doc_cache :: "string \<Rightarrow> database \<Rightarrow> database" where
  "invalidate_doc_cache uuid db =
     (case generate_doc_cache_key_fast (Some uuid) 256 of
        None \<Rightarrow> db
      | Some key \<Rightarrow>
          db\<lparr>doc_cache := map_option (\<lambda>c. generic_cache_remove c (c_bytes key)) (doc_cache db)\<rparr>)"

end
