(* ===== verification/Cache_Props.thy ===== *)
theory Cache_Props
  imports Generic_Cache
begin

text \<open>
  The cache keeps its two structures in step and refines the list of bindings ordered by
  use: a lookup returns the value put last unless it was evicted, the evicted binding is
  the least recently used one, and the capacity is never exceeded.
\<close>

section \<open>The invariant\<close>

interpretation cached: chained key cache_bucket for key :: "nat \<Rightarrow> string"
  by unfold_locales (simp add: cache_bucket_def hash_index_less)

definition gc_ok :: "'v generic_cache \<Rightarrow> bool" where
  "gc_ok c \<longleftrightarrow> cached.wf (key_at (gc_heap c)) (gc_buckets c) \<and>
     cached.entries_of (gc_buckets c) = set (lru_list c) \<and> distinct (lru_list c) \<and>
     dom (gc_heap c) = set (lru_list c) \<and> (\<forall>a\<in>set (lru_list c). a < gc_next c) \<and>
     gc_size c = of_nat (length (lru_list c)) \<and> 0 < unat (gc_capacity c) \<and>
     length (lru_list c) \<le> unat (gc_capacity c)"

lemma gc_okD:
  assumes "gc_ok c"
  shows "cached.wf (key_at (gc_heap c)) (gc_buckets c)" "cached.entries_of (gc_buckets c) = set (lru_list c)"
    "distinct (lru_list c)" "dom (gc_heap c) = set (lru_list c)" "\<forall>a\<in>set (lru_list c). a < gc_next c"
    "gc_size c = of_nat (length (lru_list c))" "0 < unat (gc_capacity c)"
    "length (lru_list c) \<le> unat (gc_capacity c)"
  using assms by (simp_all add: gc_ok_def)

lemma cached_wf_cong:
  assumes "\<forall>a\<in>cached.entries_of table. k' a = k a"
  shows "cached.wf k' table = cached.wf k table"
proof -
  have e: "n < length table \<Longrightarrow> a \<in> set (table ! n) \<Longrightarrow> k' a = k a" for n a
    using assms by (auto simp: cached.entries_of_def)
  have "n < length table \<Longrightarrow> map k' (table ! n) = map k (table ! n)" for n
    by (rule map_cong) (simp_all add: e)
  then have "n < length table \<Longrightarrow> distinct (map k' (table ! n)) = distinct (map k (table ! n))" for n
    by presburger
  with e show ?thesis by (simp add: cached.wf_def cong: conj_cong)
qed

lemma find_entry_lookup: "find_entry c key = cached.lookup (key_at (gc_heap c)) (gc_buckets c) key"
  by (auto simp: find_entry_def cached.lookup_def intro!: arg_cong [where f = "\<lambda>p. find p _"])

lemma find_entry_Some:
  assumes "gc_ok c"
  shows "find_entry c key = Some a \<longleftrightarrow> a \<in> set (lru_list c) \<and> key_at (gc_heap c) a = key"
  unfolding find_entry_lookup
  using cached.entries_iff [OF gc_okD(1) [OF assms]] gc_okD(2) [OF assms] cached.lookup_Some by metis

lemma keys_inject:
  "gc_ok c \<Longrightarrow> a \<in> set (lru_list c) \<Longrightarrow> b \<in> set (lru_list c) \<Longrightarrow>
   key_at (gc_heap c) a = key_at (gc_heap c) b \<Longrightarrow> a = b"
  using find_entry_Some [of c] by (metis option.inject)

lemma map_of_view:
  assumes "gc_ok c"
  shows "map_of (lru_view c) key = map_option (\<lambda>a. ce_value (the (gc_heap c a))) (find_entry c key)"
proof (cases "find_entry c key")
  case None
  then have "\<forall>a\<in>set (lru_list c). key_at (gc_heap c) a \<noteq> key"
    using find_entry_Some [OF assms, of key] by auto
  with None show ?thesis by (auto simp: lru_view_def map_of_eq_None_iff)
next
  case (Some a)
  then have a: "a \<in> set (lru_list c)" "key_at (gc_heap c) a = key" using find_entry_Some [OF assms] by auto
  have "distinct (map fst (lru_view c))"
    using gc_okD(3) [OF assms] keys_inject [OF assms]
    by (auto simp: lru_view_def distinct_map inj_on_def comp_def)
  then have "map_of (lru_view c) key = Some (ce_value (the (gc_heap c a)))"
    using a by (force simp: lru_view_def)
  with Some show ?thesis by simp
qed

lemma view_remove:
  assumes "distinct as" and "\<forall>b\<in>set as. key_at h b = key_at h a \<longrightarrow> b = a"
  shows "map (\<lambda>a. (key_at h a, g a)) (remove1 a as) =
    lru_without (key_at h a) (map (\<lambda>a. (key_at h a, g a)) as)"
  using assms
proof (induction as)
  case (Cons b as)
  then show ?case
  proof (cases "b = a")
    case True
    with Cons.prems have "\<forall>x\<in>set as. key_at h x \<noteq> key_at h a" by auto
    with True show ?thesis by (auto simp: lru_without_def)
  qed (use Cons in \<open>auto simp: lru_without_def\<close>)
qed (simp add: lru_without_def)

lemma lru_without_hd:
  assumes "gc_ok c" and "lru_list c = a # as"
  shows "(key_at (gc_heap c) a, ce_value (the (gc_heap c a))) # lru_without (key_at (gc_heap c) a) (lru_view c) = lru_view c"
proof -
  have "\<forall>b\<in>set as. key_at (gc_heap c) b \<noteq> key_at (gc_heap c) a"
    using keys_inject [OF assms(1), of _ a] gc_okD(3) [OF assms(1)] assms(2) by fastforce
  then show ?thesis using assms(2) by (auto simp: lru_view_def lru_without_def filter_id_conv)
qed

lemma move_to_front_ok:
  assumes "gc_ok c" and "a \<in> set (lru_list c)"
  shows "gc_ok (move_to_front c a)"
    and "lru_view (move_to_front c a) =
      (key_at (gc_heap c) a, ce_value (the (gc_heap c a))) # lru_without (key_at (gc_heap c) a) (lru_view c)"
proof -
  have "set (a # remove1 a (lru_list c)) = set (lru_list c)"
    using assms(2) gc_okD(3) [OF assms(1)] by auto
  moreover have "length (a # remove1 a (lru_list c)) = length (lru_list c)"
    using assms(2) by (simp add: length_remove1) (metis Suc_pred length_pos_if_in_set)
  ultimately show "gc_ok (move_to_front c a)"
    using assms gc_okD(3) [OF assms(1)] by (simp add: gc_ok_def move_to_front_def)
  show "lru_view (move_to_front c a) =
      (key_at (gc_heap c) a, ce_value (the (gc_heap c a))) # lru_without (key_at (gc_heap c) a) (lru_view c)"
  proof (cases "a = hd (lru_list c)")
    case True
    then obtain as where as: "lru_list c = a # as" using assms(2) by (cases "lru_list c") auto
    then have "move_to_front c a = c" by (simp add: move_to_front_def)
    then show ?thesis by (simp only: lru_without_hd [OF assms(1) as])
  next
    case False
    with view_remove [OF gc_okD(3) [OF assms(1)], of "gc_heap c" a "\<lambda>a. ce_value (the (gc_heap c a))"]
      keys_inject [OF assms(1) _ assms(2)]
    show ?thesis by (simp add: move_to_front_def lru_view_def)
  qed
qed

section \<open>Dropping an entry\<close>

lemma chain_remove_key:
  "inj_on f (set es) \<Longrightarrow> a \<in> set es \<Longrightarrow> chain_remove (\<lambda>b. b = a) es = chain_remove (\<lambda>b. f b = f a) es"
  by (induction es) (auto simp: inj_on_def)

lemma remove_entry_bucket:
  assumes "cached.wf k table" and "a \<in> cached.entries_of table"
  shows "bucket_remove table (cache_bucket (length table) (k a)) (\<lambda>b. b = a) =
    bucket_remove table (cache_bucket (length table) (k a)) (\<lambda>b. k b = k a)"
proof -
  let ?n = "cache_bucket (length table) (k a)"
  have n: "?n < length table" by (rule cached.in_range) (use assms(1) in \<open>simp add: cached.wf_def\<close>)
  have "distinct (map k (table ! ?n))" using assms(1) n by (simp add: cached.wf_def)
  moreover have "a \<in> set (table ! ?n)"
    using cached.entry_lookup [OF assms] nth_mem
    unfolding cached.lookup_def find_Some_iff by metis
  ultimately show ?thesis
    by (simp add: bucket_remove_def chain_remove_key [of k] distinct_map)
qed

text \<open>What is left when an entry is dropped from the list, the buckets and the heap.\<close>

lemma drop_entry_ok:
  assumes "gc_ok c" and "a \<in> set (lru_list c)" and "set as = set (lru_list c) - {a}" and "distinct as"
  shows "gc_ok (drop_entry (c\<lparr>lru_list := as\<rparr>) a)"
proof -
  let ?b = "bucket_remove (gc_buckets c) (cache_bucket (length (gc_buckets c)) (key_at (gc_heap c) a)) (\<lambda>b. b = a)"
  note ok = gc_okD [OF assms(1)]
  have a: "a \<in> cached.entries_of (gc_buckets c)" using ok(2) assms(2) by simp
  note b = remove_entry_bucket [OF ok(1) a]
  have wf: "cached.wf (key_at (gc_heap c)) ?b" unfolding b by (rule cached.wf_remove [OF ok(1)])
  have ent: "cached.entries_of ?b = set as"
    unfolding b using cached.entries_remove [OF ok(1), of "key_at (gc_heap c) a"] ok(2) assms(2,3)
      keys_inject [OF assms(1)] by auto
  have "\<forall>x\<in>cached.entries_of ?b. key_at ((gc_heap c)(a := None)) x = key_at (gc_heap c) x"
    using ent assms(3) by (auto simp: key_at_def)
  then have wf': "cached.wf (key_at ((gc_heap c)(a := None))) ?b" using wf cached_wf_cong by blast
  have "card (set as) = card (set (lru_list c)) - 1" using assms(2,3) by simp
  then have len: "length as = length (lru_list c) - 1"
    using distinct_card [OF assms(4)] distinct_card [OF ok(3)] by simp
  have pos: "0 < length (lru_list c)" using assms(2) length_pos_if_in_set by fastforce
  then have "(of_nat (length (lru_list c)) :: c_size) - 1 = of_nat (length as)" 
    using len pos by (cases "length (lru_list c)") simp_all
  moreover have "dom (gc_heap c) - {a} = set as" using ok(4) assms(3) by simp
  moreover have "\<forall>x\<in>set as. x < gc_next c" using ok(5) assms(3) by simp
  moreover have "length as \<le> unat (gc_capacity c)" using len ok(8) by simp
  ultimately show ?thesis
    unfolding gc_ok_def drop_entry_def
    using wf' ent assms(4) ok(6,7) by (simp del: One_nat_def)
qed

section \<open>Refinement\<close>

lemma cache_get_refines:
  assumes "gc_ok c"
  shows "gc_ok (snd (generic_cache_get c key))"
    and "fst (generic_cache_get c key) = fst (lru_get (lru_view c) key)"
    and "lru_view (snd (generic_cache_get c key)) = snd (lru_get (lru_view c) key)"
proof -
  let ?h = "\<lambda>c. c\<lparr>gc_hits := gc_hits c + 1\<rparr>" and ?m = "\<lambda>c. c\<lparr>gc_misses := gc_misses c + 1\<rparr>"
  have same: "gc_ok (?h c)" "gc_ok (?m c)" "lru_view (?h c) = lru_view c" "lru_view (?m c) = lru_view c"
    using assms by (simp_all add: gc_ok_def lru_view_def)
  have "gc_ok (snd (generic_cache_get c key)) \<and>
      fst (generic_cache_get c key) = fst (lru_get (lru_view c) key) \<and>
      lru_view (snd (generic_cache_get c key)) = snd (lru_get (lru_view c) key)"
  proof (cases "find_entry c key")
    case None
    with map_of_view [OF assms, of key] same show ?thesis
      by (simp add: generic_cache_get_def cache_read_def lru_get_def)
  next
    case (Some a)
    then have a: "a \<in> set (lru_list (?h c))" "key_at (gc_heap c) a = key"
      using find_entry_Some [OF assms] by auto
    with move_to_front_ok [OF same(1) a(1)] map_of_view [OF assms, of key] same Some show ?thesis
      by (simp add: generic_cache_get_def cache_read_def cache_touch_def lru_get_def)
  qed
  then show "gc_ok (snd (generic_cache_get c key))"
    and "fst (generic_cache_get c key) = fst (lru_get (lru_view c) key)"
    and "lru_view (snd (generic_cache_get c key)) = snd (lru_get (lru_view c) key)" by simp_all
qed

lemma evict_ok:
  assumes "gc_ok c"
  shows "gc_ok (evict_lru c)" and "lru_view (evict_lru c) = butlast (lru_view c)"
    and "gc_next (evict_lru c) = gc_next c" and "gc_capacity (evict_lru c) = gc_capacity c"
    and "lru_list (evict_lru c) = butlast (lru_list c)"
proof -
  have "gc_ok (evict_lru c) \<and> lru_view (evict_lru c) = butlast (lru_view c)"
  proof (cases "lru_list c = []")
    case True
    with assms show ?thesis by (simp add: evict_lru_def lru_view_def)
  next
    case False
    let ?a = "last (lru_list c)" and ?as = "butlast (lru_list c)"
    have l: "lru_list c = ?as @ [?a]" using False by simp
    have d: "distinct (?as @ [?a])" using gc_okD(3) [OF assms] l by metis
    have s: "set ?as = set (lru_list c) - {?a}"
      using arg_cong [OF l, of set] d by auto
    have "gc_ok (drop_entry (c\<lparr>lru_list := ?as\<rparr>) ?a)"
      by (rule drop_entry_ok [OF assms _ s]) (use False d in \<open>simp_all add: distinct_butlast\<close>)
    moreover have "map (\<lambda>a. (key_at ((gc_heap c)(?a := None)) a, ce_value (the (((gc_heap c)(?a := None)) a)))) ?as =
        map (\<lambda>a. (key_at (gc_heap c) a, ce_value (the (gc_heap c a)))) ?as"
      using s by (intro map_cong) (auto simp: key_at_def)
    ultimately show ?thesis using False
      by (simp add: evict_lru_def gc_ok_def lru_view_def drop_entry_def flip: map_butlast)
  qed
  then show "gc_ok (evict_lru c)" and "lru_view (evict_lru c) = butlast (lru_view c)" by simp_all
  show "gc_next (evict_lru c) = gc_next c" and "gc_capacity (evict_lru c) = gc_capacity c"
    and "lru_list (evict_lru c) = butlast (lru_list c)"
    by (simp_all add: evict_lru_def drop_entry_def)
qed

lemma lru_list_bound:
  assumes "gc_ok c"
  shows "unat (gc_size c) = length (lru_list c)"
proof -
  have "unat (gc_capacity c) < 2 ^ 64" by (rule less_le_trans [OF unsigned_less]) simp
  then show ?thesis
    using gc_okD(6,8) [OF assms] by (simp add: unsigned_of_nat take_bit_nat_eq_self)
qed

text \<open>A new entry in front.\<close>

definition push_entry :: "'v generic_cache \<Rightarrow> string \<Rightarrow> 'v \<Rightarrow> 'v generic_cache" where
  "push_entry c key val =
     (let a = gc_next c in
      c\<lparr>gc_heap := (gc_heap c)(a := Some \<lparr>ce_key = key, ce_value = val\<rparr>), gc_next := a + 1,
        gc_buckets := bucket_push (gc_buckets c) (cache_bucket (length (gc_buckets c)) key) a,
        lru_list := a # lru_list c, gc_size := gc_size c + 1\<rparr>)"

lemma push_entry_ok:
  assumes "gc_ok c" and "find_entry c key = None" and "length (lru_list c) < unat (gc_capacity c)"
  shows "gc_ok (push_entry c key val)" and "lru_view (push_entry c key val) = (key, val) # lru_view c"
proof -
  let ?a = "gc_next c"
  let ?h = "(gc_heap c)(?a := Some \<lparr>ce_key = key, ce_value = val\<rparr>)"
  let ?b = "bucket_push (gc_buckets c) (cache_bucket (length (gc_buckets c)) key) ?a"
  note ok = gc_okD [OF assms(1)]
  have fresh: "?a \<notin> set (lru_list c)" using ok(5) by auto
  then have "\<forall>x\<in>cached.entries_of (gc_buckets c). key_at ?h x = key_at (gc_heap c) x"
    using ok(2) by (auto simp: key_at_def)
  then have wf: "cached.wf (key_at ?h) (gc_buckets c)" using ok(1) cached_wf_cong by blast
  have ka: "key_at ?h ?a = key" by (simp add: key_at_def)
  have none: "cached.lookup (key_at ?h) (gc_buckets c) key = None"
  proof (rule ccontr)
    assume "cached.lookup (key_at ?h) (gc_buckets c) key \<noteq> None"
    then obtain x where x: "cached.lookup (key_at ?h) (gc_buckets c) key = Some x" by blast
    then have m: "x \<in> set (lru_list c)" and k: "key_at ?h x = key"
      using cached.lookup_entry [OF wf x] cached.lookup_Some [OF x] ok(2) by simp_all
    from m fresh have "x \<noteq> ?a" by blast
    with k have "key_at (gc_heap c) x = key" by (simp add: key_at_def)
    with m have "key_at (gc_heap c) x = key" "x \<in> set (lru_list c)" by blast+
    then have "find_entry c key = Some x" using find_entry_Some [OF assms(1)] by blast
    with assms(2) show False by simp
  qed
  have wf': "cached.wf (key_at ?h) ?b"
    using cached.wf_push [OF wf, of ?a] none ka by simp
  have ent: "cached.entries_of ?b = insert ?a (set (lru_list c))"
    using cached.entries_push [OF wf, of ?a] none ka ok(2) by simp
  show "gc_ok (push_entry c key val)"
    using wf' ent ok fresh assms(3) by (auto simp: gc_ok_def push_entry_def Let_def less_SucI)
  have "map (\<lambda>a. (key_at ?h a, ce_value (the (?h a)))) (lru_list c) =
      map (\<lambda>a. (key_at (gc_heap c) a, ce_value (the (gc_heap c a)))) (lru_list c)"
    using fresh by (intro map_cong) (auto simp: key_at_def)
  then show "lru_view (push_entry c key val) = (key, val) # lru_view c"
    by (simp add: lru_view_def push_entry_def Let_def ka)
qed

text \<open>An entry that keeps its place and its key, with a new value.\<close>

definition set_value :: "'v generic_cache \<Rightarrow> nat \<Rightarrow> 'v \<Rightarrow> 'v generic_cache" where
  "set_value c a val = c\<lparr>gc_heap := (gc_heap c)(a := Some ((the (gc_heap c a))\<lparr>ce_value := val\<rparr>))\<rparr>"

lemma key_at_set_value [simp]: "key_at (gc_heap (set_value c a val)) = key_at (gc_heap c)"
  by (auto simp: key_at_def set_value_def)

lemma set_value_ok:
  assumes "gc_ok c" and "a \<in> set (lru_list c)"
  shows "gc_ok (set_value c a val)"
    and "lru_without (key_at (gc_heap c) a) (lru_view (set_value c a val)) =
      lru_without (key_at (gc_heap c) a) (lru_view c)"
proof -
  have "dom (gc_heap (set_value c a val)) = dom (gc_heap c)"
    using gc_okD(4) [OF assms(1)] assms(2) by (auto simp: set_value_def)
  then show "gc_ok (set_value c a val)"
    using assms(1) unfolding gc_ok_def key_at_set_value by (simp add: set_value_def)
  show "lru_without (key_at (gc_heap c) a) (lru_view (set_value c a val)) =
      lru_without (key_at (gc_heap c) a) (lru_view c)"
    unfolding lru_view_def lru_without_def key_at_set_value
    by (auto simp: filter_map comp_def set_value_def)
qed

lemma lru_list_view: "length (lru_view c) = length (lru_list c)"
  by (simp add: lru_view_def)

lemma map_of_without_last: "map_of xs k = None \<Longrightarrow> map_of (butlast xs) k = None"
  by (auto simp: map_of_eq_None_iff dest: in_set_butlastD)

lemma put_new:
  assumes "find_entry c key = None"
  shows "generic_cache_put c key val =
    push_entry (if gc_capacity c \<le> gc_size c then evict_lru c else c) key val"
  using assms by (simp add: generic_cache_put_def push_entry_def Let_def)

lemma cache_put_refines:
  assumes "gc_ok c"
  shows "gc_ok (generic_cache_put c key val) \<and>
    lru_view (generic_cache_put c key val) = lru_put (unat (gc_capacity c)) (lru_view c) key val"
proof (cases "find_entry c key")
  case None
  let ?c = "if gc_capacity c \<le> gc_size c then evict_lru c else c"
  have m: "map_of (lru_view c) key = None" using None by (simp add: map_of_view [OF assms])
  have full: "gc_capacity c \<le> gc_size c \<longleftrightarrow> unat (gc_capacity c) \<le> length (lru_list c)"
    by (simp add: word_le_nat_alt lru_list_bound [OF assms])
  have ok: "gc_ok ?c" using assms evict_ok(1) by auto
  have v: "lru_view ?c = (if unat (gc_capacity c) \<le> length (lru_view c) then butlast (lru_view c) else lru_view c)"
    by (simp add: full evict_ok [OF assms] lru_list_view)
  have "map_of (lru_view ?c) key = None" using m map_of_without_last by (auto simp: v)
  then have f: "find_entry ?c key = None" using map_of_view [OF ok, of key] by auto
  have len: "length (lru_list ?c) < unat (gc_capacity ?c)"
    using gc_okD(7,8) [OF assms] by (auto simp: full evict_ok [OF assms])
  show ?thesis
    unfolding put_new [OF None] lru_put_def
    using push_entry_ok [OF ok f len] m v by simp
next
  case (Some a)
  then have a: "a \<in> set (lru_list c)" "key_at (gc_heap c) a = key" using find_entry_Some [OF assms] by auto
  then have a': "a \<in> set (lru_list (set_value c a val))" by (simp add: set_value_def)
  have put: "generic_cache_put c key val = move_to_front (set_value c a val) a"
    using Some by (simp add: generic_cache_put_def set_value_def)
  have val: "ce_value (the (gc_heap (set_value c a val) a)) = val" by (simp add: set_value_def)
  show ?thesis
    unfolding put lru_put_def
    using move_to_front_ok [OF set_value_ok(1) [OF assms a(1)] a'] set_value_ok(2) [OF assms a(1)]
      map_of_view [OF assms, of key] Some a(2) val by simp
qed

lemma lru_without_id: "map_of xs key = None \<Longrightarrow> lru_without key xs = xs"
  by (induction xs) (auto simp: lru_without_def split: if_splits)

lemma cache_remove_refines:
  assumes "gc_ok c"
  shows "gc_ok (generic_cache_remove c key) \<and> lru_view (generic_cache_remove c key) = lru_without key (lru_view c)"
proof (cases "find_entry c key")
  case None
  with assms map_of_view [OF assms, of key] show ?thesis
    by (simp add: generic_cache_remove_def lru_without_id)
next
  case (Some a)
  then have a: "a \<in> set (lru_list c)" "key_at (gc_heap c) a = key" using find_entry_Some [OF assms] by auto
  let ?as = "remove1 a (lru_list c)"
  have s: "set ?as = set (lru_list c) - {a}" and d: "distinct ?as"
    using gc_okD(3) [OF assms] by simp_all
  have "map (\<lambda>x. (key_at ((gc_heap c)(a := None)) x, ce_value (the (((gc_heap c)(a := None)) x)))) ?as =
      map (\<lambda>x. (key_at (gc_heap c) x, ce_value (the (gc_heap c x)))) ?as"
    using s by (intro map_cong) (auto simp: key_at_def)
  also have "\<dots> = lru_without key (lru_view c)"
    using view_remove [OF gc_okD(3) [OF assms], of "gc_heap c" a "\<lambda>x. ce_value (the (gc_heap c x))"]
      keys_inject [OF assms _ a(1)] a(2) by (simp add: lru_view_def)
  finally show ?thesis
    using Some drop_entry_ok [OF assms a(1) s d]
    by (simp add: generic_cache_remove_def lru_view_def drop_entry_def)
qed

lemma cache_clear_refines:
  assumes "gc_ok c"
  shows "gc_ok (generic_cache_clear c) \<and> lru_view (generic_cache_clear c) = []"
proof -
  have "dom (gc_heap c |` (- set (lru_list c))) = {}" using gc_okD(4) [OF assms] by auto
  moreover have n: "0 < length (gc_buckets c)" using gc_okD(1) [OF assms] by (simp add: cached.wf_def)
  moreover have "cached.entries_of (replicate (length (gc_buckets c)) []) = {}"
    using n by (simp add: cached.entries_of_def)
  ultimately show ?thesis
    using gc_okD(7) [OF assms] cached.wf_replicate [OF n]
    by (simp add: gc_ok_def generic_cache_clear_def lru_view_def)
qed

section \<open>Histories\<close>

datatype 'v cache_op = Get string | Put string 'v | Remove string | Clear

fun cache_step :: "'v generic_cache \<Rightarrow> 'v cache_op \<Rightarrow> 'v option \<times> 'v generic_cache" where
  "cache_step c (Get key) = generic_cache_get c key"
| "cache_step c (Put key v) = (None, generic_cache_put c key v)"
| "cache_step c (Remove key) = (None, generic_cache_remove c key)"
| "cache_step c Clear = (None, generic_cache_clear c)"

fun lru_step :: "nat \<Rightarrow> (string \<times> 'v) list \<Rightarrow> 'v cache_op \<Rightarrow> 'v option \<times> (string \<times> 'v) list" where
  "lru_step cap xs (Get key) = lru_get xs key"
| "lru_step cap xs (Put key v) = (None, lru_put cap xs key v)"
| "lru_step cap xs (Remove key) = (None, lru_without key xs)"
| "lru_step cap xs Clear = (None, [])"

lemma capacity_kept: "gc_capacity (snd (cache_step c op)) = gc_capacity c"
proof -
  have m: "gc_capacity (move_to_front c a) = gc_capacity c" for c :: "'a generic_cache" and a
    by (simp add: move_to_front_def)
  show ?thesis
    by (cases op)
      (auto simp: generic_cache_get_def cache_read_def cache_touch_def m generic_cache_put_def Let_def
        evict_lru_def drop_entry_def generic_cache_remove_def generic_cache_clear_def split: option.splits)
qed

lemma cache_step_refines:
  assumes "gc_ok c"
  shows "gc_ok (snd (cache_step c op)) \<and>
    fst (cache_step c op) = fst (lru_step (unat (gc_capacity c)) (lru_view c) op) \<and>
    lru_view (snd (cache_step c op)) = snd (lru_step (unat (gc_capacity c)) (lru_view c) op)"
  by (cases op) (simp_all add: cache_get_refines [OF assms] cache_put_refines [OF assms]
      cache_remove_refines [OF assms] cache_clear_refines [OF assms])

lemma run_refines:
  assumes "gc_ok c"
  shows "gc_ok (snd (run_history cache_step c ops)) \<and>
    gc_capacity (snd (run_history cache_step c ops)) = gc_capacity c \<and>
    fst (run_history cache_step c ops) =
      fst (run_history (lru_step (unat (gc_capacity c))) (lru_view c) ops) \<and>
    lru_view (snd (run_history cache_step c ops)) =
      snd (run_history (lru_step (unat (gc_capacity c))) (lru_view c) ops)"
  using assms
proof (induction ops arbitrary: c)
  case (Cons op ops)
  note s = cache_step_refines [OF Cons.prems, of op]
  have "gc_ok (snd (cache_step c op))" using s by blast
  from Cons.IH [OF this] s capacity_kept [of c op] show ?case
    by (simp add: case_prod_beta Let_def)
qed simp

lemma create_ok:
  assumes "generic_cache_create cap = Some c"
  shows "gc_ok c" and "gc_capacity c = cap" and "lru_view c = []"
proof -
  have n: "0 < unat (cap * 2)" "0 < unat cap" using assms
    by (auto simp: generic_cache_create_def unat_gt_0 split: if_splits)
  moreover have "cached.entries_of (replicate (unat (cap * 2)) []) = {}"
    using n by (simp add: cached.entries_of_def)
  ultimately show "gc_ok c" "gc_capacity c = cap" "lru_view c = []"
    using assms cached.wf_replicate [OF n(1)]
    by (auto simp: generic_cache_create_def gc_ok_def lru_view_def split: if_splits)
qed

section \<open>The theorems\<close>



text \<open>
  In every state a history reaches, the number of entries is exact and within the
  capacity, the hash table, the list ordered by use and the allocated entries hold the same
  entries, and no key is stored twice.
\<close>

theorem cache_structures_agree:
  assumes "generic_cache_create cap = Some c" and "c' = snd (run_history cache_step c ops)"
  shows "unat (gc_size c') = length (lru_list c') \<and> length (lru_list c') \<le> unat cap \<and>
    set (concat (gc_buckets c')) = set (lru_list c') \<and> dom (gc_heap c') = set (lru_list c') \<and>
    distinct (map (key_at (gc_heap c')) (lru_list c'))"
proof -
  have ok: "gc_ok c'" "gc_capacity c' = cap"
    using run_refines [OF create_ok(1) [OF assms(1)], of ops] create_ok(2) [OF assms(1)] assms(2) by simp_all
  have "inj_on (key_at (gc_heap c')) (set (lru_list c'))"
    using keys_inject [OF ok(1)] by (simp add: inj_on_def)
  then show ?thesis
    using gc_okD [OF ok(1)] lru_list_bound [OF ok(1)] ok(2)
    by (simp add: distinct_map cached.entries_of_def)
qed

lemma cache_structures_agree_witness:
  "\<exists>c :: nat generic_cache. generic_cache_create 1 = Some c \<and>
     length (lru_list (snd (run_history cache_step c [Put ''a'' 1, Put ''b'' 2]))) \<le> 1"
proof -
  obtain c :: "nat generic_cache" where c: "generic_cache_create 1 = Some c"
    by (simp add: generic_cache_create_def)
  from cache_structures_agree [OF c refl, of "[Put ''a'' 1, Put ''b'' 2]"] c show ?thesis by simp
qed

text \<open>
  A lookup gives up the lock between finding an entry and moving it to the front.  When
  another thread removes the key in between, the released entry becomes the head of the
  list ordered by use.
\<close>

theorem cache_get_race:
  assumes "gc_ok c" and "cache_read c key = (Some (a, v), c1)"
  shows "let c3 = cache_touch (generic_cache_remove c1 key) a in
    hd (lru_list c3) = a \<and> gc_heap c3 a = None"
proof -
  have a: "find_entry c key = Some a" and c1: "c1 = c\<lparr>gc_hits := gc_hits c + 1\<rparr>"
    using assms(2) by (auto simp: cache_read_def split: option.splits)
  then have f: "find_entry c1 key = Some a" by (simp add: find_entry_def)
  let ?c2 = "generic_cache_remove c1 key"
  have "gc_heap ?c2 a = None" using f by (simp add: generic_cache_remove_def drop_entry_def)
  then show ?thesis by (auto simp: cache_touch_def move_to_front_def Let_def)
qed

lemma cache_get_race_witness:
  "\<exists>(c :: nat generic_cache) a c1. cache_read c ''a'' = (Some (a, 1), c1) \<and>
     gc_heap (cache_touch (generic_cache_remove c1 ''a'') a) a = None"
proof -
  obtain c0 :: "nat generic_cache" where c0: "generic_cache_create 2 = Some c0"
    by (simp add: generic_cache_create_def)
  let ?c = "generic_cache_put c0 ''a'' 1"
  have ok: "gc_ok ?c" and v: "lru_view ?c = [(''a'', 1)]"
    using cache_put_refines [OF create_ok(1) [OF c0]] create_ok(3) [OF c0] by (simp_all add: lru_put_def)
  obtain a where a: "find_entry ?c ''a'' = Some a" "ce_value (the (gc_heap ?c a)) = 1"
    using map_of_view [OF ok, of "''a''"] v by (cases "find_entry ?c ''a''") auto
  then have r: "cache_read ?c ''a'' = (Some (a, 1), ?c\<lparr>gc_hits := gc_hits ?c + 1\<rparr>)"
    by (simp add: cache_read_def)
  from cache_get_race [OF ok r] r show ?thesis by (metis (no_types, lifting))
qed

end
