(* ===== verification/Database_Props.thy ===== *)
theory Database_Props
  imports Database Cache_Props Json_Roundtrip Json_Parse_Inv
begin

text \<open>
  What the three layers of the database promise, and where they break it.  \<open>doc_at\<close> is the
  abstraction: the value a uuid stands for.
\<close>

section \<open>Stored values\<close>

definition storable :: "json \<Rightarrow> bool" where
  "storable v \<longleftrightarrow> reads_ok v \<and> nul_free (stringify_value v)"

lemma doc_parse_bytes: "storable v \<Longrightarrow> doc_parse (doc_bytes (Some v)) = Some (escaped_json v)"
  using json_parse_stringify_lemma [of v]
  by (simp add: storable_def doc_parse_def doc_bytes_def json_stringify_def)

lemma doc_bytes_nonempty [simp]: "doc_bytes (Some v) \<noteq> []" "[] \<noteq> doc_bytes (Some v)"
  by (simp_all add: doc_bytes_def json_stringify_def c_bytes_def)

lemma shallower_jdepth: "jdepth v \<le> n \<Longrightarrow> shallower n v"
proof (induction v arbitrary: n)
  case (JArray xs)
  then show ?case
    by (cases n) (use jdepth_item in \<open>fastforce simp: list_all_iff\<close>)+
next
  case (JObject es)
  have "shallower m v" if "n = Suc m" "(k, v) \<in> set es" for k v m
    using JObject.IH [OF that(2)] jdepth_entry [OF that(2)] JObject.prems that(1) by (fastforce simp: snds.simps)
  with JObject.prems show ?case by (cases n) (auto simp: list_all_iff)
qed simp_all

lemma shallower_mono: "shallower n v \<Longrightarrow> n \<le> m \<Longrightarrow> shallower m v"
proof (induction v arbitrary: n m)
  case (JArray xs)
  from JArray.prems obtain n' m' where nm: "n = Suc n'" "m = Suc m'" by (cases n; cases m) auto
  have "shallower m' x" if "x \<in> set xs" for x
    by (rule JArray.IH [OF that, of n']) (use JArray.prems nm that in \<open>simp_all add: list_all_iff\<close>)
  with nm show ?case by (simp add: list_all_iff)
next
  case (JObject es)
  from JObject.prems obtain n' m' where nm: "n = Suc n'" "m = Suc m'" by (cases n; cases m) auto
  have "shallower m' (snd e)" if "e \<in> set es" for e
    by (rule JObject.IH [OF that, of _ n'])
      (use JObject.prems nm that in \<open>simp_all add: list_all_iff snds.simps prod_eq_iff\<close>)
  with nm show ?case by (simp add: list_all_iff)
qed simp_all

lemma parsed_ok:
  assumes "doc_parse bs = Some v"
  shows "json_wf v" and "shallower 10 v"
  using json_parse_good [of "Some (c_read bs)" v] assms shallower_jdepth [of v 10]
  by (auto simp: good_value_def doc_parse_def)

section \<open>The value under a uuid\<close>

definition text_at :: "art \<Rightarrow> string \<Rightarrow> jptr" where
  "text_at docs key =
     (case art_get docs key of None \<Rightarrow> None | Some bs \<Rightarrow> if bs = [] then None else doc_parse bs)"

definition doc_at :: "database \<Rightarrow> string \<Rightarrow> jptr" where
  "doc_at db uuid = text_at (documents db) (c_bytes uuid)"

lemma find_document_doc_at:
  assumes "art_ok (documents db)"
  shows "fst (find_document uuid db) = doc_at db uuid"
    and "leaves (documents (snd (find_document uuid db))) = leaves (documents db)"
    and "doc_cache (snd (find_document uuid db)) = doc_cache db"
    and "query_cache (snd (find_document uuid db)) = query_cache db"
  using search_get [of "documents db" "c_bytes uuid"] assms
  by (simp_all add: find_document_def case_prod_beta doc_at_def text_at_def)

lemma doc_at_ok:
  assumes "doc_at db uuid = Some v"
  shows "json_wf v" and "shallower 10 v"
  using assms parsed_ok by (auto simp: doc_at_def text_at_def split: option.splits if_splits)

lemma doc_at_shallow: "doc_at db uuid = Some v \<Longrightarrow> shallower 100 v"
  by (rule shallower_mono [of 10]) (use doc_at_ok(2) in simp_all)

lemma doc_at_cong: "leaves (documents a) = leaves (documents b) \<Longrightarrow> doc_at a = doc_at b"
  by (simp add: fun_eq_iff doc_at_def text_at_def art_get_cong [of "documents a" "documents b"])

lemma doc_at_replace:
  assumes "art_ok (documents db)"
  shows "doc_at (replace_document uuid (Some v) db) u =
    (if u = uuid then doc_parse (doc_bytes (Some v)) else doc_at db u)"
    and "art_ok (documents (replace_document uuid (Some v) db))"
  using assms
  by (simp_all add: doc_at_def text_at_def replace_document_def art_replace_def art_get_insert
      art_get_delete art_ok_delete art_ok_insert)

lemma doc_at_insert:
  assumes "art_get (documents db) (c_bytes uuid) = None"
  shows "doc_at (db\<lparr>documents := snd (skiplist_insert (documents db) (c_bytes uuid) (doc_bytes (Some v)))\<rparr>) u =
    (if u = uuid then doc_parse (doc_bytes (Some v)) else doc_at db u)"
  using assms by (simp add: doc_at_def text_at_def art_get_insert)

section \<open>Fields\<close>

lemma set_field_object [simp]: "set_field (Some (JObject es)) k v = Some (JObject (obj_set es k v))"
  by (simp add: set_field_def)

lemma object_ok_set:
  assumes "json_wf (JObject es)" "shallower n (JObject es)" "json_wf v" "shallower (n - 1) v"
  shows "json_wf (JObject (obj_set es k v))" "shallower n (JObject (obj_set es k v))"
  using assms json_wf_obj_set set_obj_set [of es k v]
  by (auto simp: list_all_iff split: nat.splits)

lemma scalar_ok [simp]:
  "json_wf (json_create_string s)" "shallower n (json_create_string s)"
  "json_wf (json_create_integer i)" "shallower n (json_create_integer i)"
  by (simp_all add: json_create_string_def json_create_integer_def)

text \<open>The two merging loops, by the keys that remain to be copied.\<close>

lemma merge_fields_loop:
  assumes "json_wf (JObject fs)" "set ks \<subseteq> fst ` set fs"
    "json_wf (JObject es)" "shallower 100 (JObject es)" "shallower 100 (JObject fs)"
  shows "\<exists>us. foldl (\<lambda>u k. case json_object_get (Some (JObject fs)) (Some k) of
                    None \<Rightarrow> u | Some v \<Rightarrow> set_field u k (json_clone v)) (Some (JObject es)) ks =
        Some (JObject us) \<and> json_wf (JObject us) \<and> shallower 100 (JObject us) \<and>
      (\<forall>k. obj_get us k = (if k \<in> set ks then obj_get fs k else obj_get es k))"
  using assms
proof (induction ks arbitrary: es)
  case (Cons k ks)
  then obtain v where v: "obj_get fs k = Some v"
    by (cases "obj_get fs k") (auto simp: obj_get_None_iff)
  then have ok: "json_wf v" "shallower 99 v"
    using Cons.prems(1,5) obj_get_in [OF v] by (auto simp: list_all_iff numeral_eq_Suc)
  have "json_wf (JObject (obj_set es k v))" "shallower 100 (JObject (obj_set es k v))"
    using object_ok_set [OF Cons.prems(3,4)] ok by simp_all
  with Cons.prems have "\<exists>us. foldl (\<lambda>u k. case json_object_get (Some (JObject fs)) (Some k) of
                    None \<Rightarrow> u | Some v \<Rightarrow> set_field u k (json_clone v)) (Some (JObject (obj_set es k v))) ks =
        Some (JObject us) \<and> json_wf (JObject us) \<and> shallower 100 (JObject us) \<and>
      (\<forall>k'. obj_get us k' = (if k' \<in> set ks then obj_get fs k' else obj_get (obj_set es k v) k'))"
    by (intro Cons.IH) auto
  with v ok(1) show ?case by (auto simp: json_clone_wf obj_get_set)
qed auto

lemma merge_fields_get:
  assumes "json_wf (JObject fs)" "json_wf (JObject es)" "shallower 100 (JObject es)" "shallower 100 (JObject fs)"
  obtains us where "merge_fields (Some (JObject fs)) (Some (JObject es)) = Some (JObject us)"
    "json_wf (JObject us)" "shallower 100 (JObject us)"
    "\<And>k. obj_get us k = (if k \<in> fst ` set fs then obj_get fs k else obj_get es k)"
  using merge_fields_loop [OF assms(1) _ assms(2-4), of "map fst fs"]
  unfolding merge_fields_def key_strings_object by auto

lemma merge_unprotected_loop:
  assumes "json_wf (JObject fs)" "set ks \<subseteq> fst ` set fs"
    "json_wf (JObject es)" "shallower 100 (JObject es)" "shallower 100 (JObject fs)"
  shows "\<exists>us. foldl (\<lambda>u k. if list_all (\<lambda>p. strcmp k p \<noteq> 0) protected_fields
                  then json_object_set u (Some k) (json_deep_copy (json_object_get (Some (JObject fs)) (Some k)))
                  else u) (Some (JObject es)) ks = Some (JObject us) \<and>
      json_wf (JObject us) \<and> shallower 100 (JObject us) \<and>
      (\<forall>k. obj_get us k =
        (if k \<in> set ks \<and> k \<notin> set protected_fields then obj_get fs k else obj_get es k))"
  using assms
proof (induction ks arbitrary: es)
  case (Cons k ks)
  then obtain v where v: "obj_get fs k = Some v"
    by (cases "obj_get fs k") (auto simp: obj_get_None_iff)
  then have ok: "json_wf v" "shallower 99 v"
    using Cons.prems(1,5) obj_get_in [OF v] by (auto simp: list_all_iff numeral_eq_Suc)
  have copy: "json_deep_copy (Some v) = Some v"
    using ok by (intro deep_copy_id) (auto elim: shallower_mono)
  let ?es = "if k \<in> set protected_fields then es else obj_set es k v"
  have "json_wf (JObject ?es)" "shallower 100 (JObject ?es)"
    using object_ok_set [OF Cons.prems(3,4)] ok Cons.prems(3,4) by simp_all
  with Cons.prems have "\<exists>us. foldl (\<lambda>u k. if list_all (\<lambda>p. strcmp k p \<noteq> 0) protected_fields
                  then json_object_set u (Some k) (json_deep_copy (json_object_get (Some (JObject fs)) (Some k)))
                  else u) (Some (JObject ?es)) ks = Some (JObject us) \<and>
      json_wf (JObject us) \<and> shallower 100 (JObject us) \<and>
      (\<forall>k'. obj_get us k' =
        (if k' \<in> set ks \<and> k' \<notin> set protected_fields then obj_get fs k' else obj_get ?es k'))"
    by (intro Cons.IH) auto
  then obtain us where us: "foldl (\<lambda>u k. if list_all (\<lambda>p. strcmp k p \<noteq> 0) protected_fields
                  then json_object_set u (Some k) (json_deep_copy (json_object_get (Some (JObject fs)) (Some k)))
                  else u) (Some (JObject ?es)) ks = Some (JObject us)"
      "json_wf (JObject us)" "shallower 100 (JObject us)"
      "\<And>k'. obj_get us k' =
        (if k' \<in> set ks \<and> k' \<notin> set protected_fields then obj_get fs k' else obj_get ?es k')"
    by blast
  have p: "list_all (\<lambda>p. strcmp k p \<noteq> 0) protected_fields \<longleftrightarrow> k \<notin> set protected_fields"
    by (auto simp: list_all_iff)
  have "obj_get us k' =
      (if k' \<in> set (k # ks) \<and> k' \<notin> set protected_fields then obj_get fs k' else obj_get es k')" for k'
    unfolding us(4) using v by (cases "k' = k"; simp add: obj_get_set)
  moreover have "(if list_all (\<lambda>p. strcmp k p \<noteq> 0) protected_fields
      then json_object_set (Some (JObject es)) (Some k) (json_deep_copy (json_object_get (Some (JObject fs)) (Some k)))
      else Some (JObject es)) = Some (JObject ?es)"
    unfolding p using v copy by simp
  ultimately show ?case using us(1-3) by (intro exI [of _ us]) (simp only: foldl_Cons simp_thms)
qed auto

lemma merge_unprotected_get:
  assumes "json_wf (JObject fs)" "json_wf (JObject es)" "shallower 100 (JObject es)" "shallower 100 (JObject fs)"
  obtains us where "merge_unprotected (Some (JObject fs)) (Some (JObject es)) = Some (JObject us)"
    "json_wf (JObject us)" "shallower 100 (JObject us)"
    "\<And>k. obj_get us k =
      (if k \<in> fst ` set fs \<and> k \<notin> set protected_fields then obj_get fs k else obj_get es k)"
  using merge_unprotected_loop [OF assms(1) _ assms(2-4), of "map fst fs"]
  unfolding merge_unprotected_def key_strings_object by auto

section \<open>The storage layer\<close>

text \<open>The document \<open>storage_insert_document\<close> builds from the fields \<open>es\<close>.\<close>

lemma storage_insert_object:
  assumes "json_wf (JObject es)" "shallower 100 (JObject es)"
  obtains us where
    "storage_insert_document m (Some (JObject es)) db = (Some (JObject us), db\<lparr>documents :=
       snd (skiplist_insert (documents db) (c_bytes (make_uuid m 0)) (doc_bytes (Some (JObject us))))\<rparr>)"
    "json_wf (JObject us)" "shallower 100 (JObject us)"
    "\<And>k. obj_get us k =
       (if k = ''modified_at'' then Some (JInteger (now m))
        else if k = ''uuid'' then Some (JString (make_uuid m 0))
        else if k = ''created_at'' \<and> obj_get es k = None then Some (JInteger (now m))
        else obj_get es k)"
proof -
  define a where "a = obj_set es ''uuid'' (json_create_string (make_uuid m 0))"
  define b where "b = (if obj_get a ''created_at'' = None
    then obj_set a ''created_at'' (json_create_integer (now m)) else a)"
  define c where "c = obj_set b ''modified_at'' (json_create_integer (now m))"
  have a: "json_wf (JObject a)" "shallower 100 (JObject a)"
    unfolding a_def using object_ok_set [OF assms] by simp_all
  have b: "json_wf (JObject b)" "shallower 100 (JObject b)"
    unfolding b_def using object_ok_set [OF a] a by simp_all
  have c: "json_wf (JObject c)" "shallower 100 (JObject c)"
    unfolding c_def using object_ok_set [OF b] by simp_all
  have "storage_insert_document m (Some (JObject es)) db = (Some (JObject c), db\<lparr>documents :=
       snd (skiplist_insert (documents db) (c_bytes (make_uuid m 0)) (doc_bytes (Some (JObject c))))\<rparr>)"
    using deep_copy_id [OF assms] deep_copy_id [OF c] unfolding c_def b_def
    by (cases "obj_get a ''created_at'' = None")
      (auto simp: storage_insert_document_def Let_def json_stringify_def simp flip: a_def)
  moreover have ga: "obj_get a k = (if k = ''uuid'' then Some (JString (make_uuid m 0)) else obj_get es k)" for k
    by (simp add: a_def obj_get_set json_create_string_def)
  moreover from this have gb: "obj_get b k =
      (if k = ''created_at'' \<and> obj_get es k = None then Some (JInteger (now m)) else obj_get a k)" for k
    by (auto simp: b_def obj_get_set json_create_integer_def)
  moreover have gc: "obj_get c k = (if k = ''modified_at'' then Some (JInteger (now m)) else obj_get b k)" for k
    by (simp add: c_def obj_get_set json_create_integer_def)
  moreover have "obj_get c k =
       (if k = ''modified_at'' then Some (JInteger (now m))
        else if k = ''uuid'' then Some (JString (make_uuid m 0))
        else if k = ''created_at'' \<and> obj_get es k = None then Some (JInteger (now m))
        else obj_get es k)" for k
    unfolding gc gb ga by auto
  ultimately show ?thesis using c that by blast
qed

text \<open>
  C7. Inserting a document under a new uuid: the caller gets the document back with its
  uuid and times, reading that uuid gives what the stored text parses to, and no other
  uuid is affected.
\<close>

theorem storage_insert_get:
  assumes "art_ok (documents db)" and "art_get (documents db) (c_bytes (make_uuid m 0)) = None"
    and "json_wf (JObject es)" and "shallower 100 (JObject es)"
    and "storage_insert_document m (Some (JObject es)) db = (d, db')"
  shows "\<exists>us. d = Some (JObject us) \<and>
    (\<forall>k. obj_get us k =
       (if k = ''modified_at'' then Some (JInteger (now m))
        else if k = ''uuid'' then Some (JString (make_uuid m 0))
        else if k = ''created_at'' \<and> obj_get es k = None then Some (JInteger (now m))
        else obj_get es k)) \<and>
    (storable (JObject us) \<longrightarrow>
       fst (storage_get_document (make_uuid m 0) db') = Some (escaped_json (JObject us))) \<and>
    (\<forall>u. u \<noteq> make_uuid m 0 \<longrightarrow> fst (storage_get_document u db') = fst (storage_get_document u db))"
proof -
  obtain us where us: "storage_insert_document m (Some (JObject es)) db = (Some (JObject us), db\<lparr>documents :=
       snd (skiplist_insert (documents db) (c_bytes (make_uuid m 0)) (doc_bytes (Some (JObject us))))\<rparr>)"
    "json_wf (JObject us)" "shallower 100 (JObject us)"
    "\<And>k. obj_get us k =
       (if k = ''modified_at'' then Some (JInteger (now m))
        else if k = ''uuid'' then Some (JString (make_uuid m 0))
        else if k = ''created_at'' \<and> obj_get es k = None then Some (JInteger (now m))
        else obj_get es k)"
    by (rule storage_insert_object [OF assms(3,4), of m db]) (rule that)
  have e: "d = Some (JObject us)" "db' = db\<lparr>documents :=
      snd (skiplist_insert (documents db) (c_bytes (make_uuid m 0)) (doc_bytes (Some (JObject us))))\<rparr>"
    using us(1) assms(5) by simp_all
  have db': "d = Some (JObject us)" "art_ok (documents db')"
    "\<And>u. doc_at db' u = (if u = make_uuid m 0 then doc_parse (doc_bytes (Some (JObject us))) else doc_at db u)"
    unfolding e using doc_at_insert [OF assms(2)] by (simp_all add: art_ok_insert assms(1))
  have "storable (JObject us) \<longrightarrow> doc_at db' (make_uuid m 0) = Some (escaped_json (JObject us))"
    unfolding db'(3) using doc_parse_bytes [of "JObject us"] by argo
  moreover have "\<forall>u. u \<noteq> make_uuid m 0 \<longrightarrow> doc_at db' u = doc_at db u" unfolding db'(3) by presburger
  ultimately show ?thesis
    unfolding storage_get_document_def find_document_doc_at(1) [OF assms(1)] find_document_doc_at(1) [OF db'(2)]
    using db'(1) us(4) by blast
qed

text \<open>
  When the uuid is taken the container refuses the document, and the caller is told
  of a successful insertion all the same: the document it gets was never stored.
\<close>

theorem storage_insert_collision:
  assumes "art_get (documents db) (c_bytes (make_uuid m 0)) \<noteq> None"
    and "json_wf (JObject es)" and "shallower 100 (JObject es)"
    and "storage_insert_document m (Some (JObject es)) db = (d, db')"
  shows "d \<noteq> None \<and> leaves (documents db') = leaves (documents db)"
proof -
  obtain us where "storage_insert_document m (Some (JObject es)) db = (Some (JObject us), db\<lparr>documents :=
       snd (skiplist_insert (documents db) (c_bytes (make_uuid m 0)) (doc_bytes (Some (JObject us))))\<rparr>)"
    using storage_insert_object [OF assms(2,3)] by metis
  with assms(1,4) show ?thesis by (auto simp: insert_leaves(1))
qed

subsection \<open>Updates\<close>

lemma stamp_modified:
  assumes "json_wf (JObject us)" "shallower 100 (JObject us)"
  shows "json_wf (JObject (obj_set us ''modified_at'' (json_create_integer i)))"
    and "shallower 100 (JObject (obj_set us ''modified_at'' (json_create_integer i)))"
    and "obj_get (obj_set us ''modified_at'' (json_create_integer i)) k =
      (if k = ''modified_at'' then Some (JInteger i) else obj_get us k)"
  using object_ok_set [OF assms, of "json_create_integer i" "''modified_at''"]
  by (blast intro: scalar_ok, blast intro: scalar_ok, simp only: obj_get_set json_create_integer_def)

lemma storage_update_object:
  assumes "art_ok (documents db)" "doc_at db uuid = Some (JObject es)"
    "json_wf (JObject fs)" "shallower 100 (JObject fs)"
  obtains us where
    "storage_update_document m uuid (Some (JObject fs)) db =
       (Some (JObject us), replace_document uuid (Some (JObject us)) (snd (find_document uuid db)))"
    "json_wf (JObject us)" "shallower 100 (JObject us)"
    "\<And>k. obj_get us k =
       (if k = ''modified_at'' then Some (JInteger (now m))
        else if k \<in> fst ` set fs then obj_get fs k else obj_get es k)"
proof -
  have es: "json_wf (JObject es)" "shallower 100 (JObject es)"
    using doc_at_ok(1) [OF assms(2)] doc_at_shallow [OF assms(2)] by blast+
  obtain vs where vs: "merge_fields (Some (JObject fs)) (Some (JObject es)) = Some (JObject vs)"
    "json_wf (JObject vs)" "shallower 100 (JObject vs)"
    "\<And>k. obj_get vs k = (if k \<in> fst ` set fs then obj_get fs k else obj_get es k)"
    by (rule merge_fields_get [OF assms(3) es assms(4)]) (rule that)
  define us where "us = obj_set vs ''modified_at'' (json_create_integer (now m))"
  have us: "json_wf (JObject us)" "shallower 100 (JObject us)"
    "\<And>k. obj_get us k = (if k = ''modified_at'' then Some (JInteger (now m)) else obj_get vs k)"
    unfolding us_def using stamp_modified [OF vs(2,3)] by blast+
  have "storage_update_document m uuid (Some (JObject fs)) db =
       (Some (JObject us), replace_document uuid (Some (JObject us)) (snd (find_document uuid db)))"
    using find_document_doc_at(1) [OF assms(1), of uuid] assms(2) vs(1) deep_copy_id [OF es]
      deep_copy_id [OF us(1,2)]
    by (simp add: storage_update_document_def case_prod_beta Let_def json_get_type_def json_stringify_def
        flip: us_def)
  moreover have "obj_get us k =
       (if k = ''modified_at'' then Some (JInteger (now m))
        else if k \<in> fst ` set fs then obj_get fs k else obj_get es k)" for k
    unfolding us(3) vs(4) by simp
  ultimately show ?thesis using us(1,2) that by blast
qed

lemma get_after_replace:
  assumes "art_ok (documents db)" and "db' = replace_document uuid (Some v) (snd (find_document uuid db))"
  shows "art_ok (documents db')"
    and "doc_at db' u = (if u = uuid then doc_parse (doc_bytes (Some v)) else doc_at db u)"
proof -
  note l = find_document_doc_at(2) [OF assms(1), of uuid]
  have ok: "art_ok (documents (snd (find_document uuid db)))"
    using assms(1) art_ok_cong [OF l] by blast
  show "art_ok (documents db')"
    and "doc_at db' u = (if u = uuid then doc_parse (doc_bytes (Some v)) else doc_at db u)"
    unfolding assms(2) using doc_at_replace [OF ok] doc_at_cong [OF l] by simp_all
qed

text \<open>
  C25. An update replaces exactly the fields it names and the time of modification, keeps the
  others (and, unlike \<open>db_update_document\<close>, lets the caller rewrite the uuid, the owner and
  the library); the other documents are untouched.
\<close>

theorem storage_update_merges:
  assumes "art_ok (documents db)" and "fst (storage_get_document uuid db) = Some (JObject es)"
    and "json_wf (JObject fs)" and "shallower 100 (JObject fs)"
    and "storage_update_document m uuid (Some (JObject fs)) db = (d, db')"
  shows "\<exists>us. d = Some (JObject us) \<and>
    (\<forall>k. obj_get us k =
       (if k = ''modified_at'' then Some (JInteger (now m))
        else if k \<in> fst ` set fs then obj_get fs k else obj_get es k)) \<and>
    (storable (JObject us) \<longrightarrow>
       fst (storage_get_document uuid db') = Some (escaped_json (JObject us))) \<and>
    (\<forall>u. u \<noteq> uuid \<longrightarrow> fst (storage_get_document u db') = fst (storage_get_document u db))"
proof -
  have at: "doc_at db uuid = Some (JObject es)"
    using assms(2) by (simp add: storage_get_document_def find_document_doc_at(1) [OF assms(1)])
  obtain us where us:
    "storage_update_document m uuid (Some (JObject fs)) db =
       (Some (JObject us), replace_document uuid (Some (JObject us)) (snd (find_document uuid db)))"
    "json_wf (JObject us)" "shallower 100 (JObject us)"
    "\<And>k. obj_get us k =
       (if k = ''modified_at'' then Some (JInteger (now m))
        else if k \<in> fst ` set fs then obj_get fs k else obj_get es k)"
    by (rule storage_update_object [OF assms(1) at assms(3,4), of m]) (rule that)
  have d: "d = Some (JObject us)" "db' = replace_document uuid (Some (JObject us)) (snd (find_document uuid db))"
    using us(1) assms(5) by simp_all
  note after = get_after_replace [OF assms(1) d(2)]
  have "storable (JObject us) \<longrightarrow> doc_at db' uuid = Some (escaped_json (JObject us))"
    unfolding after(2) using doc_parse_bytes [of "JObject us"] by argo
  moreover have "\<forall>u. u \<noteq> uuid \<longrightarrow> doc_at db' u = doc_at db u" unfolding after(2) by presburger
  ultimately show ?thesis
    unfolding storage_get_document_def find_document_doc_at(1) [OF assms(1)] find_document_doc_at(1) [OF after(1)]
    using d(1) us(4) by blast
qed

subsection \<open>Deletion\<close>

lemma storage_delete_leaves:
  assumes "art_ok (documents db)"
  shows "leaves (documents (snd (storage_delete_document uuid db))) =
      filter (\<lambda>leaf. leaf_key leaf \<noteq> c_bytes uuid) (leaves (documents db))"
    and "fst (storage_delete_document uuid db) \<longleftrightarrow> art_get (documents db) (c_bytes uuid) \<noteq> None"
proof -
  note s = search_get(1) [OF assms, of "c_bytes uuid"]
  have ok: "art_ok (snd (skiplist_search (documents db) (c_bytes uuid)))" using assms by simp
  have ne: "art_get (documents db) k \<noteq> Some []" for k
    using assms by (fastforce simp: art_get_def art_ok_def dest!: map_of_SomeD)
  have "filter (\<lambda>leaf. leaf_key leaf \<noteq> c_bytes uuid) (leaves (documents db)) = leaves (documents db)"
    if "art_get (documents db) (c_bytes uuid) = None"
    using that by (force simp: art_get_None filter_id_conv)
  with s ne [of "c_bytes uuid"] delete_leaves [OF ok, of "c_bytes uuid"] search_get(2) [of "documents db" "c_bytes uuid"]
  show "leaves (documents (snd (storage_delete_document uuid db))) =
      filter (\<lambda>leaf. leaf_key leaf \<noteq> c_bytes uuid) (leaves (documents db))"
    and "fst (storage_delete_document uuid db) \<longleftrightarrow> art_get (documents db) (c_bytes uuid) \<noteq> None"
    by (auto simp: storage_delete_document_def case_prod_beta Let_def split: option.splits)
qed

text \<open>
  Deleting a document removes it, reports whether it was there, and leaves every other
  document as it was; deleting it again finds nothing.
\<close>

theorem storage_delete_exact:
  assumes "art_ok (documents db)" and "storage_delete_document uuid db = (r, db')"
  shows "(r \<longleftrightarrow> art_get (documents db) (c_bytes uuid) \<noteq> None) \<and>
    fst (storage_get_document uuid db') = None \<and> \<not> fst (storage_delete_document uuid db') \<and>
    (\<forall>u. u \<noteq> uuid \<longrightarrow> fst (storage_get_document u db') = fst (storage_get_document u db))"
proof -
  have l: "leaves (documents db') = filter (\<lambda>leaf. leaf_key leaf \<noteq> c_bytes uuid) (leaves (documents db))"
    and r: "r \<longleftrightarrow> art_get (documents db) (c_bytes uuid) \<noteq> None"
    using storage_delete_leaves [OF assms(1), of uuid] assms(2) by simp_all
  have ld: "leaves (documents db') = leaves (snd (skiplist_delete (documents db) (c_bytes uuid)))"
    using l delete_leaves(1) [OF assms(1)] by simp
  have ok: "art_ok (documents db')" using art_ok_cong [OF ld] art_ok_delete [OF assms(1)] by blast
  have get: "art_get (documents db') k = (if k = c_bytes uuid then None else art_get (documents db) k)" for k
    unfolding art_get_cong [OF ld] by (rule art_get_delete [OF assms(1)])
  then have "doc_at db' u = (if u = uuid then None else doc_at db u)" for u
    by (simp add: doc_at_def text_at_def)
  moreover have "\<not> fst (storage_delete_document uuid db')"
    using storage_delete_leaves(2) [OF ok] get by simp
  ultimately show ?thesis using r
    unfolding storage_get_document_def find_document_doc_at(1) [OF assms(1)] find_document_doc_at(1) [OF ok]
    by presburger
qed

section \<open>Queries\<close>

lemma parsed_object_Some: "parsed_object bs = Some d \<longleftrightarrow> bs \<noteq> [] \<and> doc_parse bs = Some d \<and> (\<exists>es. d = JObject es)"
  by (auto simp: parsed_object_def split: option.splits json.splits)

lemma stored_objects_leaves:
  "stored_objects docs =
   concat (map (\<lambda>leaf. case parsed_object (leaf_value leaf) of None \<Rightarrow> [] | Some d \<Rightarrow> [d]) (leaves docs))"
  by (simp add: stored_objects_def iterate_leaves skiplist_iterator_create_def)

lemma set_stored_objects:
  assumes "art_ok docs"
  shows "d \<in> set (stored_objects docs) \<longleftrightarrow>
    (\<exists>key bs. art_get docs key = Some bs \<and> doc_parse bs = Some d \<and> (\<exists>es. d = JObject es))"
proof -
  have "art_get docs key = Some bs \<longleftrightarrow> (\<exists>leaf\<in>set (leaves docs). leaf_key leaf = key \<and> leaf_value leaf = bs)"
    for key bs
    using assms unfolding art_get_def art_ok_def
    by (subst map_of_eq_Some_iff) (auto simp: comp_def)
  moreover have "d \<in> set (stored_objects docs) \<longleftrightarrow> (\<exists>leaf\<in>set (leaves docs). parsed_object (leaf_value leaf) = Some d)"
    by (force simp: stored_objects_leaves split: option.splits)
  ultimately show ?thesis
    using assms by (auto simp: parsed_object_Some art_ok_def)
qed

lemma stored_object_ok:
  assumes "d \<in> set (stored_objects docs)"
  shows "json_wf d" "shallower 10 d" "\<exists>es. d = JObject es"
proof -
  obtain bs where "parsed_object bs = Some d"
    using assms by (auto simp: stored_objects_leaves split: option.splits)
  then show "json_wf d" "shallower 10 d" "\<exists>es. d = JObject es"
    using parsed_ok by (auto simp: parsed_object_Some)
qed

lemma append_all:
  "foldl (\<lambda>ds d. json_array_append ds (Some d)) (Some (JArray xs)) ds = Some (JArray (xs @ ds))"
  by (induction ds arbitrary: xs) simp_all

lemma result_object_eq:
  "result_object ds = Some (JObject [(''documents'', JArray ds),
     (''count'', JInteger (scast (of_nat (length ds) :: c_int)))])"
  by (simp add: result_object_def set_field_def json_create_object_def json_create_array_def append_all
      json_create_integer_def)

lemma result_object_documents [simp]:
  "json_object_get (result_object ds) (Some ''documents'') = Some (JArray ds)"
  by (simp add: result_object_eq)

lemma map_clone_stored: "set ds \<subseteq> set (stored_objects docs) \<Longrightarrow> map json_clone ds = ds"
  using stored_object_ok(1) json_clone_wf by (intro map_idI) blast

lemma fields_match_iff:
  assumes "distinct (map fst qs)"
  shows "fields_match vm (Some (JObject qs)) (Some (JObject es)) \<longleftrightarrow>
    (\<forall>(k, q)\<in>set qs. \<exists>v. obj_get es k = Some v \<and> vm q v)"
proof -
  have "obj_get qs k = Some q" if "(k, q) \<in> set qs" for k q
    using obj_get_own [OF assms that] .
  then show ?thesis
    unfolding fields_match_def key_strings_object
    by (fastforce simp: list_all_iff split: option.splits)
qed


text \<open>
  A query with an integer (or an array, an object or null) matches no document, not even
  one that holds the same value: the comparison by type has no case for it.
\<close>

theorem storage_query_integer:
  assumes "distinct (map fst qs)" and "(k, v) \<in> set qs"
    and "json_type_of v \<in> {JSON_INTEGER, JSON_NULL, JSON_ARRAY, JSON_OBJECT}"
  shows "json_object_get (storage_query_documents (Some (JObject qs)) db) (Some ''documents'') = Some (JArray [])"
proof -
  have "obj_get qs k = Some v" by (rule obj_get_own [OF assms(1,2)])
  moreover have "\<not> storage_values_match v w" for w
    using assms(3) by (cases v; cases w) auto
  ultimately have "\<not> fields_match storage_values_match (Some (JObject qs)) d" for d
    unfolding fields_match_def key_strings_object
    using assms(2) by (fastforce simp: list_all_iff split: option.splits)
  then have "filter (\<lambda>d. query_matches storage_values_match (Some (JObject qs)) (Some d))
      (stored_objects (documents db)) = []"
    by (intro filter_False) (simp add: query_matches_def json_get_type_def)
  then show ?thesis by (simp add: storage_query_documents_def)
qed

section \<open>A database with one document\<close>

lemma init_documents [simp]: "documents db_init = skiplist_create"
  by (simp add: db_init_def)

lemma one_document:
  assumes "storable v" and "db = replace_document uuid (Some v) db_init"
  shows "art_ok (documents db)" and "fst (storage_get_document uuid db) = Some (escaped_json v)"
    and "art_get (documents db) (c_bytes uuid) \<noteq> None"
proof -
  have o: "art_ok (documents db_init)" by (simp add: art_ok_create)
  show ok: "art_ok (documents db)" unfolding assms(2) by (rule doc_at_replace(2) [OF o])
  show at: "fst (storage_get_document uuid db) = Some (escaped_json v)"
    using doc_at_replace(1) [OF o, of uuid v uuid] doc_parse_bytes [OF assms(1)]
    unfolding storage_get_document_def find_document_doc_at(1) [OF ok] by (simp add: assms(2))
  then show "art_get (documents db) (c_bytes uuid) \<noteq> None"
    unfolding storage_get_document_def find_document_doc_at(1) [OF ok]
    by (auto simp: doc_at_def text_at_def split: option.splits)
qed

lemma storable_flag: "storable (JObject [(''a'', JInteger 1), (''library'', JString ''l'')])"
  unfolding storable_def reads_ok_def max_json_input_size_def by code_simp

lemma storage_insert_get_witness:
  "\<exists>us. fst (storage_insert_document \<lparr>now_uuid = 0, now = 7, nsec = 0, thread_id = 0\<rparr>
       (Some (JObject [(''uuid'', JNull)])) db_init) = Some (JObject us) \<and>
     obj_get us ''created_at'' = Some (JInteger 7)"
proof -
  let ?m = "\<lparr>now_uuid = 0, now = 7, nsec = 0, thread_id = 0\<rparr> :: moment"
  have "art_ok (documents db_init)" "art_get (documents db_init) (c_bytes (make_uuid ?m 0)) = None"
    by (simp_all add: art_ok_create art_get_create)
  from storage_insert_get [OF this _ _ surjective_pairing, of "[(''uuid'', JNull)]"]
  show ?thesis by auto
qed

lemma storage_insert_collision_witness:
  "let m = \<lparr>now_uuid = 0, now = 7, nsec = 0, thread_id = 0\<rparr>;
       db = replace_document (make_uuid m 0)
         (Some (JObject [(''a'', JInteger 1), (''library'', JString ''l'')])) db_init in
   leaves (documents (snd (storage_insert_document m (Some (JObject [])) db))) = leaves (documents db)"
proof -
  let ?m = "\<lparr>now_uuid = 0, now = 7, nsec = 0, thread_id = 0\<rparr> :: moment"
  let ?db = "replace_document (make_uuid ?m 0)
    (Some (JObject [(''a'', JInteger 1), (''library'', JString ''l'')])) db_init"
  show ?thesis
    using storage_insert_collision [OF one_document(3) [OF storable_flag, of ?db "make_uuid ?m 0"] _ _
        surjective_pairing, of "[]"]
    by (simp add: Let_def)
qed

lemma storage_update_merges_witness:
  "let db = replace_document ''u'' (Some (JObject [(''a'', JInteger 1), (''library'', JString ''l'')])) db_init;
       m = \<lparr>now_uuid = 0, now = 7, nsec = 0, thread_id = 0\<rparr> in
   \<exists>us. fst (storage_update_document m ''u'' (Some (JObject [(''uuid'', JInteger 2)])) db) = Some (JObject us) \<and>
     obj_get us ''a'' = Some (JInteger 1) \<and> obj_get us ''uuid'' = Some (JInteger 2)"
proof -
  let ?v = "JObject [(''a'', JInteger 1), (''library'', JString ''l'')]"
  let ?db = "replace_document ''u'' (Some ?v) db_init"
  have "escaped_json ?v = ?v" by code_simp
  note at = one_document(1,2) [OF storable_flag, of ?db "''u''", OF refl, unfolded this]
  show ?thesis
    unfolding Let_def
    using storage_update_merges [OF at _ _ surjective_pairing, of "[(''uuid'', JInteger 2)]"
        "\<lparr>now_uuid = 0, now = 7, nsec = 0, thread_id = 0\<rparr>"]
    by auto
qed

lemma storage_delete_exact_witness:
  "let db = replace_document ''u'' (Some (JObject [(''a'', JInteger 1), (''library'', JString ''l'')])) db_init in
   fst (storage_delete_document ''u'' db) \<and>
   fst (storage_get_document ''u'' (snd (storage_delete_document ''u'' db))) = None"
proof -
  let ?db = "replace_document ''u''
    (Some (JObject [(''a'', JInteger 1), (''library'', JString ''l'')])) db_init"
  note one = one_document [OF storable_flag, of ?db "''u''", OF refl]
  show ?thesis
    unfolding Let_def
    using storage_delete_exact [OF one(1) surjective_pairing, of "''u''"] one(3) by simp
qed


lemma storage_query_integer_witness:
  "json_object_get (storage_query_documents (Some (JObject [(''a'', JInteger 1)]))
     (replace_document ''u'' (Some (JObject [(''a'', JInteger 1), (''library'', JString ''l'')])) db_init))
     (Some ''documents'') = Some (JArray [])"
  by (rule storage_query_integer [of _ "''a''" "JInteger 1"]) simp_all

end
