(* ===== verification/Database_Cached.thy ===== *)
theory Database_Cached
  imports Database_Props
begin

text \<open>
  The layers with caches.  Nothing removes an entry when a document changes (the two functions
  that would are never called), so a value that was read once is served until it is evicted.
  The second part is about the checks of library and type, and what a field of the wrong type
  does to them.
\<close>

section \<open>The caches\<close>

definition cached_ok :: "json generic_cache option \<Rightarrow> bool" where
  "cached_ok c \<longleftrightarrow> (case c of None \<Rightarrow> False | Some c \<Rightarrow> gc_ok c)"

lemma cached_okE:
  assumes "cached_ok c"
  obtains c' where "c = Some c'" "gc_ok c'"
  using assms by (auto simp: cached_ok_def split: option.splits)

lemma cache_store_lookup:
  assumes "cached_ok c"
  shows "fst (cache_lookup (cache_store c (Some k) v) (Some k)) = Some v"
    and "cached_ok (cache_store c (Some k) v)"
proof -
  obtain c' where c: "c = Some c'" "gc_ok c'" using assms by (rule cached_okE)
  note p = cache_put_refines [OF c(2), of "c_bytes k" v]
  have "gc_ok (generic_cache_put c' (c_bytes k) v)" using p by blast
  from cache_get_refines [OF this, of "c_bytes k"] p c
  show "fst (cache_lookup (cache_store c (Some k) v) (Some k)) = Some v"
    by (simp add: cache_lookup_def cache_store_def case_prod_beta lru_put_def lru_get_def)
  show "cached_ok (cache_store c (Some k) v)"
    using p c by (simp add: cached_ok_def cache_store_def)
qed

lemma cache_lookup_again:
  assumes "cached_ok c"
  shows "fst (cache_lookup (snd (cache_lookup c (Some k))) (Some k)) = fst (cache_lookup c (Some k))"
    and "cached_ok (snd (cache_lookup c key))"
proof -
  obtain c' where c: "c = Some c'" "gc_ok c'" using assms by (rule cached_okE)
  note g = cache_get_refines [OF c(2)]
  show "cached_ok (snd (cache_lookup c key))"
    using c g(1) by (simp add: cache_lookup_def cached_ok_def case_prod_beta split: option.splits)
  show "fst (cache_lookup (snd (cache_lookup c (Some k))) (Some k)) = fst (cache_lookup c (Some k))"
    using c g(2,3) [of "c_bytes k"] cache_get_refines(2) [OF g(1), of "c_bytes k" "c_bytes k"]
    by (auto simp: cache_lookup_def case_prod_beta lru_get_def split: option.splits)
qed

lemma doc_cache_key: "length u \<le> 251 \<Longrightarrow> generate_doc_cache_key_fast (Some u) 256 = Some (''doc:'' @ u)"
  by (simp add: generate_doc_cache_key_fast_def)

section \<open>Stale documents\<close>

lemma find_document_caches [simp]:
  "doc_cache (snd (find_document u db)) = doc_cache db"
  "query_cache (snd (find_document u db)) = query_cache db"
  "doc_cache (replace_document u v db) = doc_cache db"
  "query_cache (replace_document u v db) = query_cache db"
  by (simp_all add: find_document_def case_prod_beta replace_document_def)

lemma storage_caches [simp]:
  "doc_cache (snd (storage_insert_document m d db)) = doc_cache db"
  "query_cache (snd (storage_insert_document m d db)) = query_cache db"
  "doc_cache (snd (storage_update_document m u d db)) = doc_cache db"
  "query_cache (snd (storage_update_document m u d db)) = query_cache db"
  "doc_cache (snd (storage_delete_document u db)) = doc_cache db"
  "query_cache (snd (storage_delete_document u db)) = query_cache db"
  by (simp_all add: storage_insert_document_def storage_update_document_def storage_delete_document_def
      Let_def case_prod_beta split: option.splits)

lemma virtual_caches [simp]:
  "doc_cache (snd (virtual_insert m a b c d e db)) = doc_cache db"
  "query_cache (snd (virtual_insert m a b c d e db)) = query_cache db"
  "doc_cache (snd (virtual_update m w d db)) = doc_cache db"
  "query_cache (snd (virtual_update m w d db)) = query_cache db"
  "doc_cache (snd (virtual_delete w db)) = doc_cache db"
  "query_cache (snd (virtual_delete w db)) = query_cache db"
  by (simp_all add: virtual_insert_def virtual_update_def virtual_delete_def Let_def case_prod_beta
      split: option.splits)

lemma virtual_get_cached:
  assumes "fst (cache_lookup (doc_cache db) (generate_doc_cache_key_fast (Some u) 256)) = Some d"
  shows "fst (virtual_get (Some u) db) = Some d"
  using assms by (simp add: virtual_get_def case_prod_beta Let_def)

lemma virtual_get_remembers:
  assumes "art_ok (documents db)" and "cached_ok (doc_cache db)" and "length u \<le> 251"
    and "virtual_get (Some u) db = (Some d, db1)" and "doc_cache db2 = doc_cache db1"
  shows "fst (virtual_get (Some u) db2) = Some d"
proof (rule virtual_get_cached)
  let ?k = "generate_doc_cache_key_fast (Some u) 256"
  let ?c = "snd (cache_lookup (doc_cache db) ?k)"
  have k: "?k = Some (''doc:'' @ u)" using assms(3) by (rule doc_cache_key)
  have ok: "cached_ok ?c" by (rule cache_lookup_again(2) [OF assms(2)])
  show "fst (cache_lookup (doc_cache db2) ?k) = Some d"
  proof (cases "fst (cache_lookup (doc_cache db) ?k)")
    case (Some x)
    then have "x = d" "doc_cache db1 = ?c"
      using assms(4) by (auto simp: virtual_get_def case_prod_beta Let_def)
    then show ?thesis using cache_lookup_again(1) [OF assms(2)] Some assms(5) k by simp
  next
    case None
    have dc: "fst (find_document u (db\<lparr>doc_cache := ?c\<rparr>)) = doc_at (db\<lparr>doc_cache := ?c\<rparr>) u"
      using find_document_doc_at(1) [of "db\<lparr>doc_cache := ?c\<rparr>"] assms(1) by simp
    have d: "doc_at (db\<lparr>doc_cache := ?c\<rparr>) u = Some d"
      using assms(4) None dc
      by (simp add: virtual_get_def case_prod_beta Let_def storage_get_document_def split: option.splits)
    then have copy: "json_deep_copy (Some d) = Some d"
      using doc_at_ok(1) doc_at_shallow deep_copy_id by blast
    then have "doc_cache db1 = cache_store ?c ?k d"
      using assms(4) None dc d
      by (auto simp: virtual_get_def case_prod_beta Let_def storage_get_document_def split: option.splits)
    then show ?thesis using cache_store_lookup(1) [OF ok] assms(5) k by simp
  qed
qed

text \<open>
  After a document has been read through the virtual layer, updating it and even deleting it
  does not change what the next reader gets: the old document.
\<close>

theorem virtual_get_stale:
  assumes "art_ok (documents db)" and "cached_ok (doc_cache db)" and "length u \<le> 251"
    and "virtual_get (Some u) db = (Some d, db1)"
  shows "fst (virtual_get (Some u) (snd (virtual_update m (Some u) new db1))) = Some d \<and>
    fst (virtual_get (Some u) (snd (virtual_delete (Some u) db1))) = Some d"
  using virtual_get_remembers [OF assms] by simp

section \<open>Stale query results\<close>

lemma db_query_loop_result:
  assumes "db_query_loop library query ds = Inr rs" and "\<forall>d\<in>set ds. json_wf d \<and> shallower 10 d"
  shows "set rs \<subseteq> set ds"
  using assms
proof (induction ds arbitrary: rs)
  case (Cons d ds)
  have "shallower 100 d" by (rule shallower_mono [of 10]) (use Cons.prems(2) in simp_all)
  then have copy: "json_deep_copy (Some d) = Some d" using Cons.prems(2) deep_copy_id by simp
  obtain b rest where "db_query_loop library query ds = Inr rest"
    "rs = (if b \<and> query_matches db_values_match query (Some d)
       then the (json_deep_copy (Some d)) # rest else rest)"
    using Cons.prems(1) by (simp split: sum.splits) blast
  with copy Cons.IH [of rest] Cons.prems(2) show ?case by auto
qed simp

lemma result_object_ok:
  assumes "\<forall>d\<in>set ds. json_wf d \<and> shallower 10 d"
  shows "json_deep_copy (result_object ds) = result_object ds"
proof -
  have "shallower 98 d" if "d \<in> set ds" for d
    by (rule shallower_mono [of 10]) (use assms that in simp_all)
  with assms show ?thesis unfolding result_object_eq by (intro deep_copy_id) (simp_all add: list_all_iff)
qed

lemma db_query_remembers:
  assumes "cached_ok (query_cache db)"
    and "generate_query_cache_key_fast library collection q 512 = Some k"
    and "db_query_documents library collection q db = Inr (r, db1)"
  shows "cached_ok (query_cache db1)" and "fst (cache_lookup (query_cache db1) (Some k)) = r"
    and "documents db1 = documents db" and "doc_cache db1 = doc_cache db" and "r \<noteq> None"
proof -
  let ?c = "snd (cache_lookup (query_cache db) (Some k))"
  have ok: "cached_ok ?c" by (rule cache_lookup_again(2) [OF assms(1)])
  have "cached_ok (query_cache db1) \<and> fst (cache_lookup (query_cache db1) (Some k)) = r \<and>
      documents db1 = documents db \<and> doc_cache db1 = doc_cache db \<and> r \<noteq> None"
  proof (cases "fst (cache_lookup (query_cache db) (Some k))")
    case (Some x)
    with assms(3) have "r = Some x" "db1 = db\<lparr>query_cache := ?c\<rparr>"
      by (auto simp: db_query_documents_def assms(2) case_prod_beta Let_def)
    with ok Some cache_lookup_again(1) [OF assms(1)] show ?thesis by simp
  next
    case None
    with assms(3) obtain rs where rs: "db_query_loop library q (stored_objects (documents db)) = Inr rs"
      by (auto simp: db_query_documents_def assms(2) case_prod_beta Let_def split: sum.splits)
    then have "\<forall>d\<in>set rs. json_wf d \<and> shallower 10 d"
      using db_query_loop_result [OF rs] stored_object_ok by blast
    then have copy: "json_deep_copy (result_object rs) = result_object rs" by (rule result_object_ok)
    obtain v where v: "result_object rs = Some v" by (simp add: result_object_eq)
    have "r = Some v" "db1 = db\<lparr>query_cache := cache_store ?c (Some k) v\<rparr>"
      using assms(3) None rs copy unfolding v
      by (auto simp: db_query_documents_def assms(2) case_prod_beta Let_def v)
    with cache_store_lookup [OF ok] show ?thesis by simp
  qed
  then show "cached_ok (query_cache db1)" and "fst (cache_lookup (query_cache db1) (Some k)) = r"
    and "documents db1 = documents db" and "doc_cache db1 = doc_cache db" and "r \<noteq> None" by blast+
qed

lemma db_query_cached:
  assumes "fst (cache_lookup (query_cache db) (generate_query_cache_key_fast library collection q 512)) = Some v"
  shows "db_query_documents library collection q db = Inr (Some v, db\<lparr>query_cache :=
    snd (cache_lookup (query_cache db) (generate_query_cache_key_fast library collection q 512))\<rparr>)"
  using assms by (simp add: db_query_documents_def case_prod_beta Let_def)


section \<open>Fields of the wrong type\<close>

lemma field_is_fault: "json_type_of v \<noteq> JSON_STRING \<Longrightarrow> field_is v s = Inl Null_Strcmp"
  by (cases v) (simp_all add: field_is_def json_get_string_def)

lemma db_query_loop_fault:
  assumes "d \<in> set ds" and "json_object_get (Some d) (Some ''library'') = Some l" and "json_type_of l \<noteq> JSON_STRING"
  shows "db_query_loop library query ds = Inl Null_Strcmp"
  using assms(1)
proof (induction ds)
  case (Cons d' ds)
  show ?case
  proof (cases "d' = d")
    case True
    with assms(2) field_is_fault [OF assms(3)] show ?thesis by simp
  next
    case False
    with Cons have "db_query_loop library query ds = Inl Null_Strcmp" by simp
    moreover have "f = Null_Strcmp" for f by (cases f)
    ultimately show ?thesis by (auto split: sum.splits option.splits)
  qed
qed simp

lemma db_query_fault:
  assumes "fst (cache_lookup (query_cache db) (generate_query_cache_key_fast library collection q 512)) = None"
    and "db_query_loop library q (stored_objects (documents db)) = Inl f"
  shows "db_query_documents library collection q db = Inl f"
  using assms by (simp add: db_query_documents_def case_prod_beta Let_def)

text \<open>
  One update through the virtual layer that gives a document a \<open>library\<close> that is no string
  makes every later query of any library that is not answered from the cache crash.
\<close>

theorem bad_library_crashes_queries:
  assumes "art_ok (documents db)" and "fst (storage_get_document u db) = Some (JObject es)"
    and "json_wf l" and "shallower 99 l" and "json_type_of l \<noteq> JSON_STRING"
    and "virtual_update m (Some u) (Some (JObject [(''library'', l)])) db = (Some d, db')" and "storable d"
    and "fst (cache_lookup (query_cache db') (generate_query_cache_key_fast library collection q 512)) = None"
  shows "db_query_documents library collection q db' = Inl Null_Strcmp"
proof -
  let ?fs = "[(''library'', l), (''updated_at'', JInteger (now_uuid m))]"
  have fs: "json_wf (JObject ?fs)" "shallower 100 (JObject ?fs)" using assms(3,4) by simp_all
  have "json_deep_copy (Some (JObject [(''library'', l)])) = Some (JObject [(''library'', l)])"
    using assms(3,4) by (intro deep_copy_id) simp_all
  then have upd: "storage_update_document m u (Some (JObject ?fs)) db = (Some d, db')"
    using assms(6) obj_set_fresh [of "''updated_at''" "[(''library'', l)]"]
    by (simp add: virtual_update_def json_create_integer_def del: obj_set.simps)
  have at: "doc_at db u = Some (JObject es)"
    using assms(2) by (simp add: storage_get_document_def find_document_doc_at(1) [OF assms(1)])
  obtain us where us:
    "storage_update_document m u (Some (JObject ?fs)) db =
       (Some (JObject us), replace_document u (Some (JObject us)) (snd (find_document u db)))"
    "json_wf (JObject us)" "shallower 100 (JObject us)"
    "\<And>k. obj_get us k =
       (if k = ''modified_at'' then Some (JInteger (now m))
        else if k \<in> fst ` set ?fs then obj_get ?fs k else obj_get es k)"
    by (rule storage_update_object [OF assms(1) at fs, of m]) (rule that)
  have d: "d = JObject us" "db' = replace_document u (Some (JObject us)) (snd (find_document u db))"
    using us(1) upd by simp_all
  note after = get_after_replace [OF assms(1) d(2)]
  have here: "doc_at db' u = Some (escaped_json (JObject us))"
    unfolding after(2) using doc_parse_bytes assms(7) d(1) by simp
  have "obj_get us ''library'' = Some l" unfolding us(4) by simp
  then have "(''library'', l) \<in> set us" by (rule obj_get_in)
  then have "(escape_body ''library'', escaped_json l) \<in>
      set (map (\<lambda>e. (escape_body (fst e), escaped_json (snd e))) us)" by force
  moreover have "escape_body ''library'' = ''library''" by code_simp
  moreover have "distinct (map fst (map (\<lambda>e. (escape_body (fst e), escaped_json (snd e))) us))"
    using assms(7) d(1) by (simp add: storable_def reads_ok_def)
  ultimately have lib: "json_object_get (Some (escaped_json (JObject us))) (Some ''library'') = Some (escaped_json l)"
    using obj_get_own by simp
  have ty: "json_type_of (escaped_json l) \<noteq> JSON_STRING" using assms(5) by (cases l) simp_all
  have "escaped_json (JObject us) \<in> set (stored_objects (documents db'))"
    using here by (auto simp: set_stored_objects [OF after(1)] doc_at_def text_at_def split: option.splits if_splits)
  from db_query_fault [OF assms(8) db_query_loop_fault [OF this lib ty]] show ?thesis .
qed

section \<open>Library, type and protected fields\<close>

lemma document_belongs_True:
  assumes "document_belongs (Some (JObject es)) library collection = Inr True"
  shows "obj_get es ''library'' = Some (JString library)" "obj_get es ''type'' = Some (JString collection)"
proof -
  have "field_is v s = Inr True \<Longrightarrow> v = JString s" for v s
    by (cases v) (auto simp: field_is_def json_get_string_def)
  with assms show "obj_get es ''library'' = Some (JString library)" "obj_get es ''type'' = Some (JString collection)"
    by (auto simp: document_belongs_def split: option.splits sum.splits bool.splits)
qed

text \<open>
  C34. An update through \<open>db_update_document\<close> that returns a document has found one of that
  library and type, keeps its uuid, type, library, collection and time of creation, replaces the
  other fields the update names, and keeps the rest.
\<close>

theorem db_update_protects:
  assumes "art_ok (documents db)" and "fst (storage_get_document uuid db) = Some (JObject es)"
    and "json_wf (JObject fs)" and "shallower 100 (JObject fs)"
    and "db_update_document m library collection uuid (JObject fs) db = Inr (Some d, db')"
  shows "obj_get es ''library'' = Some (JString library) \<and> obj_get es ''type'' = Some (JString collection) \<and>
    (\<exists>us. d = JObject us \<and>
      (\<forall>k. obj_get us k =
         (if k = ''modified_at'' then Some (JInteger (now m))
          else if k \<in> fst ` set fs \<and> k \<notin> set protected_fields then obj_get fs k
          else obj_get es k)) \<and>
      (storable d \<longrightarrow> fst (storage_get_document uuid db') = Some (escaped_json d)))"
proof -
  have at: "doc_at db uuid = Some (JObject es)"
    using assms(2) by (simp add: storage_get_document_def find_document_doc_at(1) [OF assms(1)])
  have es: "json_wf (JObject es)" "shallower 100 (JObject es)"
    using doc_at_ok(1) [OF at] doc_at_shallow [OF at] by blast+
  obtain vs where vs: "merge_unprotected (Some (JObject fs)) (Some (JObject es)) = Some (JObject vs)"
    "json_wf (JObject vs)" "shallower 100 (JObject vs)"
    "\<And>k. obj_get vs k =
      (if k \<in> fst ` set fs \<and> k \<notin> set protected_fields then obj_get fs k else obj_get es k)"
    by (rule merge_unprotected_get [OF assms(3) es assms(4)]) (rule that)
  define us where "us = obj_set vs ''modified_at'' (json_create_integer (now m))"
  have us: "json_wf (JObject us)" "shallower 100 (JObject us)"
    "\<And>k. obj_get us k = (if k = ''modified_at'' then Some (JInteger (now m)) else obj_get vs k)"
    unfolding us_def using stamp_modified [OF vs(2,3)] by blast+
  have "fst (find_document uuid db) = Some (JObject es)"
    using find_document_doc_at(1) [OF assms(1), of uuid] at by simp
  with assms(5) vs(1) deep_copy_id [OF es] deep_copy_id [OF us(1,2)]
  have r: "document_belongs (Some (JObject es)) library collection = Inr True" "d = JObject us"
    "db' = replace_document uuid (Some (JObject us)) (snd (find_document uuid db))"
    by (auto simp: db_update_document_def case_prod_beta Let_def json_stringify_def
        split: sum.splits bool.splits simp flip: us_def)
  note after = get_after_replace [OF assms(1) r(3)]
  have "storable d \<longrightarrow> fst (storage_get_document uuid db') = Some (escaped_json d)"
    unfolding storage_get_document_def find_document_doc_at(1) [OF after(1)] after(2)
    using doc_parse_bytes [of d] r(2) by simp
  moreover have "\<forall>k. obj_get us k =
         (if k = ''modified_at'' then Some (JInteger (now m))
          else if k \<in> fst ` set fs \<and> k \<notin> set protected_fields then obj_get fs k
          else obj_get es k)"
    unfolding us(3) vs(4) by simp
  ultimately show ?thesis using document_belongs_True [OF r(1)] r(2) by blast
qed

text \<open>
  \<open>db_delete_document\<close> deletes a document only when it belongs to the library and type it
  was asked for; in every other case that does not crash the documents stay as they are.
\<close>

theorem db_delete_checks:
  assumes "art_ok (documents db)" and "db_delete_document library collection uuid db = Inr (r, db')"
  shows "if r then \<exists>es. fst (storage_get_document uuid db) = Some (JObject es) \<and>
        obj_get es ''library'' = Some (JString library) \<and> obj_get es ''type'' = Some (JString collection) \<and>
        leaves (documents db') = filter (\<lambda>leaf. leaf_key leaf \<noteq> c_bytes uuid) (leaves (documents db))
      else leaves (documents db') = leaves (documents db)"
proof -
  let ?db = "snd (find_document uuid db)"
  note l = find_document_doc_at(2) [OF assms(1), of uuid]
  have ok: "art_ok (documents ?db)" using assms(1) art_ok_cong [OF l] by blast
  note del = delete_leaves [OF ok, of "c_bytes uuid"]
  consider "r = False" "db' = ?db"
    | v where "fst (find_document uuid db) = Some v" "document_belongs (Some v) library collection = Inr True"
      "r = fst (skiplist_delete (documents ?db) (c_bytes uuid))"
      "documents db' = snd (skiplist_delete (documents ?db) (c_bytes uuid))"
    using assms(2)
    by (auto simp: db_delete_document_def case_prod_beta Let_def split: option.splits sum.splits bool.splits)
  then show ?thesis
  proof cases
    case 1
    with l show ?thesis by simp
  next
    case 2
    then obtain es where es: "v = JObject es" by (cases v) (simp_all add: document_belongs_def)
    have "filter (\<lambda>leaf. leaf_key leaf \<noteq> c_bytes uuid) (leaves (documents ?db)) = leaves (documents ?db)"
      if "art_get (documents ?db) (c_bytes uuid) = None"
      using that by (force simp: art_get_None filter_id_conv)
    with 2 es del l document_belongs_True [of es library collection] show ?thesis
      by (simp add: storage_get_document_def)
  qed
qed

section \<open>Virtual collections\<close>

lemma insert_grows:
  assumes "art_get (documents db) (c_bytes (make_uuid m 0)) = None" and "json_wf (JObject es)" and "shallower 100 (JObject es)"
  shows "length (leaves (documents (snd (storage_insert_document m (Some (JObject es)) db)))) =
    Suc (length (leaves (documents db)))"
proof -
  obtain us where "storage_insert_document m (Some (JObject es)) db = (Some (JObject us), db\<lparr>documents :=
       snd (skiplist_insert (documents db) (c_bytes (make_uuid m 0)) (doc_bytes (Some (JObject us))))\<rparr>)"
    using storage_insert_object [OF assms(2,3)] by metis
  with assms(1) show ?thesis by (simp add: insert_leaves(1))
qed

text \<open>An object whose fields are all scalars, as the chains of assignments build it.\<close>

definition flat :: "jptr \<Rightarrow> bool" where
  "flat v \<longleftrightarrow> (\<exists>es. v = Some (JObject es) \<and> json_wf (JObject es) \<and> shallower 1 (JObject es))"

lemma flat_create [simp]: "flat (Some json_create_object)"
  by (simp add: flat_def json_create_object_def)

lemma flat_set [simp]: "flat v \<Longrightarrow> flat (set_field v k (json_create_string s))"
  unfolding flat_def using object_ok_set [where n = 1 and v = "json_create_string s"] by fastforce

lemma flat_copy [simp]: "flat v \<Longrightarrow> json_deep_copy v = v"
  unfolding flat_def using deep_copy_id shallower_mono [of 1 _ 100] by fastforce

lemma flat_insert:
  assumes "flat v" and "art_get (documents db) (c_bytes (make_uuid m 0)) = None"
  shows "length (leaves (documents (snd (storage_insert_document m v db)))) = Suc (length (leaves (documents db)))"
proof -
  obtain es where es: "v = Some (JObject es)" "json_wf (JObject es)" "shallower 1 (JObject es)"
    using assms(1) by (auto simp: flat_def)
  have "shallower 100 (JObject es)" by (rule shallower_mono [OF es(3)]) simp
  from insert_grows [OF assms(2) es(2) this] es(1) show ?thesis by simp
qed

lemma query_key_short:
  "\<exists>k. generate_query_cache_key_fast ''default'' ''documents'' q 512 = Some k"
  by (simp add: generate_query_cache_key_fast_def hex8_def)

definition collection_query :: "string \<Rightarrow> string \<Rightarrow> jptr" where
  "collection_query library name =
     set_field (set_field (set_field (set_field (Some json_create_object)
       ''type'' (json_create_string ''collection'')) ''library'' (json_create_string library))
       ''collection'' (json_create_string ''collections'')) ''name'' (json_create_string name)"

lemma ensure_cases:
  assumes "db_query_documents ''default'' ''documents'' (collection_query library name) db = Inr (r, dbq)"
  obtains "0 < json_array_size (json_object_get r (Some ''documents''))"
      "ensure_virtual_collection_exists m stamp library name db = Inr dbq"
  | v where "json_array_size (json_object_get r (Some ''documents'')) = 0" "flat v"
      "ensure_virtual_collection_exists m stamp library name db = Inr (snd (storage_insert_document m v dbq))"
proof -
  let ?doc = "set_field (set_field (set_field (collection_query library name)
    ''created_at'' (json_create_string stamp)) ''modified_at'' (json_create_string stamp))
    ''owner'' (json_create_string ''system'')"
  have flat: "flat ?doc" by (simp add: collection_query_def)
  then obtain d where d: "?doc = Some d" by (auto simp: flat_def)
  let ?v = "set_field (set_field (set_field (set_field (Some d) ''type'' (json_create_string ''collection''))
    ''library'' (json_create_string library)) ''collection'' (json_create_string ''collections''))
    ''owner'' (json_create_string ''system'')"
  have v: "flat ?v" and copy: "json_deep_copy (Some d) = Some d"
    using flat unfolding d by (blast intro: flat_set) (use flat d in simp)
  have e: "ensure_virtual_collection_exists m stamp library name db =
      (if 0 < json_array_size (json_object_get r (Some ''documents'')) then Inr dbq
       else Inr (snd (virtual_insert m (Some ''collection'') (Some library) (Some ''collections'') ?doc
         (Some ''system'') dbq)))"
    using assms by (simp add: ensure_virtual_collection_exists_def Let_def flip: collection_query_def)
  have "virtual_insert m (Some ''collection'') (Some library) (Some ''collections'') ?doc (Some ''system'') dbq =
      storage_insert_document m ?v dbq"
    unfolding d using copy by (simp add: virtual_insert_def collection_or_plural_def Let_def)
  with e v that show ?thesis by (cases "json_array_size (json_object_get r (Some ''documents''))") auto
qed

text \<open>
  The function that makes sure a collection exists makes it again on every call: the empty
  answer to its first query stays in the cache, so the document it then stores is never seen.
\<close>

theorem ensure_collection_duplicates:
  assumes "cached_ok (query_cache db)"
    and "ensure_virtual_collection_exists m1 stamp1 library name db = Inr db1"
    and "length (leaves (documents db1)) = Suc (length (leaves (documents db)))"
    and "art_get (documents db1) (c_bytes (make_uuid m2 0)) = None"
  shows "\<exists>db2. ensure_virtual_collection_exists m2 stamp2 library name db1 = Inr db2 \<and>
    length (leaves (documents db2)) = Suc (length (leaves (documents db1)))"
proof -
  let ?q = "collection_query library name"
  obtain k where k: "generate_query_cache_key_fast ''default'' ''documents'' ?q 512 = Some k"
    using query_key_short by blast
  obtain r dbq where q: "db_query_documents ''default'' ''documents'' ?q db = Inr (r, dbq)"
    using assms(2)
    by (auto simp: ensure_virtual_collection_exists_def Let_def simp flip: collection_query_def split: sum.splits)
  note m = db_query_remembers [OF assms(1) k q]
  from q obtain v where v: "json_array_size (json_object_get r (Some ''documents'')) = 0"
      "db1 = snd (storage_insert_document m1 v dbq)"
  proof (rule ensure_cases [where m = m1 and stamp = stamp1])
    assume "ensure_virtual_collection_exists m1 stamp1 library name db = Inr dbq"
    with assms(2,3) m(3) show thesis by simp
  next
    fix v
    assume "json_array_size (json_object_get r (Some ''documents'')) = 0"
      "ensure_virtual_collection_exists m1 stamp1 library name db = Inr (snd (storage_insert_document m1 v dbq))"
    with assms(2) show thesis by (intro that [of v]) simp_all
  qed
  obtain rv where rv: "r = Some rv" using m(5) by blast
  have "fst (cache_lookup (query_cache db1) (generate_query_cache_key_fast ''default'' ''documents'' ?q 512)) = Some rv"
    using m(2) v(2) k rv by simp
  from db_query_cached [OF this] have "\<exists>dbq2. documents dbq2 = documents db1 \<and>
      db_query_documents ''default'' ''documents'' ?q db1 = Inr (r, dbq2)"
    using rv by auto
  then obtain dbq2 where q2: "documents dbq2 = documents db1"
    "db_query_documents ''default'' ''documents'' ?q db1 = Inr (r, dbq2)"
    by blast
  from q2(2) show ?thesis
  proof (rule ensure_cases [where m = m2 and stamp = stamp2])
    assume "0 < json_array_size (json_object_get r (Some ''documents''))"
    with v(1) show ?thesis by simp
  next
    fix w
    assume w: "flat w" "ensure_virtual_collection_exists m2 stamp2 library name db1 =
      Inr (snd (storage_insert_document m2 w dbq2))"
    with flat_insert [OF w(1), of dbq2 m2] assms(4) q2(1) show ?thesis by simp
  qed
qed

section \<open>Indexes\<close>

text \<open>The text a document is indexed under, if it has the field.\<close>

definition index_key :: "string \<Rightarrow> art_leaf \<Rightarrow> string option" where
  "index_key field_path leaf =
     (case json_object_get (if leaf_value leaf = [] then None else doc_parse (leaf_value leaf)) (Some field_path) of
        None \<Rightarrow> None
      | Some v \<Rightarrow> Some (doc_bytes (Some v)))"

lemma index_step_get:
  "art_get (fst (index_step f (idx, n) leaf)) k =
     (if index_key f leaf = Some k \<and> art_get idx k = None then Some (c_bytes (c_read (leaf_key leaf)))
      else art_get idx k)"
  by (auto simp: index_step_def index_key_def art_get_insert split: option.splits)

lemma index_fold_get:
  "art_get (fst (foldl (index_step f) (idx, n) ls)) k =
     (case art_get idx k of
        Some d \<Rightarrow> Some d
      | None \<Rightarrow> map_option (\<lambda>leaf. c_bytes (c_read (leaf_key leaf))) (find (\<lambda>leaf. index_key f leaf = Some k) ls))"
proof (induction ls arbitrary: idx n)
  case (Cons leaf ls)
  obtain idx' n' where s: "index_step f (idx, n) leaf = (idx', n')" by (cases "index_step f (idx, n) leaf")
  with index_step_get [of f idx n leaf k] Cons.IH [of idx' n'] show ?case
    by (auto split: option.splits)
qed (auto split: option.splits)

text \<open>
  An index maps the printed value of its field to the first stored document with that value
  only; further documents with the same value are not in the index.
\<close>

theorem index_first_only:
  "art_get (fst (index_documents field_path docs)) key =
     map_option (\<lambda>leaf. c_bytes (c_read (leaf_key leaf)))
       (find (\<lambda>leaf. index_key field_path leaf = Some key) (leaves docs))"
  by (simp add: index_documents_def iterate_leaves skiplist_iterator_create_def index_fold_get art_get_create)

section \<open>What updates do to strings\<close>

text \<open>
  Each update, of whatever other field, escapes the strings of the stored document once more:
  a string with a quote, a backslash or a line end gets longer every time.
\<close>

theorem update_lengthens_strings:
  assumes "art_ok (documents db)" and "fst (storage_get_document u db) = Some (JObject es)"
    and "obj_get es k = Some (JString s)" and "k \<noteq> ''modified_at''" and "list_all plain_char k"
    and "\<not> list_all plain_char s"
    and "storage_update_document m u (Some (JObject [])) db = (Some d, db')" and "storable d"
  shows "\<exists>s'. json_object_get (fst (storage_get_document u db')) (Some k) = Some (JString s') \<and>
    length s < length s'"
proof -
  have at: "doc_at db u = Some (JObject es)"
    using assms(2) by (simp add: storage_get_document_def find_document_doc_at(1) [OF assms(1)])
  have e: "json_wf (JObject [])" "shallower 100 (JObject [])" by simp_all
  obtain us where us:
    "storage_update_document m u (Some (JObject [])) db =
       (Some (JObject us), replace_document u (Some (JObject us)) (snd (find_document u db)))"
    "json_wf (JObject us)" "shallower 100 (JObject us)"
    "\<And>k. obj_get us k =
       (if k = ''modified_at'' then Some (JInteger (now m))
        else if k \<in> fst ` set ([] :: entries) then obj_get [] k else obj_get es k)"
    by (rule storage_update_object [OF assms(1) at e, of m]) (rule that)
  have d: "d = JObject us" "db' = replace_document u (Some (JObject us)) (snd (find_document u db))"
    using us(1) assms(7) by simp_all
  note after = get_after_replace [OF assms(1) d(2)]
  have here: "fst (storage_get_document u db') = Some (escaped_json (JObject us))"
    unfolding storage_get_document_def find_document_doc_at(1) [OF after(1)] after(2)
    using doc_parse_bytes assms(8) d(1) by simp
  have "obj_get us k = Some (JString s)" unfolding us(4) using assms(3,4) by simp
  then have "(k, JString s) \<in> set us" by (rule obj_get_in)
  then have "(escape_body k, JString (escape_body s)) \<in>
      set (map (\<lambda>e. (escape_body (fst e), escaped_json (snd e))) us)" by force
  moreover have "distinct (map fst (map (\<lambda>e. (escape_body (fst e), escaped_json (snd e))) us))"
    using assms(8) d(1) by (simp add: storable_def reads_ok_def)
  moreover have "length s < length (escape_body s)"
    using assms(6) by (auto simp: length_escape_body list_all_iff filter_empty_conv)
  ultimately show ?thesis
    using obj_get_own here escape_body_plain [OF assms(5)] by simp
qed

section \<open>Runs\<close>

lemma empty_cache:
  assumes "cap \<noteq> 0" and "cap * 2 \<noteq> 0"
  shows "cached_ok (generic_cache_create cap)" and "fst (cache_lookup (generic_cache_create cap) key) = None"
proof -
  obtain c :: "json generic_cache" where c: "generic_cache_create cap = Some c"
    using assms by (simp add: generic_cache_create_def)
  note ok = create_ok [OF c]
  show "cached_ok (generic_cache_create cap)" using ok(1) c by (simp add: cached_ok_def)
  show "fst (cache_lookup (generic_cache_create cap) key) = None"
    using cache_get_refines(2) [OF ok(1)] ok(3) c
    by (simp add: cache_lookup_def case_prod_beta lru_get_def split: option.splits)
qed

lemma init_caches:
  "cached_ok (doc_cache db_init)" "fst (cache_lookup (doc_cache db_init) key) = None"
  "cached_ok (query_cache db_init)" "fst (cache_lookup (query_cache db_init) key) = None"
  unfolding db_init_def by (simp_all add: empty_cache)

lemma virtual_get_stale_witness:
  "let db = replace_document ''u'' (Some (JObject [(''a'', JInteger 1), (''library'', JString ''l'')])) db_init;
       (d, db1) = virtual_get (Some ''u'') db in
   d = Some (JObject [(''a'', JInteger 1), (''library'', JString ''l'')]) \<and>
   fst (virtual_get (Some ''u'') (snd (virtual_delete (Some ''u'') db1))) = d"
proof -
  let ?v = "JObject [(''a'', JInteger 1), (''library'', JString ''l'')]"
  let ?db = "replace_document ''u'' (Some ?v) db_init"
  have v: "escaped_json ?v = ?v" by code_simp
  note one = one_document [OF storable_flag, of ?db "''u''", OF refl, unfolded v]
  have "fst (find_document ''u'' (?db\<lparr>doc_cache := c\<rparr>)) = Some ?v" for c
    using one(2) by (simp add: storage_get_document_def find_document_def case_prod_beta)
  then have g: "fst (virtual_get (Some ''u'') ?db) = Some ?v"
    by (simp add: virtual_get_def case_prod_beta Let_def storage_get_document_def init_caches split: option.splits)
  then have "virtual_get (Some ''u'') ?db = (Some ?v, snd (virtual_get (Some ''u'') ?db))"
    by (metis prod.collapse)
  from virtual_get_stale [OF one(1) _ _ this] g show ?thesis
    by (simp add: Let_def case_prod_beta init_caches)
qed


lemma bad_library_crashes_queries_witness:
  "let db = replace_document ''u'' (Some (JObject [(''a'', JInteger 1), (''library'', JString ''l'')])) db_init;
       db' = snd (virtual_update \<lparr>now_uuid = 0, now = 7, nsec = 0, thread_id = 0\<rparr> (Some ''u'')
         (Some (JObject [(''library'', JInteger 5)])) db) in
   db_query_documents ''default'' ''documents'' (Some (JObject [])) db' = Inl Null_Strcmp"
proof -
  let ?v = "JObject [(''a'', JInteger 1), (''library'', JString ''l'')]"
  let ?d = "JObject [(''a'', JInteger 1), (''library'', JInteger 5), (''updated_at'', JInteger 0), (''modified_at'', JInteger 7)]"
  let ?db = "replace_document ''u'' (Some ?v) db_init"
  let ?m = "\<lparr>now_uuid = 0, now = 7, nsec = 0, thread_id = 0\<rparr> :: moment"
  have v: "escaped_json ?v = ?v" by code_simp
  note one = one_document [OF storable_flag, of ?db "''u''", OF refl, unfolded v]
  have d: "storable ?d" unfolding storable_def reads_ok_def max_json_input_size_def by code_simp
  have "set_field (merge_fields (set_field (json_deep_copy (Some (JObject [(''library'', JInteger 5)])))
      ''updated_at'' (json_create_integer 0)) (json_deep_copy (Some ?v)))
      ''modified_at'' (json_create_integer 7) = Some ?d \<and>
    json_get_type (set_field (json_deep_copy (Some (JObject [(''library'', JInteger 5)])))
      ''updated_at'' (json_create_integer 0)) = JSON_OBJECT \<and> json_deep_copy (Some ?d) = Some ?d"
    by code_simp
  then have "virtual_update ?m (Some ''u'') (Some (JObject [(''library'', JInteger 5)])) ?db =
      (Some ?d, replace_document ''u'' (Some ?d) (snd (find_document ''u'' ?db)))"
    using one(2) by (simp add: virtual_update_def storage_update_document_def storage_get_document_def
        case_prod_beta Let_def json_stringify_def)
  from bad_library_crashes_queries [OF one(1,2) _ _ _ this d, of "''default''" "''documents''" "Some (JObject [])"] this
  show ?thesis by (simp add: Let_def init_caches)
qed

lemma db_update_protects_witness:
  "let db = replace_document ''u'' (Some (JObject [(''type'', JString ''t''), (''library'', JString ''l'')])) db_init in
   \<exists>us db'. db_update_document \<lparr>now_uuid = 0, now = 7, nsec = 0, thread_id = 0\<rparr> ''l'' ''t'' ''u''
       (JObject [(''type'', JNull), (''b'', JBoolean True)]) db = Inr (Some (JObject us), db') \<and>
     obj_get us ''type'' = Some (JString ''t'') \<and> obj_get us ''b'' = Some (JBoolean True)"
proof -
  let ?v = "JObject [(''type'', JString ''t''), (''library'', JString ''l'')]"
  let ?d = "JObject [(''type'', JString ''t''), (''library'', JString ''l''), (''b'', JBoolean True), (''modified_at'', JInteger 7)]"
  let ?db = "replace_document ''u'' (Some ?v) db_init"
  let ?m = "\<lparr>now_uuid = 0, now = 7, nsec = 0, thread_id = 0\<rparr> :: moment"
  have v: "escaped_json ?v = ?v" by code_simp
  have s: "storable ?v" unfolding storable_def reads_ok_def max_json_input_size_def by code_simp
  note one = one_document [OF s, of ?db "''u''", OF refl, unfolded v]
  have "set_field (merge_unprotected (Some (JObject [(''type'', JNull), (''b'', JBoolean True)]))
      (json_deep_copy (Some ?v))) ''modified_at'' (json_create_integer 7) = Some ?d \<and>
    document_belongs (Some ?v) ''l'' ''t'' = Inr True \<and> json_deep_copy (Some ?d) = Some ?d"
    by code_simp
  then have "db_update_document ?m ''l'' ''t'' ''u'' (JObject [(''type'', JNull), (''b'', JBoolean True)]) ?db =
      Inr (Some ?d, replace_document ''u'' (Some ?d) (snd (find_document ''u'' ?db)))"
    using one(2) by (simp add: db_update_document_def storage_get_document_def case_prod_beta Let_def
        json_stringify_def)
  from db_update_protects [OF one(1,2) _ _ this] this show ?thesis
    by (auto simp: Let_def protected_fields_def)
qed

lemma db_delete_checks_witness:
  "let db = replace_document ''u'' (Some (JObject [(''type'', JString ''t''), (''library'', JString ''l'')])) db_init in
   \<exists>db'. db_delete_document ''l'' ''other'' ''u'' db = Inr (False, db') \<and> leaves (documents db') = leaves (documents db)"
proof -
  let ?v = "JObject [(''type'', JString ''t''), (''library'', JString ''l'')]"
  let ?db = "replace_document ''u'' (Some ?v) db_init"
  have v: "escaped_json ?v = ?v" by code_simp
  have s: "storable ?v" unfolding storable_def reads_ok_def max_json_input_size_def by code_simp
  note one = one_document [OF s, of ?db "''u''", OF refl, unfolded v]
  have "document_belongs (Some ?v) ''l'' ''other'' = Inr False" by code_simp
  then have "db_delete_document ''l'' ''other'' ''u'' ?db = Inr (False, snd (find_document ''u'' ?db))"
    using one(2) by (simp add: db_delete_document_def storage_get_document_def case_prod_beta Let_def)
  from db_delete_checks [OF one(1) this] this show ?thesis by simp
qed

lemma ensure_collection_duplicates_witness:
  "\<exists>db1 db2.
     ensure_virtual_collection_exists \<lparr>now_uuid = 0, now = 0, nsec = 0, thread_id = 0\<rparr> ''t0'' ''l'' ''c'' db_init = Inr db1 \<and>
     ensure_virtual_collection_exists \<lparr>now_uuid = 0, now = 0, nsec = 1, thread_id = 0\<rparr> ''t1'' ''l'' ''c'' db1 = Inr db2 \<and>
     length (leaves (documents db2)) = 2"
proof -
  let ?m1 = "\<lparr>now_uuid = 0, now = 0, nsec = 0, thread_id = 0\<rparr> :: moment"
  let ?m2 = "\<lparr>now_uuid = 0, now = 0, nsec = 1, thread_id = 0\<rparr> :: moment"
  let ?q = "collection_query ''l'' ''c''"
  have none: "leaves (documents db_init) = []" by (simp add: leaves_def skiplist_create_def)
  obtain dbq where q: "db_query_documents ''default'' ''documents'' ?q db_init = Inr (result_object [], dbq)"
      "documents dbq = documents db_init"
    using none
    by (simp add: db_query_documents_def case_prod_beta Let_def init_caches stored_objects_leaves result_object_eq
        split: option.splits)
  have neq: "make_uuid ?m1 0 \<noteq> make_uuid ?m2 0" by code_simp
  have fresh: "art_get (documents dbq) (c_bytes (make_uuid ?m1 0)) = None"
    using q(2) by (simp add: art_get_create)
  from q(1) obtain db1 where db1: "ensure_virtual_collection_exists ?m1 ''t0'' ''l'' ''c'' db_init = Inr db1"
    "length (leaves (documents db1)) = 1" "art_get (documents db1) (c_bytes (make_uuid ?m2 0)) = None"
  proof (rule ensure_cases [where m = ?m1 and stamp = "''t0''"])
    assume "0 < json_array_size (json_object_get (result_object []) (Some ''documents''))"
    then show thesis by (simp add: json_array_size_def)
  next
    fix v
    assume v: "flat v" "ensure_virtual_collection_exists ?m1 ''t0'' ''l'' ''c'' db_init =
      Inr (snd (storage_insert_document ?m1 v dbq))"
    obtain es where es: "v = Some (JObject es)" "json_wf (JObject es)" "shallower 1 (JObject es)"
      using v(1) by (auto simp: flat_def)
    have "shallower 100 (JObject es)" by (rule shallower_mono [OF es(3)]) simp
    from storage_insert_object [OF es(2) this, of ?m1 dbq] obtain us where
      "snd (storage_insert_document ?m1 v dbq) = dbq\<lparr>documents := snd (skiplist_insert (documents dbq)
         (c_bytes (make_uuid ?m1 0)) (doc_bytes (Some (JObject us))))\<rparr>"
      unfolding es(1) by (metis snd_conv)
    then have other: "art_get (documents (snd (storage_insert_document ?m1 v dbq))) (c_bytes (make_uuid ?m2 0)) = None"
      using neq q(2) by (simp add: art_get_insert art_get_create)
    have "length (leaves (documents (snd (storage_insert_document ?m1 v dbq)))) = 1"
      using flat_insert [OF v(1) fresh] q(2) none by simp
    from that [OF v(2) this other] show thesis .
  qed
  have "length (leaves (documents db1)) = Suc (length (leaves (documents db_init)))"
    unfolding db1(2) none by simp
  from ensure_collection_duplicates [OF init_caches(3) db1(1) this db1(3), of "''t1''"]
  obtain db2 where "ensure_virtual_collection_exists ?m2 ''t1'' ''l'' ''c'' db1 = Inr db2"
      "length (leaves (documents db2)) = 2"
    unfolding db1(2) by (metis Suc_1)
  with db1(1) show ?thesis by blast
qed

lemma update_lengthens_strings_witness:
  "let db = replace_document ''u'' (Some (JObject [(''k'', JString [quote])])) db_init;
       db' = snd (storage_update_document \<lparr>now_uuid = 0, now = 7, nsec = 0, thread_id = 0\<rparr> ''u''
         (Some (JObject [])) db) in
   \<exists>s'. json_object_get (fst (storage_get_document ''u'' db')) (Some ''k'') = Some (JString s') \<and> 2 < length s'"
proof -
  let ?v = "JObject [(''k'', JString [quote])]" and ?w = "JObject [(''k'', JString [backslash, quote])]"
  let ?d = "JObject [(''k'', JString [backslash, quote]), (''modified_at'', JInteger 7)]"
  let ?db = "replace_document ''u'' (Some ?v) db_init"
  let ?m = "\<lparr>now_uuid = 0, now = 7, nsec = 0, thread_id = 0\<rparr> :: moment"
  have v: "escaped_json ?v = ?w" by code_simp
  have s: "storable ?v" unfolding storable_def reads_ok_def max_json_input_size_def by code_simp
  have d: "storable ?d" unfolding storable_def reads_ok_def max_json_input_size_def by code_simp
  note one = one_document [OF s, of ?db "''u''", OF refl, unfolded v]
  have "set_field (merge_fields (Some (JObject [])) (json_deep_copy (Some ?w)))
      ''modified_at'' (json_create_integer 7) = Some ?d \<and> json_deep_copy (Some ?d) = Some ?d"
    by code_simp
  then have "storage_update_document ?m ''u'' (Some (JObject [])) ?db =
      (Some ?d, replace_document ''u'' (Some ?d) (snd (find_document ''u'' ?db)))"
    using one(2) by (simp add: storage_update_document_def storage_get_document_def case_prod_beta Let_def
        json_stringify_def json_get_type_def)
  from update_lengthens_strings [OF one(1,2) _ _ _ _ this d, of "''k''" "[backslash, quote]"] this
  show ?thesis by (simp add: Let_def plain_char_def escape_char_def numeral_2_eq_2)
qed

end
