(* ===== verification/Crc32.thy ===== *)
theory Crc32
  imports Prelude
begin

text \<open>
  The checksum of pages and log entries, \<^verbatim>\<open>jdbx_crc32\<close> of
  \<^verbatim>\<open>src/src/components/storage/jdbx_page_manager.c\<close>: the table of 256 words, the loop over the
  bytes, and what it detects.
\<close>

unbundle bit_operations_syntax

type_synonym byte = "8 word"

section \<open>The code\<close>

definition crc32_poly :: c_uint where
  "crc32_poly = 0xEDB88320"

definition crc32_bit :: "c_uint \<Rightarrow> c_uint" where
  "crc32_bit crc = drop_bit 1 crc XOR (if crc AND 1 \<noteq> 0 then crc32_poly else 0)"

definition init_crc32_table :: "c_uint list" where
  "init_crc32_table = map (\<lambda>i. (crc32_bit ^^ 8) (of_nat i)) [0..<256]"

definition crc32_step :: "c_uint \<Rightarrow> byte \<Rightarrow> c_uint" where
  "crc32_step crc b = drop_bit 8 crc XOR init_crc32_table ! unat ((crc XOR ucast b) AND 0xFF)"

definition jdbx_crc32 :: "byte list \<Rightarrow> c_uint" where
  "jdbx_crc32 data = foldl crc32_step 0xFFFFFFFF data XOR 0xFFFFFFFF"

section \<open>The table is eight steps of the register\<close>

text \<open>The definition of the checksum: one bit after the other, lowest first.\<close>

definition crc32_reference :: "byte list \<Rightarrow> c_uint" where
  "crc32_reference data = foldl (\<lambda>crc b. (crc32_bit ^^ 8) (crc XOR ucast b)) 0xFFFFFFFF data XOR 0xFFFFFFFF"

lemma crc32_bit_xor: "crc32_bit (x XOR y) = crc32_bit x XOR crc32_bit y"
proof -
  have "(x XOR y) AND 1 \<noteq> 0 \<longleftrightarrow> (x AND 1 \<noteq> 0) \<noteq> (y AND 1 \<noteq> 0)"
    by (simp add: and_one_eq odd_iff_mod_2_eq_one [symmetric] flip: bit_0)
      (simp add: bit_simps)
  then show ?thesis
    by (auto simp: crc32_bit_def ac_simps bit_simps intro!: bit_word_eqI)
qed

lemma crc32_bits_xor: "(crc32_bit ^^ n) (x XOR y) = (crc32_bit ^^ n) x XOR (crc32_bit ^^ n) y"
  by (induction n) (simp_all add: crc32_bit_xor)

lemma crc32_bit_even: "\<not> bit x 0 \<Longrightarrow> crc32_bit x = drop_bit 1 x"
  by (simp add: crc32_bit_def and_one_eq odd_iff_mod_2_eq_one [symmetric] flip: bit_0)

lemma crc32_bits_high:
  assumes "\<And>i. i < n \<Longrightarrow> \<not> bit x i"
  shows "(crc32_bit ^^ n) x = drop_bit n x"
  using assms
proof (induction n)
  case (Suc n)
  then have "(crc32_bit ^^ n) x = drop_bit n x" by simp
  moreover have "\<not> bit (drop_bit n x) 0" using Suc.prems [of n] by (simp add: bit_drop_bit_eq)
  ultimately show ?case by (simp add: crc32_bit_even drop_bit_Suc [symmetric] ac_simps)
qed simp

lemma table_nth: "i < 256 \<Longrightarrow> init_crc32_table ! i = (crc32_bit ^^ 8) (of_nat i)"
  by (simp add: init_crc32_table_def)

lemma low_byte: "(0xFF :: c_uint) = mask 8"
  by (simp add: mask_eq_exp_minus_1)

lemma crc32_step_bits: "crc32_step crc b = (crc32_bit ^^ 8) (crc XOR ucast b)"
proof -
  let ?x = "crc XOR ucast b :: c_uint"
  have x: "?x = (?x AND NOT (mask 8)) XOR (?x AND mask 8)"
    by (rule bit_word_eqI) (auto simp: bit_simps)
  have "(crc32_bit ^^ 8) (?x AND NOT (mask 8)) = drop_bit 8 (?x AND NOT (mask 8))"
    by (rule crc32_bits_high) (simp add: bit_simps)
  also have "\<dots> = drop_bit 8 crc"
    by (rule bit_word_eqI) (auto simp: bit_simps dest: bit_imp_le_length)
  finally have hi: "(crc32_bit ^^ 8) (?x AND NOT (mask 8)) = drop_bit 8 crc" .
  have "unat (?x AND mask 8) < 2 ^ 8"
    by (simp only: unsigned_take_bit_eq take_bit_nat_less_exp flip: take_bit_eq_mask)
  then have "init_crc32_table ! unat (?x AND mask 8) = (crc32_bit ^^ 8) (?x AND mask 8)"
    by (simp add: table_nth)
  with hi trans [OF arg_cong [OF x, of "crc32_bit ^^ 8"] crc32_bits_xor] show ?thesis
    unfolding crc32_step_def low_byte by simp
qed

lemma crc32_bitwise: "jdbx_crc32 data = crc32_reference data"
  unfolding jdbx_crc32_def crc32_reference_def crc32_step_bits by simp

text \<open>
  C37. The checksum computed with the table is the bit-serial CRC-32 of the reversed
  polynomial 0xEDB88320.
\<close>

theorem crc32_table_correct: "jdbx_crc32 data = crc32_reference data"
  by (rule crc32_bitwise)

section \<open>What it detects\<close>

lemma crc32_bit_zero:
  assumes "crc32_bit z = 0"
  shows "z = 0"
proof (cases "bit z 0")
  case True
  then have "z AND 1 \<noteq> 0" by (simp add: and_one_eq odd_iff_mod_2_eq_one [symmetric] flip: bit_0)
  then have "bit (crc32_bit z) 31 = (bit (drop_bit 1 z) 31 \<noteq> bit crc32_poly 31)"
    by (simp add: crc32_bit_def bit_simps)
  moreover have "bit crc32_poly 31" by (simp add: crc32_poly_def bit_numeral_rec)
  moreover have "\<not> bit (drop_bit 1 z) 31" by (simp add: bit_simps) (use bit_imp_le_length in fastforce)
  ultimately show ?thesis using assms by simp
next
  case False
  with assms have d: "drop_bit 1 z = 0" by (simp add: crc32_bit_even)
  have "\<not> bit z n" for n
  proof (cases n)
    case (Suc m)
    have "\<not> bit (drop_bit 1 z) m" unfolding d by simp
    with Suc show ?thesis by (simp add: bit_drop_bit_eq)
  qed (use False in simp)
  then show ?thesis by (simp add: bit_eq_iff)
qed

lemma crc32_bits_inject: "(crc32_bit ^^ n) x = (crc32_bit ^^ n) y \<longleftrightarrow> x = y"
proof (induction n)
  case (Suc n)
  have "crc32_bit a = crc32_bit b \<Longrightarrow> a = b" for a b
    using crc32_bit_zero [of "a XOR b"] by (auto simp: crc32_bit_xor bit_eq_iff bit_simps)
  with Suc show ?case by auto
qed simp

lemma crc32_bits_byte:
  "drop_bit 24 v = 0 \<Longrightarrow> (crc32_bit ^^ 8) x XOR v = (crc32_bit ^^ 8) (x XOR push_bit 8 v)"
proof -
  assume v: "drop_bit 24 v = 0"
  have "\<not> bit v (n + 24)" for n
    using arg_cong [OF v, of "\<lambda>w. bit w n"] by (simp add: bit_drop_bit_eq ac_simps)
  then have small: "bit v n \<Longrightarrow> n < 24" for n by (metis le_add_diff_inverse2 not_less)
  have "(crc32_bit ^^ 8) (push_bit 8 v) = drop_bit 8 (push_bit 8 v)"
    by (rule crc32_bits_high) (simp add: bit_simps)
  also have "\<dots> = v" by (rule bit_word_eqI) (use small in \<open>auto simp: bit_simps\<close>)
  finally show ?thesis by (simp add: crc32_bits_xor)
qed

text \<open>Four bytes as a little-endian word.\<close>

definition le_word :: "byte \<Rightarrow> byte \<Rightarrow> byte \<Rightarrow> byte \<Rightarrow> c_uint" where
  "le_word a b c d = ucast a XOR push_bit 8 (ucast b XOR push_bit 8 (ucast c XOR push_bit 8 (ucast d)))"

lemma crc32_four_bytes:
  "foldl crc32_step s [a, b, c, d] = (crc32_bit ^^ 32) (s XOR le_word a b c d)"
proof -
  let ?B = "crc32_bit ^^ 8"
  have small: "\<not> bit (ucast x :: c_uint) n" if "8 \<le> n" for x :: byte and n
    using that bit_imp_le_length [of x n] by (auto simp: bit_simps)
  have d: "drop_bit 24 (ucast d :: c_uint) = 0"
    by (rule bit_word_eqI) (simp add: bit_drop_bit_eq small)
  have cd: "drop_bit 24 (ucast c XOR push_bit 8 (ucast d) :: c_uint) = 0"
    by (rule bit_word_eqI) (simp add: bit_drop_bit_eq bit_xor_iff bit_push_bit_iff small)
  have bcd: "drop_bit 24 (ucast b XOR push_bit 8 (ucast c XOR push_bit 8 (ucast d)) :: c_uint) = 0"
    by (rule bit_word_eqI) (auto simp: bit_drop_bit_eq bit_xor_iff bit_push_bit_iff small)
  have "foldl crc32_step s [a, b, c, d] =
      ?B (?B (?B (?B (s XOR ucast a) XOR ucast b) XOR ucast c) XOR ucast d)"
    by (simp add: crc32_step_bits)
  also have "\<dots> = ?B (?B (?B (?B (s XOR le_word a b c d))))"
    by (simp only: le_word_def crc32_bits_byte [OF bcd, symmetric] crc32_bits_byte [OF cd, symmetric]
        crc32_bits_byte [OF d, symmetric] xor.assoc [symmetric])
  also have "\<dots> = (crc32_bit ^^ 32) (s XOR le_word a b c d)"
    using funpow_add [of "8 + 8 + 8" 8 crc32_bit] funpow_add [of "8 + 8" 8 crc32_bit] funpow_add [of 8 8 crc32_bit]
    by simp
  finally show ?thesis .
qed

lemma xor_cancel: "x XOR z = y XOR z \<longleftrightarrow> x = y" "z XOR x = z XOR y \<longleftrightarrow> x = y" for x y z :: c_uint
  by (auto simp: bit_eq_iff bit_xor_iff)

lemma byte_bits: "8 \<le> n \<Longrightarrow> \<not> bit (x :: byte) n"
  using bit_imp_le_length [of x n] by auto

lemma le_word_bits:
  assumes "n < 8"
  shows "bit (le_word a b c d) n = bit a n" "bit (le_word a b c d) (n + 8) = bit b n"
    "bit (le_word a b c d) (n + 16) = bit c n" "bit (le_word a b c d) (n + 24) = bit d n"
  using assms by (simp_all add: le_word_def bit_xor_iff bit_push_bit_iff bit_ucast_iff byte_bits)

lemma byte_eqI: "(\<And>n. n < 8 \<Longrightarrow> bit a n = bit b n) \<Longrightarrow> a = b" for a b :: byte
  by (rule bit_word_eqI) simp

lemma le_word_inject:
  assumes "le_word a b c d = le_word a' b' c' d'"
  shows "a = a' \<and> b = b' \<and> c = c' \<and> d = d'"
proof (intro conjI)
  show "a = a'" by (rule byte_eqI) (metis assms le_word_bits(1))
  show "b = b'" by (rule byte_eqI) (metis assms le_word_bits(2))
  show "c = c'" by (rule byte_eqI) (metis assms le_word_bits(3))
  show "d = d'" by (rule byte_eqI) (metis assms le_word_bits(4))
qed

lemma crc32_step_inject: "foldl crc32_step s q = foldl crc32_step s' q \<longleftrightarrow> s = s'"
  by (induction q arbitrary: s s') (simp_all add: crc32_step_bits crc32_bits_inject xor_cancel)

lemma crc32_four_differ:
  assumes "length u = 4" and "length v = 4" and "u \<noteq> v"
  shows "jdbx_crc32 (p @ u @ q) \<noteq> jdbx_crc32 (p @ v @ q)"
proof -
  obtain a b c d where u: "u = [a, b, c, d]"
    using assms(1) by (auto simp: numeral_eq_Suc length_Suc_conv)
  obtain a' b' c' d' where v: "v = [a', b', c', d']"
    using assms(2) by (auto simp: numeral_eq_Suc length_Suc_conv)
  let ?s = "foldl crc32_step 0xFFFFFFFF p"
  have "foldl crc32_step ?s u \<noteq> foldl crc32_step ?s v"
    using assms(3) le_word_inject [of a b c d a' b' c' d']
    unfolding u v crc32_four_bytes crc32_bits_inject xor_cancel by auto
  then show ?thesis
    unfolding jdbx_crc32_def foldl_append crc32_step_inject xor_cancel .
qed

text \<open>
  Two pieces of data of the same length that differ only within four consecutive bytes
  never have the same checksum.
\<close>

theorem crc32_detects_burst:
  assumes "length u = 4" and "length v = 4" and "u \<noteq> v"
  shows "jdbx_crc32 (p @ u @ q) \<noteq> jdbx_crc32 (p @ v @ q)"
  using assms by (rule crc32_four_differ)

lemma crc32_detects_burst_witness: "jdbx_crc32 ([1, 2] @ [0, 0, 0, 0] @ [3]) \<noteq> jdbx_crc32 ([1, 2] @ [0, 0, 7, 0] @ [3])"
  by (rule crc32_detects_burst) simp_all

end
