(* ===== verification/Page_Manager.thy ===== *)
theory Page_Manager
  imports Crc32
begin

text \<open>
  The single-file page manager with its log,
  \<^verbatim>\<open>src/src/components/storage/jdbx_page_manager.c\<close>.  The mapped file is the header page, the
  bitmap, the ring of log pages and the data pages.  Log pages and the header are kept as
  structures (without the checksum of a log page, which is written and never read), data pages
  as bytes.  A store beyond the end of a log page is the value
  \<open>Past_Page\<close>, a page number that fails the assertion of \<^verbatim>\<open>jdbx_get_page_ptr\<close> is \<open>Bad_Page\<close>,
  and the replay of an entry onto the pages in front of the data is \<open>Reserved_Page\<close>; the
  model stops there.  \<^verbatim>\<open>mmap\<close> and \<^verbatim>\<open>msync\<close> succeed, and a new file reads as zeros.
\<close>

section \<open>Data\<close>

record wal_entry =
  we_sequence :: c_size
  we_transaction :: c_size
  we_page :: c_size
  we_checksum :: c_uint
  we_data :: "byte list"

record wal_page =
  wp_is_wal :: bool
  wp_sequence_start :: c_size
  wp_sequence_end :: c_size
  wp_entry_count :: c_uint
  wp_used_bytes :: c_uint
  wp_entries :: "wal_entry list"

record jdbx_header =
  jh_magic :: "byte list"
  jh_version :: c_uint
  jh_page_size :: c_uint
  jh_total_pages :: c_size
  jh_free_pages :: c_size
  jh_root_directory_page :: c_size
  jh_bitmap_start_page :: c_size
  jh_transaction_id :: c_size
  jh_last_checkpoint :: c_size
  jh_wal_start_page :: c_size
  jh_wal_current_page :: c_size
  jh_wal_current_offset :: c_size
  jh_wal_checkpoint_page :: c_size
  jh_wal_sequence :: c_size
  jh_checksum :: c_uint

record page_manager =
  pm_header :: jdbx_header
  pm_bitmap :: "c_size list"
  pm_wal :: "c_size \<Rightarrow> wal_page"
  pm_data :: "c_size \<Rightarrow> byte list"

datatype pm_fault = Past_Page | Bad_Page | Reserved_Page

definition jdbx_page_size :: nat where
  "jdbx_page_size = 4096"

definition jdbx_wal_pages :: c_size where
  "jdbx_wal_pages = 256"

text \<open>The sizes of the packed \<^verbatim>\<open>wal_page_t\<close> and \<^verbatim>\<open>wal_entry_t\<close>.\<close>

definition wal_page_header_size :: nat where
  "wal_page_header_size = 80"

definition wal_entry_header_size :: nat where
  "wal_entry_header_size = 32"

section \<open>The header and its checksum\<close>

text \<open>The bytes in front of the checksum field, little-endian and packed.\<close>

definition le_bytes :: "nat \<Rightarrow> c_size \<Rightarrow> byte list" where
  "le_bytes n w = map (\<lambda>i. ucast (drop_bit (8 * i) w)) [0..<n]"

definition header_bytes :: "jdbx_header \<Rightarrow> byte list" where
  "header_bytes h =
     jh_magic h @ le_bytes 4 (ucast (jh_version h)) @ le_bytes 4 (ucast (jh_page_size h)) @
     le_bytes 8 (jh_total_pages h) @ le_bytes 8 (jh_free_pages h) @
     le_bytes 8 (jh_root_directory_page h) @ le_bytes 8 (jh_bitmap_start_page h) @
     le_bytes 8 (jh_transaction_id h) @ le_bytes 8 (jh_last_checkpoint h) @
     le_bytes 8 (jh_wal_start_page h) @ le_bytes 8 (jh_wal_current_page h) @
     le_bytes 8 (jh_wal_current_offset h) @ le_bytes 8 (jh_wal_checkpoint_page h) @
     le_bytes 8 (jh_wal_sequence h)"

definition update_header_checksum :: "page_manager \<Rightarrow> page_manager" where
  "update_header_checksum pm =
     pm\<lparr>pm_header := (pm_header pm)\<lparr>jh_checksum := jdbx_crc32 (header_bytes (pm_header pm))\<rparr>\<rparr>"

section \<open>A new file\<close>

definition calculate_bitmap_pages :: "c_size \<Rightarrow> c_size" where
  "calculate_bitmap_pages total_pages = (total_pages + 32768 - 1) div 32768"

definition mark_used :: "c_size \<Rightarrow> c_size list \<Rightarrow> c_size list" where
  "mark_used page bitmap =
     (let i = unat page div 64 in bitmap[i := (bitmap ! i) OR push_bit (unat page mod 64) 1])"

definition page_used :: "c_size list \<Rightarrow> nat \<Rightarrow> bool" where
  "page_used bitmap page = bit (bitmap ! (page div 64)) (page mod 64)"

definition empty_wal_page :: wal_page where
  "empty_wal_page =
     \<lparr>wp_is_wal = True, wp_sequence_start = 0, wp_sequence_end = 0, wp_entry_count = 0,
      wp_used_bytes = of_nat wal_page_header_size, wp_entries = []\<rparr>"

text \<open>The number of bitmap pages is passed along, as \<^verbatim>\<open>pm->bitmap_pages\<close> is.\<close>

definition init_integrated_wal :: "c_size \<Rightarrow> page_manager \<Rightarrow> page_manager" where
  "init_integrated_wal bitmap_pages pm =
     (let start = jh_bitmap_start_page (pm_header pm) + bitmap_pages;
          pages = map (\<lambda>i. start + of_nat i) [0..<unat jdbx_wal_pages]
      in pm\<lparr>pm_wal := foldl (\<lambda>w p. w(p := empty_wal_page)) (pm_wal pm) pages,
            pm_bitmap := foldl (\<lambda>b p. mark_used p b) (pm_bitmap pm) pages,
            pm_header := (pm_header pm)
              \<lparr>jh_wal_start_page := start, jh_wal_current_page := start,
               jh_wal_current_offset := of_nat wal_page_header_size,
               jh_wal_checkpoint_page := start, jh_wal_sequence := 1,
               jh_root_directory_page := start + jdbx_wal_pages\<rparr>\<rparr>)"

definition blank_file :: "c_size \<Rightarrow> page_manager" where
  "blank_file total_pages =
     \<lparr>pm_header = \<lparr>jh_magic = map of_char ''JDBX'', jh_version = 2, jh_page_size = 4096,
        jh_total_pages = total_pages, jh_free_pages = 0, jh_root_directory_page = 0,
        jh_bitmap_start_page = 1, jh_transaction_id = 1, jh_last_checkpoint = 1,
        jh_wal_start_page = 0, jh_wal_current_page = 0, jh_wal_current_offset = 0,
        jh_wal_checkpoint_page = 0, jh_wal_sequence = 0, jh_checksum = 0\<rparr>,
      pm_bitmap = replicate (unat (calculate_bitmap_pages total_pages) * 512) 0,
      pm_wal = (\<lambda>_. empty_wal_page\<lparr>wp_is_wal := False, wp_used_bytes := 0\<rparr>),
      pm_data = (\<lambda>_. replicate jdbx_page_size 0)\<rparr>"

definition root_directory_image :: "jdbx_header \<Rightarrow> byte list" where
  "root_directory_image h =
     (let page = (\<lambda>checksum :: c_uint. le_bytes 2 3 @ le_bytes 2 0 @ le_bytes 4 (ucast checksum) @
                    le_bytes 8 (jh_root_directory_page h) @ le_bytes 8 0 @ le_bytes 8 (jh_transaction_id h) @
                    replicate (jdbx_page_size - 32) 0)
      in page (jdbx_crc32 (page 0)))"

definition init_new_file :: "c_size \<Rightarrow> page_manager" where
  "init_new_file initial_size =
     (let total_pages = (if initial_size div 4096 < 1000 then 1000 else initial_size div 4096);
          bitmap_pages = calculate_bitmap_pages total_pages;
          pm = blank_file total_pages;
          pm = pm\<lparr>pm_bitmap := foldl (\<lambda>b p. mark_used p b) (pm_bitmap pm)
                    (map of_nat [0..<unat (1 + bitmap_pages)])\<rparr>;
          pm = init_integrated_wal bitmap_pages pm;
          pm = pm\<lparr>pm_data := (pm_data pm)(jh_root_directory_page (pm_header pm) := root_directory_image (pm_header pm)),
                  pm_bitmap := mark_used (jh_root_directory_page (pm_header pm)) (pm_bitmap pm),
                  pm_header := (pm_header pm)
                    \<lparr>jh_free_pages := total_pages - 1 - bitmap_pages - jdbx_wal_pages - 1\<rparr>\<rparr>
      in update_header_checksum pm)"

section \<open>Writing the log\<close>

definition next_wal_page :: "jdbx_header \<Rightarrow> c_size \<Rightarrow> c_size" where
  "next_wal_page h page =
     (if jh_wal_start_page h + jdbx_wal_pages \<le> page + 1 then jh_wal_start_page h else page + 1)"

definition entry_size :: "byte list \<Rightarrow> nat" where
  "entry_size data = wal_entry_header_size + length data"

definition append_entry :: "c_size \<Rightarrow> byte list \<Rightarrow> page_manager \<Rightarrow> pm_fault + page_manager" where
  "append_entry page_id data pm =
     (let h = pm_header pm; wp = pm_wal pm (jh_wal_current_page h);
          e = \<lparr>we_sequence = jh_wal_sequence h, we_transaction = jh_transaction_id h, we_page = page_id,
               we_checksum = jdbx_crc32 data, we_data = data\<rparr>
      in if jdbx_page_size < unat (wp_used_bytes wp) + entry_size data then Inl Past_Page
         else Inr (pm\<lparr>pm_header := h\<lparr>jh_wal_sequence := jh_wal_sequence h + 1\<rparr>,
                      pm_wal := (pm_wal pm)(jh_wal_current_page h := wp
                        \<lparr>wp_entries := take (unat (wp_entry_count wp)) (wp_entries wp) @ [e],
                         wp_sequence_end := jh_wal_sequence h,
                         wp_entry_count := wp_entry_count wp + 1,
                         wp_used_bytes := wp_used_bytes wp + of_nat (entry_size data)\<rparr>)\<rparr>))"

definition jdbx_wal_write :: "c_size \<Rightarrow> byte list \<Rightarrow> page_manager \<Rightarrow> pm_fault + (bool \<times> page_manager)" where
  "jdbx_wal_write page_id data pm =
     (if jdbx_page_size < length data then Inr (False, pm)
      else
        (let h = pm_header pm; wp = pm_wal pm (jh_wal_current_page h);
             available = unat ((4096 :: c_uint) - wp_used_bytes wp)
         in if entry_size data \<le> available then map_sum id (Pair True) (append_entry page_id data pm)
            else
              (let n = next_wal_page h (jh_wal_current_page h) in
               if n = jh_wal_checkpoint_page h then Inr (False, pm)
               else map_sum id (Pair True) (append_entry page_id data
                 (pm\<lparr>pm_header := h\<lparr>jh_wal_current_page := n\<rparr>,
                     pm_wal := (pm_wal pm)(n := (pm_wal pm n)
                       \<lparr>wp_sequence_start := jh_wal_sequence h, wp_sequence_end := jh_wal_sequence h,
                        wp_entry_count := 0, wp_used_bytes := of_nat wal_page_header_size,
                        wp_entries := []\<rparr>)\<rparr>)))))"

section \<open>Recovery and checkpoints\<close>

text \<open>The entries of one log page; \<open>False\<close> is a checksum that does not match.\<close>

fun apply_entries ::
  "jdbx_header \<Rightarrow> wal_entry list \<Rightarrow> (c_size \<Rightarrow> byte list) \<Rightarrow> pm_fault + (bool \<times> (c_size \<Rightarrow> byte list))" where
  "apply_entries h [] pages = Inr (True, pages)"
| "apply_entries h (e # es) pages =
     (if jh_last_checkpoint h < we_transaction e then
        (if jdbx_crc32 (we_data e) \<noteq> we_checksum e then Inr (False, pages)
         else if jh_total_pages h \<le> we_page e then Inl Bad_Page
         else if we_page e < jh_root_directory_page h then Inl Reserved_Page
         else apply_entries h es (pages(we_page e :=
                we_data e @ drop (length (we_data e)) (pages (we_page e)))))
      else apply_entries h es pages)"

text \<open>The loop over the ring, with the number of pages it may still visit.\<close>

fun recover_pages ::
  "nat \<Rightarrow> c_size \<Rightarrow> page_manager \<Rightarrow> (pm_fault + (bool \<times> (c_size \<Rightarrow> byte list))) option" where
  "recover_pages 0 page pm = None"
| "recover_pages (Suc fuel) page pm =
     (let h = pm_header pm; wp = pm_wal pm page in
      if jh_total_pages h \<le> page then Some (Inl Bad_Page)
      else if \<not> wp_is_wal wp then Some (Inr (True, pm_data pm))
      else case apply_entries h (take (unat (wp_entry_count wp)) (wp_entries wp)) (pm_data pm) of
             Inr (True, pages) \<Rightarrow>
               if page = jh_wal_current_page h then Some (Inr (True, pages))
               else recover_pages fuel (next_wal_page h page) (pm\<lparr>pm_data := pages\<rparr>)
           | r \<Rightarrow> Some r)"

definition mark_checkpoint :: "page_manager \<Rightarrow> page_manager" where
  "mark_checkpoint pm =
     update_header_checksum (pm\<lparr>pm_header := (pm_header pm)
       \<lparr>jh_last_checkpoint := jh_transaction_id (pm_header pm),
        jh_wal_checkpoint_page := jh_wal_current_page (pm_header pm)\<rparr>\<rparr>)"

definition jdbx_wal_recover :: "page_manager \<Rightarrow> (pm_fault + (bool \<times> page_manager)) option" where
  "jdbx_wal_recover pm =
     map_option (\<lambda>r. case r of
         Inl f \<Rightarrow> Inl f
       | Inr (True, pages) \<Rightarrow> Inr (True, mark_checkpoint (pm\<lparr>pm_data := pages\<rparr>))
       | Inr (False, pages) \<Rightarrow> Inr (False, pm\<lparr>pm_data := pages\<rparr>))
       (recover_pages (unat jdbx_wal_pages) (jh_wal_checkpoint_page (pm_header pm)) pm)"

definition jdbx_checkpoint :: "page_manager \<Rightarrow> page_manager" where
  "jdbx_checkpoint pm =
     (let h = pm_header pm in
      if jh_wal_checkpoint_page h = jh_wal_current_page h \<and> jh_last_checkpoint h = jh_transaction_id h
      then pm else mark_checkpoint pm)"

text \<open>What a closed file holds, and opening a file.\<close>

definition jdbx_close :: "page_manager \<Rightarrow> page_manager" where
  "jdbx_close pm = jdbx_checkpoint pm"

definition jdbx_open :: "page_manager \<Rightarrow> (pm_fault + page_manager option) option" where
  "jdbx_open pm =
     (let h = pm_header pm in
      if jh_magic h \<noteq> map of_char ''JDBX'' then Some (Inr None)
      else if jh_version h \<noteq> 2 then Some (Inr None)
      else if jdbx_crc32 (header_bytes h) \<noteq> jh_checksum h then Some (Inr None)
      else if jh_wal_current_page h \<noteq> jh_wal_checkpoint_page h \<or> jh_last_checkpoint h < jh_transaction_id h
      then map_option (map_sum id (\<lambda>(_, pm). Some pm)) (jdbx_wal_recover pm)
      else Some (Inr (Some pm)))"

end
