(* ===== verification/Page_Props.thy ===== *)
theory Page_Props
  imports Page_Manager
begin

text \<open>
  The layout of a new file, the log as a list of page images, and what opening a file checks.
\<close>

section \<open>The header checksum\<close>

definition header_valid :: "jdbx_header \<Rightarrow> bool" where
  "header_valid h \<longleftrightarrow> jdbx_crc32 (header_bytes h) = jh_checksum h"

lemma header_bytes_checksum [simp]: "header_bytes (h\<lparr>jh_checksum := c\<rparr>) = header_bytes h"
  by (simp add: header_bytes_def)

lemma update_header_valid: "header_valid (pm_header (update_header_checksum pm))"
  by (simp add: header_valid_def update_header_checksum_def)

lemma le_bytes_8: "le_bytes 8 w = le_bytes 4 w @ le_bytes 4 (drop_bit 32 w)"
proof -
  have "[0..<8] = [0..<4] @ map (\<lambda>i. i + 4) [0..<(4 :: nat)]" by (simp add: upt_rec)
  then show ?thesis by (simp add: le_bytes_def comp_def algebra_simps)
qed

lemma le_bytes_4_inject: "le_bytes 4 v = le_bytes 4 w \<Longrightarrow> take_bit 32 v = take_bit 32 w"
proof -
  assume e: "le_bytes 4 v = le_bytes 4 w"
  have b: "bit (le_bytes 4 u ! (n div 8)) (n mod 8) = bit u n" if "n < 32" for u :: c_size and n
  proof -
    have "n div 8 < 4" using that by simp
    then show ?thesis by (simp add: le_bytes_def bit_ucast_iff bit_drop_bit_eq)
  qed
  have "bit v n = bit w n" if "n < 32" for n
    using b [OF that, of v] b [OF that, of w] e by simp
  then show ?thesis by (auto intro!: bit_word_eqI simp: bit_take_bit_iff)
qed

text \<open>A header that differs from a valid one in the low half of the sequence number alone is not valid.\<close>

lemma sequence_invalidates:
  assumes "header_valid h" and "unat (jh_wal_sequence h) < 2 ^ 32" and "unat v < 2 ^ 32"
    and "v \<noteq> jh_wal_sequence h"
  shows "\<not> header_valid (h\<lparr>jh_wal_sequence := v\<rparr>)"
proof -
  let ?w = "jh_wal_sequence h"
  obtain p where p: "\<And>v. header_bytes (h\<lparr>jh_wal_sequence := v\<rparr>) = p @ le_bytes 4 v @ le_bytes 4 (drop_bit 32 v)"
    unfolding header_bytes_def by (simp add: le_bytes_8 flip: append_assoc)
  have len: "length (le_bytes 4 v) = 4" for v by (simp add: le_bytes_def)
  have high: "drop_bit 32 u = 0" if "unat u < 2 ^ 32" for u :: c_size
    using that by (simp add: drop_bit_eq_div unat_div word_unat_eq_iff)
  have low: "take_bit 32 u = u" if "unat u < 2 ^ 32" for u :: c_size
    using that by (simp add: word_unat_eq_iff unsigned_take_bit_eq take_bit_nat_eq_self)
  have "le_bytes 4 v \<noteq> le_bytes 4 ?w"
    using le_bytes_4_inject [of v ?w] low [OF assms(2)] low [OF assms(3)] assms(4) by auto
  from crc32_four_differ [OF len len this]
  have "jdbx_crc32 (p @ le_bytes 4 v @ le_bytes 4 0) \<noteq> jdbx_crc32 (p @ le_bytes 4 ?w @ le_bytes 4 0)" .
  moreover have "header_bytes h = p @ le_bytes 4 ?w @ le_bytes 4 (drop_bit 32 ?w)"
    using p [of ?w] by simp
  ultimately show ?thesis
    using assms(1) p [of v] high [OF assms(2)] high [OF assms(3)] by (simp add: header_valid_def)
qed

section \<open>The ring of log pages\<close>

definition in_ring :: "jdbx_header \<Rightarrow> c_size \<Rightarrow> bool" where
  "in_ring h p \<longleftrightarrow> unat (jh_wal_start_page h) \<le> unat p \<and> unat p < unat (jh_wal_start_page h) + 256"

definition ring_ok :: "jdbx_header \<Rightarrow> bool" where
  "ring_ok h \<longleftrightarrow> unat (jh_root_directory_page h) = unat (jh_wal_start_page h) + 256 \<and>
     unat (jh_root_directory_page h) < unat (jh_total_pages h) \<and>
     in_ring h (jh_wal_current_page h) \<and> in_ring h (jh_wal_checkpoint_page h)"

text \<open>A log page is exactly filled by its entries.\<close>

definition log_page_ok :: "wal_page \<Rightarrow> bool" where
  "log_page_ok wp \<longleftrightarrow> wp_is_wal wp \<and> length (wp_entries wp) = unat (wp_entry_count wp) \<and>
     unat (wp_used_bytes wp) = wal_page_header_size + sum_list (map (\<lambda>e. entry_size (we_data e)) (wp_entries wp)) \<and>
     unat (wp_used_bytes wp) \<le> jdbx_page_size"

definition wal_ok :: "page_manager \<Rightarrow> bool" where
  "wal_ok pm \<longleftrightarrow> ring_ok (pm_header pm) \<and> (\<forall>p. in_ring (pm_header pm) p \<longrightarrow> log_page_ok (pm_wal pm p))"

lemma wal_okD:
  assumes "wal_ok pm"
  shows "ring_ok (pm_header pm)" "in_ring (pm_header pm) p \<Longrightarrow> log_page_ok (pm_wal pm p)"
  using assms by (simp_all add: wal_ok_def)

lemma count_small:
  assumes "log_page_ok wp"
  shows "32 * length (wp_entries wp) + 80 \<le> unat (wp_used_bytes wp)"
proof -
  have "32 * length es \<le> sum_list (map (\<lambda>e. entry_size (we_data e)) es)" for es :: "wal_entry list"
    by (induction es) (simp_all add: entry_size_def wal_entry_header_size_def)
  from this [of "wp_entries wp"] assms show ?thesis
    unfolding log_page_ok_def wal_page_header_size_def by linarith
qed

lemma next_wal_page_nat:
  assumes "ring_ok h" and "in_ring h p"
  shows "unat (next_wal_page h p) =
    (if unat p + 1 = unat (jh_wal_start_page h) + 256 then unat (jh_wal_start_page h) else unat p + 1)"
proof -
  have "unat (jh_total_pages h) < 2 ^ 64" by (rule less_le_trans [OF unsigned_less]) simp
  with assms have small: "unat (jh_wal_start_page h) + 256 < 2 ^ 64" "unat p + 1 < 2 ^ 64"
    by (simp_all add: ring_ok_def in_ring_def)
  then have "unat (jh_wal_start_page h + jdbx_wal_pages) = unat (jh_wal_start_page h) + 256"
    "unat (p + 1) = unat p + 1"
    by (simp_all add: unat_word_ariths jdbx_wal_pages_def)
  with assms show ?thesis
    by (auto simp: next_wal_page_def word_le_nat_alt in_ring_def)
qed

lemma next_in_ring: "ring_ok h \<Longrightarrow> in_ring h p \<Longrightarrow> in_ring h (next_wal_page h p)"
  by (auto simp: in_ring_def next_wal_page_nat)

section \<open>Writing\<close>

text \<open>An entry that fits is added at the end of the current page.\<close>

lemma append_entry_fits:
  assumes "wal_ok pm" and "unat (wp_used_bytes (pm_wal pm (jh_wal_current_page (pm_header pm)))) + entry_size data \<le> jdbx_page_size"
  defines "h \<equiv> pm_header pm"
  defines "wp \<equiv> pm_wal pm (jh_wal_current_page h)"
  obtains pm' where "append_entry page_id data pm = Inr pm'" "wal_ok pm'" "pm_data pm' = pm_data pm"
    "pm_header pm' = h\<lparr>jh_wal_sequence := jh_wal_sequence h + 1\<rparr>"
    "wp_entries (pm_wal pm' (jh_wal_current_page h)) = wp_entries wp @
      [\<lparr>we_sequence = jh_wal_sequence h, we_transaction = jh_transaction_id h, we_page = page_id,
        we_checksum = jdbx_crc32 data, we_data = data\<rparr>]"
    "\<And>p. p \<noteq> jh_wal_current_page h \<Longrightarrow> pm_wal pm' p = pm_wal pm p"
proof -
  have ring: "in_ring h (jh_wal_current_page h)" using wal_okD(1) [OF assms(1)] by (simp add: ring_ok_def h_def)
  then have ok: "log_page_ok wp" using wal_okD(2) [OF assms(1)] by (simp add: h_def wp_def)
  define e where "e = \<lparr>we_sequence = jh_wal_sequence h, we_transaction = jh_transaction_id h, we_page = page_id,
        we_checksum = jdbx_crc32 data, we_data = data\<rparr>"
  define wp' where "wp' = wp\<lparr>wp_entries := wp_entries wp @ [e], wp_sequence_end := jh_wal_sequence h,
    wp_entry_count := wp_entry_count wp + 1, wp_used_bytes := wp_used_bytes wp + of_nat (entry_size data)\<rparr>"
  define pm' where "pm' = pm\<lparr>pm_header := h\<lparr>jh_wal_sequence := jh_wal_sequence h + 1\<rparr>,
    pm_wal := (pm_wal pm)(jh_wal_current_page h := wp')\<rparr>"
  have fits: "unat (wp_used_bytes wp) + entry_size data \<le> 4096" using assms(2) by (simp add: wp_def h_def jdbx_page_size_def)
  have "append_entry page_id data pm = Inr pm'"
    using fits ok
    by (simp add: append_entry_def Let_def pm'_def wp'_def e_def log_page_ok_def jdbx_page_size_def flip: h_def wp_def)
  moreover have "log_page_ok wp'"
  proof -
    have "unat (wp_used_bytes wp + of_nat (entry_size data)) = unat (wp_used_bytes wp) + entry_size data"
      using fits by (simp add: unat_word_ariths unsigned_of_nat take_bit_nat_eq_self)
    moreover have "unat (wp_entry_count wp) < 4096"
      using count_small [OF ok] fits ok by (simp add: log_page_ok_def)
    then have "unat (wp_entry_count wp + 1) = Suc (unat (wp_entry_count wp))"
      by (simp add: unat_word_ariths)
    ultimately show ?thesis
      using ok fits by (simp add: log_page_ok_def wp'_def e_def jdbx_page_size_def)
  qed
  then have "wal_ok pm'"
    using assms(1) by (auto simp: wal_ok_def ring_ok_def in_ring_def pm'_def h_def)
  ultimately show ?thesis
    by (rule that) (simp_all add: pm'_def h_def wp'_def e_def)
qed

section \<open>The log from the checkpoint to the current page\<close>

definition slot :: "jdbx_header \<Rightarrow> c_size \<Rightarrow> nat" where
  "slot h p = unat p - unat (jh_wal_start_page h)"

definition log_distance :: "jdbx_header \<Rightarrow> c_size \<Rightarrow> nat" where
  "log_distance h p = (slot h (jh_wal_current_page h) + 256 - slot h p) mod 256"

definition ring_page :: "jdbx_header \<Rightarrow> c_size \<Rightarrow> nat \<Rightarrow> c_size" where
  "ring_page h p i = (next_wal_page h ^^ i) p"

definition log_from :: "jdbx_header \<Rightarrow> (c_size \<Rightarrow> wal_page) \<Rightarrow> c_size \<Rightarrow> nat \<Rightarrow> wal_entry list" where
  "log_from h w p n = concat (map (\<lambda>i. wp_entries (w (ring_page h p i))) [0..<Suc n])"

definition wal_log :: "page_manager \<Rightarrow> wal_entry list" where
  "wal_log pm =
     (let h = pm_header pm in
      log_from h (pm_wal pm) (jh_wal_checkpoint_page h) (log_distance h (jh_wal_checkpoint_page h)))"

lemma slot_less: "in_ring h p \<Longrightarrow> slot h p < 256"
  unfolding slot_def in_ring_def by linarith

lemma slot_inject: "in_ring h p \<Longrightarrow> in_ring h q \<Longrightarrow> slot h p = slot h q \<Longrightarrow> p = q"
  unfolding slot_def in_ring_def word_unat_eq_iff by linarith

lemma slot_next: "ring_ok h \<Longrightarrow> in_ring h p \<Longrightarrow> slot h (next_wal_page h p) = (slot h p + 1) mod 256"
  by (auto simp: slot_def next_wal_page_nat in_ring_def)

lemma ring_page_in: "ring_ok h \<Longrightarrow> in_ring h p \<Longrightarrow> in_ring h (ring_page h p i)"
  by (induction i) (simp_all add: ring_page_def next_in_ring)

lemma slot_ring_page: "ring_ok h \<Longrightarrow> in_ring h p \<Longrightarrow> slot h (ring_page h p i) = (slot h p + i) mod 256"
proof (induction i)
  case (Suc i)
  then have "slot h (next_wal_page h (ring_page h p i)) = (slot h (ring_page h p i) + 1) mod 256"
    by (intro slot_next ring_page_in)
  with Suc show ?case by (simp add: ring_page_def mod_Suc_eq)
qed (simp add: ring_page_def slot_less)

lemma log_distance_less: "log_distance h p < 256"
  by (simp add: log_distance_def)

lemma ring_page_distance:
  assumes "ring_ok h" and "in_ring h p" and "i < 256"
  shows "ring_page h p i = jh_wal_current_page h \<longleftrightarrow> i = log_distance h p"
proof -
  have c: "in_ring h (jh_wal_current_page h)" using assms(1) by (simp add: ring_ok_def)
  have "ring_page h p i = jh_wal_current_page h \<longleftrightarrow> slot h (ring_page h p i) = slot h (jh_wal_current_page h)"
    using slot_inject [OF ring_page_in [OF assms(1,2)] c] by auto
  also have "\<dots> \<longleftrightarrow> (slot h p + i) mod 256 = slot h (jh_wal_current_page h)"
    by (simp add: slot_ring_page [OF assms(1,2)])
  also have "\<dots> \<longleftrightarrow> i = log_distance h p"
    using slot_less [OF c] slot_less [OF assms(2)] assms(3)
    unfolding log_distance_def by (auto simp: mod_if)
  finally show ?thesis .
qed

lemma log_distance_next:
  assumes "ring_ok h" and "in_ring h p" and "p \<noteq> jh_wal_current_page h"
  shows "log_distance h p = Suc (log_distance h (next_wal_page h p))"
proof -
  have c: "in_ring h (jh_wal_current_page h)" using assms(1) by (simp add: ring_ok_def)
  have "slot h p \<noteq> slot h (jh_wal_current_page h)" using slot_inject [OF assms(2) c] assms(3) by blast
  then show ?thesis
    using slot_less [OF c] slot_less [OF assms(2)]
    unfolding log_distance_def slot_next [OF assms(1,2)] by (auto simp: mod_if)
qed

lemma log_from_Suc: "log_from h w p (Suc n) = wp_entries (w p) @ log_from h w (next_wal_page h p) n"
proof -
  have "[0..<Suc (Suc n)] = 0 # map Suc [0..<Suc n]"
    unfolding map_Suc_upt by (rule upt_conv_Cons) simp
  moreover have "ring_page h p (Suc i) = ring_page h (next_wal_page h p) i" for i
    unfolding ring_page_def by (simp only: funpow_Suc_right comp_apply)
  moreover have "ring_page h p 0 = p" by (simp add: ring_page_def)
  ultimately show ?thesis
    unfolding log_from_def by (simp del: upt_Suc add: comp_def)
qed

lemma log_from_cong:
  assumes "\<And>i. i \<le> n \<Longrightarrow> wp_entries (w (ring_page h p i)) = wp_entries (w' (ring_page h p i))"
  shows "log_from h w p n = log_from h w' p n"
  unfolding log_from_def using assms by (intro arg_cong [of _ _ concat] map_cong) auto

section \<open>Recovery\<close>

lemma apply_entries_append:
  "apply_entries h (xs @ ys) pages =
     (case apply_entries h xs pages of Inr (True, pages') \<Rightarrow> apply_entries h ys pages' | r \<Rightarrow> r)"
  by (induction xs arbitrary: pages) auto

lemma recover_pages_log:
  assumes "wal_ok pm" and "in_ring (pm_header pm) p" and "log_distance (pm_header pm) p < fuel"
  shows "recover_pages fuel p pm =
    Some (apply_entries (pm_header pm)
      (log_from (pm_header pm) (pm_wal pm) p (log_distance (pm_header pm) p)) (pm_data pm))"
  using assms
proof (induction fuel arbitrary: p pm)
  case (Suc fuel)
  let ?h = "pm_header pm"
  have ring: "ring_ok ?h" by (rule wal_okD(1) [OF Suc.prems(1)])
  have lp: "log_page_ok (pm_wal pm p)" by (rule wal_okD(2) [OF Suc.prems(1,2)])
  have valid: "\<not> jh_total_pages ?h \<le> p"
    using ring Suc.prems(2) by (simp add: ring_ok_def in_ring_def word_le_nat_alt)
  have all: "take (unat (wp_entry_count (pm_wal pm p))) (wp_entries (pm_wal pm p)) = wp_entries (pm_wal pm p)"
    using lp by (simp add: log_page_ok_def)
  show ?case
  proof (cases "p = jh_wal_current_page ?h")
    case True
    then have "log_distance ?h p = 0" by (simp add: log_distance_def)
    with True valid lp all show ?thesis
      by (auto simp: Let_def log_page_ok_def log_from_def ring_page_def split: sum.splits bool.splits)
  next
    case False
    note d = log_distance_next [OF ring Suc.prems(2) False]
    have IH: "recover_pages fuel (next_wal_page ?h p) (pm\<lparr>pm_data := pages\<rparr>) =
        Some (apply_entries ?h (log_from ?h (pm_wal pm) (next_wal_page ?h p) (log_distance ?h (next_wal_page ?h p))) pages)"
      for pages
      using Suc.IH [of "pm\<lparr>pm_data := pages\<rparr>" "next_wal_page ?h p"] Suc.prems d next_in_ring [OF ring Suc.prems(2)]
      by (simp add: wal_ok_def)
    show ?thesis
      unfolding d log_from_Suc apply_entries_append
      using valid lp all False IH
      by (auto simp: Let_def log_page_ok_def split: sum.splits bool.splits prod.splits)
  qed
qed simp

section \<open>What a write does to the log\<close>

lemma ring_fun_cong:
  assumes "jh_wal_start_page h' = jh_wal_start_page h"
  shows "next_wal_page h' = next_wal_page h" "ring_page h' = ring_page h" "slot h' = slot h"
    "log_from h' = log_from h" "in_ring h' = in_ring h"
proof -
  show n: "next_wal_page h' = next_wal_page h" using assms by (simp add: next_wal_page_def fun_eq_iff)
  show r: "ring_page h' = ring_page h" by (simp add: ring_page_def n fun_eq_iff)
  show "slot h' = slot h" "in_ring h' = in_ring h" using assms by (simp_all add: slot_def in_ring_def fun_eq_iff)
  show "log_from h' = log_from h" by (simp add: log_from_def r fun_eq_iff)
qed

lemma log_from_last: "log_from h w p (Suc n) = log_from h w p n @ wp_entries (w (ring_page h p (Suc n)))"
  by (simp add: log_from_def)

definition log_entry :: "jdbx_header \<Rightarrow> c_size \<Rightarrow> byte list \<Rightarrow> wal_entry" where
  "log_entry h page_id data =
     \<lparr>we_sequence = jh_wal_sequence h, we_transaction = jh_transaction_id h, we_page = page_id,
      we_checksum = jdbx_crc32 data, we_data = data\<rparr>"

text \<open>An entry added to the current page is added to the log.\<close>

lemma wal_log_snoc:
  assumes "ring_ok (pm_header pm)"
    and "pm_header pm' = (pm_header pm)\<lparr>jh_wal_sequence := s\<rparr>"
    and "wp_entries (pm_wal pm' (jh_wal_current_page (pm_header pm))) =
      wp_entries (pm_wal pm (jh_wal_current_page (pm_header pm))) @ es"
    and "\<And>p. p \<noteq> jh_wal_current_page (pm_header pm) \<Longrightarrow> pm_wal pm' p = pm_wal pm p"
  shows "wal_log pm' = wal_log pm @ es"
proof -
  let ?h = "pm_header pm" and ?h' = "pm_header pm'"
  let ?p = "jh_wal_checkpoint_page ?h"
  have p: "in_ring ?h ?p" using assms(1) by (simp add: ring_ok_def)
  have cong: "log_from ?h' = log_from ?h" "log_distance ?h' = log_distance ?h"
    using ring_fun_cong [of ?h' ?h] assms(2) by (simp_all add: log_distance_def fun_eq_iff)
  have cur: "ring_page ?h ?p (log_distance ?h ?p) = jh_wal_current_page ?h"
    using ring_page_distance [OF assms(1) p log_distance_less] by simp
  have "log_from ?h (pm_wal pm') ?p (log_distance ?h ?p) = log_from ?h (pm_wal pm) ?p (log_distance ?h ?p) @ es"
  proof (cases "log_distance ?h ?p")
    case 0
    then show ?thesis using cur assms(3) by (simp add: log_from_def)
  next
    case (Suc n)
    have "log_from ?h (pm_wal pm') ?p n = log_from ?h (pm_wal pm) ?p n"
    proof (rule log_from_cong)
      fix i assume "i \<le> n"
      then have "ring_page ?h ?p i \<noteq> jh_wal_current_page ?h"
        using ring_page_distance [OF assms(1) p, of i] log_distance_less [of ?h ?p] Suc by simp
      then show "wp_entries (pm_wal pm' (ring_page ?h ?p i)) = wp_entries (pm_wal pm (ring_page ?h ?p i))"
        by (simp add: assms(4))
    qed
    then show ?thesis using cur assms(3) by (simp add: Suc log_from_last)
  qed
  then show ?thesis by (simp add: wal_log_def Let_def cong) (simp add: assms(2))
qed

lemma ring_distance_arith:
  fixes a b :: nat
  assumes "a < 256" and "b < 256" and "(a + 1) mod 256 \<noteq> b"
  shows "((a + 1) mod 256 + 256 - b) mod 256 = Suc ((a + 256 - b) mod 256)"
proof (cases "a = 255")
  case True
  then have "0 < b" using assms by simp
  then obtain c where b: "b = Suc c" by (cases b) auto
  with assms(2) have "c < 255" by simp
  then have "(511 - Suc c) mod 256 = 254 - c" and "256 - Suc c = 255 - c" and "Suc (254 - c) = 255 - c"
    by (simp_all add: mod_if)
  then show ?thesis using True b by simp
next
  case False
  then have a: "a < 255" "(a + 1) mod 256 = Suc a" using assms by simp_all
  show ?thesis
  proof (cases "b \<le> a")
    case True
    then obtain d where d: "a = b + d" by (auto simp: le_iff_add)
    then have "Suc a + 256 - b = Suc d + 256" and "a + 256 - b = d + 256" and "Suc d < 256"
      using a by simp_all
    then have "(Suc a + 256 - b) mod 256 = Suc d" and "(a + 256 - b) mod 256 = d"
      by (simp_all only: mod_add_self2 mod_less Suc_lessD)
    then show ?thesis by (simp only: a)
  next
    case False
    then have "Suc a < b" using assms a by linarith
    then obtain d where d: "b = Suc (Suc (a + d))" by (auto dest!: less_imp_Suc_add)
    then have "Suc a + 256 - b = 255 - d" and "a + 256 - b = 254 - d" and "Suc (254 - d) = 255 - d"
      using assms by simp_all
    then show ?thesis using a by simp
  qed
qed

text \<open>The next page of the ring, cleared, holds nothing yet.\<close>

definition advance_page :: "page_manager \<Rightarrow> page_manager" where
  "advance_page pm =
     (let h = pm_header pm; n = next_wal_page h (jh_wal_current_page h) in
      pm\<lparr>pm_header := h\<lparr>jh_wal_current_page := n\<rparr>,
         pm_wal := (pm_wal pm)(n := (pm_wal pm n)
           \<lparr>wp_sequence_start := jh_wal_sequence h, wp_sequence_end := jh_wal_sequence h,
            wp_entry_count := 0, wp_used_bytes := of_nat wal_page_header_size, wp_entries := []\<rparr>)\<rparr>)"

lemma advance_page_ok: "wal_ok pm \<Longrightarrow> wal_ok (advance_page pm)"
proof -
  assume ok: "wal_ok pm"
  then have r: "ring_ok (pm_header pm)" and c: "in_ring (pm_header pm) (jh_wal_current_page (pm_header pm))"
    by (simp_all add: wal_ok_def ring_ok_def)
  note n = next_in_ring [OF r c]
  from ok have "ring_ok (pm_header (advance_page pm))"
    using n by (simp add: advance_page_def Let_def wal_ok_def ring_ok_def in_ring_def)
  moreover have "log_page_ok (pm_wal (advance_page pm) p)" if "in_ring (pm_header pm) p" for p
    using wal_okD(2) [OF ok that] wal_okD(2) [OF ok n]
    by (auto simp: advance_page_def Let_def log_page_ok_def wal_page_header_size_def jdbx_page_size_def)
  ultimately show ?thesis
    by (auto simp: wal_ok_def advance_page_def Let_def in_ring_def)
qed

lemma advance_page_log:
  assumes "wal_ok pm" and "next_wal_page (pm_header pm) (jh_wal_current_page (pm_header pm)) \<noteq> jh_wal_checkpoint_page (pm_header pm)"
  shows "wal_log (advance_page pm) = wal_log pm"
proof -
  let ?h = "pm_header pm"
  let ?c = "jh_wal_current_page ?h" and ?p = "jh_wal_checkpoint_page ?h"
  let ?n = "next_wal_page ?h ?c"
  define h' where "h' = ?h\<lparr>jh_wal_current_page := ?n\<rparr>"
  have r: "ring_ok ?h" and c: "in_ring ?h ?c" and p: "in_ring ?h ?p"
    using assms(1) by (simp_all add: wal_ok_def ring_ok_def)
  have n: "in_ring ?h ?n" by (rule next_in_ring [OF r c])
  have slots: "slot ?h ?n = (slot ?h ?c + 1) mod 256" "slot ?h ?n \<noteq> slot ?h ?p"
    using slot_next [OF r c] slot_inject [OF n p] assms(2) by auto
  have cong: "log_from h' = log_from ?h" "slot h' = slot ?h" "ring_page h' = ring_page ?h"
    using ring_fun_cong [of h' ?h] by (simp_all add: h'_def)
  have d: "log_distance h' ?p = Suc (log_distance ?h ?p)"
  proof -
    have "jh_wal_current_page h' = ?n" by (simp add: h'_def)
    then show ?thesis
      using ring_distance_arith [OF slot_less [OF c] slot_less [OF p]] slots
      by (simp only: log_distance_def cong not_False_eq_True)
  qed
  have r': "ring_ok h'" using r n by (simp add: h'_def ring_ok_def in_ring_def)
  have p': "in_ring h' ?p" using p by (simp add: h'_def in_ring_def)
  have ring: "ring_page ?h ?p i = ?n \<longleftrightarrow> i = Suc (log_distance ?h ?p)" if "i < 256" for i
    using ring_page_distance [OF r' p' that] by (simp only: cong d) (simp add: h'_def)
  have last: "ring_page ?h ?p (Suc (log_distance ?h ?p)) = ?n"
    using ring log_distance_less [of h' ?p] d by simp
  have "log_from ?h (pm_wal (advance_page pm)) ?p (log_distance ?h ?p) = log_from ?h (pm_wal pm) ?p (log_distance ?h ?p)"
  proof (rule log_from_cong)
    fix i assume "i \<le> log_distance ?h ?p"
    then have "ring_page ?h ?p i \<noteq> ?n" using ring [of i] log_distance_less [of ?h ?p] by simp
    then show "wp_entries (pm_wal (advance_page pm) (ring_page ?h ?p i)) = wp_entries (pm_wal pm (ring_page ?h ?p i))"
      by (simp add: advance_page_def Let_def)
  qed
  moreover have "pm_header (advance_page pm) = h'" by (simp add: advance_page_def Let_def h'_def)
  moreover have "jh_wal_checkpoint_page h' = ?p" by (simp add: h'_def)
  moreover have "wp_entries (pm_wal (advance_page pm) ?n) = []" by (simp add: advance_page_def Let_def)
  ultimately show ?thesis
    unfolding wal_log_def Let_def by (simp only: d cong log_from_last last append_Nil2)
qed

lemma append_entry_log:
  assumes "wal_ok pm" and "unat (wp_used_bytes (pm_wal pm (jh_wal_current_page (pm_header pm)))) + entry_size data \<le> jdbx_page_size"
  obtains pm' where "append_entry page_id data pm = Inr pm'" "wal_ok pm'" "pm_data pm' = pm_data pm"
    "pm_header pm' = (pm_header pm)\<lparr>jh_wal_sequence := jh_wal_sequence (pm_header pm) + 1\<rparr>"
    "wal_log pm' = wal_log pm @ [log_entry (pm_header pm) page_id data]"
proof -
  note ring = wal_okD(1) [OF assms(1)]
  show ?thesis
    by (rule append_entry_fits [OF assms(1,2), of page_id], rule that, assumption+)
      (rule wal_log_snoc [OF ring], auto simp: log_entry_def)
qed

text \<open>A record of at most 3984 bytes is refused, or added to the log and to nothing else.\<close>

lemma jdbx_wal_write_cases:
  assumes "wal_ok pm" and "length data \<le> 3984"
  obtains (full) "jdbx_wal_write page_id data pm = Inr (False, pm)"
    "next_wal_page (pm_header pm) (jh_wal_current_page (pm_header pm)) = jh_wal_checkpoint_page (pm_header pm)"
  | (written) pm' n where "jdbx_wal_write page_id data pm = Inr (True, pm')" "wal_ok pm'"
      "pm_data pm' = pm_data pm"
      "wal_log pm' = wal_log pm @ [log_entry (pm_header pm) page_id data]"
      "pm_header pm' = (pm_header pm)\<lparr>jh_wal_current_page := n,
         jh_wal_sequence := jh_wal_sequence (pm_header pm) + 1\<rparr>"
proof -
  let ?h = "pm_header pm"
  let ?wp = "pm_wal pm (jh_wal_current_page ?h)"
  have ok: "log_page_ok ?wp" using assms(1) by (simp add: wal_ok_def ring_ok_def)
  then have used: "unat (wp_used_bytes ?wp) \<le> 4096" by (simp add: log_page_ok_def jdbx_page_size_def)
  then have av: "unat ((4096 :: c_uint) - wp_used_bytes ?wp) = 4096 - unat (wp_used_bytes ?wp)"
    by (simp add: unat_sub word_le_nat_alt)
  have small: "\<not> jdbx_page_size < length data" using assms(2) by (simp add: jdbx_page_size_def)
  show ?thesis
  proof (cases "entry_size data \<le> 4096 - unat (wp_used_bytes ?wp)")
    case True
    then have "unat (wp_used_bytes ?wp) + entry_size data \<le> jdbx_page_size"
      using used by (simp add: jdbx_page_size_def)
    from append_entry_log [OF assms(1) this, of page_id] obtain pm' where pm':
      "append_entry page_id data pm = Inr pm'" "wal_ok pm'" "pm_data pm' = pm_data pm"
      "pm_header pm' = ?h\<lparr>jh_wal_sequence := jh_wal_sequence ?h + 1\<rparr>"
      "wal_log pm' = wal_log pm @ [log_entry ?h page_id data]" .
    have "jdbx_wal_write page_id data pm = Inr (True, pm')"
      using True small pm'(1) by (simp add: jdbx_wal_write_def Let_def av)
    then show ?thesis by (rule written [OF _ pm'(2,3,5), of "jh_wal_current_page ?h"]) (simp add: pm'(4))
  next
    case False
    show ?thesis
    proof (cases "next_wal_page ?h (jh_wal_current_page ?h) = jh_wal_checkpoint_page ?h")
      case True
      with False small have "jdbx_wal_write page_id data pm = Inr (False, pm)"
        by (simp add: jdbx_wal_write_def Let_def av)
      then show ?thesis using True by (rule full)
    next
      case next_page: False
      let ?pm = "advance_page pm"
      have h: "pm_header ?pm = ?h\<lparr>jh_wal_current_page := next_wal_page ?h (jh_wal_current_page ?h)\<rparr>"
        by (simp add: advance_page_def Let_def)
      have "unat (wp_used_bytes (pm_wal ?pm (jh_wal_current_page (pm_header ?pm)))) + entry_size data \<le> jdbx_page_size"
        using assms(2) by (simp add: advance_page_def Let_def entry_size_def wal_entry_header_size_def
          wal_page_header_size_def jdbx_page_size_def)
      from append_entry_log [OF advance_page_ok [OF assms(1)] this, of page_id] obtain pm' where pm':
        "append_entry page_id data ?pm = Inr pm'" "wal_ok pm'" "pm_data pm' = pm_data ?pm"
        "pm_header pm' = (pm_header ?pm)\<lparr>jh_wal_sequence := jh_wal_sequence (pm_header ?pm) + 1\<rparr>"
        "wal_log pm' = wal_log ?pm @ [log_entry (pm_header ?pm) page_id data]" .
      have "jdbx_wal_write page_id data pm = map_sum id (Pair True) (append_entry page_id data ?pm)"
        using False small next_page by (simp add: jdbx_wal_write_def Let_def av advance_page_def)
      then have "jdbx_wal_write page_id data pm = Inr (True, pm')" by (simp add: pm'(1))
      then show ?thesis
      proof (rule written [OF _ pm'(2)])
        show "pm_data pm' = pm_data pm" by (simp add: pm'(3) advance_page_def Let_def)
        show "wal_log pm' = wal_log pm @ [log_entry ?h page_id data]"
          by (simp add: pm'(5) advance_page_log [OF assms(1) next_page] log_entry_def h)
        show "pm_header pm' = ?h\<lparr>jh_wal_current_page := next_wal_page ?h (jh_wal_current_page ?h),
            jh_wal_sequence := jh_wal_sequence ?h + 1\<rparr>"
          by (simp add: pm'(4) h)
      qed
    qed
  qed
qed

section \<open>Writing and recovering\<close>

text \<open>A sequence of writes, every one of them accepted.\<close>

fun wal_write_all :: "(c_size \<times> byte list) list \<Rightarrow> page_manager \<Rightarrow> page_manager option" where
  "wal_write_all [] pm = Some pm"
| "wal_write_all ((p, d) # ws) pm =
     (case jdbx_wal_write p d pm of Inr (True, pm') \<Rightarrow> wal_write_all ws pm' | _ \<Rightarrow> None)"

text \<open>The first bytes of a page are overwritten.\<close>

definition overlay :: "c_size \<times> byte list \<Rightarrow> (c_size \<Rightarrow> byte list) \<Rightarrow> c_size \<Rightarrow> byte list" where
  "overlay w pages = pages(fst w := snd w @ drop (length (snd w)) (pages (fst w)))"

definition log_entries :: "c_size \<Rightarrow> c_size \<Rightarrow> (c_size \<times> byte list) list \<Rightarrow> wal_entry list" where
  "log_entries txid s ws =
     map (\<lambda>i. \<lparr>we_sequence = s + of_nat i, we_transaction = txid, we_page = fst (ws ! i),
       we_checksum = jdbx_crc32 (snd (ws ! i)), we_data = snd (ws ! i)\<rparr>) [0..<length ws]"

lemma log_entries_Cons:
  "log_entries txid s (w # ws) =
     \<lparr>we_sequence = s, we_transaction = txid, we_page = fst w,
      we_checksum = jdbx_crc32 (snd w), we_data = snd w\<rparr> # log_entries txid (s + 1) ws"
proof -
  have "[0..<length (w # ws)] = 0 # map Suc [0..<length ws]"
    unfolding map_Suc_upt by (simp add: upt_rec [of 0] del: upt_Suc)
  then show ?thesis
    unfolding log_entries_def by (simp add: comp_def ac_simps del: upt_Suc)
qed

lemma wal_write_all_log:
  assumes "wal_write_all ws pm = Some pm'" and "wal_ok pm" and "\<forall>w \<in> set ws. length (snd w) \<le> 3984"
  shows "wal_ok pm' \<and> pm_data pm' = pm_data pm \<and>
    wal_log pm' = wal_log pm @ log_entries (jh_transaction_id (pm_header pm)) (jh_wal_sequence (pm_header pm)) ws \<and>
    (\<exists>c. pm_header pm' = (pm_header pm)\<lparr>jh_wal_current_page := c,
       jh_wal_sequence := jh_wal_sequence (pm_header pm) + of_nat (length ws)\<rparr>)"
  using assms
proof (induction ws arbitrary: pm)
  case Nil
  have "\<exists>c. pm_header pm = (pm_header pm)\<lparr>jh_wal_current_page := c, jh_wal_sequence := jh_wal_sequence (pm_header pm)\<rparr>"
    by (rule exI [of _ "jh_wal_current_page (pm_header pm)"]) simp
  moreover have "pm' = pm" using Nil.prems(1) by simp
  ultimately show ?case using Nil.prems(2) by (simp add: log_entries_def)
next
  case (Cons w ws)
  obtain p d where w: "w = (p, d)" by (cases w)
  from Cons.prems(3) w have "length d \<le> 3984" by simp
  with Cons.prems(2) show ?case
  proof (cases rule: jdbx_wal_write_cases [of pm d p])
    case full
    then show ?thesis using Cons.prems(1) w by simp
  next
    case (written pm1 n)
    have "wal_write_all ws pm1 = Some pm'" using Cons.prems(1) w written(1) by simp
    from Cons.IH [OF this written(2)] Cons.prems(3) written(3,4,5) show ?thesis
      by (auto simp: w log_entries_Cons log_entry_def ac_simps)
  qed
qed

lemma apply_entries_overlay:
  assumes "jh_last_checkpoint h < txid"
    and "\<forall>w \<in> set ws. jh_root_directory_page h \<le> fst w \<and> fst w < jh_total_pages h"
  shows "apply_entries h (log_entries txid s ws) pages = Inr (True, fold overlay ws pages)"
  using assms(2)
proof (induction ws arbitrary: s pages)
  case (Cons w ws)
  then have "\<not> jh_total_pages h \<le> fst w" "\<not> fst w < jh_root_directory_page h"
    by (auto simp: not_le not_less)
  with Cons assms(1) show ?case by (simp add: log_entries_Cons overlay_def [of w])
qed (simp add: log_entries_def)

lemma apply_entries_old:
  "\<forall>e \<in> set es. we_transaction e \<le> jh_last_checkpoint h \<Longrightarrow> apply_entries h es pages = Inr (True, pages)"
  by (induction es) (auto simp: not_less)

lemma jdbx_wal_recover_log:
  assumes "wal_ok pm"
  shows "jdbx_wal_recover pm =
    Some (case apply_entries (pm_header pm) (wal_log pm) (pm_data pm) of
        Inl f \<Rightarrow> Inl f
      | Inr (True, pages) \<Rightarrow> Inr (True, mark_checkpoint (pm\<lparr>pm_data := pages\<rparr>))
      | Inr (False, pages) \<Rightarrow> Inr (False, pm\<lparr>pm_data := pages\<rparr>))"
proof -
  have "in_ring (pm_header pm) (jh_wal_checkpoint_page (pm_header pm))"
    using assms by (simp add: wal_ok_def ring_ok_def)
  from recover_pages_log [OF assms this, of "unat jdbx_wal_pages"] show ?thesis
    by (simp add: jdbx_wal_recover_def wal_log_def Let_def log_distance_less jdbx_wal_pages_def)
qed

section \<open>The layout of a new file\<close>

definition new_pages :: "c_size \<Rightarrow> nat" where
  "new_pages initial_size = max 1000 (unat initial_size div 4096)"

definition new_bitmap_pages :: "c_size \<Rightarrow> nat" where
  "new_bitmap_pages initial_size = (new_pages initial_size + 32767) div 32768"

lemma new_pages_bounds: "1000 \<le> new_pages s" "new_pages s < 2 ^ 52" "new_bitmap_pages s + 300 < new_pages s"
  "new_pages s \<le> new_bitmap_pages s * 32768"
proof -
  have "unat s < 2 ^ 64" by (rule less_le_trans [OF unsigned_less]) simp
  then have "unat s div 4096 < 2 ^ 52" by (simp add: div_less_iff_less_mult)
  then show "1000 \<le> new_pages s" "new_pages s < 2 ^ 52" by (simp_all add: new_pages_def)
  then show "new_bitmap_pages s + 300 < new_pages s" "new_pages s \<le> new_bitmap_pages s * 32768"
    unfolding new_bitmap_pages_def by linarith+
qed

lemma new_total_nat: "unat (if s div 4096 < 1000 then 1000 else s div 4096) = new_pages s"
  by (auto simp: new_pages_def word_less_nat_alt unat_div max_def)

lemma new_bitmap_nat:
  "unat (calculate_bitmap_pages (if s div 4096 < 1000 then 1000 else s div 4096)) = new_bitmap_pages s"
proof -
  define tp where "tp = (if s div 4096 < 1000 then 1000 else s div 4096)"
  have "unat (tp + 32767) = new_pages s + 32767"
    using new_total_nat [of s, folded tp_def] new_pages_bounds(2) [of s] by (simp add: unat_word_ariths)
  then have "unat (calculate_bitmap_pages tp) = new_bitmap_pages s"
    by (simp add: calculate_bitmap_pages_def unat_div new_bitmap_pages_def flip: add_diff_eq)
  then show ?thesis by (simp only: tp_def)
qed

lemma init_new_file_header:
  fixes s :: c_size
  defines "h \<equiv> pm_header (init_new_file s)"
  shows "unat (jh_total_pages h) = new_pages s" "unat (jh_wal_start_page h) = 1 + new_bitmap_pages s"
    "unat (jh_root_directory_page h) = 257 + new_bitmap_pages s"
    "unat (jh_free_pages h) = new_pages s - (258 + new_bitmap_pages s)"
    "jh_wal_current_page h = jh_wal_start_page h" "jh_wal_checkpoint_page h = jh_wal_start_page h"
    "jh_transaction_id h = 1" "jh_last_checkpoint h = 1" "jh_wal_sequence h = 1"
    "jh_magic h = map of_char ''JDBX''" "jh_version h = 2" "header_valid h"
proof -
  define tp where "tp = (if s div 4096 < 1000 then 1000 else s div 4096)"
  define bp where "bp = calculate_bitmap_pages tp"
  note tp = new_total_nat [of s, folded tp_def] and bp = new_bitmap_nat [of s, folded tp_def, folded bp_def]
  note facts = h_def init_new_file_def init_integrated_wal_def blank_file_def update_header_checksum_def Let_def
  have t: "jh_total_pages h = tp" and st: "jh_wal_start_page h = 1 + bp"
    and ro: "jh_root_directory_page h = 1 + bp + 256" and fr: "jh_free_pages h = tp - 1 - bp - 256 - 1"
    by (simp_all add: facts bp_def tp_def jdbx_wal_pages_def)
  show "unat (jh_total_pages h) = new_pages s" by (simp add: t tp)
  note b = new_pages_bounds [of s]
  show start: "unat (jh_wal_start_page h) = 1 + new_bitmap_pages s"
    using b(2,3) by (simp add: st unat_word_ariths bp)
  show "unat (jh_root_directory_page h) = 257 + new_bitmap_pages s"
    using b(2,3) by (simp add: ro unat_word_ariths bp)
  have "unat (258 + bp) = 258 + new_bitmap_pages s" using b(2,3) by (simp add: unat_word_ariths bp)
  moreover have "tp - 1 - bp - 256 - 1 = tp - (258 + bp)" by simp
  ultimately show "unat (jh_free_pages h) = new_pages s - (258 + new_bitmap_pages s)"
    using b(3) by (simp only: fr) (simp add: unat_sub word_le_nat_alt tp)
  show "jh_wal_current_page h = jh_wal_start_page h" "jh_wal_checkpoint_page h = jh_wal_start_page h"
    "jh_transaction_id h = 1" "jh_last_checkpoint h = 1" "jh_wal_sequence h = 1"
    "jh_magic h = map of_char ''JDBX''" "jh_version h = 2"
    by (simp_all add: facts)
  show "header_valid h" unfolding h_def init_new_file_def Let_def by (rule update_header_valid)
qed

lemma wal_pages_nat: "unat jdbx_wal_pages = 256"
  by (simp add: jdbx_wal_pages_def)

lemma foldl_upd_const: "foldl (\<lambda>w p. w(p := v)) w ps q = (if q \<in> set ps then v else w q)"
  by (induction ps arbitrary: w) auto

lemma mark_used_length [simp]: "length (mark_used q b) = length b"
  by (simp add: mark_used_def Let_def)

lemma page_used_mark:
  assumes "unat q < 64 * length b" and "p < 64 * length b"
  shows "page_used (mark_used q b) p \<longleftrightarrow> page_used b p \<or> p = unat q"
proof -
  have "unat q div 64 < length b" "p div 64 < length b"
    using assms by (simp_all add: less_mult_imp_div_less mult.commute)
  moreover have "p = unat q \<longleftrightarrow> p div 64 = unat q div 64 \<and> p mod 64 = unat q mod 64"
    by (metis div_mult_mod_eq)
  ultimately show ?thesis
    by (auto simp: page_used_def mark_used_def Let_def nth_list_update bit_simps)
qed

lemma page_used_mark_all:
  assumes "\<forall>q \<in> set qs. unat q < 64 * length b" and "p < 64 * length b"
  shows "page_used (foldl (\<lambda>b q. mark_used q b) b qs) p \<longleftrightarrow> page_used b p \<or> p \<in> unat ` set qs"
  using assms by (induction qs arbitrary: b) (auto simp: page_used_mark)

lemma unat_range:
  assumes "unat (a :: c_size) + n < 2 ^ 64"
  shows "unat ` set (map (\<lambda>i. a + of_nat i) [0..<n]) = {unat a..<unat a + n}"
proof -
  have u: "unat (a + of_nat i) = unat a + i" if "i < n" for i
    using that assms by (simp add: unat_word_ariths unsigned_of_nat take_bit_nat_eq_self)
  have "unat ` set (map (\<lambda>i. a + of_nat i) [0..<n]) = (\<lambda>i. unat a + i) ` {0..<n}"
    using u by (auto simp: image_image intro!: image_cong)
  then show ?thesis by (simp add: ac_simps)
qed

lemma init_new_file_bitmap:
  assumes "p < new_pages s"
  shows "page_used (pm_bitmap (init_new_file s)) p \<longleftrightarrow> p \<le> unat (jh_root_directory_page (pm_header (init_new_file s)))"
proof -
  define h where "h = pm_header (init_new_file s)"
  define bp where "bp = calculate_bitmap_pages (if s div 4096 < 1000 then 1000 else s div 4096)"
  note b = new_pages_bounds [of s]
  note hd = init_new_file_header [of s, folded h_def]
  have st: "jh_wal_start_page h = 1 + bp" and ro: "jh_root_directory_page h = 1 + bp + jdbx_wal_pages"
    by (simp_all add: h_def init_new_file_def init_integrated_wal_def blank_file_def update_header_checksum_def
      Let_def bp_def)
  have ubp: "unat (1 + bp) = 1 + new_bitmap_pages s" using hd(2) st by simp
  have ubp': "unat bp = new_bitmap_pages s" unfolding bp_def by (rule new_bitmap_nat)
  define z :: "c_size list" where "z = replicate (unat bp * 512) 0"
  have z: "\<not> page_used z q" if "q < 64 * length z" for q
    using that by (simp add: z_def page_used_def less_mult_imp_div_less mult.commute)
  have len: "new_pages s \<le> 64 * length z" using b(4) by (simp add: z_def ubp')
  define pre :: "c_size list" where "pre = map of_nat [0..<unat (1 + bp)]"
  define ring where "ring = map (\<lambda>i. 1 + bp + of_nat i) [0..<unat jdbx_wal_pages]"
  have pre: "unat ` set pre = {0..<1 + new_bitmap_pages s}"
    using unat_range [of 0 "unat (1 + bp)"] b(2,3) by (simp add: pre_def ubp)
  have ring: "unat ` set ring = {1 + new_bitmap_pages s..<257 + new_bitmap_pages s}"
    using unat_range [of "1 + bp" "unat jdbx_wal_pages"] b(2,3)
    by (simp only: ring_def ubp wal_pages_nat) simp
  have lt: "\<forall>q \<in> set pre. unat q < 64 * length z" "\<forall>q \<in> set ring. unat q < 64 * length z"
  proof -
    have "unat q < 257 + new_bitmap_pages s" if "unat q \<in> unat ` set pre \<or> unat q \<in> unat ` set ring" for q :: c_size
      using that unfolding pre ring by auto
    moreover have "257 + new_bitmap_pages s \<le> 64 * length z" using len b(3) by linarith
    ultimately show "\<forall>q \<in> set pre. unat q < 64 * length z" "\<forall>q \<in> set ring. unat q < 64 * length z"
      by (meson imageI less_le_trans)+
  qed
  have len_foldl: "length (foldl (\<lambda>b p. mark_used p b) c qs) = length c" for c and qs :: "c_size list"
    by (induction qs arbitrary: c) simp_all
  have "pm_bitmap (init_new_file s) = mark_used (jh_root_directory_page h)
      (foldl (\<lambda>b p. mark_used p b) (foldl (\<lambda>b p. mark_used p b) z pre) ring)"
    by (simp add: ro init_new_file_def init_integrated_wal_def blank_file_def update_header_checksum_def
      Let_def z_def pre_def ring_def flip: bp_def)
  moreover have "unat (jh_root_directory_page h) < 64 * length z" and "p < 64 * length z"
    using assms len b(3) hd(3) by linarith+
  ultimately have "page_used (pm_bitmap (init_new_file s)) p \<longleftrightarrow>
      (page_used z p \<or> p \<in> unat ` set pre) \<or> p \<in> unat ` set ring \<or> p = unat (jh_root_directory_page h)"
    using lt by (simp add: page_used_mark page_used_mark_all len_foldl del: image_iff)
  then show ?thesis
    using z [OF \<open>p < 64 * length z\<close>] hd(3) unfolding pre ring h_def [symmetric] by auto
qed
lemma init_new_file_wal: "wal_ok (init_new_file s)" "wal_log (init_new_file s) = []"
proof -
  define pm where "pm = init_new_file s"
  define h where "h = pm_header pm"
  note hd = init_new_file_header [of s, folded pm_def h_def]
  note b = new_pages_bounds [of s]
  have page: "pm_wal pm p = empty_wal_page" if "in_ring h p" for p
  proof -
    have u: "unat ` set (map (\<lambda>i. jh_wal_start_page h + of_nat i) [0..<unat jdbx_wal_pages]) =
        {unat (jh_wal_start_page h)..<unat (jh_wal_start_page h) + 256}"
      using unat_range [of "jh_wal_start_page h" "unat jdbx_wal_pages"] hd(2) b(2,3)
      by (simp only: wal_pages_nat) simp
    have "unat p \<in> unat ` set (map (\<lambda>i. jh_wal_start_page h + of_nat i) [0..<unat jdbx_wal_pages])"
      unfolding u using that by (simp add: in_ring_def)
    then have "p \<in> set (map (\<lambda>i. jh_wal_start_page h + of_nat i) [0..<unat jdbx_wal_pages])"
      by (metis (no_types, lifting) image_iff word_unat_eq_iff)
    moreover have "pm_wal pm = foldl (\<lambda>w p. w(p := empty_wal_page)) (pm_wal (blank_file 0))
        (map (\<lambda>i. jh_wal_start_page h + of_nat i) [0..<unat jdbx_wal_pages])"
      by (simp add: pm_def h_def init_new_file_def init_integrated_wal_def update_header_checksum_def Let_def
        blank_file_def)
    ultimately show ?thesis by (simp only: foldl_upd_const) simp
  qed
  have ring: "ring_ok h" using hd(1-3,5,6) b(3) by (simp add: ring_ok_def in_ring_def)
  moreover have "log_page_ok empty_wal_page"
    by (simp add: log_page_ok_def empty_wal_page_def wal_page_header_size_def jdbx_page_size_def)
  ultimately show "wal_ok (init_new_file s)"
    unfolding pm_def [symmetric] wal_ok_def h_def [symmetric] by (simp add: page)
  have "log_distance h (jh_wal_checkpoint_page h) = 0" using hd(5,6) by (simp add: log_distance_def)
  moreover have "in_ring h (jh_wal_checkpoint_page h)" using ring by (simp add: ring_ok_def)
  ultimately show "wal_log (init_new_file s) = []"
    unfolding pm_def [symmetric] wal_log_def h_def [symmetric]
    by (simp add: Let_def log_from_def ring_page_def page empty_wal_page_def)
qed

lemma root_directory_checked:
  "pm_data (init_new_file s) (jh_root_directory_page (pm_header (init_new_file s))) =
     root_directory_image (pm_header (init_new_file s))"
  by (simp add: init_new_file_def init_integrated_wal_def update_header_checksum_def Let_def blank_file_def
    root_directory_image_def)

text \<open>A record that leaves no room for itself on an empty page.\<close>

lemma big_write:
  assumes "wal_ok pm" and "3984 < length data"
  shows "jdbx_wal_write page_id data pm = Inr (False, pm) \<or> jdbx_wal_write page_id data pm = Inl Past_Page"
proof -
  let ?h = "pm_header pm"
  let ?wp = "pm_wal pm (jh_wal_current_page ?h)"
  have ok: "log_page_ok ?wp" using assms(1) by (simp add: wal_ok_def ring_ok_def)
  then have used: "unat (wp_used_bytes ?wp) \<le> 4096" by (simp add: log_page_ok_def jdbx_page_size_def)
  then have "unat ((4096 :: c_uint) - wp_used_bytes ?wp) = 4096 - unat (wp_used_bytes ?wp)"
    by (simp add: unat_sub word_le_nat_alt)
  then have no_room: "\<not> entry_size data \<le> unat ((4096 :: c_uint) - wp_used_bytes ?wp)"
    using count_small [OF ok] assms(2) by (simp add: entry_size_def wal_entry_header_size_def)
  have "append_entry page_id data (advance_page pm) = Inl Past_Page"
    using assms(2) by (simp add: append_entry_def advance_page_def Let_def entry_size_def wal_entry_header_size_def
      wal_page_header_size_def jdbx_page_size_def)
  with no_room show ?thesis
    unfolding jdbx_wal_write_def Let_def by (simp add: advance_page_def Let_def)
qed

lemma wal_write_all_small:
  assumes "wal_write_all ws pm = Some pm'" and "wal_ok pm"
  shows "\<forall>w \<in> set ws. length (snd w) \<le> 3984"
  using assms
proof (induction ws arbitrary: pm)
  case (Cons w ws)
  obtain p d where w: "w = (p, d)" by (cases w)
  from Cons.prems(1) obtain pm1 where pm1: "jdbx_wal_write p d pm = Inr (True, pm1)" "wal_write_all ws pm1 = Some pm'"
    by (auto simp: w split: sum.splits bool.splits)
  then have d: "length d \<le> 3984"
    using big_write [OF Cons.prems(2), of d p] by (cases "3984 < length d") auto
  have "wal_ok pm1"
    using Cons.prems(2) d by (cases rule: jdbx_wal_write_cases [of pm d p]) (use pm1(1) in auto)
  from Cons.IH [OF pm1(2) this] d show ?case by (simp add: w)
qed simp

text \<open>Writes that never leave the checkpoint page are at most 125.\<close>

lemma one_page_count:
  assumes "wal_write_all ws pm = Some pm'" and "wal_ok pm" and "wal_log pm = []"
    and "jh_wal_current_page (pm_header pm') = jh_wal_checkpoint_page (pm_header pm')"
  shows "32 * length ws + 80 \<le> 4096"
proof -
  let ?h = "pm_header pm'"
  note all = wal_write_all_log [OF assms(1,2) wal_write_all_small [OF assms(1,2)]]
  have "log_distance ?h (jh_wal_checkpoint_page ?h) = 0" using assms(4) by (simp add: log_distance_def)
  then have "wp_entries (pm_wal pm' (jh_wal_current_page ?h)) = wal_log pm'"
    using assms(4) by (simp add: wal_log_def Let_def log_from_def ring_page_def)
  then have "length (wp_entries (pm_wal pm' (jh_wal_current_page ?h))) = length ws"
    using all assms(3) by (auto simp: log_entries_def)
  moreover have "log_page_ok (pm_wal pm' (jh_wal_current_page ?h))"
    using all by (simp add: wal_ok_def ring_ok_def)
  ultimately show ?thesis
    using count_small [of "pm_wal pm' (jh_wal_current_page ?h)"] by (simp add: log_page_ok_def jdbx_page_size_def)
qed

section \<open>What the storage promises\<close>

text \<open>The layout of a new file.  Whatever size is asked for, the bitmap marks exactly the pages
  up to and including the root directory, the free count is the number of unmarked pages, and
  the file opens as it was created.\<close>

theorem new_file_layout:
  "(let pm = init_new_file s; h = pm_header pm; used = {p. p < unat (jh_total_pages h) \<and> page_used (pm_bitmap pm) p}
    in unat (jh_total_pages h) = max 1000 (unat s div 4096) \<and>
       used = {0..unat (jh_root_directory_page h)} \<and>
       unat (jh_free_pages h) = card ({0..<unat (jh_total_pages h)} - used) \<and>
       unat (jh_wal_start_page h) + 256 = unat (jh_root_directory_page h) \<and>
       jdbx_open pm = Some (Inr (Some pm)))"
proof -
  define pm where "pm = init_new_file s"
  define h where "h = pm_header pm"
  note hd = init_new_file_header [of s, folded pm_def h_def]
  note b = new_pages_bounds [of s]
  define used where "used = {p. p < unat (jh_total_pages h) \<and> page_used (pm_bitmap pm) p}"
  have used: "used = {0..unat (jh_root_directory_page h)}"
    using init_new_file_bitmap [of _ s, folded pm_def h_def] hd(1,3) b(3) by (auto simp: used_def)
  have "{0..<unat (jh_total_pages h)} - used = {258 + new_bitmap_pages s..<new_pages s}"
    using hd(1,3) by (auto simp: used)
  then have free: "unat (jh_free_pages h) = card ({0..<unat (jh_total_pages h)} - used)"
    using hd(4) by simp
  have "jdbx_open pm = Some (Inr (Some pm))"
    using hd(5-12) by (simp add: jdbx_open_def Let_def header_valid_def flip: h_def)
  with used free hd(1-3) show ?thesis
    unfolding pm_def [symmetric] h_def [symmetric] used_def [symmetric] Let_def
    by (simp add: new_pages_def)
qed


text \<open>A file that has a transaction past its last checkpoint, for the witnesses.\<close>

definition pending_file :: page_manager where
  "pending_file = (let pm = init_new_file 0 in pm\<lparr>pm_header := (pm_header pm)\<lparr>jh_transaction_id := 2\<rparr>\<rparr>)"

lemma pending_file_ok: "wal_ok pending_file" "wal_log pending_file = []"
proof -
  let ?pm = "init_new_file 0"
  show "wal_ok pending_file"
    using init_new_file_wal(1) [of 0]
    by (simp add: pending_file_def Let_def wal_ok_def ring_ok_def in_ring_def)
  have "log_from (pm_header pending_file) = log_from (pm_header ?pm)"
    by (rule ring_fun_cong) (simp add: pending_file_def Let_def)
  moreover have "log_distance (pm_header pending_file) = log_distance (pm_header ?pm)"
    by (simp add: log_distance_def slot_def pending_file_def Let_def fun_eq_iff)
  ultimately show "wal_log pending_file = []"
    using init_new_file_wal(2) [of 0] by (simp add: wal_log_def Let_def) (simp add: pending_file_def Let_def)
qed

lemma pending_file_header:
  "jh_last_checkpoint (pm_header pending_file) = 1" "jh_transaction_id (pm_header pending_file) = 2"
  "unat (jh_root_directory_page (pm_header pending_file)) = 258" "unat (jh_total_pages (pm_header pending_file)) = 1000"
  using init_new_file_header(1,3,8) [of 0]
  by (simp_all add: pending_file_def Let_def new_pages_def new_bitmap_pages_def)

text \<open>A first record of at most 3984 bytes fits the first page.\<close>

lemma first_write:
  assumes "wal_ok pm" and "length data \<le> 3984" and "wal_log pm = []"
    and "jh_wal_current_page (pm_header pm) = jh_wal_checkpoint_page (pm_header pm)"
  obtains pm' where "jdbx_wal_write page_id data pm = Inr (True, pm')"
  using assms(1,2)
proof (cases rule: jdbx_wal_write_cases [of pm data page_id])
  case full
  let ?h = "pm_header pm"
  have r: "ring_ok ?h" and c: "in_ring ?h (jh_wal_current_page ?h)"
    using assms(1) by (simp_all add: wal_ok_def ring_ok_def)
  have "unat (next_wal_page ?h (jh_wal_current_page ?h)) \<noteq> unat (jh_wal_current_page ?h)"
    using c by (auto simp: next_wal_page_nat [OF r c] in_ring_def)
  with full assms(4) show ?thesis by simp
qed (rule that)



text \<open>The image of a whole page cannot be logged.  A record of more than 3984 bytes, and so every
  full page, is refused or written past the end of the log page.\<close>

theorem page_image_not_logged:
  assumes "wal_ok pm" and "3984 < length data"
  shows "jdbx_wal_write page_id data pm = Inr (False, pm) \<or> jdbx_wal_write page_id data pm = Inl Past_Page"
  using assms by (rule big_write)

theorem page_image_not_logged_witness:
  "jdbx_wal_write 258 (replicate 4096 0) (init_new_file 0) \<in> {Inr (False, init_new_file 0), Inl Past_Page}"
  using page_image_not_logged [OF init_new_file_wal(1) [of 0], of "replicate 4096 0" 258] by auto

text \<open>What is logged is never replayed.  Every entry carries the transaction id 1 the file was created
  with, which is also its last checkpoint; whatever is logged on a new file, recovery succeeds,
  discards the log, and leaves every data page as it was.\<close>

theorem log_never_replayed:
  assumes "wal_write_all ws (init_new_file s) = Some pm'"
  shows "\<exists>pm''. jdbx_wal_recover pm' = Some (Inr (True, pm'')) \<and> pm_data pm'' = pm_data (init_new_file s) \<and>
    jh_wal_checkpoint_page (pm_header pm'') = jh_wal_current_page (pm_header pm')"
proof -
  let ?pm = "init_new_file s"
  note new = init_new_file_wal [of s] and hd = init_new_file_header [of s]
  from wal_write_all_log [OF assms new(1) wal_write_all_small [OF assms new(1)]] new(2) obtain c where
    ok: "wal_ok pm'" and data: "pm_data pm' = pm_data ?pm"
    and log: "wal_log pm' = log_entries (jh_transaction_id (pm_header ?pm)) (jh_wal_sequence (pm_header ?pm)) ws"
    and h': "pm_header pm' = (pm_header ?pm)\<lparr>jh_wal_current_page := c,
      jh_wal_sequence := jh_wal_sequence (pm_header ?pm) + of_nat (length ws)\<rparr>"
    by auto
  have "apply_entries (pm_header pm') (wal_log pm') (pm_data pm') = Inr (True, pm_data ?pm)"
    unfolding log data by (rule apply_entries_old) (simp add: log_entries_def h' hd(7,8))
  then have "jdbx_wal_recover pm' = Some (Inr (True, mark_checkpoint (pm'\<lparr>pm_data := pm_data ?pm\<rparr>)))"
    by (simp add: jdbx_wal_recover_log [OF ok])
  then show ?thesis by (auto simp: mark_checkpoint_def update_header_checksum_def)
qed

theorem log_never_replayed_witness:
  "\<exists>pm' pm''. jdbx_wal_write 258 [1, 2, 3] (init_new_file 0) = Inr (True, pm') \<and>
     jdbx_wal_recover pm' = Some (Inr (True, pm'')) \<and> pm_data pm'' = pm_data (init_new_file 0)"
proof -
  have "jh_wal_current_page (pm_header (init_new_file 0)) = jh_wal_checkpoint_page (pm_header (init_new_file 0))"
    by (simp only: init_new_file_header(5,6))
  then obtain pm' where w: "jdbx_wal_write 258 [1, 2, 3] (init_new_file 0) = Inr (True, pm')"
    using first_write [OF init_new_file_wal(1) _ init_new_file_wal(2), of "[1, 2, 3]" 0 258] by auto
  then show ?thesis using log_never_replayed [of "[(258, [1, 2, 3])]" 0 pm'] by auto
qed

text \<open>A file that was written to and closed.  The writes change the sequence number in the header and
  not its checksum, and closing skips the checkpoint when the log is still on its first page: then
  the file does not open again.  It opens, with a fresh checksum, when the log has moved on.\<close>

theorem written_file_reopens:
  assumes "wal_write_all ws (init_new_file s) = Some pm'" and "ws \<noteq> []"
  shows "jdbx_open (jdbx_close pm') =
    Some (Inr (if jh_wal_current_page (pm_header pm') = jh_wal_checkpoint_page (pm_header pm') then None
               else Some (mark_checkpoint pm')))"
proof -
  let ?pm = "init_new_file s"
  let ?h = "pm_header ?pm"
  note new = init_new_file_wal [of s] and hd = init_new_file_header [of s]
  from wal_write_all_log [OF assms(1) new(1) wal_write_all_small [OF assms(1) new(1)]] obtain c where
    h': "pm_header pm' = ?h\<lparr>jh_wal_current_page := c, jh_wal_sequence := jh_wal_sequence ?h + of_nat (length ws)\<rparr>"
    by auto
  show ?thesis
  proof (cases "jh_wal_current_page (pm_header pm') = jh_wal_checkpoint_page (pm_header pm')")
    case True
    define v where "v = jh_wal_sequence ?h + of_nat (length ws)"
    have "length ws \<le> 125" using one_page_count [OF assms(1) new True] by simp
    then have v: "unat v = 1 + length ws"
      by (simp add: v_def hd(9) unat_word_ariths unsigned_of_nat take_bit_nat_eq_self)
    have "c = jh_wal_current_page ?h" using True hd(5,6) by (simp add: h')
    then have e: "pm_header pm' = ?h\<lparr>jh_wal_sequence := v\<rparr>" by (simp add: h' v_def)
    have "unat v \<noteq> unat (jh_wal_sequence ?h)" using v assms(2) by (simp add: hd(9))
    then have "v \<noteq> jh_wal_sequence ?h" by auto
    then have "\<not> header_valid (pm_header pm')"
      unfolding e using v \<open>length ws \<le> 125\<close> hd(9,12) by (intro sequence_invalidates) simp_all
    moreover have "jdbx_close pm' = pm'"
      using True hd(7,8) by (simp add: jdbx_close_def jdbx_checkpoint_def Let_def h')
    ultimately show ?thesis using True hd(10,11)
      by (simp add: jdbx_open_def Let_def header_valid_def h')
  next
    case False
    have "header_valid (pm_header (mark_checkpoint pm'))"
      unfolding mark_checkpoint_def by (rule update_header_valid)
    moreover have "jdbx_close pm' = mark_checkpoint pm'"
      using False by (simp add: jdbx_close_def jdbx_checkpoint_def Let_def)
    moreover have "jh_magic (pm_header (mark_checkpoint pm')) = jh_magic ?h"
      "jh_version (pm_header (mark_checkpoint pm')) = jh_version ?h"
      "jh_wal_current_page (pm_header (mark_checkpoint pm')) = jh_wal_checkpoint_page (pm_header (mark_checkpoint pm'))"
      "jh_last_checkpoint (pm_header (mark_checkpoint pm')) = jh_transaction_id (pm_header (mark_checkpoint pm'))"
      by (simp_all add: mark_checkpoint_def update_header_checksum_def h')
    ultimately show ?thesis using False hd(10,11)
      by (simp add: jdbx_open_def Let_def header_valid_def)
  qed
qed

theorem written_file_reopens_witness:
  "\<exists>pm'. jdbx_wal_write 258 [1, 2, 3] (init_new_file 0) = Inr (True, pm') \<and>
     jdbx_open (jdbx_close pm') \<in> {Some (Inr None), Some (Inr (Some (mark_checkpoint pm')))}"
proof -
  have "jh_wal_current_page (pm_header (init_new_file 0)) = jh_wal_checkpoint_page (pm_header (init_new_file 0))"
    by (simp only: init_new_file_header(5,6))
  then obtain pm' where w: "jdbx_wal_write 258 [1, 2, 3] (init_new_file 0) = Inr (True, pm')"
    using first_write [OF init_new_file_wal(1) _ init_new_file_wal(2), of "[1, 2, 3]" 0 258] by auto
  then show ?thesis using written_file_reopens [of "[(258, [1, 2, 3])]" 0 pm'] by auto
qed

end
