(* ===== verification/Rbac.thy ===== *)
theory Rbac
  imports Database Crc32
begin

text \<open>
  Users, roles and permissions, \<^verbatim>\<open>src/src/components/rbac/rbac.c\<close> and \<^verbatim>\<open>rbac_db.c\<close>, over the
  virtual layer of the database.  Users and roles are documents of the library \<^verbatim>\<open>system\<close>; a
  user lists the uuids of its roles, a role maps \<^verbatim>\<open>"type:resource"\<close> to a set of permission bits.

  \<^verbatim>\<open>virtual_get\<close> hands out the cached document itself when it finds one, so a change the callers
  here make to it is a change of the cache; \<open>set_shared\<close> carries it there.  PBKDF2 is an
  argument.  The clock does not advance within a call, and arguments are not \<^verbatim>\<open>NULL\<close>: every
  function refuses those at once.  The lists of parent and child roles of a role are never set.
\<close>

section \<open>Data\<close>

datatype rbac_resource_type =
  RBAC_UNKNOWN | RBAC_DATABASE | RBAC_COLLECTION | RBAC_DOCUMENT | RBAC_USER | RBAC_ROLE | RBAC_PERMISSION

fun resource_number :: "rbac_resource_type \<Rightarrow> int" where
  "resource_number RBAC_UNKNOWN = - 1"
| "resource_number RBAC_DATABASE = 0"
| "resource_number RBAC_COLLECTION = 1"
| "resource_number RBAC_DOCUMENT = 2"
| "resource_number RBAC_USER = 3"
| "resource_number RBAC_ROLE = 4"
| "resource_number RBAC_PERMISSION = 5"

record rbac_user =
  user_id :: string
  user_username :: string
  user_password_hash :: string
  user_roles :: jptr

record rbac_role =
  role_id :: string
  role_name :: string
  role_permissions :: jptr

section \<open>Passwords\<close>

text \<open>\<^verbatim>\<open>%02x\<close> of every byte, and \<^verbatim>\<open>%2hhx\<close> of every pair of digits.\<close>

definition hex_bytes :: "byte list \<Rightarrow> string" where
  "hex_bytes bs = concat (map (\<lambda>b. [hex_digit (unat b div 16), hex_digit (unat b mod 16)]) bs)"

definition hex_value :: "char \<Rightarrow> nat option" where
  "hex_value c =
     (if isdigit c then Some (nat (uchar c - 48))
      else if 97 \<le> uchar c \<and> uchar c \<le> 102 then Some (nat (uchar c - 87))
      else if 65 \<le> uchar c \<and> uchar c \<le> 70 then Some (nat (uchar c - 55))
      else None)"

fun unhex_bytes :: "string \<Rightarrow> byte list option" where
  "unhex_bytes [] = Some []"
| "unhex_bytes [c] = None"
| "unhex_bytes (c # d # s) =
     (case (hex_value c, hex_value d, unhex_bytes s) of
        (Some a, Some b, Some bs) \<Rightarrow> Some (of_nat (16 * a + b) # bs)
      | _ \<Rightarrow> None)"

definition hash_password :: "(string \<Rightarrow> byte list \<Rightarrow> c_int \<Rightarrow> byte list) \<Rightarrow> byte list \<Rightarrow> string \<Rightarrow> string" where
  "hash_password pbkdf2 salt password =
     ''$pbkdf2$'' @ int_str 10000 @ ''$'' @ hex_bytes salt @ ''$'' @ hex_bytes (pbkdf2 password salt 10000)"

text \<open>
  The conversions of \<^verbatim>\<open>sscanf\<close>: \<^verbatim>\<open>%d\<close> and \<^verbatim>\<open>%ns\<close>, each with what it leaves.  A salt that is not 32
  hexadecimal digits would leave bytes unset; the model stops with \<open>Unset_Salt\<close>.
\<close>

datatype password_fault = Unset_Salt

definition scan_int :: "string \<Rightarrow> (c_int \<times> string) option" where
  "scan_int s =
     (let s = dropWhile isspace s;
          neg = (s \<noteq> [] \<and> hd s = CHR ''-'');
          t = (if s \<noteq> [] \<and> (hd s = CHR ''-'' \<or> hd s = CHR ''+'') then tl s else s);
          ds = takeWhile isdigit t
      in if ds = [] then None
         else Some (atoi ((if neg then ''-'' else []) @ ds), dropWhile isdigit t))"

definition scan_word :: "nat \<Rightarrow> string \<Rightarrow> (string \<times> string) option" where
  "scan_word n s =
     (let s = dropWhile isspace s; w = take n (takeWhile (\<lambda>c. \<not> isspace c) s)
      in if w = [] then None else Some (w, drop (length w) s))"

definition scan_hash :: "string \<Rightarrow> (c_int \<times> string \<times> string) option" where
  "scan_hash s =
     (case scan_int s of
        Some (iterations, CHR ''$'' # s) \<Rightarrow>
          (case scan_word 32 s of
             Some (salt_hex, CHR ''$'' # s) \<Rightarrow>
               (case scan_word 64 s of
                  Some (stored_hash_hex, _) \<Rightarrow> Some (iterations, salt_hex, stored_hash_hex)
                | None \<Rightarrow> None)
           | _ \<Rightarrow> None)
      | _ \<Rightarrow> None)"

definition legacy_hash :: "string \<Rightarrow> string" where
  "legacy_hash password =
     (let h = foldl (\<lambda>h c. (push_bit 5 h + h) + word_of_int (schar c)) (5381 :: c_uint) password
      in hex_bytes (map (\<lambda>i. ucast (drop_bit ((i mod 4) * 8) h)) [0..<32]))"

definition verify_password ::
  "(string \<Rightarrow> byte list \<Rightarrow> c_int \<Rightarrow> byte list) \<Rightarrow> string \<Rightarrow> string \<Rightarrow> password_fault + bool" where
  "verify_password pbkdf2 password password_hash =
     (if take 8 password_hash = ''$pbkdf2$'' then
        (case scan_hash (drop 8 password_hash) of
           None \<Rightarrow> Inr False
         | Some (iterations, salt_hex, stored_hash_hex) \<Rightarrow>
             (if length salt_hex \<noteq> 32 then Inl Unset_Salt
              else case unhex_bytes salt_hex of
                None \<Rightarrow> Inl Unset_Salt
              | Some salt \<Rightarrow>
                  Inr (strcmp (hex_bytes (pbkdf2 password salt iterations)) stored_hash_hex = 0)))
      else Inr (strcmp (legacy_hash password) password_hash = 0))"

section \<open>Documents of users and roles\<close>

definition rbac_build_user_query :: "string \<Rightarrow> jptr" where
  "rbac_build_user_query library =
     set_field (set_field (Some json_create_object) ''type'' (json_create_string ''user''))
       ''library'' (json_create_string library)"

definition rbac_build_role_query :: "string \<Rightarrow> jptr" where
  "rbac_build_role_query library =
     set_field (set_field (Some json_create_object) ''type'' (json_create_string ''role''))
       ''library'' (json_create_string library)"

definition query_users :: "jptr \<Rightarrow> database \<Rightarrow> jptr" where
  "query_users q db = virtual_query (Some ''user'') (Some ''system'') (Some ''users'') q db"

definition query_roles :: "jptr \<Rightarrow> database \<Rightarrow> jptr" where
  "query_roles q db = virtual_query (Some ''role'') (Some ''system'') (Some ''roles'') q db"

text \<open>The first document of a result, which the callers clone.\<close>

definition first_document :: "jptr \<Rightarrow> jptr" where
  "first_document result =
     (case json_object_get result (Some ''documents'') of
        Some (JArray (d # ds)) \<Rightarrow> Some (json_clone d)
      | _ \<Rightarrow> None)"

definition has_documents :: "jptr \<Rightarrow> bool" where
  "has_documents result \<longleftrightarrow>
     (case json_object_get result (Some ''documents'') of Some (JArray (d # ds)) \<Rightarrow> True | _ \<Rightarrow> False)"

definition find_user_by_uuid :: "string \<Rightarrow> database \<Rightarrow> jptr" where
  "find_user_by_uuid uuid db =
     first_document (query_users
       (set_field (rbac_build_user_query ''system'') ''uuid'' (json_create_string uuid)) db)"

definition find_role_by_uuid :: "string \<Rightarrow> database \<Rightarrow> jptr" where
  "find_role_by_uuid uuid db =
     first_document (query_roles
       (set_field (rbac_build_role_query ''system'') ''uuid'' (json_create_string uuid)) db)"

text \<open>A user asked for by its id: the document with that uuid, and a second search for it.\<close>

definition user_document :: "string \<Rightarrow> database \<Rightarrow> jptr" where
  "user_document uid db =
     (case first_document (query_users
             (set_field (Some json_create_object) ''uuid'' (json_create_string uid)) db) of
        Some d \<Rightarrow> Some d
      | None \<Rightarrow> find_user_by_uuid uid db)"

definition role_document :: "string \<Rightarrow> database \<Rightarrow> jptr" where
  "role_document rid db =
     (case find_role_by_uuid rid db of Some d \<Rightarrow> Some d | None \<Rightarrow> find_role_by_uuid rid db)"

definition string_items :: "json list \<Rightarrow> string list" where
  "string_items xs = concat (map (\<lambda>v. case v of JString s \<Rightarrow> [s] | _ \<Rightarrow> []) xs)"

definition string_array :: "string list \<Rightarrow> jptr" where
  "string_array ss =
     foldl (\<lambda>a s. json_array_append a (Some (json_create_string s))) (Some json_create_array) ss"

definition user_doc_to_rbac_user :: "jptr \<Rightarrow> rbac_user option" where
  "user_doc_to_rbac_user user_doc =
     (case user_doc of
        Some (JObject es) \<Rightarrow>
          (let doc = Some (JObject es);
               id_val = (if json_get_type (json_object_get doc (Some ''uuid'')) = JSON_STRING
                         then json_object_get doc (Some ''uuid'') else json_object_get doc (Some ''id''))
           in case (id_val, json_object_get doc (Some ''username''),
                    json_object_get doc (Some ''password_hash''), json_object_get doc (Some ''roles'')) of
                (Some (JString i), Some (JString u), Some (JString h), Some (JArray rs)) \<Rightarrow>
                  Some \<lparr>user_id = i, user_username = u, user_password_hash = h,
                        user_roles = string_array (string_items rs)\<rparr>
              | _ \<Rightarrow> None)
      | _ \<Rightarrow> None)"

definition role_doc_to_rbac_role :: "jptr \<Rightarrow> rbac_role option" where
  "role_doc_to_rbac_role role_doc =
     (case role_doc of
        Some (JObject es) \<Rightarrow>
          (let doc = Some (JObject es);
               rid = (case (json_object_get doc (Some ''uuid''), json_object_get doc (Some ''id'')) of
                        (Some (JString s), _) \<Rightarrow> Some s
                      | (_, Some (JString s)) \<Rightarrow> Some s
                      | _ \<Rightarrow> None)
           in case (json_object_get doc (Some ''name''), json_object_get doc (Some ''permissions''), rid) of
                (Some (JString n), Some (JObject ps), Some i) \<Rightarrow>
                  Some \<lparr>role_id = i, role_name = n,
                        role_permissions = json_parse (json_stringify (Some (JObject ps)))\<rparr>
              | _ \<Rightarrow> None)
      | _ \<Rightarrow> None)"

section \<open>The cached document behind \<^verbatim>\<open>virtual_get\<close>\<close>

definition shared_document :: "string \<Rightarrow> database \<Rightarrow> bool" where
  "shared_document uuid db \<longleftrightarrow>
     fst (cache_lookup (doc_cache db) (generate_doc_cache_key_fast (Some uuid) 256)) \<noteq> None"

text \<open>A change of the document that was handed out; \<open>shared\<close> says whether the cache holds it.\<close>

definition set_shared :: "bool \<Rightarrow> string \<Rightarrow> jptr \<Rightarrow> database \<Rightarrow> database" where
  "set_shared shared uuid v db =
     (case (generate_doc_cache_key_fast (Some uuid) 256, doc_cache db, v) of
        (Some k, Some c, Some d) \<Rightarrow>
          (case (if shared then find_entry c (c_bytes k) else None) of
             Some a \<Rightarrow>
               db\<lparr>doc_cache := Some (c\<lparr>gc_heap :=
                 (gc_heap c)(a := Some ((the (gc_heap c a))\<lparr>ce_value := d\<rparr>))\<rparr>)\<rparr>
           | None \<Rightarrow> db)
      | _ \<Rightarrow> db)"

definition virtual_get_user_by_uuid :: "string \<Rightarrow> database \<Rightarrow> jptr \<times> database" where
  "virtual_get_user_by_uuid uuid db = virtual_get (Some uuid) db"

definition virtual_get_role_by_uuid :: "string \<Rightarrow> database \<Rightarrow> jptr \<times> database" where
  "virtual_get_role_by_uuid uuid db = virtual_get (Some uuid) db"

section \<open>Users\<close>

definition rbac_db_exists :: "database \<Rightarrow> bool" where
  "rbac_db_exists db = has_documents (query_users (rbac_build_user_query ''system'') db)"

definition rbac_db_get_user :: "string \<Rightarrow> database \<Rightarrow> rbac_user option" where
  "rbac_db_get_user uid db = user_doc_to_rbac_user (user_document uid db)"

definition rbac_db_get_user_by_username :: "string \<Rightarrow> database \<Rightarrow> rbac_user option" where
  "rbac_db_get_user_by_username name db =
     user_doc_to_rbac_user (first_document (query_users
       (set_field (rbac_build_user_query ''system'') ''username'' (json_create_string name)) db))"

definition rbac_db_create_user ::
  "(string \<Rightarrow> byte list \<Rightarrow> c_int \<Rightarrow> byte list) \<Rightarrow> byte list \<Rightarrow> moment \<Rightarrow> string \<Rightarrow> string \<Rightarrow> database \<Rightarrow>
   rbac_user option \<times> database" where
  "rbac_db_create_user pbkdf2 salt m name password db =
     (if has_documents (query_users
           (set_field (Some json_create_object) ''username'' (json_create_string name)) db)
      then (None, db)
      else
        (let h = hash_password pbkdf2 salt password;
             d = set_field (Some json_create_object) ''username'' (json_create_string name);
             d = set_field d ''password_hash'' (json_create_string h);
             d = set_field d ''roles'' json_create_array;
             (r, db) = virtual_insert m (Some ''user'') (Some ''system'') (Some ''users'') d (Some ''system-admin'') db
         in case json_object_get r (Some ''uuid'') of
              Some (JString i) \<Rightarrow>
                (Some \<lparr>user_id = i, user_username = name, user_password_hash = h,
                       user_roles = Some json_create_array\<rparr>, db)
            | _ \<Rightarrow> (None, db)))"

text \<open>Deleting a user takes it out of the lists of the roles it names.\<close>

definition without_string :: "string \<Rightarrow> json list \<Rightarrow> jptr" where
  "without_string s xs = string_array (filter (\<lambda>t. strcmp t s \<noteq> 0) (string_items xs))"

definition leave_role :: "moment \<Rightarrow> string \<Rightarrow> database \<Rightarrow> json \<Rightarrow> database" where
  "leave_role m uid db v =
     (case v of
        JString rid \<Rightarrow>
          (case find_role_by_uuid rid db of
             Some (JObject es) \<Rightarrow>
               (case json_object_get (Some (JObject es)) (Some ''users'') of
                  Some (JArray us) \<Rightarrow>
                    snd (virtual_update m (Some rid)
                      (set_field (Some (JObject es)) ''users'' (the (without_string uid us))) db)
                | _ \<Rightarrow> db)
           | _ \<Rightarrow> db)
      | _ \<Rightarrow> db)"

definition rbac_db_delete_user :: "moment \<Rightarrow> string \<Rightarrow> database \<Rightarrow> c_int \<times> database" where
  "rbac_db_delete_user m uid db =
     (let direct = first_document (query_users
            (set_field (Some json_create_object) ''uuid'' (json_create_string uid)) db)
      in case user_document uid db of
           None \<Rightarrow> (0, db)
         | Some d \<Rightarrow>
             (let actual = (if direct \<noteq> None then Some uid
                            else json_get_string (json_object_get (Some d) (Some ''uuid'')));
                  db = (case json_object_get (Some d) (Some ''roles'') of
                          Some (JArray rs) \<Rightarrow> foldl (leave_role m uid) db rs
                        | _ \<Rightarrow> db)
              in if actual = None then (0, db) else virtual_delete actual db))"

text \<open>The result of a check of a password is no answer when the salt could not be read.\<close>

definition rbac_authenticate_user ::
  "(string \<Rightarrow> byte list \<Rightarrow> c_int \<Rightarrow> byte list) \<Rightarrow> database option \<Rightarrow> string \<Rightarrow> string \<Rightarrow> password_fault + bool" where
  "rbac_authenticate_user pbkdf2 rbac name password =
     (case rbac of
        None \<Rightarrow> Inr False
      | Some db \<Rightarrow>
          (case rbac_db_get_user_by_username name db of
             None \<Rightarrow> Inr False
           | Some u \<Rightarrow> verify_password pbkdf2 password (user_password_hash u)))"

definition rbac_db_authenticate_user ::
  "(string \<Rightarrow> byte list \<Rightarrow> c_int \<Rightarrow> byte list) \<Rightarrow> database \<Rightarrow> string \<Rightarrow> string \<Rightarrow> password_fault + bool" where
  "rbac_db_authenticate_user pbkdf2 db name password =
     (case rbac_db_get_user_by_username name db of
        None \<Rightarrow> Inr False
      | Some u \<Rightarrow> rbac_authenticate_user pbkdf2 None name password)"

section \<open>Roles\<close>

definition rbac_db_create_role :: "moment \<Rightarrow> string \<Rightarrow> database \<Rightarrow> rbac_role option \<times> database" where
  "rbac_db_create_role m name db =
     (if has_documents (query_roles
           (set_field (rbac_build_role_query ''system'') ''name'' (json_create_string name)) db)
      then (None, db)
      else
        (let d = set_field (Some json_create_object) ''name'' (json_create_string name);
             d = set_field d ''permissions'' json_create_object;
             d = set_field d ''users'' json_create_array;
             (r, db) = virtual_insert m (Some ''role'') (Some ''system'') (Some ''roles'') d (Some ''system-admin'') db
         in case json_object_get r (Some ''uuid'') of
              Some (JString i) \<Rightarrow>
                (Some \<lparr>role_id = i, role_name = name, role_permissions = Some json_create_object\<rparr>, db)
            | _ \<Rightarrow> (None, db)))"

definition rbac_db_delete_role :: "string \<Rightarrow> database \<Rightarrow> c_int \<times> database" where
  "rbac_db_delete_role rid db = virtual_delete (Some rid) db"

definition rbac_db_get_role :: "string \<Rightarrow> database \<Rightarrow> rbac_role option" where
  "rbac_db_get_role rid db = role_doc_to_rbac_role (role_document rid db)"

definition rbac_db_update_role ::
  "moment \<Rightarrow> string \<Rightarrow> cstr \<Rightarrow> jptr \<Rightarrow> database \<Rightarrow> bool \<times> database" where
  "rbac_db_update_role m rid name permissions db =
     (let direct = find_role_by_uuid rid db in
      case role_document rid db of
        None \<Rightarrow> (False, db)
      | Some d \<Rightarrow>
          (case (if direct \<noteq> None then Some rid
                 else json_get_string (json_object_get (Some d) (Some ''uuid''))) of
             None \<Rightarrow> (False, db)
           | Some actual \<Rightarrow>
               (let d = (case name of None \<Rightarrow> Some d | Some n \<Rightarrow> set_field (Some d) ''name'' (json_create_string n));
                    d = (case permissions of None \<Rightarrow> d | Some p \<Rightarrow> set_field d ''permissions'' (json_clone p));
                    (r, db) = virtual_update m (Some actual) d db
                in (r \<noteq> None, db))))"

text \<open>The documents of a user and a role by their ids, as both membership functions fetch them.\<close>

definition fetch_member ::
  "string \<Rightarrow> string \<Rightarrow> database \<Rightarrow> ((string \<times> bool \<times> json) \<times> (string \<times> bool \<times> json)) option \<times> database" where
  "fetch_member uid rid db =
     (case (rbac_db_get_user uid db, rbac_db_get_role rid db) of
        (Some user, Some role) \<Rightarrow>
          (let u = user_id user; r = role_id role;
               user_shared = shared_document u db;
               (user_doc, db) = virtual_get_user_by_uuid u db
           in case user_doc of
                None \<Rightarrow> (None, db)
              | Some ud \<Rightarrow>
                  (let role_shared = shared_document r db;
                       (role_doc, db) = virtual_get_role_by_uuid r db
                   in case role_doc of
                        None \<Rightarrow> (None, db)
                      | Some rd \<Rightarrow> (Some ((u, user_shared, ud), (r, role_shared, rd)), db)))
      | _ \<Rightarrow> (None, db))"

text \<open>Adding a string to the array under a key, in the document and its cached copy, and storing it.\<close>

definition add_member ::
  "moment \<Rightarrow> string \<Rightarrow> json list \<Rightarrow> string \<Rightarrow> string \<times> bool \<times> json \<Rightarrow> database \<Rightarrow> bool \<times> database" where
  "add_member m key items s doc db =
     (case doc of (i, shared, d) \<Rightarrow>
        if list_ex (\<lambda>v. case v of JString t \<Rightarrow> strcmp t s = 0 | _ \<Rightarrow> False) items then (True, db)
        else
          (let d = set_field (Some d) key (the (json_array_append (Some (JArray items)) (Some (json_create_string s))));
               (r, db) = virtual_update m (Some i) d (set_shared shared i d db)
           in (r \<noteq> None, db)))"

definition rbac_db_add_user_to_role :: "moment \<Rightarrow> string \<Rightarrow> string \<Rightarrow> database \<Rightarrow> bool \<times> database" where
  "rbac_db_add_user_to_role m uid rid db =
     (case fetch_member uid rid db of
        (None, db) \<Rightarrow> (False, db)
      | (Some ((u, us, ud), (r, rs, rd)), db) \<Rightarrow>
          (case (json_object_get (Some ud) (Some ''roles''), json_object_get (Some rd) (Some ''users'')) of
             (Some (JArray roles), Some (JArray users)) \<Rightarrow>
               (case add_member m ''roles'' roles r (u, us, ud) db of
                  (False, db) \<Rightarrow> (False, db)
                | (True, db) \<Rightarrow> add_member m ''users'' users u (r, rs, rd) db)
           | _ \<Rightarrow> (False, db)))"

text \<open>Taking it out again goes through \<^verbatim>\<open>db_update_document\<close>, under the names of the physical storage.\<close>

definition remove_member ::
  "moment \<Rightarrow> string \<Rightarrow> json list \<Rightarrow> string \<Rightarrow> string \<times> bool \<times> json \<Rightarrow> database \<Rightarrow> ((bool \<times> bool) \<times> database) faulty" where
  "remove_member m key items s doc db =
     (case doc of (i, shared, d) \<Rightarrow>
        if list_ex (\<lambda>v. case v of JString t \<Rightarrow> strcmp t s = 0 | _ \<Rightarrow> True) items then
          (case set_field (Some d) key (the (without_string s items)) of
             None \<Rightarrow> Inr ((True, False), db)
           | Some d' \<Rightarrow>
               map_sum id (\<lambda>(r, db). ((True, r \<noteq> None), db))
                 (db_update_document m ''default'' ''documents'' i d' (set_shared shared i (Some d') db)))
        else Inr ((False, True), db))"

definition rbac_db_remove_user_from_role ::
  "moment \<Rightarrow> string \<Rightarrow> string \<Rightarrow> database \<Rightarrow> (bool \<times> database) faulty" where
  "rbac_db_remove_user_from_role m uid rid db =
     (case fetch_member uid rid db of
        (None, db) \<Rightarrow> Inr (False, db)
      | (Some ((u, us, ud), (r, rs, rd)), db) \<Rightarrow>
          (case (json_object_get (Some ud) (Some ''roles''), json_object_get (Some rd) (Some ''users'')) of
             (Some (JArray roles), Some (JArray users)) \<Rightarrow>
               (case remove_member m ''roles'' roles r (u, us, ud) db of
                  Inl f \<Rightarrow> Inl f
                | Inr ((role_found, False), db) \<Rightarrow> Inr (False, db)
                | Inr ((role_found, True), db) \<Rightarrow>
                    (case remove_member m ''users'' users u (r, rs, rd) db of
                       Inl f \<Rightarrow> Inl f
                     | Inr ((user_found, False), db) \<Rightarrow> Inr (False, db)
                     | Inr ((user_found, True), db) \<Rightarrow> Inr (role_found \<or> user_found, db)))
           | _ \<Rightarrow> Inr (False, db)))"

section \<open>Permissions\<close>

definition get_resource_permission_key :: "rbac_resource_type \<Rightarrow> string \<Rightarrow> string" where
  "get_resource_permission_key resource_type resource_id =
     int_str (resource_number resource_type) @ '':'' @ resource_id"

text \<open>The bits a value stands for: \<^verbatim>\<open>rbac.c\<close> and the changes in \<^verbatim>\<open>rbac_db.c\<close> only know floating-point numbers.\<close>

fun number_bits :: "json \<Rightarrow> c_int option" where
  "number_bits (JNumber d) = Some (int_of_double d)"
| "number_bits _ = None"

fun permission_bits :: "json \<Rightarrow> c_int option" where
  "permission_bits (JNumber d) = Some (int_of_double d)"
| "permission_bits (JInteger i) = Some (ucast i)"
| "permission_bits _ = None"

definition entry_grants :: "(json \<Rightarrow> c_int option) \<Rightarrow> jptr \<Rightarrow> string \<Rightarrow> c_int \<Rightarrow> bool" where
  "entry_grants bits permissions key permission \<longleftrightarrow>
     (case json_object_get permissions (Some key) of
        None \<Rightarrow> False
      | Some v \<Rightarrow> (case bits v of None \<Rightarrow> False | Some b \<Rightarrow> and b permission = permission))"

definition role_grants ::
  "(json \<Rightarrow> c_int option) \<Rightarrow> jptr \<Rightarrow> rbac_resource_type \<Rightarrow> string \<Rightarrow> c_int \<Rightarrow> bool" where
  "role_grants bits role resource_type resource_id permission \<longleftrightarrow>
     (case json_object_get role (Some ''permissions'') of
        Some (JObject ps) \<Rightarrow>
          entry_grants bits (Some (JObject ps)) (get_resource_permission_key resource_type resource_id) permission \<or>
          entry_grants bits (Some (JObject ps)) (get_resource_permission_key resource_type ''*'') permission
      | _ \<Rightarrow> False)"

definition rbac_check_permission ::
  "database \<Rightarrow> string \<Rightarrow> rbac_resource_type \<Rightarrow> string \<Rightarrow> c_int \<Rightarrow> bool" where
  "rbac_check_permission db uid resource_type resource_id permission \<longleftrightarrow>
     (let q = set_field (Some json_create_object) ''uuid'' (json_create_string uid);
          q = set_field q ''type'' (json_create_string ''user'');
          q = set_field q ''library'' (json_create_string ''system'')
      in case json_object_get (json_array_get (json_object_get (query_users q db) (Some ''documents'')) 0)
                (Some ''roles'') of
           Some (JArray roles) \<Rightarrow>
             list_ex (\<lambda>v. case v of
                 JString rid \<Rightarrow>
                   (let q = set_field (Some json_create_object) ''uuid'' (json_create_string rid);
                        q = set_field q ''type'' (json_create_string ''role'');
                        q = set_field q ''library'' (json_create_string ''system'')
                    in role_grants number_bits
                         (json_array_get (json_object_get (query_roles q db) (Some ''documents'')) 0)
                         resource_type resource_id permission)
               | _ \<Rightarrow> False) roles
         | _ \<Rightarrow> False)"

fun check_roles ::
  "rbac_resource_type \<Rightarrow> string \<Rightarrow> c_int \<Rightarrow> json list \<Rightarrow> database \<Rightarrow> bool \<times> database" where
  "check_roles resource_type resource_id permission [] db = (False, db)"
| "check_roles resource_type resource_id permission (v # vs) db =
     (case v of
        JString rid \<Rightarrow>
          (let (role_doc, db) = virtual_get_role_by_uuid rid db in
           if role_grants permission_bits role_doc resource_type resource_id permission then (True, db)
           else check_roles resource_type resource_id permission vs db)
      | _ \<Rightarrow> check_roles resource_type resource_id permission vs db)"

definition rbac_db_check_permission ::
  "database \<Rightarrow> string \<Rightarrow> rbac_resource_type \<Rightarrow> string \<Rightarrow> c_int \<Rightarrow> bool \<times> database" where
  "rbac_db_check_permission db uid resource_type resource_id permission =
     (let (user_doc, db) = virtual_get_user_by_uuid uid db in
      case json_object_get user_doc (Some ''roles'') of
        Some (JArray roles) \<Rightarrow> check_roles resource_type resource_id permission roles db
      | _ \<Rightarrow> (False, db))"

text \<open>The current bits under a key, for the functions that change them.\<close>

definition current_permission :: "jptr \<Rightarrow> string \<Rightarrow> c_int option" where
  "current_permission permissions key =
     (case json_object_get permissions (Some key) of None \<Rightarrow> None | Some v \<Rightarrow> number_bits v)"

definition double_of_int :: "c_int \<Rightarrow> double" where
  "double_of_int i = double_of_rat (of_int (sint i))"

definition rbac_db_grant_permission ::
  "moment \<Rightarrow> string \<Rightarrow> rbac_resource_type \<Rightarrow> string \<Rightarrow> c_int \<Rightarrow> database \<Rightarrow> (bool \<times> database) faulty" where
  "rbac_db_grant_permission m rid resource_type resource_id permission db =
     (case find_role_by_uuid rid db of
        None \<Rightarrow> Inr (False, db)
      | Some d \<Rightarrow>
          (case json_object_get (Some d) (Some ''permissions'') of
             Some (JObject ps) \<Rightarrow>
               (let key = get_resource_permission_key resource_type resource_id;
                    old = (case current_permission (Some (JObject ps)) key of None \<Rightarrow> 0 | Some b \<Rightarrow> b);
                    ps = set_field (Some (JObject ps)) key (json_create_number (double_of_int (or old permission)));
                    d = set_field (Some d) ''permissions'' (the ps)
                in map_sum id (\<lambda>(r, db). (r \<noteq> None, db))
                     (db_update_document m ''default'' ''documents'' rid (the d) db))
           | _ \<Rightarrow> Inr (False, db)))"

definition rbac_db_revoke_permission ::
  "moment \<Rightarrow> string \<Rightarrow> rbac_resource_type \<Rightarrow> string \<Rightarrow> c_int \<Rightarrow> database \<Rightarrow> (bool \<times> database) faulty" where
  "rbac_db_revoke_permission m rid resource_type resource_id permission db =
     (let shared = shared_document rid db; (role_doc, db) = virtual_get_role_by_uuid rid db in
      case role_doc of
        None \<Rightarrow> Inr (False, db)
      | Some d \<Rightarrow>
          (case json_object_get (Some d) (Some ''permissions'') of
             Some (JObject ps) \<Rightarrow>
               (let key = get_resource_permission_key resource_type resource_id in
                case current_permission (Some (JObject ps)) key of
                  None \<Rightarrow> Inr (True, db)
                | Some old \<Rightarrow>
                    (let rest = and old (not permission);
                         ps = (if rest = 0 then json_object_remove (Some (JObject ps)) (Some key)
                               else set_field (Some (JObject ps)) key (json_create_number (double_of_int rest)));
                         d = set_field (Some d) ''permissions'' (the ps)
                     in map_sum id (\<lambda>(r, db). (r \<noteq> None, db))
                          (db_update_document m ''default'' ''documents'' rid (the d)
                             (set_shared shared rid d db))))
           | _ \<Rightarrow> Inr (False, db)))"

end
