(* ===== verification/Rbac_Props.thy ===== *)
theory Rbac_Props
  imports Rbac Database_Cached
begin

text \<open>
  What passwords and permissions decide.  The check that goes through the document cache is
  related to the stored documents as long as the cache is fresh; the rest shows where the
  functions that change permissions do not reach the documents they mean.
\<close>

section \<open>Passwords\<close>

lemma hex_pair:
  assumes "b < 256"
  shows "hex_value (hex_digit (b div 16)) = Some (b div 16)" and "hex_value (hex_digit (b mod 16)) = Some (b mod 16)"
proof -
  have h: "hex_value (hex_digit n) = Some n" if "n < 16" for n
  proof -
    from that have "n \<in> set [0..<16]" by simp
    moreover have "list_all (\<lambda>n. hex_value (hex_digit n) = Some n) [0..<16]"
      by (simp add: hex_digit_def hex_value_def isdigit_def uchar_def upt_rec)
    ultimately show ?thesis by (simp only: list_all_iff)
  qed
  show "hex_value (hex_digit (b div 16)) = Some (b div 16)" by (rule h) (use assms in linarith)
  show "hex_value (hex_digit (b mod 16)) = Some (b mod 16)" by (rule h) simp
qed

lemma byte_small: "unat (b :: byte) < 256"
  by (rule less_le_trans [OF unsigned_less]) simp

lemma hex_bytes_Cons: "hex_bytes (b # bs) = hex_digit (unat b div 16) # hex_digit (unat b mod 16) # hex_bytes bs"
  by (simp add: hex_bytes_def)

lemma unhex_hex [simp]: "unhex_bytes (hex_bytes bs) = Some bs"
proof (induction bs)
  case (Cons b bs)
  have "of_nat (16 * (unat b div 16) + unat b mod 16) = b"
    unfolding mult_div_mod_eq by simp
  with Cons show ?case
    by (simp only: hex_bytes_Cons unhex_bytes.simps hex_pair [OF byte_small] option.case prod.case)
qed (simp add: hex_bytes_def)

lemma hex_bytes_inject: "hex_bytes a = hex_bytes b \<longleftrightarrow> a = b"
  by (metis option.inject unhex_hex)

lemma length_hex_bytes [simp]: "length (hex_bytes bs) = 2 * length bs"
  by (induction bs) (simp_all add: hex_bytes_Cons, simp add: hex_bytes_def)

lemma hex_bytes_chars: "c \<in> set (hex_bytes bs) \<Longrightarrow> \<not> isspace c \<and> c \<noteq> CHR ''$''"
proof -
  assume "c \<in> set (hex_bytes bs)"
  then have "\<exists>b :: byte. c = hex_digit (unat b div 16) \<or> c = hex_digit (unat b mod 16)"
    by (auto simp: hex_bytes_def)
  then obtain b :: byte where "c = hex_digit (unat b div 16) \<or> c = hex_digit (unat b mod 16)" ..
  moreover have "unat b div 16 < 16" "unat b mod 16 < 16"
    using byte_small [of b] by (simp_all add: div_less_iff_less_mult)
  ultimately obtain n where n: "n < 16" "c = hex_digit n" by blast
  then have "n \<in> set [0..<16]" by simp
  moreover have "list_all (\<lambda>n. \<not> isspace (hex_digit n) \<and> hex_digit n \<noteq> CHR ''$'') [0..<16]"
    by (simp add: hex_digit_def isspace_def uchar_def upt_rec)
  ultimately show ?thesis unfolding n(2) list_all_iff by blast
qed

lemma scan_word_exact:
  assumes "w \<noteq> []" and "\<forall>c\<in>set w. \<not> isspace c" and "length w = n"
  shows "scan_word n (w @ t) = Some (w, t)"
proof -
  have "dropWhile isspace (w @ t) = w @ t" using assms(1,2) by (cases w) auto
  moreover have "take n (takeWhile (\<lambda>c. \<not> isspace c) (w @ t)) = w"
    using assms(2,3) by (simp add: takeWhile_append)
  ultimately show ?thesis using assms(1) by (simp only: scan_word_def Let_def if_False) simp
qed

lemma scan_iterations: "scan_int (int_str 10000 @ CHR ''$'' # s) = Some (10000, CHR ''$'' # s)"
proof -
  have "int_str 10000 = ''10000''" by code_simp
  then show ?thesis by (simp add: scan_int_def isspace_def isdigit_def uchar_def Let_def atoi_def strtol10_def
      digits_val_def digit_val_def)
qed

lemma verify_own_hash:
  assumes "length salt = 16" and "\<And>p s i. length (pbkdf2 p s i) = 32"
  shows "verify_password pbkdf2 password' (hash_password pbkdf2 salt password) =
    Inr (pbkdf2 password' salt 10000 = pbkdf2 password salt 10000)"
proof -
  let ?salt = "hex_bytes salt" and ?hash = "hex_bytes (pbkdf2 password salt 10000)"
  have ne: "?salt \<noteq> []"
    using length_hex_bytes [of salt] assms(1) by (metis length_0_conv mult_is_0 zero_neq_numeral)
  have salt: "scan_word 32 (?salt @ CHR ''$'' # ?hash) = Some (?salt, CHR ''$'' # ?hash)"
    by (rule scan_word_exact) (use assms(1) ne hex_bytes_chars [of _ salt] in auto)
  have len: "length ?hash = 64" by (simp add: assms(2))
  have "scan_word 64 (?hash @ []) = Some (?hash, [])"
  proof (rule scan_word_exact)
    show "?hash \<noteq> []" using len by (metis list.size(3) zero_neq_numeral)
    show "\<forall>c\<in>set ?hash. \<not> isspace c" using hex_bytes_chars by blast
  qed (rule len)
  then have hash: "scan_word 64 ?hash = Some (?hash, [])" by (simp only: append_Nil2)
  have "scan_hash (int_str 10000 @ CHR ''$'' # ?salt @ CHR ''$'' # ?hash) = Some (10000, ?salt, ?hash)"
    by (simp add: scan_hash_def scan_iterations salt hash)
  then show ?thesis
    by (simp add: verify_password_def hash_password_def assms(1) hex_bytes_inject)
qed

text \<open>
  A password is accepted against its own hash, and another one only when PBKDF2 takes both
  to the same bytes under the stored salt.
\<close>

theorem verify_password_correct:
  assumes "length salt = 16" and "\<And>p s i. length (pbkdf2 p s i) = 32"
  shows "verify_password pbkdf2 password' (hash_password pbkdf2 salt password) =
    Inr (pbkdf2 password' salt 10000 = pbkdf2 password salt 10000)"
  using assms by (rule verify_own_hash)

theorem verify_password_correct_witness:
  "verify_password (\<lambda>p s i. replicate 31 0 @ [of_nat (length p)]) ''abc''
     (hash_password (\<lambda>p s i. replicate 31 0 @ [of_nat (length p)]) (replicate 16 7) ''secret'') = Inr False"
  by (subst verify_password_correct) simp_all

text \<open>Two passwords with the same 32-bit hash under the legacy format.\<close>

lemma legacy_hash_collision: "verify_password pbkdf2 ''b!'' (legacy_hash ''aB'') = Inr True"
proof -
  have "legacy_hash ''b!'' = legacy_hash ''aB''"
    by (simp add: legacy_hash_def schar_def uchar_def)
  moreover have "take 8 (legacy_hash ''aB'') \<noteq> ''$pbkdf2$''"
  proof
    assume p: "take 8 (legacy_hash ''aB'') = ''$pbkdf2$''"
    have "CHR ''$'' \<in> set (take 8 (legacy_hash ''aB''))" unfolding p by simp
    then have "CHR ''$'' \<in> set (legacy_hash ''aB'')" by (rule in_set_takeD)
    then show False unfolding legacy_hash_def Let_def using hex_bytes_chars by blast
  qed
  ultimately show ?thesis by (simp add: verify_password_def)
qed

section \<open>Reading through a fresh cache\<close>

text \<open>The cache is fresh when every document in it is the stored one.\<close>

definition fresh :: "database \<Rightarrow> bool" where
  "fresh db \<longleftrightarrow> art_ok (documents db) \<and> cached_ok (doc_cache db) \<and>
     (\<forall>u d. length u \<le> 251 \<longrightarrow> fst (cache_lookup (doc_cache db) (Some (''doc:'' @ u))) = Some d \<longrightarrow> doc_at db u = Some d)"

lemma lookup_view: "gc_ok c \<Longrightarrow> fst (cache_lookup (Some c) (Some k)) = map_of (lru_view c) (c_bytes k)"
  by (simp add: cache_lookup_def case_prod_beta cache_get_refines(2) lru_get_def split: option.splits)

lemma map_of_lru_without: "k' \<noteq> k \<Longrightarrow> map_of (lru_without k xs) k' = map_of xs k'"
  unfolding lru_without_def by (induction xs) auto

lemma map_of_butlast: "map_of (butlast xs) k = Some d \<Longrightarrow> map_of xs k = Some d"
  by (induction xs) (auto split: if_splits)

lemma cache_lookup_other:
  assumes "cached_ok c"
  shows "fst (cache_lookup (snd (cache_lookup c key)) (Some k)) = fst (cache_lookup c (Some k))"
proof -
  obtain c' where c: "c = Some c'" "gc_ok c'" using assms by (rule cached_okE)
  show ?thesis
  proof (cases key)
    case (Some k0)
    note g = cache_get_refines [OF c(2), of "c_bytes k0"]
    have s: "snd (cache_lookup c key) = Some (snd (generic_cache_get c' (c_bytes k0)))"
      using c(1) Some by (simp add: cache_lookup_def case_prod_beta)
    have "map_of (snd (lru_get (lru_view c') (c_bytes k0))) (c_bytes k) = map_of (lru_view c') (c_bytes k)"
      using map_of_lru_without [of "c_bytes k" "c_bytes k0" "lru_view c'"]
      by (auto simp: lru_get_def split: option.splits)
    then show ?thesis
      unfolding s using lookup_view [OF g(1)] lookup_view [OF c(2)] c(1) g(3) by simp
  qed (use c in \<open>simp add: cache_lookup_def\<close>)
qed

lemma cache_store_other:
  assumes "cached_ok c" and "k' \<noteq> k" and "fst (cache_lookup (cache_store c (Some k) v) (Some k')) = Some d"
  shows "fst (cache_lookup c (Some k')) = Some d"
proof -
  obtain c' where c: "c = Some c'" "gc_ok c'" using assms(1) by (rule cached_okE)
  note p = cache_put_refines [OF c(2), of "c_bytes k" v]
  have k: "c_bytes k' \<noteq> c_bytes k" using assms(2) by simp
  have "cache_store c (Some k) v = Some (generic_cache_put c' (c_bytes k) v)"
    using c(1) by (simp add: cache_store_def)
  then have "map_of (lru_put (unat (gc_capacity c')) (lru_view c') (c_bytes k) v) (c_bytes k') = Some d"
    using assms(3) lookup_view p by metis
  then have "map_of (lru_view c') (c_bytes k') = Some d"
    using k map_of_lru_without [OF k, of "lru_view c'"] map_of_butlast
    by (auto simp: lru_put_def split: if_splits)
  then show ?thesis using lookup_view [OF c(2)] c(1) by simp
qed

lemma virtual_get_fresh:
  assumes "fresh db"
  shows "fst (virtual_get (Some u) db) = doc_at db u" (is ?get)
    and "fresh (snd (virtual_get (Some u) db))" (is ?fresh)
    and "doc_at (snd (virtual_get (Some u) db)) = doc_at db" (is ?docs)
proof -
  let ?key = "generate_doc_cache_key_fast (Some u) 256"
  let ?c = "snd (cache_lookup (doc_cache db) ?key)"
  let ?db = "db\<lparr>doc_cache := ?c\<rparr>"
  have a: "art_ok (documents db)" and c: "cached_ok (doc_cache db)"
    and f: "\<And>u d. length u \<le> 251 \<Longrightarrow> fst (cache_lookup (doc_cache db) (Some (''doc:'' @ u))) = Some d \<Longrightarrow> doc_at db u = Some d"
    using assms by (auto simp: fresh_def)
  have c': "cached_ok ?c" by (rule cache_lookup_again(2) [OF c])
  have docs: "doc_at ?db = doc_at db" by (rule doc_at_cong) simp
  have key: "?key = (if length u \<le> 251 then Some (''doc:'' @ u) else None)"
    by (simp add: generate_doc_cache_key_fast_def)
  have other: "fst (cache_lookup ?c (Some k)) = fst (cache_lookup (doc_cache db) (Some k))" for k
    by (rule cache_lookup_other [OF c])
  have "?get \<and> ?fresh \<and> ?docs"
  proof (cases "fst (cache_lookup (doc_cache db) ?key)")
    case (Some d)
    then have "length u \<le> 251" by (auto simp: key cache_lookup_def split: if_splits)
    with Some f have "doc_at db u = Some d" by (simp add: key)
    moreover have "virtual_get (Some u) db = (Some d, ?db)"
      using Some by (simp add: virtual_get_def case_prod_beta Let_def)
    moreover have "fresh ?db" using a c' f other docs by (auto simp: fresh_def)
    ultimately show ?thesis using docs by simp
  next
    case None
    let ?found = "find_document u ?db"
    have fd: "fst ?found = doc_at db u" "doc_at (snd ?found) = doc_at db"
      using find_document_doc_at(1,2) [of ?db u] a docs doc_at_cong [of "snd ?found" ?db] by simp_all
    have l: "leaves (documents (snd ?found)) = leaves (documents ?db)"
      by (rule find_document_doc_at(2)) (use a in simp)
    have ok: "art_ok (documents (snd ?found))" using art_ok_cong [OF l] a by simp
    show ?thesis
    proof (cases "doc_at db u")
      case nodoc: None
      then have "virtual_get (Some u) db = (None, snd ?found)"
        using None fd(1)
        by (simp add: virtual_get_def case_prod_beta Let_def storage_get_document_def json_deep_copy_def)
      moreover have "fresh (snd ?found)" using ok c' f other fd(2) by (auto simp: fresh_def)
      ultimately show ?thesis using fd(2) nodoc by simp
    next
      case (Some d)
      have copy: "json_deep_copy (Some d) = Some d"
        using doc_at_ok(1) [OF Some] doc_at_shallow [OF Some] deep_copy_id by blast
      let ?db' = "(snd ?found)\<lparr>doc_cache := cache_store ?c ?key d\<rparr>"
      have get: "virtual_get (Some u) db = (Some d, ?db')"
        using None fd(1) Some copy by (simp add: virtual_get_def case_prod_beta Let_def storage_get_document_def)
      have docs': "doc_at ?db' = doc_at db" using fd(2) doc_at_cong [of ?db' "snd ?found"] by simp
      have "doc_at ?db' u' = Some d'"
        if "length u' \<le> 251" "fst (cache_lookup (cache_store ?c ?key d) (Some (''doc:'' @ u'))) = Some d'" for u' d'
      proof (cases "u' = u")
        case True
        with that key cache_store_lookup(1) [OF c', of "''doc:'' @ u" d] Some show ?thesis unfolding docs' by simp
      next
        case False
        have "fst (cache_lookup ?c (Some (''doc:'' @ u'))) = Some d'"
        proof (cases "length u \<le> 251")
          case True
          then show ?thesis
            using cache_store_other [OF c', of "''doc:'' @ u'" "''doc:'' @ u" d d'] that(2) False by (simp add: key)
        next
          case False
          then show ?thesis using that(2) by (simp add: key cache_store_def)
        qed
        with other f that(1) show ?thesis unfolding docs' by simp
      qed
      moreover have "cached_ok (cache_store ?c ?key d)"
        using c' cache_store_lookup(2) [OF c'] by (cases "length u \<le> 251") (simp_all add: key, simp add: cache_store_def)
      ultimately have "fresh ?db'" using ok by (simp add: fresh_def)
      with get docs' Some show ?thesis by simp
    qed
  qed
  then show ?get and ?fresh and ?docs by blast+
qed

section \<open>What a check of a permission decides\<close>

text \<open>The roles of a document, and what they grant according to the stored documents.\<close>

definition granted_by :: "(string \<Rightarrow> jptr) \<Rightarrow> json list \<Rightarrow> rbac_resource_type \<Rightarrow> string \<Rightarrow> c_int \<Rightarrow> bool" where
  "granted_by doc roles rt rid p \<longleftrightarrow> (\<exists>r. JString r \<in> set roles \<and> role_grants permission_bits (doc r) rt rid p)"

lemma check_roles_fresh:
  assumes "fresh db"
  shows "fst (check_roles rt rid p vs db) = granted_by (doc_at db) vs rt rid p"
    and "fresh (snd (check_roles rt rid p vs db))"
    and "doc_at (snd (check_roles rt rid p vs db)) = doc_at db"
  using assms
proof (induction vs arbitrary: db)
  case (Cons v vs)
  {
    case 1
    show ?case
      using virtual_get_fresh [OF 1] Cons.IH(1) 1
      by (auto simp: granted_by_def virtual_get_role_by_uuid_def case_prod_beta Let_def split: json.splits)
  next
    case 2
    show ?case
      using virtual_get_fresh [OF 2] Cons.IH(2) 2
      by (auto simp: virtual_get_role_by_uuid_def case_prod_beta Let_def split: json.splits)
  next
    case 3
    show ?case
      using virtual_get_fresh [OF 3] Cons.IH(3) 3
      by (auto simp: virtual_get_role_by_uuid_def case_prod_beta Let_def split: json.splits)
  }
qed (simp_all add: granted_by_def)

lemma check_permission_fresh:
  assumes "fresh db"
  shows "fst (rbac_db_check_permission db uid rt rid p) \<longleftrightarrow>
      (\<exists>roles. json_object_get (doc_at db uid) (Some ''roles'') = Some (JArray roles) \<and>
        granted_by (doc_at db) roles rt rid p)"
    and "fresh (snd (rbac_db_check_permission db uid rt rid p))"
    and "doc_at (snd (rbac_db_check_permission db uid rt rid p)) = doc_at db"
  using virtual_get_fresh [OF assms, of uid]
    check_roles_fresh [OF virtual_get_fresh(2) [OF assms, of uid]]
  by (auto simp: rbac_db_check_permission_def virtual_get_user_by_uuid_def case_prod_beta Let_def
      split: option.splits json.splits)


section \<open>The check of \<^verbatim>\<open>rbac.c\<close>\<close>

lemma first_of_query:
  assumes "json_array_get (json_object_get (result_object ds) (Some ''documents'')) 0 = Some d"
  shows "d \<in> set ds"
  using assms by (auto simp: json_array_get_def split: if_splits)

lemma storage_query_subset:
  assumes "storage_query_documents q db = r" and "json_object_get r (Some ''documents'') = Some (JArray ds)"
  shows "set ds \<subseteq> set (stored_objects (documents db))"
proof -
  let ?fs = "filter (\<lambda>d. query_matches storage_values_match q (Some d)) (stored_objects (documents db))"
  have "map json_clone ?fs = ?fs" by (rule map_clone_stored [where docs = "documents db"]) auto
  then have "ds = ?fs" using assms by (auto simp: storage_query_documents_def split: option.splits)
  then show ?thesis by auto
qed

lemma query_roles_stored:
  assumes "json_array_get (json_object_get (query_roles q db) (Some ''documents'')) 0 = Some d"
  shows "d \<in> set (stored_objects (documents db))"
proof -
  obtain q' where q': "query_roles q db = storage_query_documents q' db"
    by (auto simp: query_roles_def virtual_query_def Let_def)
  obtain ds where ds: "json_object_get (query_roles q db) (Some ''documents'') = Some (JArray ds)" "d = ds ! 0" "ds \<noteq> []"
    using assms by (auto simp: json_array_get_def split: option.splits json.splits if_splits)
  from storage_query_subset [OF q' [symmetric] ds(1)] ds(2,3) show ?thesis by auto
qed

text \<open>
  The other check, the one the handlers call, only counts permissions that are floating-point
  numbers.  A stored number without a fraction or exponent is read back as an integer, so as
  long as no stored role has any other, it refuses every user everything.
\<close>

theorem rbac_check_permission_refuses:
  assumes "\<forall>d \<in> set (stored_objects (documents db)). \<forall>ps.
      json_object_get (Some d) (Some ''permissions'') = Some (JObject ps) \<longrightarrow>
      (\<forall>v \<in> snd ` set ps. json_type_of v \<noteq> JSON_NUMBER)"
  shows "\<not> rbac_check_permission db uid rt rid p"
proof -
  have no: "\<not> role_grants number_bits (json_array_get (json_object_get (query_roles q db) (Some ''documents'')) 0) rt rid p"
    for q
  proof
    let ?d = "json_array_get (json_object_get (query_roles q db) (Some ''documents'')) 0"
    assume g: "role_grants number_bits ?d rt rid p"
    then obtain d where d: "?d = Some d" by (cases ?d) (auto simp: role_grants_def)
    from g d obtain ps v key b where ps: "json_object_get (Some d) (Some ''permissions'') = Some (JObject ps)"
      "obj_get ps key = Some v" "number_bits v = Some b"
      by (auto simp: role_grants_def entry_grants_def split: option.splits json.splits)
    have "json_type_of v = JSON_NUMBER" using ps(3) by (cases v) simp_all
    moreover have "v \<in> snd ` set ps" using obj_get_in [OF ps(2)] by force
    ultimately show False using assms query_roles_stored [OF d] ps(1) by blast
  qed
  then show ?thesis
    unfolding rbac_check_permission_def Let_def
    by (auto simp: list_ex_iff split: option.splits json.splits)
qed

section \<open>Changing permissions\<close>

lemma update_elsewhere:
  assumes "art_ok (documents db)" and "doc_at db u = Some (JObject es)"
    and "obj_get es ''library'' = Some (JString l)" and "obj_get es ''type'' = Some (JString t)" and "t \<noteq> ''documents''"
  shows "db_update_document m ''default'' ''documents'' u d db = Inr (None, snd (find_document u db))"
proof -
  have "document_belongs (Some (JObject es)) ''default'' ''documents'' = Inr False"
    using assms(3-5) by (cases "l = ''default''") (simp_all add: document_belongs_def field_is_def json_get_string_def)
  then show ?thesis
    using find_document_doc_at(1) [OF assms(1), of u] assms(2)
    by (simp add: db_update_document_def case_prod_beta Let_def)
qed

lemma doc_at_find: "art_ok (documents db) \<Longrightarrow> doc_at (snd (find_document u db)) = doc_at db"
  using find_document_doc_at(2) by (rule doc_at_cong)

text \<open>
  Permissions cannot be granted.  The change goes to \<^verbatim>\<open>db_update_document\<close> under the names of the
  physical storage, which only touches documents of the type \<^verbatim>\<open>documents\<close>: for a role the
  call fails, and no document changes.
\<close>

theorem grant_never_succeeds:
  assumes "art_ok (documents db)" and "doc_at db rid = Some (JObject es)"
    and "obj_get es ''library'' = Some (JString l)" and "obj_get es ''type'' = Some (JString ''role'')"
  shows "\<exists>db'. rbac_db_grant_permission m rid rt r p db = Inr (False, db') \<and> doc_at db' = doc_at db"
proof -
  have "db_update_document m ''default'' ''documents'' rid d db = Inr (None, snd (find_document rid db))" for d
    by (rule update_elsewhere [OF assms]) simp
  with doc_at_find [OF assms(1)] show ?thesis
    by (auto simp: rbac_db_grant_permission_def Let_def split: option.splits json.splits)
qed

text \<open>
  Revoking a permission reports success and does nothing.  The stored bits are an integer, the
  function looks for a floating-point number, and takes its absence for the absence of the
  permission: every later check decides as before.
\<close>

theorem revoke_does_nothing:
  assumes "fresh db" and "doc_at db rid = Some (JObject es)"
    and "obj_get es ''permissions'' = Some (JObject ps)"
    and "obj_get ps (get_resource_permission_key rt r) = Some (JInteger i)"
  shows "\<exists>db'. rbac_db_revoke_permission m rid rt r p db = Inr (True, db') \<and>
    (\<forall>uid rt r p. fst (rbac_db_check_permission db' uid rt r p) = fst (rbac_db_check_permission db uid rt r p))"
proof -
  let ?db = "snd (virtual_get (Some rid) db)"
  note g = virtual_get_fresh [OF assms(1), of rid]
  have "rbac_db_revoke_permission m rid rt r p db = Inr (True, ?db)"
    using g(1) assms(2-4)
    by (simp add: rbac_db_revoke_permission_def virtual_get_role_by_uuid_def case_prod_beta Let_def current_permission_def)
  moreover have "fst (rbac_db_check_permission ?db uid rt r p) = fst (rbac_db_check_permission db uid rt r p)"
    for uid rt r p
    using check_permission_fresh(1) [OF g(2), of uid rt r p] check_permission_fresh(1) [OF assms(1), of uid rt r p] g(3)
    by simp
  ultimately show ?thesis by blast
qed

text \<open>
  A deleted role goes on granting.  While the documents of a user and of its first role are in
  the cache, deleting the role takes nothing away from the user.
\<close>

theorem deleted_role_still_grants:
  assumes "cached_ok (doc_cache db)" and "length uid \<le> 251" and "length r \<le> 251"
    and "fst (cache_lookup (doc_cache db) (Some (''doc:'' @ uid))) = Some ud"
    and "fst (cache_lookup (doc_cache db) (Some (''doc:'' @ r))) = Some rd"
    and "json_object_get (Some ud) (Some ''roles'') = Some (JArray (JString r # rs))"
    and "role_grants permission_bits (Some rd) rt rid p"
    and "rbac_db_delete_role r db = (n, db')"
  shows "fst (rbac_db_check_permission db' uid rt rid p)"
proof -
  have c: "doc_cache db' = doc_cache db"
    using assms(8) virtual_caches(5) [of "Some r" db] by (simp add: rbac_db_delete_role_def)
  have key: "generate_doc_cache_key_fast (Some uid) 256 = Some (''doc:'' @ uid)"
    "generate_doc_cache_key_fast (Some r) 256 = Some (''doc:'' @ r)"
    using assms(2,3) doc_cache_key by blast+
  let ?c = "snd (cache_lookup (doc_cache db) (Some (''doc:'' @ uid)))"
  have u: "virtual_get (Some uid) db' = (Some ud, db'\<lparr>doc_cache := ?c\<rparr>)"
    unfolding virtual_get_def Let_def option.case key c using assms(4) by (simp add: case_prod_beta)
  have "fst (cache_lookup ?c (Some (''doc:'' @ r))) = Some rd"
    unfolding cache_lookup_other [OF assms(1)] by (rule assms(5))
  then have "fst (virtual_get (Some r) (db'\<lparr>doc_cache := ?c\<rparr>)) = Some rd"
    by (intro virtual_get_cached) (simp add: key)
  then show ?thesis
    using assms(6,7) u
    by (simp add: rbac_db_check_permission_def virtual_get_user_by_uuid_def virtual_get_role_by_uuid_def case_prod_beta)
qed

section \<open>Creating a user and signing in\<close>

definition stored_user :: "moment \<Rightarrow> string \<Rightarrow> string \<Rightarrow> json" where
  "stored_user m name h =
     JObject [(''username'', JString name), (''password_hash'', JString h), (''roles'', JArray []),
       (''type'', JString ''user''), (''library'', JString ''system''), (''collection'', JString ''users''),
       (''owner'', JString ''system-admin''), (''uuid'', JString (make_uuid m 0)),
       (''created_at'', JInteger (now m)), (''modified_at'', JInteger (now m))]"

definition name_query :: "string \<Rightarrow> entries" where
  "name_query name =
     [(''type'', JString ''user''), (''library'', JString ''system''), (''collection'', JString ''users''),
      (''username'', JString name)]"

lemma name_queries:
  "query_users (set_field (Some json_create_object) ''username'' (json_create_string name)) db =
     storage_query_documents (Some (JObject (name_query name))) db"
  "query_users (set_field (rbac_build_user_query ''system'') ''username'' (json_create_string name)) db =
     storage_query_documents (Some (JObject (name_query name))) db"
  by (simp_all add: query_users_def virtual_query_def collection_or_plural_def rbac_build_user_query_def
      json_create_object_def json_create_string_def merge_fields_def name_query_def json_get_type_def)

definition new_user :: "string \<Rightarrow> string \<Rightarrow> entries" where
  "new_user name h = [(''username'', JString name), (''password_hash'', JString h), (''roles'', JArray [])]"

definition typed_user :: "string \<Rightarrow> string \<Rightarrow> entries" where
  "typed_user name h = new_user name h @
     [(''type'', JString ''user''), (''library'', JString ''system''), (''collection'', JString ''users''),
      (''owner'', JString ''system-admin'')]"

lemma new_user_fields:
  "set_field (set_field (set_field (Some json_create_object) ''username'' (json_create_string name))
     ''password_hash'' (json_create_string h)) ''roles'' json_create_array = Some (JObject (new_user name h))"
  by (simp add: new_user_def json_create_object_def json_create_string_def json_create_array_def)

lemma typed_user_fields:
  "set_field (set_field (set_field (set_field (Some (JObject (new_user name h))) ''type'' (json_create_string ''user''))
     ''library'' (json_create_string ''system'')) ''collection'' (json_create_string ''users''))
     ''owner'' (json_create_string ''system-admin'') = Some (JObject (typed_user name h))"
  by (simp add: new_user_def typed_user_def json_create_string_def)

lemma stored_user_fields:
  "set_field (set_field (set_field (Some (JObject (typed_user name h))) ''uuid'' (json_create_string (make_uuid m 0)))
     ''created_at'' (json_create_integer (now m))) ''modified_at'' (json_create_integer (now m)) =
   Some (stored_user m name h)"
  "json_object_get (set_field (Some (JObject (typed_user name h))) ''uuid'' (json_create_string (make_uuid m 0)))
     (Some ''created_at'') = None"
  by (simp_all add: new_user_def typed_user_def stored_user_def json_create_string_def json_create_integer_def)

lemma user_copies:
  "json_deep_copy (Some (JObject (new_user name h))) = Some (JObject (new_user name h))"
  "json_deep_copy (Some (JObject (typed_user name h))) = Some (JObject (typed_user name h))"
  "json_deep_copy (Some (stored_user m name h)) = Some (stored_user m name h)"
  by (rule deep_copy_id; simp add: new_user_def typed_user_def stored_user_def numeral_eq_Suc)+

lemma insert_user:
  "virtual_insert m (Some ''user'') (Some ''system'') (Some ''users'') (Some (JObject (new_user name h)))
     (Some ''system-admin'') db =
   (Some (stored_user m name h), db\<lparr>documents := snd (skiplist_insert (documents db) (c_bytes (make_uuid m 0))
      (doc_bytes (Some (stored_user m name h))))\<rparr>)"
proof -
  have "json_stringify (Some v) \<noteq> None" for v by (simp add: json_stringify_def)
  then show ?thesis
    by (simp only: virtual_insert_def storage_insert_document_def Let_def option.case prod.case
      collection_or_plural_def user_copies typed_user_fields stored_user_fields simp_thms if_True if_False)
qed

lemma stored_objects_insert:
  assumes "art_get docs (c_bytes uuid) = None" and "storable v" and "escaped_json v = JObject es"
  shows "stored_objects (snd (skiplist_insert docs (c_bytes uuid) (doc_bytes (Some v)))) =
    stored_objects docs @ [JObject es]"
proof -
  have "parsed_object (doc_bytes (Some v)) = Some (JObject es)"
    using doc_parse_bytes [OF assms(2)] assms(3) by (simp add: parsed_object_def)
  then show ?thesis
    using assms(1) by (simp add: stored_objects_leaves insert_leaves)
qed


section \<open>Witnesses\<close>

definition sample_role :: entries where
  "sample_role = [(''uuid'', JString ''r1''), (''type'', JString ''role''), (''library'', JString ''system''),
     (''collection'', JString ''roles''), (''permissions'', JObject [(''2:*'', JInteger 7)]), (''users'', JArray [])]"

definition sample_user :: entries where
  "sample_user = [(''uuid'', JString ''u1''), (''type'', JString ''user''), (''library'', JString ''system''),
     (''collection'', JString ''users''), (''roles'', JArray [JString ''r1''])]"

definition sample_rbac :: database where
  "sample_rbac = replace_document ''u1'' (Some (JObject sample_user))
     (replace_document ''r1'' (Some (JObject sample_role)) db_init)"

lemma sample_storable:
  "storable (JObject sample_role)" "storable (JObject sample_user)"
  "escaped_json (JObject sample_role) = JObject sample_role" "escaped_json (JObject sample_user) = JObject sample_user"
  unfolding storable_def reads_ok_def max_json_input_size_def by code_simp+

lemma sample_docs:
  "art_ok (documents sample_rbac)" "doc_at sample_rbac ''r1'' = Some (JObject sample_role)"
  "doc_at sample_rbac ''u1'' = Some (JObject sample_user)"
proof -
  have o: "art_ok (documents db_init)" by (simp add: art_ok_create)
  note r = doc_at_replace [OF o, of "''r1''" "JObject sample_role"]
  note u = doc_at_replace [OF r(2), of "''u1''" "JObject sample_user"]
  show "art_ok (documents sample_rbac)" "doc_at sample_rbac ''r1'' = Some (JObject sample_role)"
    "doc_at sample_rbac ''u1'' = Some (JObject sample_user)"
    unfolding sample_rbac_def
    using r u doc_parse_bytes [OF sample_storable(1)] doc_parse_bytes [OF sample_storable(2)]
    by (simp_all add: sample_storable(3,4) del: escaped_json.simps)
qed

lemma sample_fresh: "fresh sample_rbac"
proof -
  have d: "doc_cache sample_rbac = doc_cache db_init" by (simp add: sample_rbac_def)
  show ?thesis unfolding fresh_def d using sample_docs(1) init_caches empty_cache by simp
qed

lemma sample_key: "get_resource_permission_key RBAC_DOCUMENT ''*'' = ''2:*''"
  by code_simp

lemma sample_grants: "role_grants permission_bits (Some (JObject sample_role)) RBAC_DOCUMENT ''x'' 4"
  by (simp add: role_grants_def sample_key entry_grants_def sample_role_def)


lemma sample_stored: "stored_objects (documents sample_rbac) = [JObject sample_role, JObject sample_user]"
proof -
  have l: "leaves (documents sample_rbac) =
      [\<lparr>leaf_key = c_bytes ''r1'', leaf_value = doc_bytes (Some (JObject sample_role))\<rparr>,
       \<lparr>leaf_key = c_bytes ''u1'', leaf_value = doc_bytes (Some (JObject sample_user))\<rparr>]"
    by (simp add: sample_rbac_def replace_document_def art_replace_def insert_leaves delete_leaves
        art_ok_create art_get_delete art_get_create art_get_insert art_ok_insert art_ok_delete leaves_create)
  have "parsed_object (doc_bytes (Some (JObject sample_role))) = Some (JObject sample_role)"
    "parsed_object (doc_bytes (Some (JObject sample_user))) = Some (JObject sample_user)"
    using doc_parse_bytes [OF sample_storable(1)] doc_parse_bytes [OF sample_storable(2)]
    unfolding sample_storable(3,4) by (simp_all add: parsed_object_def)
  then show ?thesis by (simp add: stored_objects_leaves l)
qed

theorem rbac_check_permission_refuses_witness:
  "\<not> rbac_check_permission sample_rbac ''u1'' RBAC_DOCUMENT ''x'' 4"
  by (rule rbac_check_permission_refuses)
    (auto simp: sample_stored sample_role_def sample_user_def)

theorem grant_never_succeeds_witness:
  "\<exists>db'. rbac_db_grant_permission \<lparr>now_uuid = 0, now = 0, nsec = 0, thread_id = 0\<rparr> ''r1'' RBAC_DOCUMENT ''x'' 8
     sample_rbac = Inr (False, db') \<and> doc_at db' = doc_at sample_rbac"
  by (rule grant_never_succeeds [OF sample_docs(1,2)]) (simp_all add: sample_role_def)

theorem revoke_does_nothing_witness:
  "\<exists>db'. rbac_db_revoke_permission \<lparr>now_uuid = 0, now = 0, nsec = 0, thread_id = 0\<rparr> ''r1'' RBAC_DOCUMENT ''*'' 4
     sample_rbac = Inr (True, db') \<and>
     (\<forall>uid rt r p. fst (rbac_db_check_permission db' uid rt r p) = fst (rbac_db_check_permission sample_rbac uid rt r p))"
  by (rule revoke_does_nothing [OF sample_fresh sample_docs(2), where i = 7 and ps = "[(''2:*'', JInteger 7)]"])
    (simp_all add: sample_role_def sample_key)

text \<open>The same database after both documents were read.\<close>

lemma two_cached:
  obtains c where "cached_ok (Some c)" "fst (cache_lookup (Some c) (Some ''doc:u1'')) = Some (JObject sample_user)"
    "fst (cache_lookup (Some c) (Some ''doc:r1'')) = Some (JObject sample_role)"
proof -
  obtain c0 :: "json generic_cache" where c0: "generic_cache_create 10 = Some c0"
    by (simp add: generic_cache_create_def)
  note ok0 = create_ok [OF c0]
  note p1 = cache_put_refines [OF ok0(1), of "c_bytes ''doc:u1''" "JObject sample_user"]
  let ?c1 = "generic_cache_put c0 (c_bytes ''doc:u1'') (JObject sample_user)"
  have ok1: "gc_ok ?c1" using p1 by blast
  note p2 = cache_put_refines [OF ok1, of "c_bytes ''doc:r1''" "JObject sample_role"]
  let ?c2 = "generic_cache_put ?c1 (c_bytes ''doc:r1'') (JObject sample_role)"
  have ok2: "gc_ok ?c2" using p2 by blast
  have "gc_capacity ?c1 = 10" using capacity_kept [of c0 "Put (c_bytes ''doc:u1'') (JObject sample_user)"] ok0(2) by simp
  then have "lru_view ?c2 = [(c_bytes ''doc:r1'', JObject sample_role), (c_bytes ''doc:u1'', JObject sample_user)]"
    using p1 p2 ok0(2,3) by (simp add: lru_put_def)
  then show ?thesis using that [of ?c2] ok2 by (simp add: lookup_view cached_ok_def)
qed

theorem deleted_role_still_grants_witness:
  "\<exists>c. fst (rbac_db_check_permission
     (snd (rbac_db_delete_role ''r1'' (sample_rbac\<lparr>doc_cache := c\<rparr>))) ''u1'' RBAC_DOCUMENT ''x'' 4)"
proof -
  obtain c where c: "cached_ok (Some c)" "fst (cache_lookup (Some c) (Some ''doc:u1'')) = Some (JObject sample_user)"
    "fst (cache_lookup (Some c) (Some ''doc:r1'')) = Some (JObject sample_role)"
    by (rule two_cached)
  have "fst (rbac_db_check_permission
     (snd (rbac_db_delete_role ''r1'' (sample_rbac\<lparr>doc_cache := Some c\<rparr>))) ''u1'' RBAC_DOCUMENT ''x'' 4)"
    by (rule deleted_role_still_grants
          [where db = "sample_rbac\<lparr>doc_cache := Some c\<rparr>" and uid = "''u1''" and r = "''r1''" and
             ud = "JObject sample_user" and rd = "JObject sample_role" and rs = "[]", OF _ _ _ _ _ _ sample_grants surjective_pairing])
      (simp_all add: c, simp add: sample_user_def)
  then show ?thesis by blast
qed


end
