(* ===== verification/Rate_Limiter.thy ===== *)
theory Rate_Limiter
  imports Database
begin

text \<open>
  The rate limiter and the circuit breaker, \<^verbatim>\<open>src/src/components/core/rate_limiter.c\<close>.  All their
  state is in documents of the database: one per service, named \<^verbatim>\<open>circuit-<service>\<close>, and one
  per address, named \<^verbatim>\<open>connrate-<address>\<close>.

  The code reads \<^verbatim>\<open>value.number\<close>, a member of a union, without a look at the type of the value.
  Of an integer this gives the \<^verbatim>\<open>double\<close> with the same bits; for the other types, whose
  union holds a pointer, a size or a single \<^verbatim>\<open>int\<close>, the result is the argument \<open>junk\<close>.
\<close>

section \<open>Numbers\<close>

text \<open>The IEEE 754 value of 64 bits.\<close>

definition double_of_bits :: "c_int64 \<Rightarrow> double" where
  "double_of_bits w =
     (let e = uint (and (drop_bit 52 w) 0x7FF); f = uint (take_bit 52 w);
          r = (if e = 0 then of_int f * powz 2 (- 1074) else of_int (2 ^ 52 + f) * powz 2 (e - 1075))
      in if e = 2047 then (if f = 0 then (if bit w 63 then NegInf else PosInf) else NaN)
         else if r = 0 then (if bit w 63 then NegZero else Fin 0)
         else Fin (if bit w 63 then - r else r))"

fun raw_number :: "(json \<Rightarrow> double) \<Rightarrow> json \<Rightarrow> double" where
  "raw_number junk (JNumber d) = d"
| "raw_number junk (JInteger i) = double_of_bits i"
| "raw_number junk v = junk v"

definition number_int :: "c_int \<Rightarrow> json" where
  "number_int i = json_create_number (double_of_rat (of_int (sint i)))"

definition number_time :: "c_int64 \<Rightarrow> json" where
  "number_time t = json_create_number (double_of_int64 t)"

section \<open>Configuration\<close>

record rate_limiter_config =
  requests_per_minute :: c_int
  burst_size :: c_int
  connection_rate_limit :: c_int
  circuit_failure_threshold :: c_int
  circuit_reset_timeout :: c_int
  circuit_half_open_requests :: c_int

definition default_config :: rate_limiter_config where
  "default_config =
     \<lparr>requests_per_minute = 600, burst_size = 50, connection_rate_limit = 10,
      circuit_failure_threshold = 5, circuit_reset_timeout = 30, circuit_half_open_requests = 3\<rparr>"

definition config_value :: "jptr \<Rightarrow> string \<Rightarrow> c_int \<Rightarrow> c_int" where
  "config_value config key dflt =
     (case json_object_get config (Some key) of Some (JNumber d) \<Rightarrow> int_of_double d | _ \<Rightarrow> dflt)"

definition rate_limiter_reload_config :: "database \<Rightarrow> rate_limiter_config" where
  "rate_limiter_reload_config db =
     (let q = set_field (Some json_create_object) ''type'' (json_create_string ''config'');
          q = set_field q ''name'' (json_create_string ''rate_limiter'');
          q = set_field q ''library'' (json_create_string ''system'');
          docs = json_object_get (storage_query_documents q db) (Some ''documents'');
          config = json_object_get (json_array_get docs 0) (Some ''config'')
      in if config = None then default_config
         else
           \<lparr>requests_per_minute = config_value config ''requests_per_minute'' (requests_per_minute default_config),
            burst_size = config_value config ''burst_size'' (burst_size default_config),
            connection_rate_limit = config_value config ''connection_rate_limit'' (connection_rate_limit default_config),
            circuit_failure_threshold = config_value config ''circuit_failure_threshold'' (circuit_failure_threshold default_config),
            circuit_reset_timeout = config_value config ''circuit_reset_timeout'' (circuit_reset_timeout default_config),
            circuit_half_open_requests = config_value config ''circuit_half_open_requests'' (circuit_half_open_requests default_config)\<rparr>)"

text \<open>The check of a request is switched off.\<close>

definition rate_limiter_check_request :: "rate_limiter_config \<Rightarrow> string \<Rightarrow> database \<Rightarrow> bool" where
  "rate_limiter_check_request cfg ip_address db = True"

section \<open>The circuit breaker\<close>

definition circuit_closed :: c_int where "circuit_closed = 0"
definition circuit_open :: c_int where "circuit_open = 1"
definition circuit_half_open :: c_int where "circuit_half_open = 2"

text \<open>Both names go through \<^verbatim>\<open>snprintf\<close> with a buffer of 256 bytes.\<close>

definition circuit_id :: "string \<Rightarrow> string" where
  "circuit_id service = take 255 (''circuit-'' @ service)"

definition connection_id :: "string \<Rightarrow> string" where
  "connection_id ip_address = take 255 (''connrate-'' @ ip_address)"

text \<open>
  The pointer to the number of half-open requests is fetched before the document is changed,
  and goes on pointing at the old value.
\<close>

definition circuit_breaker_get_state ::
  "(json \<Rightarrow> double) \<Rightarrow> rate_limiter_config \<Rightarrow> moment \<Rightarrow> string \<Rightarrow> database \<Rightarrow> c_int \<times> database" where
  "circuit_breaker_get_state junk cfg m service db =
     (let (doc, db) = storage_get_document (circuit_id service) db in
      case json_object_get doc (Some ''state'') of
        None \<Rightarrow> (circuit_closed, db)
      | Some state_val \<Rightarrow>
          (let last_failure = json_object_get doc (Some ''last_failure'');
               half_open = json_object_get doc (Some ''half_open_requests'');
               state = int_of_double (raw_number junk state_val);
               expired = (case last_failure of
                   None \<Rightarrow> False
                 | Some v \<Rightarrow> state = circuit_open \<and>
                     sint (circuit_reset_timeout cfg) \<le> sint (now m - int64_of_double (raw_number junk v)));
               (state, doc, db) =
                 (if expired then
                    (let d = set_field doc ''state'' (number_int circuit_half_open);
                         d = set_field d ''half_open_requests'' (number_int 0)
                     in (circuit_half_open, d, snd (storage_update_document m (circuit_id service) d db)))
                  else (state, doc, db));
               too_many = (case half_open of
                   None \<Rightarrow> False
                 | Some v \<Rightarrow> state = circuit_half_open \<and>
                     sint (circuit_half_open_requests cfg) \<le> sint (int_of_double (raw_number junk v)))
           in if too_many then
                (let d = set_field doc ''state'' (number_int circuit_open);
                     d = set_field d ''last_failure'' (number_time (now m))
                 in (circuit_open, snd (storage_update_document m (circuit_id service) d db)))
              else (state, db)))"

definition circuit_breaker_record_success ::
  "(json \<Rightarrow> double) \<Rightarrow> moment \<Rightarrow> string \<Rightarrow> database \<Rightarrow> database" where
  "circuit_breaker_record_success junk m service db =
     (let (doc, db) = storage_get_document (circuit_id service) db in
      case json_object_get doc (Some ''state'') of
        None \<Rightarrow> db
      | Some v \<Rightarrow>
          if int_of_double (raw_number junk v) = circuit_half_open then
            (let d = set_field doc ''state'' (number_int circuit_closed);
                 d = set_field d ''failure_count'' (number_int 0);
                 d = set_field d ''half_open_requests'' (number_int 0)
             in snd (storage_update_document m (circuit_id service) d db))
          else db)"

text \<open>Storing a document under its name: an update when it is there, otherwise an insertion.\<close>

definition store_document :: "moment \<Rightarrow> string \<Rightarrow> jptr \<Rightarrow> database \<Rightarrow> database" where
  "store_document m doc_id doc db =
     (let (found, db) = storage_get_document doc_id db in
      if found \<noteq> None then snd (storage_update_document m doc_id doc db)
      else snd (storage_insert_document m doc db))"

definition circuit_breaker_record_failure ::
  "(json \<Rightarrow> double) \<Rightarrow> rate_limiter_config \<Rightarrow> moment \<Rightarrow> string \<Rightarrow> database \<Rightarrow> database" where
  "circuit_breaker_record_failure junk cfg m service db =
     (let (found, db) = storage_get_document (circuit_id service) db;
          (failure_count, state, doc) =
            (case found of
               Some d \<Rightarrow>
                 (let c = (case json_object_get (Some d) (Some ''failure_count'') of
                             None \<Rightarrow> 1 | Some v \<Rightarrow> int_of_double (raw_number junk v) + 1);
                      s = (case json_object_get (Some d) (Some ''state'') of
                             None \<Rightarrow> circuit_closed | Some v \<Rightarrow> int_of_double (raw_number junk v));
                      h = (case json_object_get (Some d) (Some ''half_open_requests'') of
                             None \<Rightarrow> 0 | Some v \<Rightarrow> int_of_double (raw_number junk v))
                  in (c, s, if s = circuit_half_open
                            then set_field (Some d) ''half_open_requests'' (number_int (h + 1)) else Some d))
             | None \<Rightarrow>
                 (let d = set_field (Some json_create_object) ''uuid'' (json_create_string (circuit_id service));
                      d = set_field d ''type'' (json_create_string ''circuit_breaker'');
                      d = set_field d ''library'' (json_create_string ''system'');
                      d = set_field d ''service_name'' (json_create_string service)
                  in (1, circuit_closed, d)));
          state = (if sint (circuit_failure_threshold cfg) \<le> sint failure_count \<and> state = circuit_closed
                   then circuit_open else state);
          d = set_field doc ''state'' (number_int state);
          d = set_field d ''failure_count'' (number_int failure_count);
          d = set_field d ''last_failure'' (number_time (now m));
          d = set_field d ''expires_at'' (number_time (now m + 3600))
      in store_document m (circuit_id service) d db)"

section \<open>Connections\<close>

text \<open>The number of connections counted so far in this second, when the document says so.\<close>

definition counted_connections :: "(json \<Rightarrow> double) \<Rightarrow> moment \<Rightarrow> jptr \<Rightarrow> c_int option" where
  "counted_connections junk m doc =
     (case (json_object_get doc (Some ''timestamp''), json_object_get doc (Some ''count'')) of
        (Some t, Some c) \<Rightarrow>
          if int64_of_double (raw_number junk t) = now m then Some (int_of_double (raw_number junk c)) else None
      | _ \<Rightarrow> None)"

definition connection_rate_check ::
  "(json \<Rightarrow> double) \<Rightarrow> rate_limiter_config \<Rightarrow> moment \<Rightarrow> string \<Rightarrow> database \<Rightarrow> bool \<times> database" where
  "connection_rate_check junk cfg m ip_address db =
     (let (doc, db) = storage_get_document (connection_id ip_address) db in
      (case counted_connections junk m doc of
         None \<Rightarrow> True
       | Some n \<Rightarrow> sint n < sint (connection_rate_limit cfg), db))"

definition connection_rate_record :: "(json \<Rightarrow> double) \<Rightarrow> moment \<Rightarrow> string \<Rightarrow> database \<Rightarrow> database" where
  "connection_rate_record junk m ip_address db =
     (let (found, db) = storage_get_document (connection_id ip_address) db;
          count = (case counted_connections junk m found of None \<Rightarrow> 1 | Some n \<Rightarrow> n + 1);
          doc = (case found of
              Some d \<Rightarrow> Some d
            | None \<Rightarrow>
                (let d = set_field (Some json_create_object) ''uuid'' (json_create_string (connection_id ip_address));
                     d = set_field d ''type'' (json_create_string ''connection_rate'');
                     d = set_field d ''library'' (json_create_string ''system'')
                 in set_field d ''ip_address'' (json_create_string ip_address)));
          d = set_field doc ''timestamp'' (number_time (now m));
          d = set_field d ''count'' (number_int count);
          d = set_field d ''expires_at'' (number_time (now m + 60))
      in store_document m (connection_id ip_address) d db)"

section \<open>Cleaning up\<close>

text \<open>A \<^verbatim>\<open>uuid\<close> that is no string would be used as a pointer; the model leaves such documents alone.\<close>

definition drop_expired :: "(json \<Rightarrow> double) \<Rightarrow> moment \<Rightarrow> database \<Rightarrow> json \<Rightarrow> database" where
  "drop_expired junk m db d =
     (case (json_object_get (Some d) (Some ''expires_at''), json_object_get (Some d) (Some ''uuid'')) of
        (Some e, Some (JString u)) \<Rightarrow>
          if sint (int64_of_double (raw_number junk e)) < sint (now m)
          then snd (storage_delete_document u db) else db
      | _ \<Rightarrow> db)"

definition rate_limiter_cleanup_expired :: "(json \<Rightarrow> double) \<Rightarrow> moment \<Rightarrow> database \<Rightarrow> database" where
  "rate_limiter_cleanup_expired junk m db =
     (let types = foldl (\<lambda>a s. json_array_append a (Some (json_create_string s))) (Some json_create_array)
            [''rate_limit'', ''circuit_breaker'', ''connection_rate''];
          q = json_object_set (Some json_create_object) (Some ''type'') types;
          q = set_field q ''library'' (json_create_string ''system'')
      in case json_object_get (storage_query_documents q db) (Some ''documents'') of
           Some (JArray ds) \<Rightarrow> foldl (drop_expired junk m) db ds
         | _ \<Rightarrow> db)"

end
