(* ===== verification/Rate_Limiter_Props.thy ===== *)
theory Rate_Limiter_Props
  imports Rate_Limiter Database_Props
begin

text \<open>
  The documents of the limiter are looked up under names of its own, and stored under the uuid
  that every insertion generates: they are never found again.  What follows from that for any
  sequence of operations, and what else keeps the limiter from limiting.
\<close>

section \<open>Every stored key is a generated one\<close>

definition keys_generated :: "database \<Rightarrow> bool" where
  "keys_generated db \<longleftrightarrow> art_ok (documents db) \<and> (\<forall>leaf \<in> set (leaves (documents db)). take 4 (leaf_key leaf) = ''doc-'')"

lemma make_uuid_prefix: "take 4 (c_bytes (make_uuid m salt)) = ''doc-''"
  by (simp add: make_uuid_def c_bytes_def)

lemma keys_generated_cong:
  assumes "leaves (documents a) = leaves (documents b)"
  shows "keys_generated a = keys_generated b"
  using art_ok_cong [OF assms] assms by (simp add: keys_generated_def)

lemma keys_generated_init: "keys_generated db_init"
proof -
  have "leaves skiplist_create = []" by (simp add: leaves_def skiplist_create_def)
  then show ?thesis by (simp add: keys_generated_def art_ok_create)
qed

lemma keys_generated_find:
  assumes "keys_generated db"
  shows "keys_generated (snd (storage_get_document u db))"
    and "fst (storage_get_document u db) = doc_at db u"
    and "doc_at (snd (storage_get_document u db)) = doc_at db"
proof -
  have ok: "art_ok (documents db)" using assms by (simp add: keys_generated_def)
  note f = find_document_doc_at [OF ok, of u]
  show "keys_generated (snd (storage_get_document u db))"
    using keys_generated_cong [OF f(2)] assms by (simp add: storage_get_document_def)
  show "fst (storage_get_document u db) = doc_at db u" by (simp add: storage_get_document_def f(1))
  show "doc_at (snd (storage_get_document u db)) = doc_at db"
    unfolding storage_get_document_def by (rule doc_at_cong [OF f(2)])
qed

lemma keys_generated_insert:
  assumes "keys_generated db"
  shows "keys_generated (snd (storage_insert_document m d db))"
proof -
  have ok: "art_ok (documents db)" and k: "\<forall>leaf \<in> set (leaves (documents db)). take 4 (leaf_key leaf) = ''doc-''"
    using assms by (simp_all add: keys_generated_def)
  have "keys_generated (db\<lparr>documents := snd (skiplist_insert (documents db) (c_bytes (make_uuid m 0)) v)\<rparr>)" for v
    using k make_uuid_prefix [of m 0] by (auto simp: keys_generated_def art_ok_insert ok insert_leaves)
  then show ?thesis using assms by (simp add: storage_insert_document_def Let_def)
qed

lemma doc_at_generated:
  assumes "keys_generated db" and "doc_at db u \<noteq> None"
  shows "take 4 (c_bytes u) = ''doc-''"
proof -
  from assms(2) obtain bs where "art_get (documents db) (c_bytes u) = Some bs"
    by (auto simp: doc_at_def text_at_def split: option.splits)
  then have "\<exists>leaf \<in> set (leaves (documents db)). leaf_key leaf = c_bytes u"
    by (force simp: art_get_def dest!: map_of_SomeD)
  with assms(1) show ?thesis by (auto simp: keys_generated_def)
qed

lemma keys_generated_replace:
  assumes "keys_generated db" and "take 4 (c_bytes u) = ''doc-''"
  shows "keys_generated (replace_document u v db)"
  using assms
  by (auto simp: keys_generated_def replace_document_def art_replace_def insert_leaves delete_leaves
      art_ok_insert art_ok_delete)

lemma keys_generated_update:
  assumes "keys_generated db"
  shows "keys_generated (snd (storage_update_document m u d db))"
proof (cases "doc_at db u")
  case None
  then show ?thesis
    using keys_generated_find [OF assms, of u]
    by (simp add: storage_update_document_def case_prod_beta Let_def storage_get_document_def)
next
  case (Some e)
  then have p: "take 4 (c_bytes u) = ''doc-''" using doc_at_generated [OF assms] by simp
  have "keys_generated (snd (find_document u db))"
    using keys_generated_find(1) [OF assms, of u] by (simp add: storage_get_document_def)
  then show ?thesis
    using keys_generated_replace [OF _ p]
    by (auto simp: storage_update_document_def case_prod_beta Let_def split: option.splits)
qed

lemma keys_generated_delete:
  assumes "keys_generated db"
  shows "keys_generated (snd (storage_delete_document u db))"
proof -
  have ok: "art_ok (documents db)" using assms by (simp add: keys_generated_def)
  note l = storage_delete_leaves(1) [OF ok, of u]
  have "leaves (documents (snd (storage_delete_document u db))) = leaves (snd (skiplist_delete (documents db) (c_bytes u)))"
    using l delete_leaves(1) [OF ok] by simp
  then have "art_ok (documents (snd (storage_delete_document u db)))"
    using art_ok_cong art_ok_delete [OF ok] by blast
  then show ?thesis using assms l by (simp add: keys_generated_def)
qed

lemma not_generated:
  assumes "keys_generated db"
  shows "doc_at db (circuit_id s) = None" and "doc_at db (connection_id a) = None"
proof -
  have "take 4 (c_bytes (circuit_id s)) \<noteq> ''doc-''" and "take 4 (c_bytes (connection_id a)) \<noteq> ''doc-''"
    by (simp_all add: circuit_id_def connection_id_def c_bytes_def)
  then show "doc_at db (circuit_id s) = None" and "doc_at db (connection_id a) = None"
    using doc_at_generated [OF assms] by blast+
qed

section \<open>Any sequence of operations\<close>

datatype limiter_op =
    Failure rate_limiter_config moment string
  | Success moment string
  | State rate_limiter_config moment string
  | Connection moment string
  | Check rate_limiter_config moment string
  | Cleanup moment
  | Insert moment jptr
  | Update moment string jptr
  | Remove string

fun limiter_step :: "(json \<Rightarrow> double) \<Rightarrow> limiter_op \<Rightarrow> database \<Rightarrow> database" where
  "limiter_step junk (Failure cfg m s) db = circuit_breaker_record_failure junk cfg m s db"
| "limiter_step junk (Success m s) db = circuit_breaker_record_success junk m s db"
| "limiter_step junk (State cfg m s) db = snd (circuit_breaker_get_state junk cfg m s db)"
| "limiter_step junk (Connection m a) db = connection_rate_record junk m a db"
| "limiter_step junk (Check cfg m a) db = snd (connection_rate_check junk cfg m a db)"
| "limiter_step junk (Cleanup m) db = rate_limiter_cleanup_expired junk m db"
| "limiter_step junk (Insert m d) db = snd (storage_insert_document m d db)"
| "limiter_step junk (Update m u d) db = snd (storage_update_document m u d db)"
| "limiter_step junk (Remove u) db = snd (storage_delete_document u db)"

lemma store_document_generated: "keys_generated db \<Longrightarrow> keys_generated (store_document m u d db)"
  by (simp add: store_document_def case_prod_beta Let_def keys_generated_find(1) keys_generated_update keys_generated_insert)

lemma drop_expired_generated: "keys_generated db \<Longrightarrow> keys_generated (drop_expired junk m db d)"
  by (auto simp: drop_expired_def keys_generated_delete split: option.splits json.splits)

lemma get_state_unknown:
  assumes "keys_generated db"
  shows "circuit_breaker_get_state junk cfg m s db = (circuit_closed, snd (storage_get_document (circuit_id s) db))"
  using keys_generated_find(2) [OF assms, of "circuit_id s"] not_generated(1) [OF assms, of s]
  by (simp add: circuit_breaker_get_state_def case_prod_beta Let_def)

lemma limiter_step_generated:
  assumes "keys_generated db"
  shows "keys_generated (limiter_step junk op db)"
proof (cases op)
  case (Success m s)
  then show ?thesis
    using keys_generated_find(1,2) [OF assms, of "circuit_id s"] not_generated(1) [OF assms, of s]
    by (simp add: circuit_breaker_record_success_def case_prod_beta Let_def)
next
  case (Cleanup m)
  have "keys_generated (foldl (drop_expired junk m) db ds)" for ds
    using assms by (induction ds arbitrary: db) (simp_all add: drop_expired_generated)
  with Cleanup assms show ?thesis
    by (simp add: rate_limiter_cleanup_expired_def Let_def split: option.splits json.splits)
qed (use assms in \<open>simp_all add: circuit_breaker_record_failure_def connection_rate_record_def connection_rate_check_def
      case_prod_beta Let_def store_document_generated keys_generated_find(1) get_state_unknown
      keys_generated_insert keys_generated_update keys_generated_delete\<close>)

text \<open>
  C35. Nothing is ever limited.  Whatever failures, successes and connections are recorded, in any
  order and among any other operations on the documents, every circuit is reported closed,
  every connection is allowed and every request is.
\<close>

theorem limiter_never_limits:
  fixes junk ops
  defines "db \<equiv> fold (limiter_step junk) ops db_init"
  shows "fst (circuit_breaker_get_state junk cfg m service db) = circuit_closed \<and>
    fst (connection_rate_check junk cfg m ip_address db) \<and> rate_limiter_check_request cfg ip_address db"
proof -
  have g: "keys_generated db"
    unfolding db_def
    by (rule fold_invariant [where P = keys_generated and Q = "\<lambda>_. True"])
      (simp_all add: keys_generated_init limiter_step_generated)
  show ?thesis
    using keys_generated_find(2) [OF g, of "connection_id ip_address"] not_generated(2) [OF g, of ip_address]
    by (simp add: get_state_unknown [OF g] connection_rate_check_def case_prod_beta Let_def
        counted_connections_def rate_limiter_check_request_def)
qed

section \<open>A stored state is not read back\<close>

text \<open>The numbers below \<open>2 ^ 52\<close> are subnormal when their bits are taken for a \<^verbatim>\<open>double\<close>.\<close>

lemma small_subnormal:
  assumes "0 \<le> sint i" and "sint i < 2 ^ 52"
  shows "int_of_double (double_of_bits i) = 0"
proof -
  have u: "uint i = sint i" using assms by (simp add: uint_sint take_bit_int_eq_self)
  have e: "and (drop_bit 52 i) 0x7FF = 0"
  proof -
    have "drop_bit 52 (uint i) = 0" using assms u by (simp add: drop_bit_eq_div)
    moreover have "take_bit LENGTH(64) (uint i) = uint i" using assms u by (simp add: take_bit_int_eq_self)
    ultimately have "uint (drop_bit 52 i) = 0" by (simp only: unsigned_drop_bit_eq)
    then have "drop_bit 52 i = 0" by (simp only: uint_0_iff)
    then show ?thesis by simp
  qed
  have nb: "\<not> bit i 63" using assms(1) bit_last_iff [of i] by simp
  define f where "f = uint (take_bit 52 i)"
  have f: "0 \<le> f" "f < 2 ^ 52"
    using take_bit_int_less_exp [of 52 "uint i"] by (simp_all add: f_def unsigned_take_bit_eq)
  define r where "r = of_int f * powz 2 (- 1074)"
  have r0: "0 \<le> r" using f by (simp add: r_def powz_def)
  have r1: "r < 1"
  proof -
    have "of_int f < (2 ^ 52 :: rat)" using f(2) by (metis of_int_less_iff of_int_numeral of_int_power)
    then show ?thesis by (simp add: r_def powz_def divide_less_eq)
  qed
  have "rat_trunc r = 0" using r0 r1 by (simp add: rat_trunc_def floor_eq_iff)
  moreover have "double_of_bits i = (if r = 0 then Fin 0 else Fin r)"
    unfolding double_of_bits_def Let_def using e nb by (simp add: r_def f_def)
  ultimately show ?thesis using r0 r1 by (auto simp: int_of_double_def is_inf_def rat_trunc_def)
qed

text \<open>
  A circuit whose state is stored is closed all the same: the writer prints a whole number
  as an integer, and the bits of the integer are then taken for a \<^verbatim>\<open>double\<close> close to 0.
\<close>

theorem stored_state_reads_closed:
  assumes "art_ok (documents db)" and "doc_at db (circuit_id service) = Some (JObject es)"
    and "obj_get es ''state'' = Some (JInteger i)" and "0 \<le> sint i" and "sint i < 2 ^ 52"
  shows "fst (circuit_breaker_get_state junk cfg m service db) = circuit_closed"
  using find_document_doc_at(1) [OF assms(1), of "circuit_id service"] assms(2,3) small_subnormal [OF assms(4,5)]
  by (simp add: circuit_breaker_get_state_def storage_get_document_def case_prod_beta Let_def
      circuit_closed_def circuit_open_def circuit_half_open_def split: option.splits)

lemma stored_state_reads_closed_witness:
  "\<forall>junk cfg m. fst (circuit_breaker_get_state junk cfg m ''s''
     (replace_document (circuit_id ''s'') (Some (JObject [(''state'', JInteger 1)])) db_init)) = circuit_closed"
proof -
  let ?v = "JObject [(''state'', JInteger 1)]"
  have s: "storable ?v" unfolding storable_def reads_ok_def max_json_input_size_def by code_simp
  note one = one_document [OF s refl, of "circuit_id ''s''"]
  have at: "doc_at (replace_document (circuit_id ''s'') (Some ?v) db_init) (circuit_id ''s'') = Some ?v"
    using one(2) find_document_doc_at(1) [OF one(1), of "circuit_id ''s''"]
    by (simp add: storage_get_document_def escaped_json_plain plain_char_def escape_char_def del: escaped_json.simps)
  show ?thesis by (intro allI, rule stored_state_reads_closed [OF one(1) at, of 1]) simp_all
qed

section \<open>Cleaning up\<close>

text \<open>
  Cleaning up removes nothing: its query asks for a document whose type is a list of the
  three types.
\<close>

theorem cleanup_removes_nothing: "rate_limiter_cleanup_expired junk m db = db"
proof -
  let ?types = "JArray [JString ''rate_limit'', JString ''circuit_breaker'', JString ''connection_rate'']"
  have "set_field (json_object_set (Some json_create_object) (Some ''type'')
      (foldl (\<lambda>a s. json_array_append a (Some (json_create_string s))) (Some json_create_array)
        [''rate_limit'', ''circuit_breaker'', ''connection_rate''])) ''library'' (json_create_string ''system'') =
      Some (JObject [(''type'', ?types), (''library'', JString ''system'')])"
    by (simp add: set_field_def json_create_array_def json_create_object_def json_create_string_def)
  moreover have "json_object_get (storage_query_documents
      (Some (JObject [(''type'', ?types), (''library'', JString ''system'')])) db) (Some ''documents'') = Some (JArray [])"
    by (rule storage_query_integer [of _ "''type''" ?types]) simp_all
  ultimately show ?thesis by (simp add: rate_limiter_cleanup_expired_def Let_def)
qed

end
