(* ===== verification/Base64.thy ===== *)
theory Base64
  imports Crc32
begin

text \<open>
  Base 64, \<^verbatim>\<open>src/src/components/rbac/jwt.c\<close>: the standard alphabet with padding, and the
  alphabet for URLs without.  Lengths are \<^verbatim>\<open>int\<close> in the code and numbers here: inputs are
  shorter than \<open>2 ^ 30\<close> bytes.
\<close>

section \<open>Encoding\<close>

definition base64_chars :: string where
  "base64_chars = ''ABCDEFGHIJKLMNOPQRSTUVWXYZabcdefghijklmnopqrstuvwxyz0123456789+/''"

definition octet_triple :: "byte \<Rightarrow> byte \<Rightarrow> byte \<Rightarrow> c_uint" where
  "octet_triple octet_a octet_b octet_c = push_bit 16 (ucast octet_a) + push_bit 8 (ucast octet_b) + ucast octet_c"

definition sextet_char :: "c_uint \<Rightarrow> nat \<Rightarrow> char" where
  "sextet_char triple n = base64_chars ! unat (and (drop_bit n triple) 0x3F)"

definition encode_group :: "c_uint \<Rightarrow> string" where
  "encode_group triple = map (sextet_char triple) [18, 12, 6, 0]"

text \<open>Octets behind the end of the input count as 0.\<close>

fun encode_groups :: "byte list \<Rightarrow> string" where
  "encode_groups [] = []"
| "encode_groups [a] = encode_group (octet_triple a 0 0)"
| "encode_groups [a, b] = encode_group (octet_triple a b 0)"
| "encode_groups (a # b # c # input) = encode_group (octet_triple a b c) @ encode_groups input"

definition base64_encode :: "byte list \<Rightarrow> string" where
  "base64_encode input =
     (let output = encode_groups input; encoded_len = (length input + 2) div 3 * 4
      in if length input mod 3 = 1 then output[encoded_len - 2 := CHR ''='', encoded_len - 1 := CHR ''='']
         else if length input mod 3 = 2 then output[encoded_len - 1 := CHR ''='']
         else output)"

text \<open>A padding character becomes the end of the string.\<close>

definition url_char :: "char \<Rightarrow> char" where
  "url_char c =
     (if c = CHR ''+'' then CHR ''-'' else if c = CHR ''/'' then CHR ''_''
      else if c = CHR ''='' then CHR 0x00 else c)"

definition base64_url_encode :: "byte list \<Rightarrow> string" where
  "base64_url_encode input = takeWhile (\<lambda>c. c \<noteq> CHR 0x00) (map url_char (base64_encode input))"

section \<open>Decoding\<close>

definition base64_valid :: "char \<Rightarrow> bool" where
  "base64_valid c \<longleftrightarrow>
     (65 \<le> uchar c \<and> uchar c \<le> 90) \<or> (97 \<le> uchar c \<and> uchar c \<le> 122) \<or>
     isdigit c \<or> c = CHR ''+'' \<or> c = CHR ''/'' \<or> c = CHR ''=''"

definition decode_table :: "nat list" where
  "decode_table = foldl (\<lambda>t i. t[nat (uchar (base64_chars ! i)) := i]) (replicate 256 255) [0..<64]"

definition base64_decoded_len :: "string \<Rightarrow> nat" where
  "base64_decoded_len input =
     (let n = length input
      in n div 4 * 3 - (if 0 < n \<and> input ! (n - 1) = CHR ''='' then 1 else 0)
           - (if 1 < n \<and> input ! (n - 2) = CHR ''='' then 1 else 0))"

text \<open>A padding character moves the position twice; behind the end there is padding.\<close>

definition read_sextet :: "string \<Rightarrow> nat \<Rightarrow> c_uint \<times> nat" where
  "read_sextet input i =
     (let c = (if i < length input then input ! i else CHR ''='')
      in if c = CHR ''='' then (0, i + 2) else (of_nat (decode_table ! nat (uchar c)), i + 1))"

definition triple_octets :: "c_uint \<Rightarrow> byte list" where
  "triple_octets triple = [ucast (and (drop_bit 16 triple) 0xFF), ucast (and (drop_bit 8 triple) 0xFF), ucast (and triple 0xFF)]"

definition decode_group :: "string \<Rightarrow> nat \<Rightarrow> c_uint \<times> nat" where
  "decode_group input i =
     (let (sextet_a, i) = read_sextet input i; (sextet_b, i) = read_sextet input i;
          (sextet_c, i) = read_sextet input i; (sextet_d, i) = read_sextet input i
      in (push_bit 18 sextet_a + push_bit 12 sextet_b + push_bit 6 sextet_c + sextet_d, i))"

lemma read_sextet_advances: "i < snd (read_sextet input i)"
  by (simp add: read_sextet_def Let_def)

lemma decode_group_advances: "i < snd (decode_group input i)"
  unfolding decode_group_def Let_def case_prod_beta snd_conv
  using read_sextet_advances less_trans by meson

function decode_groups :: "string \<Rightarrow> nat \<Rightarrow> nat \<Rightarrow> byte list \<Rightarrow> byte list" where
  "decode_groups input decoded_len i out =
     (if i < length input then
        decode_groups input decoded_len (snd (decode_group input i))
          (out @ take (decoded_len - length out) (triple_octets (fst (decode_group input i))))
      else out)"
  by pat_completeness auto
termination
proof (relation "measure (\<lambda>(input, _, i, _). length input - i)")
  show "((input, n, snd (decode_group input i), out'), (input, n, i, out)) \<in> measure (\<lambda>(input, _, i, _). length input - i)"
    if "i < length input" for input :: string and n i :: nat and out out' :: "byte list"
    using that decode_group_advances [of i input] by simp
qed simp

declare decode_groups.simps [simp del]

text \<open>
  When padding stands before the end there are fewer groups than the length allows for, and
  the last bytes of the result are the argument \<open>junk\<close>: the code leaves them as allocated.
\<close>

definition base64_decode :: "(nat \<Rightarrow> byte) \<Rightarrow> string \<Rightarrow> byte list option" where
  "base64_decode junk input =
     (if length input mod 4 \<noteq> 0 \<or> \<not> list_all base64_valid input then None
      else (let decoded_len = base64_decoded_len input; out = decode_groups input decoded_len 0 []
            in Some (out @ map junk [length out..<decoded_len])))"

definition plain_char64 :: "char \<Rightarrow> char" where
  "plain_char64 c = (if c = CHR ''-'' then CHR ''+'' else if c = CHR ''_'' then CHR ''/'' else c)"

definition base64_url_decode :: "(nat \<Rightarrow> byte) \<Rightarrow> string \<Rightarrow> byte list option" where
  "base64_url_decode junk input =
     (let s = map plain_char64 input
      in base64_decode junk (s @ replicate ((4 - length s mod 4) mod 4) (CHR ''='')))"

section \<open>The alphabet\<close>

lemma length_base64_chars [simp]: "length base64_chars = 64"
  by (simp add: base64_chars_def)

lemma distinct_base64_chars: "distinct base64_chars"
  by (simp add: base64_chars_def)

lemma alphabet_char:
  "list_all (\<lambda>c. base64_valid c \<and> c \<noteq> CHR ''='' \<and> url_char c \<noteq> CHR 0x00 \<and> plain_char64 (url_char c) = c \<and>
     url_char c \<noteq> CHR ''.'' \<and> url_char c \<noteq> CHR ''='') base64_chars"
  by code_simp

lemma table_entry:
  assumes "n < 64"
  shows "decode_table ! nat (uchar (base64_chars ! n)) = n"
proof -
  let ?f = "\<lambda>i. nat (uchar (base64_chars ! i))"
  have inj: "?f i = ?f j \<longleftrightarrow> i = j" if "i < 64" "j < 64" for i j
    using that distinct_base64_chars by (simp add: nth_eq_iff_index_eq uchar_def)
  have bound: "?f i < 256" for i by (simp add: uchar_def)
  have "length (foldl (\<lambda>t i. t[?f i := i]) (replicate 256 255) [0..<m]) = 256 \<and>
      (\<forall>i<m. foldl (\<lambda>t i. t[?f i := i]) (replicate 256 255) [0..<m] ! ?f i = i)" if "m \<le> 64" for m
    using that
  proof (induction m)
    case (Suc m)
    then show ?case using inj bound by (auto simp: nth_list_update less_Suc_eq)
  qed simp
  from this [of 64] show ?thesis using assms by (simp add: decode_table_def)
qed

end
