(* ===== verification/Jwt.thy ===== *)
theory Jwt
  imports Base64 Json_Print Doc_Store
begin

text \<open>
  JSON web tokens, \<^verbatim>\<open>src/src/components/rbac/jwt.c\<close>.  HMAC-SHA256 comes from OpenSSL and is the
  argument \<open>hmac\<close>, which may fail; the clock is the argument \<open>now\<close>.  The argument \<open>junk\<close> is what
  the decoder of base 64 leaves in bytes it does not write.  Pointer arguments are not \<^verbatim>\<open>NULL\<close>:
  every function refuses those at once.
\<close>

section \<open>Data\<close>

record jwt_header =
  alg :: string
  token_typ :: string

record jwt_payload =
  iss :: cstr
  sub :: cstr
  aud :: cstr
  exp_time :: c_int64
  nbf :: c_int64
  iat :: c_int64
  jti :: cstr
  claims :: jptr

record jwt_token =
  header :: jwt_header
  payload :: jwt_payload
  signature :: cstr
  token_str :: cstr

definition jwt_create :: "c_int64 \<Rightarrow> jwt_token" where
  "jwt_create now =
     \<lparr>header = \<lparr>alg = ''HS256'', token_typ = ''JWT''\<rparr>,
      payload = \<lparr>iss = None, sub = None, aud = None, exp_time = 0, nbf = 0, iat = now, jti = None,
                 claims = Some json_create_object\<rparr>,
      signature = None, token_str = None\<rparr>"

definition jwt_set_algorithm :: "jwt_token \<Rightarrow> string \<Rightarrow> jwt_token" where
  "jwt_set_algorithm token a = token\<lparr>header := (header token)\<lparr>alg := a\<rparr>\<rparr>"

definition jwt_set_issuer :: "jwt_token \<Rightarrow> string \<Rightarrow> jwt_token" where
  "jwt_set_issuer token s = token\<lparr>payload := (payload token)\<lparr>iss := Some s\<rparr>\<rparr>"

definition jwt_set_subject :: "jwt_token \<Rightarrow> string \<Rightarrow> jwt_token" where
  "jwt_set_subject token s = token\<lparr>payload := (payload token)\<lparr>sub := Some s\<rparr>\<rparr>"

definition jwt_set_audience :: "jwt_token \<Rightarrow> string \<Rightarrow> jwt_token" where
  "jwt_set_audience token s = token\<lparr>payload := (payload token)\<lparr>aud := Some s\<rparr>\<rparr>"

definition jwt_set_expiration :: "jwt_token \<Rightarrow> c_int64 \<Rightarrow> jwt_token" where
  "jwt_set_expiration token t = token\<lparr>payload := (payload token)\<lparr>exp_time := t\<rparr>\<rparr>"

definition jwt_set_not_before :: "jwt_token \<Rightarrow> c_int64 \<Rightarrow> jwt_token" where
  "jwt_set_not_before token t = token\<lparr>payload := (payload token)\<lparr>nbf := t\<rparr>\<rparr>"

definition jwt_set_issued_at :: "jwt_token \<Rightarrow> c_int64 \<Rightarrow> jwt_token" where
  "jwt_set_issued_at token t = token\<lparr>payload := (payload token)\<lparr>iat := t\<rparr>\<rparr>"

definition jwt_set_jwt_id :: "jwt_token \<Rightarrow> string \<Rightarrow> jwt_token" where
  "jwt_set_jwt_id token s = token\<lparr>payload := (payload token)\<lparr>jti := Some s\<rparr>\<rparr>"

definition jwt_add_claim :: "jwt_token \<Rightarrow> string \<Rightarrow> json \<Rightarrow> jwt_token" where
  "jwt_add_claim token key val =
     (if claims (payload token) = None then token
      else token\<lparr>payload := (payload token)\<lparr>claims := json_object_set (claims (payload token)) (Some key) (Some val)\<rparr>\<rparr>)"

definition jwt_get_claim :: "jwt_token \<Rightarrow> string \<Rightarrow> jptr" where
  "jwt_get_claim token key = json_object_get (claims (payload token)) (Some key)"

section \<open>Signing\<close>

definition secure_hmac_sha256 :: "(string \<Rightarrow> string \<Rightarrow> byte list option) \<Rightarrow> string \<Rightarrow> string \<Rightarrow> byte list option" where
  "secure_hmac_sha256 hmac key data = hmac key data"

definition jwt_sign :: "(string \<Rightarrow> string \<Rightarrow> byte list option) \<Rightarrow> string \<Rightarrow> string \<Rightarrow> string \<Rightarrow> cstr" where
  "jwt_sign hmac header_payload secret a =
     (if strcmp a ''HS256'' \<noteq> 0 then None
      else map_option base64_url_encode (secure_hmac_sha256 hmac secret header_payload))"

section \<open>Encoding\<close>

definition string_bytes :: "string \<Rightarrow> byte list" where
  "string_bytes s = map (\<lambda>c. of_nat (of_char c)) s"

definition bytes_string :: "byte list \<Rightarrow> string" where
  "bytes_string bs = map (\<lambda>b. char_of (unat b)) bs"

definition set_if :: "bool \<Rightarrow> string \<Rightarrow> json \<Rightarrow> jptr \<Rightarrow> jptr" where
  "set_if b key val ob = (if b then json_object_set ob (Some key) (Some val) else ob)"

text \<open>Claims are copied by printing and parsing them; one that cannot be read back is dropped.\<close>

definition copy_claim :: "jptr \<Rightarrow> string \<times> json \<Rightarrow> jptr" where
  "copy_claim ob entry =
     (case json_parse (json_stringify (Some (snd entry))) of
        None \<Rightarrow> ob
      | Some value_copy \<Rightarrow> json_object_set ob (Some (fst entry)) (Some value_copy))"

definition object_entries :: "jptr \<Rightarrow> entries" where
  "object_entries ob = (case ob of Some (JObject es) \<Rightarrow> es | _ \<Rightarrow> [])"

definition header_json :: "jwt_header \<Rightarrow> jptr" where
  "header_json h =
     json_object_set (json_object_set (Some json_create_object) (Some ''alg'') (Some (json_create_string (alg h))))
       (Some ''typ'') (Some (json_create_string (token_typ h)))"

definition standard_json :: "jwt_payload \<Rightarrow> jptr" where
  "standard_json p =
     (let ob = set_if (iss p \<noteq> None) ''iss'' (json_create_string (the (iss p))) (Some json_create_object);
          ob = set_if (sub p \<noteq> None) ''sub'' (json_create_string (the (sub p))) ob;
          ob = set_if (aud p \<noteq> None) ''aud'' (json_create_string (the (aud p))) ob;
          ob = set_if (0 < sint (exp_time p)) ''exp'' (json_create_integer (exp_time p)) ob;
          ob = set_if (0 < sint (nbf p)) ''nbf'' (json_create_integer (nbf p)) ob;
          ob = set_if (0 < sint (iat p)) ''iat'' (json_create_integer (iat p)) ob
      in set_if (jti p \<noteq> None) ''jti'' (json_create_string (the (jti p))) ob)"

definition payload_json :: "jwt_payload \<Rightarrow> jptr" where
  "payload_json p = foldl copy_claim (standard_json p) (object_entries (claims p))"

definition encode_json :: "jptr \<Rightarrow> string" where
  "encode_json ob = base64_url_encode (string_bytes (the (json_stringify ob)))"

definition jwt_encode ::
  "(string \<Rightarrow> string \<Rightarrow> byte list option) \<Rightarrow> jwt_token \<Rightarrow> string \<Rightarrow> cstr \<times> jwt_token" where
  "jwt_encode hmac token secret =
     (let header_payload = encode_json (header_json (header token)) @ ''.'' @ encode_json (payload_json (payload token))
      in case jwt_sign hmac header_payload secret (alg (header token)) of
           None \<Rightarrow> (None, token)
         | Some s \<Rightarrow>
             (let str = header_payload @ ''.'' @ s
              in (Some str, token\<lparr>signature := Some s, token_str := Some str\<rparr>)))"

section \<open>Decoding\<close>

text \<open>\<^verbatim>\<open>strtok\<close> with the delimiter \<^verbatim>\<open>"."\<close>: the next part and what the scan leaves.\<close>

definition strtok_dot :: "string \<Rightarrow> (string \<times> string) option" where
  "strtok_dot s =
     (let t = dropWhile (\<lambda>c. c = CHR ''.'') s
      in if t = [] then None
         else Some (takeWhile (\<lambda>c. c \<noteq> CHR ''.'') t, drop 1 (dropWhile (\<lambda>c. c \<noteq> CHR ''.'') t)))"

definition token_parts :: "string \<Rightarrow> (string \<times> string \<times> string) option" where
  "token_parts s =
     (case strtok_dot s of
        None \<Rightarrow> None
      | Some (header_b64, s) \<Rightarrow>
          (case strtok_dot s of
             None \<Rightarrow> None
           | Some (payload_b64, s) \<Rightarrow>
               (case strtok_dot s of
                  None \<Rightarrow> None
                | Some (signature_b64, _) \<Rightarrow> Some (header_b64, payload_b64, signature_b64))))"

definition decode_object :: "(nat \<Rightarrow> byte) \<Rightarrow> string \<Rightarrow> entries option" where
  "decode_object junk b64 =
     (case base64_url_decode junk b64 of
        None \<Rightarrow> None
      | Some bs \<Rightarrow>
          (case json_parse (Some (c_read (bytes_string bs))) of Some (JObject es) \<Rightarrow> Some es | _ \<Rightarrow> None))"

definition string_or :: "cstr \<Rightarrow> jptr \<Rightarrow> cstr" where
  "string_or old v = (case v of Some (JString s) \<Rightarrow> Some s | _ \<Rightarrow> old)"

definition time_or :: "c_int64 \<Rightarrow> jptr \<Rightarrow> c_int64" where
  "time_or old v = (case v of Some (JInteger i) \<Rightarrow> i | Some (JNumber d) \<Rightarrow> int64_of_double d | _ \<Rightarrow> old)"

definition standard_claims :: "string list" where
  "standard_claims = [''iss'', ''sub'', ''aud'', ''exp'', ''nbf'', ''iat'', ''jti'']"

definition decoded_payload :: "jwt_payload \<Rightarrow> entries \<Rightarrow> jwt_payload" where
  "decoded_payload p es =
     \<lparr>iss = string_or (iss p) (obj_get es ''iss''), sub = string_or (sub p) (obj_get es ''sub''),
      aud = string_or (aud p) (obj_get es ''aud''), exp_time = time_or (exp_time p) (obj_get es ''exp''),
      nbf = time_or (nbf p) (obj_get es ''nbf''), iat = time_or (iat p) (obj_get es ''iat''),
      jti = string_or (jti p) (obj_get es ''jti''),
      claims = foldl copy_claim (claims p) (filter (\<lambda>e. fst e \<notin> set standard_claims) es)\<rparr>"

definition decoded_header :: "jwt_header \<Rightarrow> entries \<Rightarrow> jwt_header" where
  "decoded_header h es =
     \<lparr>alg = the (string_or (Some (alg h)) (obj_get es ''alg'')), token_typ = the (string_or (Some (token_typ h)) (obj_get es ''typ''))\<rparr>"

definition jwt_decode :: "(nat \<Rightarrow> byte) \<Rightarrow> c_int64 \<Rightarrow> string \<Rightarrow> jwt_token option" where
  "jwt_decode junk now str =
     (if length (filter (\<lambda>c. c = CHR ''.'') str) \<noteq> 2 then None
      else case token_parts str of
        None \<Rightarrow> None
      | Some (header_b64, payload_b64, signature_b64) \<Rightarrow>
          (case decode_object junk header_b64 of
             None \<Rightarrow> None
           | Some hs \<Rightarrow>
               (case decode_object junk payload_b64 of
                  None \<Rightarrow> None
                | Some ps \<Rightarrow>
                    (let token = jwt_create now
                     in Some \<lparr>header = decoded_header (header token) hs, payload = decoded_payload (payload token) ps,
                              signature = Some signature_b64, token_str = Some str\<rparr>))))"

section \<open>Verification\<close>

definition time_valid :: "c_int64 \<Rightarrow> jwt_payload \<Rightarrow> bool" where
  "time_valid now p \<longleftrightarrow>
     \<not> (0 < sint (exp_time p) \<and> sint (exp_time p) < sint now) \<and> \<not> (0 < sint (nbf p) \<and> sint now < sint (nbf p))"

definition same_signature :: "string \<Rightarrow> string \<Rightarrow> bool" where
  "same_signature s t \<longleftrightarrow> length s = length t \<and> list_all (\<lambda>i. s ! i = t ! i) [0..<length s]"

definition jwt_verify ::
  "(string \<Rightarrow> string \<Rightarrow> byte list option) \<Rightarrow> (nat \<Rightarrow> byte) \<Rightarrow> c_int64 \<Rightarrow> string \<Rightarrow> string \<Rightarrow> bool" where
  "jwt_verify hmac junk now str secret =
     (case jwt_decode junk now str of
        None \<Rightarrow> False
      | Some token \<Rightarrow>
          if \<not> time_valid now (payload token) then False
          else (case token_parts str of
             None \<Rightarrow> False
           | Some (header_b64, payload_b64, signature_b64) \<Rightarrow>
               (case jwt_sign hmac (header_b64 @ ''.'' @ payload_b64) secret (alg (header token)) of
                  None \<Rightarrow> False
                | Some s \<Rightarrow> same_signature s signature_b64)))"

section \<open>Pairs of tokens\<close>

definition jwt_create_refresh_token :: "c_int64 \<Rightarrow> string \<Rightarrow> c_int64 \<Rightarrow> jwt_token" where
  "jwt_create_refresh_token now user_id expiry =
     (let token = jwt_set_issuer (jwt_set_subject (jwt_create now) user_id) ''jdbx'';
          expiry = (if expiry = 0 then now + 7 * 24 * 60 * 60 else expiry)
      in jwt_add_claim (jwt_set_expiration token expiry) ''type'' (json_create_string ''refresh''))"

definition access_token :: "c_int64 \<Rightarrow> string \<Rightarrow> string \<Rightarrow> jwt_token" where
  "access_token now user_id username =
     (let token = jwt_set_issuer (jwt_set_subject (jwt_create now) user_id) ''jdbx'';
          token = jwt_set_expiration token (now + 30 * 60);
          token = jwt_add_claim token ''username'' (json_create_string username)
      in jwt_add_claim token ''type'' (json_create_string ''access''))"

definition jwt_create_token_pair ::
  "(string \<Rightarrow> string \<Rightarrow> byte list option) \<Rightarrow> c_int64 \<Rightarrow> string \<Rightarrow> string \<Rightarrow> string \<Rightarrow> (cstr \<times> jptr) option" where
  "jwt_create_token_pair hmac now secret user_id username =
     (case (fst (jwt_encode hmac (access_token now user_id username) secret),
            fst (jwt_encode hmac (jwt_create_refresh_token now user_id 0) secret)) of
        (Some access_token_str, Some refresh_token_str) \<Rightarrow>
          (let response = json_object_set (Some json_create_object) (Some ''token'') (Some (json_create_string access_token_str));
               response = json_object_set response (Some ''refresh_token'') (Some (json_create_string refresh_token_str));
               response = json_object_set response (Some ''user_id'') (Some (json_create_string user_id));
               response = json_object_set response (Some ''username'') (Some (json_create_string username));
               response = json_object_set response (Some ''expires_in'') (Some (json_create_number (double_of_rat 1800)))
           in Some (json_stringify response, response))
      | _ \<Rightarrow> None)"

definition jwt_verify_refresh_token ::
  "(string \<Rightarrow> string \<Rightarrow> byte list option) \<Rightarrow> (nat \<Rightarrow> byte) \<Rightarrow> c_int64 \<Rightarrow> string \<Rightarrow> string \<Rightarrow> cstr" where
  "jwt_verify_refresh_token hmac junk now refresh_token secret =
     (if \<not> jwt_verify hmac junk now refresh_token secret then None
      else case jwt_decode junk now refresh_token of
        None \<Rightarrow> None
      | Some token \<Rightarrow>
          (case jwt_get_claim token ''type'' of
             Some (JString t) \<Rightarrow> if strcmp t ''refresh'' \<noteq> 0 then None else sub (payload token)
           | _ \<Rightarrow> None))"

section \<open>Payloads on their own\<close>

definition jwt_payload_duplicate :: "jwt_payload \<Rightarrow> jwt_payload" where
  "jwt_payload_duplicate p = p\<lparr>claims := map_option json_clone (claims p)\<rparr>"

definition jwt_payload_set_username :: "jwt_payload \<Rightarrow> string \<Rightarrow> jwt_payload" where
  "jwt_payload_set_username p username =
     (let ob = (if claims p = None then Some json_create_object else claims p)
      in p\<lparr>claims := json_object_set ob (Some ''username'') (Some (json_create_string username))\<rparr>)"

end
