(* ===== verification/Base64_Props.thy ===== *)
theory Base64_Props
  imports Base64
begin

text \<open>
  Decoding undoes encoding, for both alphabets; what the encoders produce.
\<close>

section \<open>Groups\<close>

text \<open>The groups with their padding, without the two passes of the code.\<close>

fun padded_groups :: "byte list \<Rightarrow> string" where
  "padded_groups [] = []"
| "padded_groups [a] = take 2 (encode_group (octet_triple a 0 0)) @ ''==''"
| "padded_groups [a, b] = take 3 (encode_group (octet_triple a b 0)) @ ''=''"
| "padded_groups (a # b # c # input) = encode_group (octet_triple a b c) @ padded_groups input"

lemma length_encode_group [simp]: "length (encode_group t) = 4"
  by (simp add: encode_group_def)

lemma groups_step: "(length (a # b # c # input) + 2) div 3 * 4 = 4 + (length input + 2) div 3 * 4"
proof -
  have "(length (a # b # c # input) + 2) div 3 = Suc ((length input + 2) div 3)" by simp
  then show ?thesis by simp
qed

lemma length_encode_groups: "length (encode_groups bs) = (length bs + 2) div 3 * 4"
proof (induction bs rule: encode_groups.induct)
  case (4 a b c input)
  then show ?case unfolding groups_step by simp
qed simp_all

lemma list_update_append_right: "(xs @ ys)[length xs + n := x] = xs @ ys[n := x]"
  by (simp add: list_update_append)

lemma base64_encode_padded: "base64_encode bs = padded_groups bs"
proof (induction bs rule: encode_groups.induct)
  case (4 a b c input)
  define n where "n = (length input + 2) div 3 * 4"
  define g where "g = encode_group (octet_triple a b c)"
  have len: "(length (a # b # c # input) + 2) div 3 * 4 = length g + n"
    unfolding groups_step by (simp add: n_def g_def)
  have m: "length (a # b # c # input) mod 3 = length input mod 3"
    by simp
  have pos: "4 \<le> n" if "length input mod 3 \<noteq> 0" using that unfolding n_def by (cases input) auto
  have at: "length g + n - 2 = length g + (n - 2)" "length g + n - 1 = length g + (n - 1)"
    if "length input mod 3 \<noteq> 0"
    using pos [OF that] by simp_all
  show ?case
    unfolding base64_encode_def Let_def len m encode_groups.simps padded_groups.simps 4 [symmetric]
      n_def [symmetric] g_def [symmetric]
    by (simp add: at list_update_append_right del: One_nat_def)
qed (simp_all add: base64_encode_def encode_group_def)

section \<open>Sextets and octets\<close>

lemma unat_octet_triple: "unat (octet_triple a b c) = unat a * 65536 + unat b * 256 + unat c"
proof -
  have lt: "unat a < 256" "unat b < 256" "unat c < 256"
    using unsigned_less [of a] unsigned_less [of b] unsigned_less [of c] by simp_all
  then have "octet_triple a b c = of_nat (unat a * 65536 + unat b * 256 + unat c)"
    by (simp add: octet_triple_def push_bit_eq_mult)
  moreover have "unat a * 65536 + unat b * 256 + unat c < 2 ^ 32" using lt by simp
  ultimately show ?thesis by (simp only: unsigned_of_nat) (simp add: take_bit_nat_eq_self)
qed

lemma sextet_value:
  "unat (and (drop_bit n t) 0x3F :: c_uint) = unat t div 2 ^ n mod 64"
proof -
  have "(0x3F :: c_uint) = mask 6" by (simp add: mask_eq_exp_minus_1)
  then have "and (drop_bit n t) 0x3F = take_bit 6 (drop_bit n t)" by (simp only: take_bit_eq_mask)
  then have "unat (and (drop_bit n t) 0x3F) = take_bit 6 (drop_bit n (unat t))"
    by (simp only: unsigned_take_bit_eq unat_drop_bit_eq)
  then show ?thesis by (simp add: take_bit_eq_mod drop_bit_eq_div)
qed

lemma four_sextets:
  fixes n :: nat
  assumes "n < 2 ^ 24"
  shows "n div 2 ^ 18 mod 64 * 262144 + n div 2 ^ 12 mod 64 * 4096 + n div 2 ^ 6 mod 64 * 64 + n mod 64 = n"
proof -
  have s: "n div 2 ^ 12 = n div 2 ^ 6 div 64" "n div 2 ^ 18 = n div 2 ^ 6 div 64 div 64"
    by (simp_all flip: div_mult2_eq)
  have "n div 2 ^ 18 < 64" using assms by (simp add: less_mult_imp_div_less)
  then have "n div 2 ^ 18 mod 64 = n div 2 ^ 6 div 64 div 64" by (simp add: s)
  moreover have "q3 * 262144 + r2 * 4096 + r1 * 64 + r0 = n"
    if "q3 * 64 + r2 = q2" "q2 * 64 + r1 = q1" "q1 * 64 + r0 = n" for q3 r2 q2 r1 q1 r0 :: nat
    using that by simp
  from this [OF div_mult_mod_eq div_mult_mod_eq div_mult_mod_eq]
  have "n div 64 div 64 div 64 * 262144 + n div 64 div 64 mod 64 * 4096 + n div 64 mod 64 * 64 + n mod 64 = n" .
  ultimately show ?thesis by (simp only: s) simp
qed

lemma octet_value: "ucast (and t 0xFF :: c_uint) = (of_nat (unat t) :: byte)"
proof -
  have m: "(0xFF :: c_uint) = mask 8" by (simp add: mask_eq_exp_minus_1)
  have "ucast (and t 0xFF :: c_uint) = (ucast t :: byte)"
    unfolding m by (intro bit_word_eqI) (simp add: bit_simps)
  then show ?thesis by simp
qed

lemma triple_octets_triple: "triple_octets (octet_triple a b c) = [a, b, c]"
proof -
  have lt: "unat b < 256" "unat c < 256"
    using unsigned_less [of b] unsigned_less [of c] by simp_all
  then have "unat b * 256 + unat c < 65536" by simp
  with lt have d: "(unat a * 65536 + unat b * 256 + unat c) div 65536 = unat a"
    "(unat a * 65536 + unat b * 256 + unat c) div 256 = unat a * 256 + unat b"
    by simp_all
  have z: "(65536 :: byte) = 0" "(256 :: byte) = 0" by simp_all
  show ?thesis
    unfolding triple_octets_def octet_value
    by (simp only: unat_drop_bit_eq unat_octet_triple) (simp add: drop_bit_eq_div d z)
qed

section \<open>Reading groups\<close>

lemma read_sextet_at:
  "read_sextet (pre @ c # rest) (length pre) =
     (if c = CHR ''='' then (0, length pre + 2) else (of_nat (decode_table ! nat (uchar c)), length pre + 1))"
  by (simp add: read_sextet_def)

lemma sextet_char_facts:
  "base64_valid (sextet_char t n)" "sextet_char t n \<noteq> CHR ''=''" "url_char (sextet_char t n) \<noteq> CHR 0x00"
  "plain_char64 (url_char (sextet_char t n)) = sextet_char t n"
  "url_char (sextet_char t n) \<noteq> CHR ''.''" "url_char (sextet_char t n) \<noteq> CHR ''=''"
proof -
  have "unat (and (drop_bit n t) 0x3F) < 64" unfolding sextet_value by simp
  then have "sextet_char t n \<in> set base64_chars" by (simp add: sextet_char_def)
  then show "base64_valid (sextet_char t n)" "sextet_char t n \<noteq> CHR ''=''" "url_char (sextet_char t n) \<noteq> CHR 0x00"
    "plain_char64 (url_char (sextet_char t n)) = sextet_char t n"
    "url_char (sextet_char t n) \<noteq> CHR ''.''" "url_char (sextet_char t n) \<noteq> CHR ''=''"
    using alphabet_char unfolding list_all_iff by blast+
qed

lemma read_sextet_char:
  "read_sextet (pre @ sextet_char t n # rest) (length pre) = (of_nat (unat t div 2 ^ n mod 64), length pre + 1)"
proof -
  have "unat (and (drop_bit n t) 0x3F) < 64" unfolding sextet_value by simp
  then have "decode_table ! nat (uchar (sextet_char t n)) = unat t div 2 ^ n mod 64"
    unfolding sextet_char_def by (simp only: table_entry sextet_value)
  then show ?thesis unfolding read_sextet_at using sextet_char_facts(2) by simp
qed

lemma join_sextets:
  assumes "unat t < 2 ^ 24"
  shows "push_bit 18 (of_nat (unat t div 2 ^ 18 mod 64)) + push_bit 12 (of_nat (unat t div 2 ^ 12 mod 64)) +
    push_bit 6 (of_nat (unat t div 2 ^ 6 mod 64)) + of_nat (unat t div 2 ^ 0 mod 64) = (t :: c_uint)"
proof -
  have "of_nat (unat t div 2 ^ 18 mod 64 * 262144 + unat t div 2 ^ 12 mod 64 * 4096 + unat t div 2 ^ 6 mod 64 * 64 +
      unat t mod 64) = (of_nat (unat t) :: c_uint)"
    unfolding four_sextets [OF assms] ..
  then show ?thesis by (simp add: push_bit_eq_mult)
qed

lemma octet_triple_bound: "unat (octet_triple a b c) < 2 ^ 24"
proof -
  have "unat a < 256" "unat b < 256" "unat c < 256"
    using unsigned_less [of a] unsigned_less [of b] unsigned_less [of c] by simp_all
  then show ?thesis unfolding unat_octet_triple by simp
qed

lemma low_sextets:
  "unat (octet_triple a 0 0) mod 64 = 0" "unat (octet_triple a 0 0) div 64 mod 64 = 0"
  "unat (octet_triple a b 0) mod 64 = 0"
proof -
  have "unat (octet_triple a 0 0) = unat a * 16 * 64 * 64" "unat (octet_triple a b 0) = (unat a * 1024 + unat b * 4) * 64"
    by (simp_all add: unat_octet_triple)
  then show "unat (octet_triple a 0 0) mod 64 = 0" "unat (octet_triple a 0 0) div 64 mod 64 = 0"
    "unat (octet_triple a b 0) mod 64 = 0"
    by (simp_all only: nonzero_mult_div_cancel_right mod_mult_self2_is_0)
qed

lemmas read_next =
  read_sextet_char [of "pre @ [c]" for pre c, simplified]
  read_sextet_char [of "pre @ [c, d]" for pre c d, simplified]
  read_sextet_char [of "pre @ [c, d, e]" for pre c d e, simplified]
  read_sextet_at [of "pre @ [c, d]" "CHR ''=''" for pre c d, simplified]
  read_sextet_at [of "pre @ [c, d, e]" "CHR ''=''" for pre c d e, simplified]

lemma decode_group_full:
  assumes "unat t < 2 ^ 24"
  shows "decode_group (pre @ encode_group t @ rest) (length pre) = (t, length pre + 4)"
  using join_sextets [OF assms] by (simp add: decode_group_def encode_group_def read_sextet_char read_next)

lemma decode_group_two:
  "decode_group (pre @ take 2 (encode_group (octet_triple a 0 0)) @ ''=='') (length pre) =
     (octet_triple a 0 0, length pre + 6)"
proof -
  have "read_sextet (pre @ [c, d, CHR ''='', CHR ''='']) (Suc (Suc (Suc (Suc (length pre))))) = (0, length pre + 6)" for c d
    by (simp add: read_sextet_def)
  then show ?thesis
    using join_sextets [OF octet_triple_bound [of a 0 0]] low_sextets(1,2) [of a]
    by (simp add: decode_group_def encode_group_def read_sextet_char read_next)
qed

lemma decode_group_one:
  "decode_group (pre @ take 3 (encode_group (octet_triple a b 0)) @ ''='') (length pre) =
     (octet_triple a b 0, length pre + 5)"
  using join_sextets [OF octet_triple_bound [of a b 0]] low_sextets(3) [of a b]
  by (simp add: decode_group_def encode_group_def read_sextet_char read_next)

lemma decode_groups_padded:
  "decode_groups (pre @ padded_groups bs) (length out + length bs) (length pre) out = out @ bs"
proof (induction bs arbitrary: pre out rule: padded_groups.induct)
  case 1
  then show ?case by (simp add: decode_groups.simps)
next
  case (2 a)
  show ?case
    using decode_group_two [of pre a]
    by (subst decode_groups.simps, subst decode_groups.simps) (simp add: triple_octets_triple)
next
  case (3 a b)
  show ?case
    using decode_group_one [of pre a b]
    by (subst decode_groups.simps, subst decode_groups.simps) (simp add: triple_octets_triple)
next
  case (4 a b c input)
  let ?g = "encode_group (octet_triple a b c)"
  show ?case
    using 4 [of "pre @ ?g" "out @ [a, b, c]"] decode_group_full [OF octet_triple_bound [of a b c], of pre "padded_groups input"]
    by (subst decode_groups.simps) (simp add: triple_octets_triple)
qed

section \<open>The round trip\<close>

lemma length_padded_groups: "length (padded_groups bs) = (length bs + 2) div 3 * 4"
proof (induction bs rule: padded_groups.induct)
  case (4 a b c input)
  then show ?case unfolding groups_step by simp
qed (simp_all add: encode_group_def)

lemma valid_padded_groups: "list_all base64_valid (padded_groups bs)"
proof -
  have "base64_valid (CHR ''='')" by (simp add: base64_valid_def)
  then show ?thesis
    by (induction bs rule: padded_groups.induct) (simp_all add: encode_group_def sextet_char_facts(1))
qed

lemma decoded_len_append:
  assumes "ys \<noteq> []" and "length xs mod 4 = 0" and "length ys mod 4 = 0"
  shows "base64_decoded_len (xs @ ys) = length xs div 4 * 3 + base64_decoded_len ys"
proof -
  from assms obtain m n where mn: "length xs = 4 * m" "length ys = 4 * n" by (auto simp: mod_eq_0_iff_dvd dvd_def)
  with assms(1) have "0 < n" by (cases n) auto
  with mn have len: "length (xs @ ys) div 4 = m + n" "length xs div 4 = m" "length ys div 4 = n"
    "1 < length ys" "0 < length ys" "1 < length (xs @ ys)" "0 < length (xs @ ys)"
    by simp_all
  have at: "(xs @ ys) ! (length (xs @ ys) - 1) = ys ! (length ys - 1)"
    "(xs @ ys) ! (length (xs @ ys) - 2) = ys ! (length ys - 2)"
    using len(4) nth_append_length_plus [of xs ys "length ys - 1"] nth_append_length_plus [of xs ys "length ys - 2"]
    by simp_all
  have "2 \<le> n * 3" using \<open>0 < n\<close> by simp
  then have sub: "(m + n) * 3 - p - q = m * 3 + (n * 3 - p - q)" if "p \<le> 1" "q \<le> 1" for p q
    using that by (simp add: add_mult_distrib)
  show ?thesis
    unfolding base64_decoded_len_def Let_def at len(1-3) by (subst sub) (simp_all only: len, simp_all)
qed

lemma decoded_len_padded: "base64_decoded_len (padded_groups bs) = length bs"
proof (induction bs rule: padded_groups.induct)
  case (4 a b c input)
  show ?case
  proof (cases "input = []")
    case True
    then show ?thesis by (simp add: base64_decoded_len_def encode_group_def sextet_char_facts(2))
  next
    case False
    then have "padded_groups input \<noteq> []" using length_padded_groups [of input] by (cases input) auto
    with 4 show ?thesis by (simp add: decoded_len_append length_padded_groups)
  qed
qed (simp_all add: base64_decoded_len_def encode_group_def sextet_char_facts(2))

lemma base64_decode_encode: "base64_decode junk (base64_encode bs) = Some bs"
  using decode_groups_padded [of "[]" bs "[]"] by (simp add: valid_padded_groups length_padded_groups decoded_len_padded base64_decode_def
      base64_encode_padded)

text \<open>The text for URLs is the padded text up to the padding; the decoder puts it back.\<close>

definition unpadded :: "byte list \<Rightarrow> string" where
  "unpadded bs = takeWhile (\<lambda>c. c \<noteq> CHR ''='') (padded_groups bs)"

lemma takeWhile_map_url:
  "takeWhile (\<lambda>c. c \<noteq> CHR 0x00) (map url_char (padded_groups bs)) = map url_char (unpadded bs)"
  unfolding unpadded_def
  by (induction bs rule: padded_groups.induct)
    (simp_all add: encode_group_def sextet_char_facts, simp_all add: url_char_def)

lemma unpadded_chars:
  "c \<in> set (unpadded bs) \<Longrightarrow> plain_char64 (url_char c) = c \<and> url_char c \<noteq> CHR ''.'' \<and> url_char c \<noteq> CHR 0x00"
  unfolding unpadded_def
  by (induction bs rule: padded_groups.induct) (auto simp: encode_group_def sextet_char_facts)

lemma unpadded_group: "unpadded (a # b # c # input) = encode_group (octet_triple a b c) @ unpadded input"
  by (simp add: unpadded_def encode_group_def sextet_char_facts)

lemma padded_unpadded:
  "padded_groups bs = unpadded bs @ replicate ((4 - length (unpadded bs) mod 4) mod 4) (CHR ''='')"
proof (induction bs rule: padded_groups.induct)
  case (4 a b c input)
  then show ?case unfolding unpadded_group by simp
qed (simp_all add: unpadded_def encode_group_def sextet_char_facts numeral_2_eq_2)

lemma base64_url_round_trip: "base64_url_decode junk (base64_url_encode bs) = Some bs"
proof -
  have "base64_url_encode bs = map url_char (unpadded bs)"
    by (simp add: base64_url_encode_def base64_encode_padded takeWhile_map_url)
  moreover have "map (plain_char64 \<circ> url_char) (unpadded bs) = unpadded bs"
    using unpadded_chars by (intro map_idI) auto
  ultimately have "base64_url_decode junk (base64_url_encode bs) = base64_decode junk (padded_groups bs)"
    by (simp add: base64_url_decode_def Let_def padded_unpadded [of bs, symmetric])
  then show ?thesis using base64_decode_encode [of junk bs] by (simp add: base64_encode_padded)
qed

lemma base64_url_encode_chars:
  "CHR ''.'' \<notin> set (base64_url_encode bs)" "CHR 0x00 \<notin> set (base64_url_encode bs)"
  "base64_url_encode bs = [] \<longleftrightarrow> bs = []"
proof -
  have e: "base64_url_encode bs = map url_char (unpadded bs)"
    by (simp add: base64_url_encode_def base64_encode_padded takeWhile_map_url)
  show "CHR ''.'' \<notin> set (base64_url_encode bs)" "CHR 0x00 \<notin> set (base64_url_encode bs)"
    using unpadded_chars unfolding e by fastforce+
  show "base64_url_encode bs = [] \<longleftrightarrow> bs = []"
    using base64_url_round_trip [of undefined bs] base64_url_round_trip [of undefined "[]"]
    by (metis base64_url_encode_def base64_encode_padded padded_groups.simps(1) list.map(1) takeWhile.simps(1) option.inject)
qed

text \<open>
  C36. Round trip of the encoding used in tokens: decoding what \<^verbatim>\<open>base64_url_encode\<close> wrote gives
  the bytes back, whatever the decoder finds in the memory it allocates.
\<close>

theorem base64_url_decode_encode: "base64_url_decode junk (base64_url_encode bs) = Some bs"
  by (rule base64_url_round_trip)

text \<open>A text the encoder does not write: the last byte of the result is never written.\<close>

lemma base64_decode_unset: "base64_decode junk ''========'' = Some [0, 0, 0, junk 3]"
proof -
  have g: "decode_group ''========'' 0 = (0, 8)"
    by (simp add: decode_group_def read_sextet_def)
  have "decode_groups ''========'' 4 8 out = out" for out by (subst decode_groups.simps) simp
  then have "decode_groups ''========'' 4 0 [] = [0, 0, 0]"
    by (subst decode_groups.simps) (simp add: g triple_octets_def)
  moreover have "[length [0, 0, 0 :: byte]..<4] = [3]" by code_simp
  ultimately show ?thesis
    by (simp add: base64_decode_def base64_decoded_len_def base64_valid_def)
qed

end
