(* ===== verification/Jwt_Props.thy ===== *)
theory Jwt_Props
  imports Jwt Base64_Props Json_Roundtrip
begin

text \<open>
  What a token is accepted for: a text of three parts whose third part signs the other two.
  A token read back is the token that was written, for payloads the JSON reader gives back
  unchanged.
\<close>

section \<open>The parts of a token\<close>

definition dot_free :: "string \<Rightarrow> bool" where
  "dot_free s \<longleftrightarrow> CHR ''.'' \<notin> set s"

lemma dot_free_filter: "dot_free s \<longleftrightarrow> filter (\<lambda>c. c = CHR ''.'') s = []"
  by (auto simp: dot_free_def filter_empty_conv)

lemma strtok_dot_simps:
  "strtok_dot [] = None" "strtok_dot (CHR ''.'' # s) = strtok_dot s"
  "dot_free s \<Longrightarrow> s \<noteq> [] \<Longrightarrow> strtok_dot s = Some (s, [])"
  "dot_free s \<Longrightarrow> s \<noteq> [] \<Longrightarrow> strtok_dot (s @ CHR ''.'' # t) = Some (s, t)"
proof -
  show "strtok_dot [] = None" "strtok_dot (CHR ''.'' # s) = strtok_dot s"
    by (simp_all add: strtok_dot_def)
  assume s: "dot_free s" "s \<noteq> []"
  then obtain c r where c: "s = c # r" "c \<noteq> CHR ''.''" by (cases s) (auto simp: dot_free_def)
  have stop: "takeWhile (\<lambda>c. c \<noteq> CHR ''.'') (s @ t') = s" "dropWhile (\<lambda>c. c \<noteq> CHR ''.'') (s @ t') = t'"
    if "t' = [] \<or> t' = CHR ''.'' # t" for t'
    using s(1) that by (auto simp: dot_free_def intro!: takeWhile_append_stop)
  have drop: "dropWhile (\<lambda>c. c = CHR ''.'') (s @ t') = s @ t'" for t' using c by simp
  have all: "takeWhile (\<lambda>c. c \<noteq> CHR ''.'') s = s" "dropWhile (\<lambda>c. c \<noteq> CHR ''.'') s = []"
    using s(1) by (auto simp: dot_free_def)
  show "strtok_dot s = Some (s, [])"
    using drop [of "[]"] s(2) by (simp add: strtok_dot_def all)
  show "strtok_dot (s @ CHR ''.'' # t) = Some (s, t)"
    by (simp add: strtok_dot_def stop drop)
qed

lemma token_parts_three:
  assumes "dot_free a" and "dot_free b" and "dot_free c"
  shows "token_parts (a @ CHR ''.'' # b @ CHR ''.'' # c) =
    (if a = [] \<or> b = [] \<or> c = [] then None else Some (a, b, c))"
  using assms
  by (cases "a = []"; cases "b = []"; cases "c = []") (simp_all add: token_parts_def strtok_dot_simps)

lemma split_at_dot:
  assumes "filter (\<lambda>c. c = CHR ''.'') s = CHR ''.'' # ds"
  obtains a r where "s = a @ CHR ''.'' # r" and "dot_free a" and "filter (\<lambda>c. c = CHR ''.'') r = ds"
  using assms by (auto simp: filter_eq_Cons_iff dot_free_def)

lemma two_dots:
  assumes "length (filter (\<lambda>c. c = CHR ''.'') s) = 2"
  obtains a b c where "s = a @ CHR ''.'' # b @ CHR ''.'' # c" and "dot_free a" "dot_free b" "dot_free c"
proof -
  have "filter (\<lambda>c. c = CHR ''.'') s = replicate 2 (CHR ''.'')"
    using assms by (intro replicate_eqI) auto
  then have "filter (\<lambda>c. c = CHR ''.'') s = CHR ''.'' # CHR ''.'' # []" by (simp add: numeral_2_eq_2)
  then obtain a r where a: "s = a @ CHR ''.'' # r" "dot_free a" "filter (\<lambda>c. c = CHR ''.'') r = CHR ''.'' # []"
    by (rule split_at_dot)
  from a(3) obtain b c where "r = b @ CHR ''.'' # c" "dot_free b" "filter (\<lambda>c. c = CHR ''.'') c = []"
    by (rule split_at_dot)
  with a that show ?thesis by (simp add: dot_free_filter)
qed

lemma last_dot_unique:
  assumes "x @ CHR ''.'' # g = y @ CHR ''.'' # k" and "dot_free g" and "dot_free k"
  shows "x = y" and "g = k"
proof -
  have "takeWhile (\<lambda>c. c \<noteq> CHR ''.'') (rev (z @ CHR ''.'' # l)) = rev l" if "dot_free l" for z l :: string
    using that takeWhile_append_stop(1) [of "rev l" "\<lambda>c. c \<noteq> CHR ''.''" "CHR ''.'' # rev z"] by (auto simp: dot_free_def)
  from this [OF assms(2), of x] this [OF assms(3), of y] assms(1) show "g = k" by (metis rev_rev_ident)
  with assms(1) show "x = y" by simp
qed

section \<open>What is accepted\<close>

lemma same_signature_eq: "same_signature s t \<longleftrightarrow> s = t"
  by (auto simp: same_signature_def list_all_iff intro: nth_equalityI)

lemma jwt_decode_parts:
  assumes "jwt_decode junk now s = Some token"
  obtains h p g where "s = h @ CHR ''.'' # p @ CHR ''.'' # g" and "token_parts s = Some (h, p, g)" and "dot_free g"
proof -
  have n: "length (filter (\<lambda>c. c = CHR ''.'') s) = 2" and some: "token_parts s \<noteq> None"
    using assms by (auto simp: jwt_decode_def split: if_splits option.splits)
  from n obtain a b c where "s = a @ CHR ''.'' # b @ CHR ''.'' # c" "dot_free a" "dot_free b" "dot_free c"
    by (rule two_dots)
  moreover from this have "token_parts s = (if a = [] \<or> b = [] \<or> c = [] then None else Some (a, b, c))"
    using token_parts_three by simp
  ultimately show ?thesis using some that by (simp split: if_splits)
qed

lemma jwt_sign_Some:
  "jwt_sign hmac x secret a = Some g \<longleftrightarrow> a = ''HS256'' \<and> (\<exists>d. hmac secret x = Some d \<and> g = base64_url_encode d)"
  by (auto simp: jwt_sign_def secure_hmac_sha256_def)

text \<open>
  C11. A text is accepted exactly when it is a readable token of three parts, the clock is
  within its bounds, it names the algorithm HS256, and its third part is the code of the
  HMAC, under the secret, of everything before the last dot.
\<close>

theorem jwt_verify_iff:
  "jwt_verify hmac junk now s secret \<longleftrightarrow>
     (\<exists>token signed d. jwt_decode junk now s = Some token \<and> time_valid now (payload token) \<and>
        alg (header token) = ''HS256'' \<and> hmac secret signed = Some d \<and> s = signed @ ''.'' @ base64_url_encode d)"
proof
  assume v: "jwt_verify hmac junk now s secret"
  then obtain token where t: "jwt_decode junk now s = Some token"
    by (auto simp: jwt_verify_def split: option.splits)
  then obtain h p g where s: "s = h @ CHR ''.'' # p @ CHR ''.'' # g" and parts: "token_parts s = Some (h, p, g)"
    by (rule jwt_decode_parts)
  from v t parts have "time_valid now (payload token)"
    and "jwt_sign hmac (h @ ''.'' @ p) secret (alg (header token)) = Some g"
    by (auto simp: jwt_verify_def same_signature_eq split: option.splits if_splits)
  with t s show "\<exists>token signed d. jwt_decode junk now s = Some token \<and> time_valid now (payload token) \<and>
      alg (header token) = ''HS256'' \<and> hmac secret signed = Some d \<and> s = signed @ ''.'' @ base64_url_encode d"
    by (auto simp: jwt_sign_Some intro!: exI [of _ "h @ ''.'' @ p"])
next
  assume "\<exists>token signed d. jwt_decode junk now s = Some token \<and> time_valid now (payload token) \<and>
      alg (header token) = ''HS256'' \<and> hmac secret signed = Some d \<and> s = signed @ ''.'' @ base64_url_encode d"
  then obtain token signed d where t: "jwt_decode junk now s = Some token" "time_valid now (payload token)"
      "alg (header token) = ''HS256''" "hmac secret signed = Some d" "s = signed @ ''.'' @ base64_url_encode d"
    by blast
  from t(1) obtain h p g where s: "s = (h @ CHR ''.'' # p) @ CHR ''.'' # g" and parts: "token_parts s = Some (h, p, g)"
      and g: "dot_free g"
    by (rule jwt_decode_parts) simp
  have "signed @ CHR ''.'' # base64_url_encode d = (h @ CHR ''.'' # p) @ CHR ''.'' # g"
    using s t(5) by simp
  from last_dot_unique [OF this _ g] base64_url_encode_chars(1) [of d]
  have "signed = h @ ''.'' @ p" and "base64_url_encode d = g" by (simp_all add: dot_free_def)
  then have "jwt_sign hmac (h @ ''.'' @ p) secret (alg (header token)) = Some g"
    using t by (simp add: jwt_sign_Some)
  with t parts show "jwt_verify hmac junk now s secret" by (simp add: jwt_verify_def same_signature_eq)
qed

section \<open>Reading back what was written\<close>

lemma bytes_string_bytes [simp]: "bytes_string (string_bytes s) = s"
proof -
  have "char_of (unat (of_nat (of_char c) :: byte)) = c" for c
  proof -
    have "of_char c < (256 :: nat)" by simp
    then show ?thesis by (simp only: unsigned_of_nat) (simp add: take_bit_nat_eq_self)
  qed
  then show ?thesis by (simp add: bytes_string_def string_bytes_def map_idI)
qed

text \<open>The values that keep their text, and are kept by it.\<close>

definition portable :: "json \<Rightarrow> bool" where
  "portable v \<longleftrightarrow> reads_ok v \<and> plain_json v \<and> nul_free (stringify_value v)"

lemma portable_reads: "portable v \<Longrightarrow> json_parse (Some (stringify_value v)) = Some v"
  using json_parse_stringify_lemma [of v] by (simp add: portable_def escaped_json_plain json_stringify_def)

lemma portable_text: "portable v \<Longrightarrow> c_read (stringify_value v) = stringify_value v"
  unfolding portable_def nul_free_def c_read_def takeWhile_eq_all_conv by metis

lemma decode_encode_object:
  assumes "portable (JObject es)"
  shows "decode_object junk (encode_json (Some (JObject es))) = Some es"
  using portable_reads [OF assms] portable_text [OF assms]
  by (simp add: decode_object_def encode_json_def base64_url_round_trip json_stringify_def)

lemma encode_json_text:
  "dot_free (encode_json v)" "encode_json (Some (JObject es)) \<noteq> []"
  using base64_url_encode_chars by (auto simp: encode_json_def dot_free_def json_stringify_def string_bytes_def)

text \<open>An entry of a portable object is portable.\<close>

lemma portable_entry:
  assumes "portable (JObject es)" and "(k, v) \<in> set es"
  shows "portable v"
proof -
  from assms(2) obtain xs ys where es: "es = xs @ (k, v) # ys" by (meson split_list)
  have inner: "\<exists>a b. stringify_entries (xs @ (k, v) # ys) = a @ stringify_value v @ b" for xs ys
  proof (induction xs)
    case Nil
    show ?case
      by (intro exI [of _ "escape_string k @ '':''"] exI [of _ "(if ys \<noteq> [] then '','' else []) @ stringify_entries ys"])
        simp
  next
    case (Cons x xs)
    then obtain a b where "stringify_entries (xs @ (k, v) # ys) = a @ stringify_value v @ b" by blast
    moreover obtain l w where "x = (l, w)" by (cases x)
    ultimately have "stringify_entries ((x # xs) @ (k, v) # ys) =
        (escape_string l @ '':'' @ stringify_value w @ '','' @ a) @ stringify_value v @ b"
      by simp
    then show ?case by blast
  qed
  from inner [of xs ys] obtain a b where "stringify_value (JObject es) = (CHR ''{'' # a) @ stringify_value v @ b @ ''}''"
    unfolding es by auto
  moreover have "jdepth v \<le> jdepth (JObject es)" using jdepth_entry [OF assms(2)] by simp
  ultimately show ?thesis using assms by (auto simp: portable_def reads_ok_def nul_free_def list_all_iff)
qed

section \<open>Ordinary tokens\<close>

definition standard_entries :: "jwt_payload \<Rightarrow> entries" where
  "standard_entries p =
     (case iss p of None \<Rightarrow> [] | Some s \<Rightarrow> [(''iss'', JString s)]) @
     (case sub p of None \<Rightarrow> [] | Some s \<Rightarrow> [(''sub'', JString s)]) @
     (case aud p of None \<Rightarrow> [] | Some s \<Rightarrow> [(''aud'', JString s)]) @
     (if 0 < sint (exp_time p) then [(''exp'', JInteger (exp_time p))] else []) @
     (if 0 < sint (nbf p) then [(''nbf'', JInteger (nbf p))] else []) @
     (if 0 < sint (iat p) then [(''iat'', JInteger (iat p))] else []) @
     (case jti p of None \<Rightarrow> [] | Some s \<Rightarrow> [(''jti'', JString s)])"

text \<open>
  A token whose claims do not take the names of the standard ones, whose times are not
  negative, and whose header and payload are portable.
\<close>

definition header_entries :: "jwt_header \<Rightarrow> entries" where
  "header_entries h = [(''alg'', JString (alg h)), (''typ'', JString (token_typ h))]"

definition ordinary :: "jwt_token \<Rightarrow> entries \<Rightarrow> bool" where
  "ordinary t cs \<longleftrightarrow>
     portable (JObject (header_entries (header t))) \<and>
     claims (payload t) = Some (JObject cs) \<and> portable (JObject (standard_entries (payload t) @ cs)) \<and>
     fst ` set cs \<inter> set standard_claims = {} \<and>
     0 \<le> sint (exp_time (payload t)) \<and> 0 \<le> sint (nbf (payload t)) \<and> 0 < sint (iat (payload t))"

lemma standard_keys: "fst ` set (standard_entries p) \<subseteq> set standard_claims"
  by (auto simp: standard_entries_def standard_claims_def split: option.splits if_splits)

lemma set_if_fresh:
  "k \<notin> fst ` set es \<Longrightarrow> set_if b k v (Some (JObject es)) = Some (JObject (es @ (if b then [(k, v)] else [])))"
  by (simp add: set_if_def obj_set_fresh)

lemma optional_entry:
  "(case x of None \<Rightarrow> [] | Some s \<Rightarrow> [(k, JString s)]) = (if x \<noteq> None then [(k, JString (the x))] else [])"
  by (cases x) simp_all

lemma standard_json_entries: "standard_json p = Some (JObject (standard_entries p))"
proof -
  have start: "Some json_create_object = Some (JObject [])" by (simp add: json_create_object_def)
  show ?thesis
    unfolding standard_json_def standard_entries_def Let_def start optional_entry json_create_string_def
      json_create_integer_def
    by (subst set_if_fresh, force split: if_splits)+ (simp only: append_Nil append_assoc)
qed

lemma copy_claims:
  assumes "list_all (\<lambda>e. portable (snd e)) cs" and "distinct (map fst (es @ cs))"
  shows "foldl copy_claim (Some (JObject es)) cs = Some (JObject (es @ cs))"
  using assms
proof (induction cs arbitrary: es)
  case (Cons c cs)
  then have "obj_set es (fst c) (snd c) = es @ [c]" by (subst obj_set_fresh) auto
  with Cons show ?case using portable_reads [of "snd c"] by (simp add: copy_claim_def json_stringify_def)
qed simp

lemma portable_distinct: "portable (JObject es) \<Longrightarrow> distinct (map fst es)"
  using escaped_json_plain [of "JObject es"] unfolding portable_def reads_ok_def by (metis json_wf.simps(2))

lemma obj_get_append: "obj_get (xs @ ys) k = (case obj_get xs k of None \<Rightarrow> obj_get ys k | Some v \<Rightarrow> Some v)"
  by (simp add: obj_get_map_of map_add_def split: option.split)

lemma obj_get_optional:
  "obj_get (case x of None \<Rightarrow> [] | Some s \<Rightarrow> [(k, JString s)]) k' = (if k' = k then map_option JString x else None)"
  "obj_get (if b then [(k, v)] else []) k' = (if b \<and> k' = k then Some v else None)"
  by (auto split: option.splits)

lemma obj_get_standard:
  "obj_get (standard_entries p) ''iss'' = map_option JString (iss p)"
  "obj_get (standard_entries p) ''sub'' = map_option JString (sub p)"
  "obj_get (standard_entries p) ''aud'' = map_option JString (aud p)"
  "obj_get (standard_entries p) ''jti'' = map_option JString (jti p)"
  "obj_get (standard_entries p) ''exp'' = (if 0 < sint (exp_time p) then Some (JInteger (exp_time p)) else None)"
  "obj_get (standard_entries p) ''nbf'' = (if 0 < sint (nbf p) then Some (JInteger (nbf p)) else None)"
  "obj_get (standard_entries p) ''iat'' = (if 0 < sint (iat p) then Some (JInteger (iat p)) else None)"
  by (simp_all add: standard_entries_def obj_get_append obj_get_optional split: option.split)

lemma obj_get_standard_append:
  assumes "fst ` set cs \<inter> set standard_claims = {}" and "k \<in> set standard_claims"
  shows "obj_get (es @ cs) k = obj_get es k"
proof -
  have "map_of cs k = None" using assms by (auto simp: map_of_eq_None_iff)
  then show ?thesis by (simp add: obj_get_map_of map_add_def split: option.split)
qed

lemma filter_standard:
  assumes "fst ` set cs \<inter> set standard_claims = {}"
  shows "filter (\<lambda>e. fst e \<notin> set standard_claims) (standard_entries p @ cs) = cs"
proof -
  have "filter (\<lambda>e. fst e \<notin> set standard_claims) (standard_entries p) = []"
    using standard_keys [of p] by (auto simp: filter_empty_conv)
  moreover have "filter (\<lambda>e. fst e \<notin> set standard_claims) cs = cs"
    using assms by (intro filter_True) auto
  ultimately show ?thesis by simp
qed

lemma ordinary_facts:
  assumes "ordinary t cs"
  shows "list_all (\<lambda>e. portable (snd e)) cs" and "distinct (map fst (standard_entries (payload t) @ cs))"
proof -
  have p: "portable (JObject (standard_entries (payload t) @ cs))" using assms by (simp add: ordinary_def)
  show "list_all (\<lambda>e. portable (snd e)) cs"
    using portable_entry [OF p] by (fastforce simp: list_all_iff)
  show "distinct (map fst (standard_entries (payload t) @ cs))" by (rule portable_distinct [OF p])
qed

lemma payload_json_ordinary:
  assumes "ordinary t cs"
  shows "payload_json (payload t) = Some (JObject (standard_entries (payload t) @ cs))"
  using copy_claims [OF ordinary_facts [OF assms]] assms
  by (simp add: payload_json_def standard_json_entries ordinary_def object_entries_def)

lemma decoded_ordinary:
  assumes "ordinary t cs"
  shows "decoded_payload (payload (jwt_create now)) (standard_entries (payload t) @ cs) = payload t"
proof -
  have disj: "fst ` set cs \<inter> set standard_claims = {}" and c: "claims (payload t) = Some (JObject cs)"
    and times: "0 \<le> sint (exp_time (payload t))" "0 \<le> sint (nbf (payload t))" "0 < sint (iat (payload t))"
    using assms by (simp_all add: ordinary_def)
  have zero: "w = 0" if "0 \<le> sint w" "\<not> 0 < sint w" for w :: c_int64
    using that signed_word_eqI [of w 0] by simp
  have s: "string_or None (map_option JString x) = x" for x by (cases x) (simp_all add: string_or_def)
  have g: "obj_get (standard_entries (payload t) @ cs) k = obj_get (standard_entries (payload t)) k"
    if "k \<in> set standard_claims" for k
    by (rule obj_get_standard_append [OF disj that])
  have "distinct (map fst ([] @ cs))" using ordinary_facts(2) [OF assms] by simp
  note cc = copy_claims [OF ordinary_facts(1) [OF assms] this]
  have k: "''iss'' \<in> set standard_claims" "''sub'' \<in> set standard_claims" "''aud'' \<in> set standard_claims"
    "''exp'' \<in> set standard_claims" "''nbf'' \<in> set standard_claims" "''iat'' \<in> set standard_claims"
    "''jti'' \<in> set standard_claims"
    by (simp_all add: standard_claims_def)
  show ?thesis
  proof (rule jwt_payload.equality)
    show "claims (decoded_payload (payload (jwt_create now)) (standard_entries (payload t) @ cs)) = claims (payload t)"
      unfolding decoded_payload_def using cc c by (simp only: jwt_payload.select_convs filter_standard [OF disj])
        (simp add: jwt_create_def json_create_object_def)
  qed (use zero [OF times(1)] zero [OF times(2)] times(3) in
      \<open>simp_all add: decoded_payload_def jwt_create_def g [OF k(1)] g [OF k(2)] g [OF k(3)] g [OF k(4)] g [OF k(5)]
        g [OF k(6)] g [OF k(7)] obj_get_standard s time_or_def\<close>)
qed

lemma decode_token:
  assumes "ordinary t cs" and "dot_free g" and "g \<noteq> []"
    and "s = encode_json (header_json (header t)) @ ''.'' @ encode_json (payload_json (payload t)) @ ''.'' @ g"
  shows "jwt_decode junk now s = Some (t\<lparr>signature := Some g, token_str := Some s\<rparr>)"
proof -
  let ?h = "encode_json (header_json (header t))" and ?p = "encode_json (payload_json (payload t))"
  have hj: "header_json (header t) = Some (JObject (header_entries (header t)))"
    by (simp add: header_json_def header_entries_def json_create_object_def json_create_string_def)
  note pj = payload_json_ordinary [OF assms(1)]
  have port: "portable (JObject (header_entries (header t)))" "portable (JObject (standard_entries (payload t) @ cs))"
    using assms(1) by (simp_all add: ordinary_def)
  have free: "dot_free ?h" "dot_free ?p" "?h \<noteq> []" "?p \<noteq> []"
    unfolding hj pj using encode_json_text by blast+
  have parts: "token_parts s = Some (?h, ?p, g)"
    using token_parts_three [OF free(1,2) assms(2)] free assms(3,4) by simp
  have "length (filter (\<lambda>c. c = CHR ''.'') s) = 2"
    using free(1,2) assms(2) by (simp add: assms(4) dot_free_filter)
  moreover have "decode_object junk ?h = Some (header_entries (header t))"
    "decode_object junk ?p = Some (standard_entries (payload t) @ cs)"
    unfolding hj pj using decode_encode_object port by blast+
  moreover have "decoded_header (header (jwt_create now)) (header_entries (header t)) = header t"
    by (simp add: decoded_header_def header_entries_def string_or_def)
  ultimately show ?thesis
    using decoded_ordinary [OF assms(1), of now]
    by (simp add: jwt_decode_def parts)
qed

lemma encoded_token:
  assumes "ordinary t cs" and "fst (jwt_encode hmac t secret) = Some s"
  obtains signed d where "alg (header t) = ''HS256''" and "hmac secret signed = Some d"
    and "s = signed @ ''.'' @ base64_url_encode d"
    and "d \<noteq> [] \<Longrightarrow>
      jwt_decode junk now s = Some (t\<lparr>signature := Some (base64_url_encode d), token_str := Some s\<rparr>)"
proof -
  let ?x = "encode_json (header_json (header t)) @ ''.'' @ encode_json (payload_json (payload t))"
  from assms(2) obtain d where d: "alg (header t) = ''HS256''" "hmac secret ?x = Some d"
      "s = ?x @ ''.'' @ base64_url_encode d"
    by (auto simp: jwt_encode_def Let_def jwt_sign_Some split: option.splits)
  moreover have "jwt_decode junk now s = Some (t\<lparr>signature := Some (base64_url_encode d), token_str := Some s\<rparr>)" if "d \<noteq> []"
    by (rule decode_token [OF assms(1)])
      (use d(3) that base64_url_encode_chars in \<open>auto simp: dot_free_def\<close>)
  ultimately show ?thesis by (rule that)
qed

definition hmac_works :: "(string \<Rightarrow> string \<Rightarrow> byte list option) \<Rightarrow> string \<Rightarrow> bool" where
  "hmac_works hmac secret \<longleftrightarrow> (\<forall>x. \<exists>d. hmac secret x = Some d \<and> length d = 32)"

lemma token_round_trip:
  assumes "ordinary t cs" and "alg (header t) = ''HS256''" and "hmac_works hmac secret"
  obtains s g where "fst (jwt_encode hmac t secret) = Some s"
    and "\<And>junk now. jwt_decode junk now s = Some (t\<lparr>signature := Some g, token_str := Some s\<rparr>)"
    and "\<And>junk now. jwt_verify hmac junk now s secret \<longleftrightarrow> time_valid now (payload t)"
proof -
  let ?x = "encode_json (header_json (header t)) @ ''.'' @ encode_json (payload_json (payload t))"
  obtain d where d: "hmac secret ?x = Some d" "length d = 32" using assms(3) by (auto simp: hmac_works_def)
  let ?s = "?x @ ''.'' @ base64_url_encode d" and ?g = "base64_url_encode d"
  have e: "fst (jwt_encode hmac t secret) = Some ?s"
    using d assms(2) by (simp add: jwt_encode_def jwt_sign_def secure_hmac_sha256_def Let_def)
  have dec: "jwt_decode junk now ?s = Some (t\<lparr>signature := Some ?g, token_str := Some ?s\<rparr>)" for junk now
    using d(2) base64_url_encode_chars by (intro decode_token [OF assms(1)]) (auto simp: dot_free_def)
  have v: "jwt_verify hmac junk now ?s secret \<longleftrightarrow> time_valid now (payload t)" for junk now
  proof
    assume "jwt_verify hmac junk now ?s secret"
    then show "time_valid now (payload t)" using dec [of junk now] by (auto simp: jwt_verify_def split: if_splits)
  next
    assume t: "time_valid now (payload t)"
    obtain h p g where parts: "?s = h @ CHR ''.'' # p @ CHR ''.'' # g" "token_parts ?s = Some (h, p, g)" "dot_free g"
      using jwt_decode_parts [OF dec] by metis
    have "?x @ CHR ''.'' # ?g = (h @ CHR ''.'' # p) @ CHR ''.'' # g" using parts(1) by simp
    from last_dot_unique [OF this _ parts(3)] base64_url_encode_chars(1) [of d]
    have "?x = h @ ''.'' @ p" "?g = g" by (simp_all add: dot_free_def)
    then show "jwt_verify hmac junk now ?s secret"
      using t dec [of junk now] parts(2) d assms(2)
      by (simp add: jwt_verify_def same_signature_eq jwt_sign_def secure_hmac_sha256_def)
  qed
  show ?thesis by (rule that [OF e dec v])
qed

text \<open>
  Round trip of a token: what \<^verbatim>\<open>jwt_encode\<close> writes, \<^verbatim>\<open>jwt_decode\<close> reads back, with the
  signature and the text filled in, and \<^verbatim>\<open>jwt_verify\<close> accepts it with the same secret exactly
  while the clock is within the bounds of the token.
\<close>

theorem jwt_encode_decode:
  assumes "ordinary t cs" and "alg (header t) = ''HS256''" and "hmac_works hmac secret"
  shows "\<exists>s g. fst (jwt_encode hmac t secret) = Some s \<and>
    jwt_decode junk now s = Some (t\<lparr>signature := Some g, token_str := Some s\<rparr>) \<and>
    (jwt_verify hmac junk now s secret \<longleftrightarrow> time_valid now (payload t))"
  by (rule token_round_trip [OF assms]) blast

section \<open>Pairs of tokens\<close>

text \<open>Names without characters the writer escapes, of at most 1000 bytes.\<close>

definition token_name :: "string \<Rightarrow> bool" where
  "token_name s \<longleftrightarrow> list_all plain_char s \<and> nul_free s \<and> length s \<le> 1000"

lemma length_dec_str: "n < 10 ^ k \<Longrightarrow> 0 \<le> n \<Longrightarrow> 0 < k \<Longrightarrow> length (dec_str n) \<le> k"
proof (induction k arbitrary: n)
  case (Suc k)
  show ?case
  proof (cases "n < 10")
    case True
    then show ?thesis by (subst dec_str.simps) simp
  next
    case False
    have "n div 10 < 10 ^ k" using Suc.prems(1) by simp
    moreover have "0 < k" using False Suc.prems(1) by (cases k) auto
    ultimately have "length (dec_str (n div 10)) \<le> k" using Suc by simp
    with False show ?thesis by (subst dec_str.simps) simp
  qed
qed simp

lemma int_str_time:
  assumes "0 \<le> sint (i :: c_int64)"
  shows "length (int_str (sint i)) \<le> 20" and "nul_free (int_str (sint i))"
proof -
  have "sint i < 10 ^ 20" using sint_lt [of i] by simp
  then show "length (int_str (sint i)) \<le> 20" using length_dec_str [of "sint i" 20] assms by (simp add: int_str_def)
  show "nul_free (int_str (sint i))"
    using dec_str_digits [of "sint i"] assms by (fastforce simp: int_str_def nul_free_def isdigit_def uchar_def)
qed

lemma nul_free_simps [simp]:
  "nul_free []" "nul_free (a @ b) \<longleftrightarrow> nul_free a \<and> nul_free b"
  "nul_free (c # s) \<longleftrightarrow> c \<noteq> CHR 0x00 \<and> nul_free s"
  by (auto simp: nul_free_def)

lemma escape_name: "token_name s \<Longrightarrow> escape_string s = quote # s @ [quote]"
  by (simp add: escape_string_def token_name_def escape_body_plain)

lemma portable_object:
  assumes "list_all (\<lambda>e. token_name (fst e) \<and>
      ((\<exists>s. snd e = JString s \<and> token_name s) \<or> (\<exists>i. snd e = JInteger i \<and> 0 \<le> sint i))) es"
    and "distinct (map fst es)" and "length es \<le> 100" and "es \<noteq> []"
  shows "portable (JObject es)"
proof -
  have entry: "number_free (snd e) \<and> strings_fit (snd e) \<and> string_fits (fst e) \<and> jdepth (snd e) = 0 \<and>
      list_all plain_char (fst e) \<and> plain_json (snd e) \<and> json_wf (snd e) \<and>
      nul_free (stringify_value (snd e)) \<and> nul_free (escape_string (fst e)) \<and>
      length (escape_string (fst e)) \<le> 1002 \<and> length (stringify_value (snd e)) \<le> 1002"
    if "e \<in> set es" for e
  proof -
    have n: "string_fits s" "nul_free (escape_string s)" "length (escape_string s) \<le> 1002" "list_all plain_char s"
      if "token_name s" for s
      using that by (simp_all add: escape_name, simp_all add: token_name_def string_fits_def escape_body_plain
          max_json_string_length_def)
    from that assms(1) have k: "token_name (fst e)"
      and v: "(\<exists>s. snd e = JString s \<and> token_name s) \<or> (\<exists>i. snd e = JInteger i \<and> 0 \<le> sint i)"
      by (auto simp: list_all_iff)
    from v show ?thesis
    proof (elim disjE exE conjE)
      fix s assume "snd e = JString s" "token_name s"
      with n k show ?thesis by simp
    next
      fix i assume i: "snd e = JInteger i" "0 \<le> sint i"
      from int_str_time [OF i(2)] n [OF k] i(1) show ?thesis by simp
    qed
  qed
  have depth: "jdepth (JObject fs) = 1" if "\<forall>e \<in> set fs. jdepth (snd e) = 0" for fs
    using that by (induction fs) simp_all
  have size: "length (stringify_entries fs) \<le> 2006 * length fs \<and> nul_free (stringify_entries fs)"
    if "\<forall>e \<in> set fs. nul_free (stringify_value (snd e)) \<and> nul_free (escape_string (fst e)) \<and>
      length (escape_string (fst e)) \<le> 1002 \<and> length (stringify_value (snd e)) \<le> 1002" for fs
    using that by (induction fs) auto
  have plain: "plain_json (JObject es)" using entry by (simp add: list_all_iff)
  have "jdepth (JObject es) = 1" using depth entry by blast
  moreover have "length (stringify_entries es) \<le> 200600" and "nul_free (stringify_entries es)"
    using size [of es] entry assms(3) by auto
  moreover have "number_free (JObject es)" "strings_fit (JObject es)" "json_wf (JObject es)"
    using entry assms(2) by (simp_all add: list_all_iff)
  ultimately show ?thesis
    using plain escaped_json_plain [OF plain] assms(4)
    unfolding portable_def reads_ok_def max_json_input_size_def
    by (simp del: escaped_json.simps jdepth.simps plain_json.simps number_free.simps strings_fit.simps json_wf.simps)
qed

lemma sint_later:
  assumes "0 < sint (now :: c_int64)" and "sint now < 2 ^ 62" and "0 \<le> k" and "k < 2 ^ 62"
  shows "sint (now + word_of_int k) = sint now + k"
proof -
  have k: "sint (word_of_int k :: c_int64) = k"
    using assms(3,4) by (simp add: sint_sbintrunc' signed_take_bit_int_eq_self)
  show ?thesis
    using assms by (simp only: sint_word_ariths(1) k) (simp add: signed_take_bit_int_eq_self)
qed

lemma plain_names:
  "token_name ''HS256''" "token_name ''JWT''" "token_name ''jdbx''" "token_name ''access''" "token_name ''refresh''"
  "token_name ''alg''" "token_name ''typ''" "token_name ''iss''" "token_name ''sub''" "token_name ''exp''"
  "token_name ''iat''" "token_name ''username''" "token_name ''type''"
  unfolding token_name_def by (simp_all add: plain_char_def escape_char_def)

lemma access_token_ordinary:
  assumes "token_name user_id" and "token_name username" and "0 < sint now" and "sint now < 2 ^ 62"
  shows "ordinary (access_token now user_id username) [(''username'', JString username), (''type'', JString ''access'')]"
    and "alg (header (access_token now user_id username)) = ''HS256''"
    and "payload (access_token now user_id username) =
      \<lparr>iss = Some ''jdbx'', sub = Some user_id, aud = None, exp_time = now + 1800, nbf = 0, iat = now, jti = None,
       claims = Some (JObject [(''username'', JString username), (''type'', JString ''access'')])\<rparr>"
proof -
  let ?t = "access_token now user_id username"
  show a: "alg (header ?t) = ''HS256''" and p: "payload ?t =
      \<lparr>iss = Some ''jdbx'', sub = Some user_id, aud = None, exp_time = now + 1800, nbf = 0, iat = now, jti = None,
       claims = Some (JObject [(''username'', JString username), (''type'', JString ''access'')])\<rparr>"
    by (simp_all add: access_token_def jwt_create_def jwt_set_issuer_def jwt_set_subject_def jwt_set_expiration_def
        jwt_add_claim_def json_create_object_def json_create_string_def)
  have h: "header ?t = \<lparr>alg = ''HS256'', token_typ = ''JWT''\<rparr>"
    by (simp add: access_token_def jwt_create_def jwt_set_issuer_def jwt_set_subject_def jwt_set_expiration_def
        jwt_add_claim_def json_create_object_def json_create_string_def Let_def)
  have e: "sint (now + 1800) = sint now + 1800" using sint_later [OF assms(3,4), of 1800] by simp
  then show "ordinary ?t [(''username'', JString username), (''type'', JString ''access'')]"
    unfolding ordinary_def h p header_entries_def
    using assms by (auto simp: standard_entries_def standard_claims_def plain_names intro!: portable_object)
qed

lemma refresh_token_ordinary:
  assumes "token_name user_id" and "0 < sint now" and "sint now < 2 ^ 62"
  shows "ordinary (jwt_create_refresh_token now user_id 0) [(''type'', JString ''refresh'')]"
    and "alg (header (jwt_create_refresh_token now user_id 0)) = ''HS256''"
    and "payload (jwt_create_refresh_token now user_id 0) =
      \<lparr>iss = Some ''jdbx'', sub = Some user_id, aud = None, exp_time = now + 604800, nbf = 0, iat = now, jti = None,
       claims = Some (JObject [(''type'', JString ''refresh'')])\<rparr>"
proof -
  let ?t = "jwt_create_refresh_token now user_id 0"
  show a: "alg (header ?t) = ''HS256''" and p: "payload ?t =
      \<lparr>iss = Some ''jdbx'', sub = Some user_id, aud = None, exp_time = now + 604800, nbf = 0, iat = now, jti = None,
       claims = Some (JObject [(''type'', JString ''refresh'')])\<rparr>"
    by (simp_all add: jwt_create_refresh_token_def jwt_create_def jwt_set_issuer_def jwt_set_subject_def
        jwt_set_expiration_def jwt_add_claim_def json_create_object_def json_create_string_def)
  have h: "header ?t = \<lparr>alg = ''HS256'', token_typ = ''JWT''\<rparr>"
    by (simp add: jwt_create_refresh_token_def jwt_create_def jwt_set_issuer_def jwt_set_subject_def
        jwt_set_expiration_def jwt_add_claim_def json_create_object_def json_create_string_def Let_def)
  have e: "sint (now + 604800) = sint now + 604800" using sint_later [OF assms(2,3), of 604800] by simp
  then show "ordinary ?t [(''type'', JString ''refresh'')]"
    unfolding ordinary_def h p header_entries_def
    using assms by (auto simp: standard_entries_def standard_claims_def plain_names intro!: portable_object)
qed

lemma verify_refresh_decoded:
  assumes "\<And>junk now. jwt_decode junk now s = Some (t\<lparr>signature := Some g, token_str := Some s\<rparr>)"
    and "\<And>junk now. jwt_verify hmac junk now s secret \<longleftrightarrow> time_valid now (payload t)"
    and "claims (payload t) = Some (JObject cs)" and "obj_get cs ''type'' = Some (JString kind)"
  shows "jwt_verify_refresh_token hmac junk now s secret =
    (if time_valid now (payload t) \<and> kind = ''refresh'' then sub (payload t) else None)"
  using assms by (simp add: jwt_verify_refresh_token_def jwt_get_claim_def)

text \<open>
  The pair of tokens a client gets when it signs in: the access token is accepted for
  half an hour and never as a refresh token; the refresh token gives the user back for seven
  days.
\<close>

theorem token_pair_accepted:
  assumes "token_name user_id" and "token_name username" and "0 < sint now" and "sint now < 2 ^ 62"
    and "hmac_works hmac secret"
  shows "\<exists>response es a r. jwt_create_token_pair hmac now secret user_id username = Some (response, Some (JObject es)) \<and>
    obj_get es ''token'' = Some (JString a) \<and> obj_get es ''refresh_token'' = Some (JString r) \<and>
    (\<forall>junk later.
      (jwt_verify hmac junk later a secret \<longleftrightarrow> sint later \<le> sint now + 30 * 60) \<and>
      jwt_verify_refresh_token hmac junk later a secret = None \<and>
      jwt_verify_refresh_token hmac junk later r secret =
        (if sint later \<le> sint now + 7 * 24 * 60 * 60 then Some user_id else None))"
proof -
  note at = access_token_ordinary [OF assms(1-4)] and rt = refresh_token_ordinary [OF assms(1,3,4)]
  have e: "sint (now + 1800) = sint now + 1800" "sint (now + 604800) = sint now + 604800"
    using sint_later [OF assms(3,4), of 1800] sint_later [OF assms(3,4), of 604800] by simp_all
  obtain a g where a: "fst (jwt_encode hmac (access_token now user_id username) secret) = Some a"
    "\<And>junk now'. jwt_decode junk now' a = Some ((access_token now user_id username)\<lparr>signature := Some g, token_str := Some a\<rparr>)"
    "\<And>junk now'. jwt_verify hmac junk now' a secret \<longleftrightarrow> time_valid now' (payload (access_token now user_id username))"
    by (rule token_round_trip [OF at(1,2) assms(5)]) (rule that)
  obtain r g' where r: "fst (jwt_encode hmac (jwt_create_refresh_token now user_id 0) secret) = Some r"
    "\<And>junk now'. jwt_decode junk now' r = Some ((jwt_create_refresh_token now user_id 0)\<lparr>signature := Some g', token_str := Some r\<rparr>)"
    "\<And>junk now'. jwt_verify hmac junk now' r secret \<longleftrightarrow> time_valid now' (payload (jwt_create_refresh_token now user_id 0))"
    by (rule token_round_trip [OF rt(1,2) assms(5)]) (rule that)
  have va: "jwt_verify_refresh_token hmac junk later a secret =
      (if time_valid later (payload (access_token now user_id username)) \<and> ''access'' = ''refresh''
       then sub (payload (access_token now user_id username)) else None)" for junk later
    by (rule verify_refresh_decoded [OF a(2,3), where cs = "[(''username'', JString username), (''type'', JString ''access'')]"])
      (simp_all add: at(3))
  have vr: "jwt_verify_refresh_token hmac junk later r secret =
      (if time_valid later (payload (jwt_create_refresh_token now user_id 0)) \<and> ''refresh'' = ''refresh''
       then sub (payload (jwt_create_refresh_token now user_id 0)) else None)" for junk later
    by (rule verify_refresh_decoded [OF r(2,3), where cs = "[(''type'', JString ''refresh'')]"]) (simp_all add: rt(3))
  have "jwt_verify hmac junk later a secret \<longleftrightarrow> sint later \<le> sint now + 30 * 60"
    and "jwt_verify_refresh_token hmac junk later a secret = None"
    and "jwt_verify_refresh_token hmac junk later r secret =
        (if sint later \<le> sint now + 7 * 24 * 60 * 60 then Some user_id else None)" for junk later
    using assms(3) e by (simp_all add: a(3) va vr at(3) rt(3) time_valid_def not_less)
  then show ?thesis
    by (simp add: jwt_create_token_pair_def a(1) r(1) json_create_object_def json_create_string_def Let_def)
qed

text \<open>An authentication code for the witnesses: 32 copies of the sum of all characters.\<close>

definition sample_hmac :: "string \<Rightarrow> string \<Rightarrow> byte list option" where
  "sample_hmac secret data = Some (replicate 32 (of_int (\<Sum>c\<leftarrow>secret @ data. uchar c)))"

lemma sample_hmac_works: "hmac_works sample_hmac secret"
  by (simp add: hmac_works_def sample_hmac_def)

lemma token_pair_accepted_witness:
  "\<exists>response es a r. jwt_create_token_pair sample_hmac 1700000000 ''s'' ''u1'' ''ann'' = Some (response, Some (JObject es)) \<and>
    obj_get es ''token'' = Some (JString a) \<and> obj_get es ''refresh_token'' = Some (JString r) \<and>
    (\<forall>junk later.
      (jwt_verify sample_hmac junk later a ''s'' \<longleftrightarrow> sint later \<le> 1700001800) \<and>
      jwt_verify_refresh_token sample_hmac junk later a ''s'' = None \<and>
      jwt_verify_refresh_token sample_hmac junk later r ''s'' =
        (if sint later \<le> 1700604800 then Some ''u1'' else None))"
proof -
  have n: "token_name ''u1''" "token_name ''ann''"
    unfolding token_name_def by (simp_all add: plain_char_def escape_char_def)
  show ?thesis
    using token_pair_accepted [OF n _ _ sample_hmac_works, of 1700000000 "''s''"] by simp
qed

lemma jwt_encode_decode_witness:
  "\<exists>s g. fst (jwt_encode sample_hmac (access_token 1700000000 ''u1'' ''ann'') ''s'') = Some s \<and>
    jwt_decode (\<lambda>_. 0) 1700000100 s = Some ((access_token 1700000000 ''u1'' ''ann'')\<lparr>signature := Some g, token_str := Some s\<rparr>) \<and>
    jwt_verify sample_hmac (\<lambda>_. 0) 1700000100 s ''s''"
proof -
  have n: "token_name ''u1''" "token_name ''ann''"
    unfolding token_name_def by (simp_all add: plain_char_def escape_char_def)
  have t: "(0 :: int) < sint (1700000000 :: c_int64)" "sint (1700000000 :: c_int64) < 2 ^ 62" by simp_all
  note at = access_token_ordinary [OF n t]
  have "time_valid 1700000100 (payload (access_token 1700000000 ''u1'' ''ann''))"
    by (simp add: at(3) time_valid_def)
  then show ?thesis
    using jwt_encode_decode [OF at(1,2) sample_hmac_works, of "''s''" "\<lambda>_. 0" 1700000100] by blast
qed

end
