(* ===== verification/Tlsf.thy ===== *)
theory Tlsf
  imports Prelude
begin

unbundle bit_operations_syntax

text \<open>
  The allocator below every other allocation, \<^verbatim>\<open>src/src/components/utils/tlsf_allocator.c\<close>: a
  region of memory cut into blocks, free blocks in lists by sz class, and two levels of
  bitmaps to find a list that is not empty.

  Memory is a function from addresses to words of eight bytes; every field the code touches is
  aligned.  A block at address \<open>a\<close> has its sz and flags at \<open>a\<close>, the address of the block before
  it at \<open>a + 8\<close>, and when it is free the links of its list at \<open>a + 16\<close> and \<open>a + 24\<close>; its checkpoint
  is the lower half of the word at \<open>a + 32\<close>.  The arrays of fixed sz are functions of the
  index.  Addresses are words and 0 is \<^verbatim>\<open>NULL\<close>; pools are smaller than \<open>2 ^ 32\<close> bytes.
\<close>

section \<open>Data\<close>

type_synonym address = "64 word"
type_synonym memory = "address \<Rightarrow> 64 word"

definition TLSF_MIN_BLOCK_SIZE :: c_size where "TLSF_MIN_BLOCK_SIZE = 16"
definition TLSF_BLOCK_HEADER_SIZE :: c_size where "TLSF_BLOCK_HEADER_SIZE = 16"
definition TLSF_BLOCK_FREE :: c_size where "TLSF_BLOCK_FREE = 1"
definition TLSF_BLOCK_PREV_FREE :: c_size where "TLSF_BLOCK_PREV_FREE = 2"
definition TLSF_BLOCK_CHECKPOINT :: c_size where "TLSF_BLOCK_CHECKPOINT = 4"

lemmas tlsf_constants = TLSF_MIN_BLOCK_SIZE_def TLSF_BLOCK_HEADER_SIZE_def TLSF_BLOCK_FREE_def
  TLSF_BLOCK_PREV_FREE_def TLSF_BLOCK_CHECKPOINT_def

record tlsf_pool =
  fl_bitmap :: c_uint
  sl_bitmap :: "nat \<Rightarrow> c_uint"
  block_lists :: "nat \<Rightarrow> nat \<Rightarrow> address"
  pool_memory :: address
  pool_size :: c_size
  current_checkpoint :: c_uint
  used_size :: c_size
  used_blocks :: c_uint
  free_blocks :: c_uint
  mem :: memory

definition store :: "address \<Rightarrow> 64 word \<Rightarrow> tlsf_pool \<Rightarrow> tlsf_pool" where
  "store a w p = p\<lparr>mem := (mem p)(a := w)\<rparr>"

section \<open>Size classes\<close>

definition align_up :: "c_size \<Rightarrow> c_size \<Rightarrow> c_size" where
  "align_up sz align = (sz + (align - 1)) AND NOT (align - 1)"

text \<open>The number of the highest bit set, counted from 1, and of the lowest, counted from 0.\<close>

definition fls :: "c_uint \<Rightarrow> nat" where
  "fls w = (if w = 0 then 0 else 32 - length (takeWhile (\<lambda>i. \<not> bit w i) (rev [0..<32])))"

definition tlsf_ffs :: "c_uint \<Rightarrow> nat" where
  "tlsf_ffs w = length (takeWhile (\<lambda>i. \<not> bit w i) [0..<32])"

definition mapping_insert :: "c_size \<Rightarrow> nat \<times> nat" where
  "mapping_insert sz =
     (if sz < 256 then (0, unat sz div 8)
      else (let fl = fls (ucast sz) - 1
            in (fl - 7, unat (drop_bit (fl - 5) sz AND 0x1f))))"

definition mapping_search :: "nat \<Rightarrow> nat \<Rightarrow> c_size" where
  "mapping_search fl sl =
     (if fl = 0 then of_nat (sl * 8) else push_bit (fl + 7) 1 OR push_bit (fl + 2) (of_nat sl))"

section \<open>Blocks\<close>

definition block_get_size :: "tlsf_pool \<Rightarrow> address \<Rightarrow> c_size" where
  "block_get_size p block = mem p block AND NOT 7"

definition block_set_size :: "address \<Rightarrow> c_size \<Rightarrow> tlsf_pool \<Rightarrow> tlsf_pool" where
  "block_set_size block sz p = store block (sz OR (mem p block AND 7)) p"

definition block_is_free :: "tlsf_pool \<Rightarrow> address \<Rightarrow> bool" where
  "block_is_free p block \<longleftrightarrow> mem p block AND TLSF_BLOCK_FREE \<noteq> 0"

definition block_set_free :: "address \<Rightarrow> tlsf_pool \<Rightarrow> tlsf_pool" where
  "block_set_free block p = store block (mem p block OR TLSF_BLOCK_FREE) p"

definition block_set_used :: "address \<Rightarrow> tlsf_pool \<Rightarrow> tlsf_pool" where
  "block_set_used block p = store block (mem p block AND NOT TLSF_BLOCK_FREE) p"

definition block_is_prev_free :: "tlsf_pool \<Rightarrow> address \<Rightarrow> bool" where
  "block_is_prev_free p block \<longleftrightarrow> mem p block AND TLSF_BLOCK_PREV_FREE \<noteq> 0"

definition block_set_prev_free :: "address \<Rightarrow> tlsf_pool \<Rightarrow> tlsf_pool" where
  "block_set_prev_free block p = store block (mem p block OR TLSF_BLOCK_PREV_FREE) p"

definition block_next :: "tlsf_pool \<Rightarrow> address \<Rightarrow> address" where
  "block_next p block = block + block_get_size p block"

definition in_pool :: "tlsf_pool \<Rightarrow> address \<Rightarrow> bool" where
  "in_pool p a \<longleftrightarrow> a < pool_memory p + pool_size p"

section \<open>Free lists\<close>

definition remove_free_block :: "address \<Rightarrow> nat \<Rightarrow> nat \<Rightarrow> tlsf_pool \<Rightarrow> tlsf_pool" where
  "remove_free_block block fl sl p =
     (let prev = mem p (block + 24); nxt = mem p (block + 16);
          p = (if nxt \<noteq> 0 then store (nxt + 24) prev p else p);
          p = (if prev \<noteq> 0 then store (prev + 16) nxt p else p);
          p = (if block_lists p fl sl = block then
                 (let p = p\<lparr>block_lists := (block_lists p)(fl := (block_lists p fl)(sl := nxt))\<rparr> in
                  if nxt = 0 then
                    (let p = p\<lparr>sl_bitmap := (sl_bitmap p)(fl := sl_bitmap p fl AND NOT (push_bit sl 1))\<rparr>
                     in if sl_bitmap p fl = 0 then p\<lparr>fl_bitmap := fl_bitmap p AND NOT (push_bit fl 1)\<rparr> else p)
                  else p)
               else p)
      in p\<lparr>free_blocks := free_blocks p - 1\<rparr>)"

definition insert_free_block :: "address \<Rightarrow> nat \<Rightarrow> nat \<Rightarrow> tlsf_pool \<Rightarrow> tlsf_pool" where
  "insert_free_block block fl sl p =
     (let head = block_lists p fl sl;
          p = store (block + 16) head p;
          p = store (block + 24) 0 p;
          p = (if head \<noteq> 0 then store (head + 24) block p else p)
      in p\<lparr>block_lists := (block_lists p)(fl := (block_lists p fl)(sl := block)),
           fl_bitmap := fl_bitmap p OR push_bit fl 1,
           sl_bitmap := (sl_bitmap p)(fl := sl_bitmap p fl OR push_bit sl 1),
           free_blocks := free_blocks p + 1\<rparr>)"

definition find_suitable_block :: "tlsf_pool \<Rightarrow> nat \<Rightarrow> nat \<Rightarrow> (address \<times> nat \<times> nat) option" where
  "find_suitable_block p fl sl =
     (let sl_map = sl_bitmap p fl AND push_bit sl (- 1) in
      if sl_map \<noteq> 0 then Some (block_lists p fl (tlsf_ffs sl_map), fl, tlsf_ffs sl_map)
      else (let fl_map = fl_bitmap p AND push_bit (fl + 1) (- 1) in
            if fl_map = 0 then None
            else (let fl = tlsf_ffs fl_map; sl = tlsf_ffs (sl_bitmap p fl)
                  in Some (block_lists p fl sl, fl, sl))))"

section \<open>Cutting and joining blocks\<close>

definition split_block :: "address \<Rightarrow> c_size \<Rightarrow> tlsf_pool \<Rightarrow> tlsf_pool" where
  "split_block block sz p =
     (let remaining = block_get_size p block - sz in
      if TLSF_MIN_BLOCK_SIZE + TLSF_BLOCK_HEADER_SIZE \<le> remaining then
        (let remaining_block = block + sz;
             p = store remaining_block (remaining OR TLSF_BLOCK_FREE) p;
             p = store (remaining_block + 8) block p;
             nxt = block_next p remaining_block;
             p = (if in_pool p nxt then block_set_prev_free nxt (store (nxt + 8) remaining_block p) else p);
             p = block_set_size block sz p;
             (fl, sl) = mapping_insert (remaining - TLSF_BLOCK_HEADER_SIZE)
         in insert_free_block remaining_block fl sl p)
      else p)"

definition merge_prev :: "address \<Rightarrow> tlsf_pool \<Rightarrow> address \<times> tlsf_pool" where
  "merge_prev block p =
     (if block_is_prev_free p block then
        (let prev = mem p (block + 8); prev_size = block_get_size p prev;
             (fl, sl) = mapping_insert (prev_size - TLSF_BLOCK_HEADER_SIZE);
             p = remove_free_block prev fl sl p;
             p = block_set_size prev (prev_size + block_get_size p block) p;
             nxt = block_next p prev;
             p = (if in_pool p nxt then store (nxt + 8) prev p else p)
         in (prev, p))
      else (block, p))"

definition merge_next :: "address \<Rightarrow> tlsf_pool \<Rightarrow> tlsf_pool" where
  "merge_next block p =
     (let nxt = block_next p block in
      if in_pool p nxt \<and> block_is_free p nxt then
        (let next_size = block_get_size p nxt;
             (fl, sl) = mapping_insert (next_size - TLSF_BLOCK_HEADER_SIZE);
             p = remove_free_block nxt fl sl p;
             p = block_set_size block (block_get_size p block + next_size) p;
             following = block_next p block
         in if in_pool p following then store (following + 8) block p else p)
      else p)"

section \<open>The interface\<close>

text \<open>A new pool at an address of memory with any content.\<close>

definition tlsf_create_pool :: "memory \<Rightarrow> address \<Rightarrow> c_size \<Rightarrow> tlsf_pool" where
  "tlsf_create_pool m base sz =
     (let p = \<lparr>fl_bitmap = 0, sl_bitmap = (\<lambda>_. 0), block_lists = (\<lambda>_ _. 0), pool_memory = base, pool_size = sz,
               current_checkpoint = 0, used_size = 0, used_blocks = 0, free_blocks = 0, mem = m\<rparr>;
          p = store base (sz OR TLSF_BLOCK_FREE) p;
          p = store (base + 8) 0 p;
          (fl, sl) = mapping_insert (sz - TLSF_BLOCK_HEADER_SIZE)
      in insert_free_block base fl sl p)"

definition block_size_for :: "c_size \<Rightarrow> c_size" where
  "block_size_for sz =
     (let sz = align_up (sz + TLSF_BLOCK_HEADER_SIZE) 8
      in if sz < TLSF_MIN_BLOCK_SIZE then TLSF_MIN_BLOCK_SIZE else sz)"

definition set_low_half :: "64 word \<Rightarrow> c_uint \<Rightarrow> 64 word" where
  "set_low_half w v = (w AND NOT 0xFFFFFFFF) OR ucast v"

definition tlsf_malloc :: "c_size \<Rightarrow> tlsf_pool \<Rightarrow> address \<times> tlsf_pool" where
  "tlsf_malloc sz p =
     (if sz = 0 then (0, p)
      else
        (let sz = block_size_for sz; (fl, sl) = mapping_insert (sz - TLSF_BLOCK_HEADER_SIZE) in
         case find_suitable_block p fl sl of
           None \<Rightarrow> (0, p)
         | Some (block, fl, sl) \<Rightarrow>
             if block = 0 then (0, p)
             else
               (let p = remove_free_block block fl sl p;
                    p = split_block block sz p;
                    p = block_set_used block p;
                    p = p\<lparr>used_size := used_size p + block_get_size p block, used_blocks := used_blocks p + 1\<rparr>;
                    p = (if current_checkpoint p \<noteq> 0 then
                           (let p = store (block + 32) (set_low_half (mem p (block + 32)) (current_checkpoint p)) p
                            in store block (mem p block OR TLSF_BLOCK_CHECKPOINT) p)
                         else p)
                in (block + TLSF_BLOCK_HEADER_SIZE, p))))"

definition tlsf_free :: "address \<Rightarrow> tlsf_pool \<Rightarrow> tlsf_pool" where
  "tlsf_free ptr p =
     (if ptr = 0 then p
      else
        (let block = ptr - TLSF_BLOCK_HEADER_SIZE;
             p = p\<lparr>used_size := used_size p - block_get_size p block, used_blocks := used_blocks p - 1\<rparr>;
             p = block_set_free block p;
             (block, p) = merge_prev block p;
             p = merge_next block p;
             nxt = block_next p block;
             p = (if in_pool p nxt then block_set_prev_free nxt p else p);
             (fl, sl) = mapping_insert (block_get_size p block - TLSF_BLOCK_HEADER_SIZE)
         in insert_free_block block fl sl p))"

text \<open>\<^verbatim>\<open>memset\<close> to 0 and \<^verbatim>\<open>memcpy\<close> of whole words; a last word is cleared in part.\<close>

definition clear_bytes :: "address \<Rightarrow> c_size \<Rightarrow> tlsf_pool \<Rightarrow> tlsf_pool" where
  "clear_bytes a n p =
     (let k = unat n div 8;
          p = fold (\<lambda>i. store (a + of_nat (8 * i)) 0) [0..<k] p;
          e = a + of_nat (8 * k)
      in if unat n mod 8 = 0 then p else store e (mem p e AND NOT (mask (8 * (unat n mod 8)))) p)"

definition copy_words :: "address \<Rightarrow> address \<Rightarrow> c_size \<Rightarrow> tlsf_pool \<Rightarrow> tlsf_pool" where
  "copy_words dst src n p =
     fold (\<lambda>i p. store (dst + of_nat (8 * i)) (mem p (src + of_nat (8 * i))) p) [0..<unat n div 8] p"

definition tlsf_calloc :: "c_size \<Rightarrow> c_size \<Rightarrow> tlsf_pool \<Rightarrow> address \<times> tlsf_pool" where
  "tlsf_calloc nmemb sz p =
     (let (ptr, p) = tlsf_malloc (nmemb * sz) p
      in (ptr, if ptr \<noteq> 0 then clear_bytes ptr (nmemb * sz) p else p))"

definition tlsf_block_size :: "address \<Rightarrow> tlsf_pool \<Rightarrow> c_size" where
  "tlsf_block_size ptr p =
     (if ptr = 0 then 0 else block_get_size p (ptr - TLSF_BLOCK_HEADER_SIZE) - TLSF_BLOCK_HEADER_SIZE)"

definition tlsf_realloc :: "address \<Rightarrow> c_size \<Rightarrow> tlsf_pool \<Rightarrow> address \<times> tlsf_pool" where
  "tlsf_realloc ptr sz p =
     (if ptr = 0 then tlsf_malloc sz p
      else if sz = 0 then (0, tlsf_free ptr p)
      else
        (let current_size = block_get_size p (ptr - TLSF_BLOCK_HEADER_SIZE) - TLSF_BLOCK_HEADER_SIZE in
         if sz \<le> current_size then (ptr, p)
         else
           (let (new_ptr, p) = tlsf_malloc sz p
            in (new_ptr, if new_ptr \<noteq> 0 then tlsf_free ptr (copy_words new_ptr ptr current_size p) else p))))"

section \<open>Statistics and checkpoints\<close>

record tlsf_stats =
  stat_pool_size :: c_size
  stat_used_size :: c_size
  stat_free_size :: c_size
  stat_overhead_size :: c_size
  stat_fragmentation_percent :: c_size
  stat_free_blocks :: c_uint
  stat_used_blocks :: c_uint

definition largest_free :: "tlsf_pool \<Rightarrow> c_size" where
  "largest_free p =
     (case filter (\<lambda>fl. bit (fl_bitmap p) fl \<and> 0 < fls (sl_bitmap p fl)) (rev [0..<30]) of
        [] \<Rightarrow> 0
      | fl # _ \<Rightarrow> mapping_search fl (fls (sl_bitmap p fl) - 1))"

definition tlsf_get_stats :: "tlsf_pool \<Rightarrow> tlsf_stats" where
  "tlsf_get_stats p =
     (let free_size = pool_size p - used_size p in
      \<lparr>stat_pool_size = pool_size p, stat_used_size = used_size p, stat_free_size = free_size,
       stat_overhead_size = ucast (used_blocks p) * TLSF_BLOCK_HEADER_SIZE,
       stat_fragmentation_percent =
         (if 0 < free_size then 100 - 100 * largest_free p div free_size else 0),
       stat_free_blocks = free_blocks p, stat_used_blocks = used_blocks p\<rparr>)"

definition tlsf_set_checkpoint :: "c_uint \<Rightarrow> tlsf_pool \<Rightarrow> tlsf_pool" where
  "tlsf_set_checkpoint checkpoint_id p = p\<lparr>current_checkpoint := checkpoint_id\<rparr>"

text \<open>The scan starts again after every block it frees; a block of size 0 keeps it where it is.\<close>

definition rewinds :: "tlsf_pool \<Rightarrow> c_uint \<Rightarrow> address \<Rightarrow> bool" where
  "rewinds p checkpoint_id block \<longleftrightarrow>
     \<not> block_is_free p block \<and> mem p block AND TLSF_BLOCK_CHECKPOINT \<noteq> 0 \<and>
     ucast (mem p (block + 32)) = checkpoint_id"

partial_function (option) rewind_from :: "c_uint \<Rightarrow> address \<Rightarrow> tlsf_pool \<Rightarrow> tlsf_pool option" where
  "rewind_from checkpoint_id block p =
     (if in_pool p block then
        if rewinds p checkpoint_id block
        then rewind_from checkpoint_id (pool_memory p) (tlsf_free (block + TLSF_BLOCK_HEADER_SIZE) p)
        else rewind_from checkpoint_id (block_next p block) p
      else Some p)"

definition tlsf_rewind_checkpoint :: "c_uint \<Rightarrow> tlsf_pool \<Rightarrow> tlsf_pool option" where
  "tlsf_rewind_checkpoint checkpoint_id p = rewind_from checkpoint_id (pool_memory p) p"

end
