(* ===== verification/Tlsf_Props.thy ===== *)
theory Tlsf_Props
  imports Tlsf
begin

text \<open>
  The size classes of the allocator, and what a new pool hands out while nothing is freed.
\<close>

section \<open>Bit scans\<close>

lemma bit_top:
  fixes x :: nat
  assumes "x < 2 ^ Suc n"
  shows "bit x n \<longleftrightarrow> 2 ^ n \<le> x"
proof -
  have "x div 2 ^ n < 2" using assms by (simp add: less_mult_imp_div_less)
  then have "odd (x div 2 ^ n) \<longleftrightarrow> x div 2 ^ n = 1" by (cases "x div 2 ^ n = 0") auto
  also have "\<dots> \<longleftrightarrow> 2 ^ n \<le> x"
  proof
    show "2 ^ n \<le> x" if "x div 2 ^ n = 1" using that div_less [of x "2 ^ n"] by (metis leI zero_neq_one)
    show "x div 2 ^ n = 1" if "2 ^ n \<le> x"
      using that \<open>x div 2 ^ n < 2\<close> by (metis One_nat_def Suc_leI div_greater_zero_iff less_2_cases_iff less_one
          not_less zero_less_power)
  qed
  finally show ?thesis by (simp add: bit_iff_odd)
qed

lemma high_bit_scan:
  fixes x :: nat
  assumes "0 < x" and "x < 2 ^ n"
  defines "h \<equiv> length (takeWhile (\<lambda>i. \<not> bit x i) (rev [0..<n]))"
  shows "h < n \<and> 2 ^ (n - h - 1) \<le> x \<and> x < 2 ^ (n - h)"
  using assms(2) unfolding h_def
proof (induction n)
  case (Suc n)
  show ?case
  proof (cases "2 ^ n \<le> x")
    case True
    with bit_top [OF Suc.prems] Suc.prems show ?thesis by simp
  next
    case False
    with bit_top [OF Suc.prems] Suc.IH show ?thesis by simp
  qed
qed (use assms(1) in simp)

lemma fls_bounds:
  assumes "w \<noteq> 0"
  shows "0 < fls w" and "fls w \<le> 32" and "2 ^ (fls w - 1) \<le> unat w" and "unat w < 2 ^ fls w"
proof -
  have "0 < unat w" and "unat w < 2 ^ 32" using assms unsigned_less [of w] by (auto simp: unat_gt_0)
  moreover have "(\<lambda>i. \<not> bit w i) = (\<lambda>i. \<not> bit (unat w) i)" by (simp add: bit_unsigned_iff fun_eq_iff bit_imp_possible_bit
        possible_bit_def)
  ultimately show "0 < fls w" "fls w \<le> 32" "2 ^ (fls w - 1) \<le> unat w" "unat w < 2 ^ fls w"
    using high_bit_scan [of "unat w" 32] assms by (simp_all add: fls_def)
qed

lemma tlsf_ffs_eq:
  assumes "bit w k" and "\<And>i. i < k \<Longrightarrow> \<not> bit w i"
  shows "tlsf_ffs w = k"
proof -
  have k: "k < 32" using bit_imp_le_length [OF assms(1)] by simp
  then have "[0..<32] = [0..<k] @ k # [Suc k..<32]"
    using upt_add_eq_append [of 0 k "32 - k"] by (simp add: upt_conv_Cons)
  then have "takeWhile (\<lambda>i. \<not> bit w i) [0..<32] = [0..<k]"
    using assms by (simp only:) (subst takeWhile_append2, auto)
  then show ?thesis by (simp add: tlsf_ffs_def)
qed

section \<open>Size classes\<close>

lemma unat_of_nat_small: "n < 2 ^ 64 \<Longrightarrow> unat (of_nat n :: 64 word) = n"
  by (simp only: unsigned_of_nat) (simp add: take_bit_nat_eq_self)

text \<open>The class of a size, computed on numbers.\<close>

lemma mapping_insert_nat:
  assumes "unat s < 2 ^ 31" and "mapping_insert s = (fl, sl)"
  shows "unat s < 256 \<Longrightarrow> fl = 0 \<and> sl = unat s div 8"
    and "256 \<le> unat s \<Longrightarrow> 1 \<le> fl \<and> fl \<le> 23 \<and> 2 ^ (fl + 7) \<le> unat s \<and> unat s < 2 ^ (fl + 8) \<and>
           unat s div 2 ^ (fl + 2) = 32 + sl \<and> sl < 32"
proof -
  have lt: "s < 256 \<longleftrightarrow> unat s < 256" by (simp add: word_less_nat_alt)
  show "fl = 0 \<and> sl = unat s div 8" if "unat s < 256"
    using that assms(2) lt by (simp add: mapping_insert_def)
  assume big: "256 \<le> unat s"
  define f where "f = fls (ucast s) - 1"
  have u: "unat (ucast s :: c_uint) = unat s"
    using assms(1) by (simp add: unsigned_ucast_eq take_bit_nat_eq_self)
  then have "(ucast s :: c_uint) \<noteq> 0" using big by (metis not_numeral_le_zero unsigned_0)
  from fls_bounds [OF this] u have f: "2 ^ f \<le> unat s" "unat s < 2 ^ (f + 1)" by (simp_all add: f_def)
  have "2 ^ 8 < (2 :: nat) ^ (f + 1)" using f(2) big by simp
  then have "8 < f + 1" by (rule power_less_imp_less_exp [rotated]) simp
  moreover have "(2 :: nat) ^ f < 2 ^ 31" using f(1) assms(1) by simp
  then have "f < 31" by (rule power_less_imp_less_exp [rotated]) simp
  moreover define g where "g = f - 7"
  ultimately have g: "f = g + 7" "1 \<le> g" "g \<le> 23" by simp_all
  have q: "32 \<le> unat s div 2 ^ (g + 2)" "unat s div 2 ^ (g + 2) < 64"
  proof -
    have "32 * 2 ^ (g + 2) \<le> unat s" "unat s < 64 * 2 ^ (g + 2)" using f g(1) by (simp_all add: power_add)
    then show "32 \<le> unat s div 2 ^ (g + 2)" "unat s div 2 ^ (g + 2) < 64"
      by (simp_all add: less_eq_div_iff_mult_less_eq less_mult_imp_div_less)
  qed
  have m: "(0x1f :: c_size) = mask 5" by (simp add: mask_eq_exp_minus_1)
  have "unat (drop_bit (f - 5) s AND 0x1f) = unat s div 2 ^ (g + 2) mod 32"
    unfolding m take_bit_eq_mask [symmetric] unsigned_take_bit_eq unat_drop_bit_eq
    by (simp add: g(1) take_bit_eq_mod drop_bit_eq_div)
  moreover have "unat s div 2 ^ (g + 2) mod 32 = unat s div 2 ^ (g + 2) - 32" using q by (simp add: mod_nat_eqI)
  moreover have ins: "mapping_insert s = (f - 7, unat (drop_bit (f - 5) s AND 0x1f))"
    using big lt by (simp add: mapping_insert_def f_def Let_def)
  ultimately have "fl = g \<and> sl = unat s div 2 ^ (g + 2) - 32"
    using assms(2) g(1) ins by simp
  then show "1 \<le> fl \<and> fl \<le> 23 \<and> 2 ^ (fl + 7) \<le> unat s \<and> unat s < 2 ^ (fl + 8) \<and>
      unat s div 2 ^ (fl + 2) = 32 + sl \<and> sl < 32"
    using q f g by (auto simp: add.commute)
qed

lemma mapping_insert_bounds:
  assumes "unat s < 2 ^ 31" and "mapping_insert s = (fl, sl)"
  shows "fl < 30" and "sl < 32"
  using mapping_insert_nat [OF assms] by (cases "unat s < 256"; auto)+

lemma unat_mapping_search:
  assumes "fl \<le> 23" and "sl < 32"
  shows "unat (mapping_search fl sl) = (if fl = 0 then sl * 8 else (32 + sl) * 2 ^ (fl + 2))"
proof (cases "fl = 0")
  case True
  have "unat (of_nat (sl * 8) :: c_size) = sl * 8"
    using assms(2) by (intro unat_of_nat_small) simp
  then show ?thesis using True by (simp add: mapping_search_def)
next
  case False
  have "push_bit (fl + 2) (32 OR sl) = push_bit (fl + 7) 1 OR push_bit (fl + 2) sl"
  proof -
    have "push_bit (fl + 7) 1 = push_bit (fl + 2) (32 :: nat)" by (simp add: push_bit_eq_mult power_add)
    then show ?thesis by (simp only: push_bit_or)
  qed
  moreover have "32 OR sl = 32 + sl"
  proof (rule disjunctive_add [symmetric])
    show "\<not> bit (32 :: nat) n \<or> \<not> bit sl n" for n
    proof (cases "n = 5")
      case True
      then show ?thesis using assms(2) bit_top [of sl 5] by simp
    next
      case False
      have "(32 :: nat) = 2 ^ 5" by simp
      with False show ?thesis by (simp only: bit_exp_iff) simp
    qed
  qed
  ultimately have n: "push_bit (fl + 7) 1 OR push_bit (fl + 2) sl = (32 + sl) * 2 ^ (fl + 2)"
    by (simp add: push_bit_eq_mult)
  have "mapping_search fl sl = of_nat (push_bit (fl + 7) 1 OR push_bit (fl + 2) sl)"
    using False by (simp add: mapping_search_def of_nat_or_eq push_bit_of_nat)
  moreover have "(32 + sl) * 2 ^ (fl + 2) < 2 ^ 64"
  proof -
    have "(32 + sl) * 2 ^ (fl + 2) \<le> 64 * 2 ^ 25"
      using assms power_increasing [of "fl + 2" 25 "2 :: nat"] by (intro mult_le_mono) simp_all
    then show ?thesis by simp
  qed
  ultimately have "unat (mapping_search fl sl) = (32 + sl) * 2 ^ (fl + 2)"
    unfolding n by (simp only: unat_of_nat_small)
  then show ?thesis using False by simp
qed

text \<open>
  The size classes.  A size below \<open>2 ^ 31\<close> gets indices within the arrays, of a class whose
  least size is \<^verbatim>\<open>mapping_search\<close>, and lies in the class: less than one step of 8 or
  \<open>2 ^ (fl + 2)\<close> bytes above the least one.
\<close>

theorem mapping_insert_class:
  assumes "unat s < 2 ^ 31" and "mapping_insert s = (fl, sl)"
  shows "fl < 30 \<and> sl < 32 \<and> unat (mapping_search fl sl) \<le> unat s \<and>
    unat s < unat (mapping_search fl sl) + (if fl = 0 then 8 else 2 ^ (fl + 2))"
proof (cases "unat s < 256")
  case True
  with mapping_insert_nat(1) [OF assms] have fs: "fl = 0" "sl = unat s div 8" by simp_all
  then have "sl < 32" using True by simp
  then show ?thesis using fs unat_mapping_search [of fl sl] by simp
next
  case False
  then have fs: "1 \<le> fl" "fl \<le> 23" "unat s div 2 ^ (fl + 2) = 32 + sl" "sl < 32"
    using mapping_insert_nat(2) [OF assms] by simp_all
  have rest: "unat s mod 2 ^ (fl + 2) < 2 ^ (fl + 2)" by simp
  have "unat s div 2 ^ (fl + 2) * 2 ^ (fl + 2) \<le> unat s"
    and "unat s < unat s div 2 ^ (fl + 2) * 2 ^ (fl + 2) + 2 ^ (fl + 2)"
    using div_mult_mod_eq [of "unat s" "2 ^ (fl + 2)"] rest by linarith+
  then have "(32 + sl) * 2 ^ (fl + 2) \<le> unat s" "unat s < (32 + sl) * 2 ^ (fl + 2) + 2 ^ (fl + 2)"
    unfolding fs(3) by simp_all
  then show ?thesis using fs(1,2,4) unat_mapping_search [OF fs(2,4)] by auto
qed

lemma mapping_insert_class_witness:
  "mapping_insert 1000 = (2, 30) \<and> unat (mapping_search 2 30) \<le> 1000 \<and> (1000 :: nat) < unat (mapping_search 2 30) + 16"
proof -
  have "mapping_insert 1000 = (2, 30)" by code_simp
  then show ?thesis using mapping_insert_class [of 1000 2 30] by simp
qed

section \<open>Words that count bytes\<close>

lemma aligned_size:
  assumes "8 dvd unat w" and "k < (8 :: 64 word)"
  shows "(w OR k) AND NOT 7 = w"
proof -
  have m: "(7 :: 64 word) = mask 3" by (simp add: mask_eq_exp_minus_1)
  have "take_bit 3 (unat w) = 0" using assms(1) by (simp add: take_bit_eq_mod)
  then have "unat (take_bit 3 w) = 0" by (simp only: unsigned_take_bit_eq)
  then have w: "take_bit 3 w = 0" by (simp only: unat_eq_zero)
  have "take_bit 3 k = k"
    using assms(2) by (simp add: take_bit_eq_mod word_less_nat_alt unat_mod word_unat_eq_iff)
  with w show ?thesis
    unfolding m by (intro bit_word_eqI) (metis bit_and_iff bit_not_iff bit_or_iff bit_mask_iff bit_take_bit_iff bit_0_eq
        bot_apply bot_bool_def possible_bit_word)
qed

lemma block_size_for_nat:
  assumes "n \<noteq> 0" and "unat n < 2 ^ 31"
  shows "unat (block_size_for n) = (unat n + 23) div 8 * 8"
proof -
  have m: "(7 :: c_size) = mask 3" by (simp add: mask_eq_exp_minus_1)
  have down: "unat (w AND NOT 7) = unat w div 8 * 8" for w :: c_size
  proof -
    have "w AND NOT 7 = push_bit 3 (drop_bit 3 w)"
      unfolding m by (intro bit_word_eqI) (auto simp: bit_simps)
    moreover have "unat w < 2 ^ LENGTH(64)" by (rule unsigned_less)
    then have "unat w div 8 * 8 < 2 ^ 64" by simp
    ultimately show ?thesis
      by (simp only: unsigned_push_bit_eq unat_drop_bit_eq) (simp add: push_bit_eq_mult drop_bit_eq_div take_bit_nat_eq_self)
  qed
  have u: "unat (23 + n) = unat n + 23"
    using assms(2) by (simp add: unat_word_ariths)
  have "unat (align_up (n + TLSF_BLOCK_HEADER_SIZE) 8) = (unat n + 23) div 8 * 8"
    using down [of "23 + n"] by (simp add: align_up_def tlsf_constants u)
  moreover have "0 < unat n" using assms(1) by (simp add: unat_gt_0)
  ultimately show ?thesis
    by (simp add: block_size_for_def tlsf_constants word_less_nat_alt)
qed

lemma mapping_monotone:
  assumes "unat x \<le> unat y" and "unat y < 2 ^ 31" and "mapping_insert x = (fl, sl)" and "mapping_insert y = (fl', sl')"
  shows "fl < fl' \<or> (fl = fl' \<and> sl \<le> sl')"
proof -
  have x: "unat x < 2 ^ 31" using assms(1,2) by simp
  note cx = mapping_insert_nat [OF x assms(3)] and cy = mapping_insert_nat [OF assms(2,4)]
  consider "unat y < 256" | "unat x < 256" "256 \<le> unat y" | "256 \<le> unat x" "256 \<le> unat y"
    using assms(1) by linarith
  then show ?thesis
  proof cases
    case 1
    then show ?thesis using cx(1) cy(1) assms(1) by (auto intro: div_le_mono)
  next
    case 2
    then show ?thesis using cx(1) cy(2) by auto
  next
    case 3
    then have p: "2 ^ (fl + 7) < (2 :: nat) ^ (fl' + 8)" using cx(2) cy(2) assms(1) by linarith
    then have "fl + 7 < fl' + 8" by (rule power_less_imp_less_exp [rotated]) simp
    moreover have "sl \<le> sl'" if "fl = fl'"
      using 3 cx(2) cy(2) that div_le_mono [OF assms(1), of "2 ^ (fl + 2)"] by auto
    ultimately show ?thesis by linarith
  qed
qed

section \<open>A pool with one free block\<close>

text \<open>The free block is the end of the pool, at \<open>r\<close>.\<close>

definition rest_at :: "tlsf_pool \<Rightarrow> address \<Rightarrow> bool" where
  "rest_at p r \<longleftrightarrow>
     (let size = pool_memory p + pool_size p - r; (fl, sl) = mapping_insert (size - 16) in
      0 < unat r \<and> unat (pool_memory p) + unat (pool_size p) < 2 ^ 64 \<and>
      unat r + 32 \<le> unat (pool_memory p) + unat (pool_size p) \<and> 8 dvd unat size \<and> unat size < 2 ^ 31 \<and>
      block_lists p = (\<lambda>i j. if i = fl \<and> j = sl then r else 0) \<and>
      sl_bitmap p = (\<lambda>i. if i = fl then push_bit sl 1 else 0) \<and> fl_bitmap p = push_bit fl 1 \<and>
      mem p r = size OR 1 \<and> mem p (r + 16) = 0 \<and> mem p (r + 24) = 0 \<and> current_checkpoint p = 0)"

lemma find_rest:
  assumes "sl_bitmap p = (\<lambda>i. if i = fl then push_bit sl 1 else 0)" and "fl_bitmap p = push_bit fl 1"
    and "fl0 < fl \<or> (fl0 = fl \<and> sl0 \<le> sl)" and "fl < 30" and "sl < 32" and "sl0 < 32"
  shows "find_suitable_block p fl0 sl0 = Some (block_lists p fl sl, fl, sl)"
proof -
  have one: "push_bit k 1 AND push_bit i (- 1) = (if i \<le> k then push_bit k 1 else (0 :: c_uint))" if "k < 32" for i k
    using that by (intro bit_word_eqI) (auto simp: bit_simps)
  have bit1: "bit (push_bit k 1 :: c_uint) i \<longleftrightarrow> i = k" if "k < 32" for i k
    using that by (auto simp: bit_exp_iff possible_bit_word)
  have ffs: "tlsf_ffs (push_bit k 1) = k" if "k < 32" for k
    using that by (intro tlsf_ffs_eq) (simp_all only: bit1)
  have nz: "push_bit k 1 \<noteq> (0 :: c_uint)" if "k < 32" for k
    using bit1 [OF that] by (metis bit_0_eq bot_apply bot_bool_def)
  show ?thesis
  proof (cases "fl0 = fl")
    case True
    then show ?thesis using assms one [of sl sl0] nz ffs by (simp add: find_suitable_block_def Let_def)
  next
    case False
    then show ?thesis
      using assms one [of fl "fl0 + 1"] nz ffs by (simp add: find_suitable_block_def Let_def)
  qed
qed

lemma store_simps [simp]:
  "block_lists (store a v p) = block_lists p" "sl_bitmap (store a v p) = sl_bitmap p"
  "fl_bitmap (store a v p) = fl_bitmap p" "free_blocks (store a v p) = free_blocks p"
  "pool_memory (store a v p) = pool_memory p" "pool_size (store a v p) = pool_size p"
  "used_size (store a v p) = used_size p" "used_blocks (store a v p) = used_blocks p"
  "current_checkpoint (store a v p) = current_checkpoint p" "mem (store a v p) = (mem p)(a := v)"
  by (simp_all add: store_def)

lemma remove_rest:
  assumes "block_lists p = (\<lambda>i j. if i = fl \<and> j = sl then r else 0)"
    and "sl_bitmap p = (\<lambda>i. if i = fl then push_bit sl 1 else 0)" and "fl_bitmap p = push_bit fl 1"
    and "mem p (r + 16) = 0" and "mem p (r + 24) = 0"
  shows "remove_free_block r fl sl p =
    p\<lparr>block_lists := (\<lambda>_ _. 0), sl_bitmap := (\<lambda>_. 0), fl_bitmap := 0, free_blocks := free_blocks p - 1\<rparr>"
proof -
  have "push_bit k 1 AND NOT (push_bit k 1) = (0 :: c_uint)" for k by simp
  moreover have "(block_lists p)(fl := (block_lists p fl)(sl := 0)) = (\<lambda>_ _. 0)"
    "(sl_bitmap p)(fl := 0) = (\<lambda>_. 0)"
    using assms(1,2) by (auto simp: fun_eq_iff)
  ultimately show ?thesis using assms by (simp add: remove_free_block_def Let_def)
qed

text \<open>Cutting \<open>b\<close> bytes off the last block of a pool whose lists are empty.\<close>

lemma split_rest:
  assumes "block_lists p = (\<lambda>_ _. 0)" and "sl_bitmap p = (\<lambda>_. 0)" and "fl_bitmap p = 0"
    and "mem p r = w OR 1" and "8 dvd unat w" and "8 dvd unat (w - b)" and "b + 32 \<le> w" and "32 \<le> w - b"
    and "r + w = pool_memory p + pool_size p"
    and "r \<noteq> r + b" and "r \<noteq> r + b + 8" and "mapping_insert (w - b - 16) = (fl, sl)"
  shows "split_block r b p =
    p\<lparr>mem := (mem p)(r + b := (w - b) OR 1, r + b + 8 := r, r := b OR ((w OR 1) AND 7), r + b + 16 := 0, r + b + 24 := 0),
      block_lists := (\<lambda>i j. if i = fl \<and> j = sl then r + b else 0),
      sl_bitmap := (\<lambda>i. if i = fl then push_bit sl 1 else 0), fl_bitmap := push_bit fl 1, free_blocks := free_blocks p + 1\<rparr>"
proof -
  let ?p1 = "store (r + b + 8) r (store (r + b) ((w - b) OR 1) p)"
  have size: "block_get_size p r = w" using aligned_size [OF assms(5), of 1] by (simp add: block_get_size_def assms(4))
  have rest: "((w - b) OR 1) AND NOT 7 = w - b" using aligned_size [OF assms(6), of 1] by simp
  have "block_next ?p1 (r + b) = pool_memory p + pool_size p"
    using rest by (simp add: block_next_def block_get_size_def store_def assms(9) [symmetric])
  then have out: "\<not> in_pool ?p1 (block_next ?p1 (r + b))" by (simp add: in_pool_def store_def)
  have set: "block_set_size r b ?p1 = store r (b OR ((w OR 1) AND 7)) ?p1"
    using assms(4,10,11) by (simp add: block_set_size_def store_def)
  have "(block_lists p)(fl := (block_lists p fl)(sl := r + b)) = (\<lambda>i j. if i = fl \<and> j = sl then r + b else 0)"
    "(sl_bitmap p)(fl := push_bit sl 1) = (\<lambda>i. if i = fl then push_bit sl 1 else 0)"
    using assms(1,2) by (auto simp: fun_eq_iff)
  then have insert: "insert_free_block (r + b) fl sl q =
      q\<lparr>mem := (mem q)(r + b + 16 := 0, r + b + 24 := 0),
        block_lists := (\<lambda>i j. if i = fl \<and> j = sl then r + b else 0),
        sl_bitmap := (\<lambda>i. if i = fl then push_bit sl 1 else 0), fl_bitmap := push_bit fl 1, free_blocks := free_blocks q + 1\<rparr>"
    if "block_lists q = block_lists p" "sl_bitmap q = sl_bitmap p" "fl_bitmap q = fl_bitmap p" for q
    using assms(1-3) that by (simp add: insert_free_block_def store_def Let_def)
  show ?thesis
    using assms(8) out
    by (simp add: split_block_def Let_def size tlsf_constants assms(12) set insert)
qed

lemma malloc_rest:
  assumes rest: "rest_at p r" and n: "n \<noteq> 0" "unat n < 2 ^ 31"
    and room: "unat r + unat (block_size_for n) + 32 \<le> unat (pool_memory p) + unat (pool_size p)"
  defines "b \<equiv> block_size_for n"
  shows "fst (tlsf_malloc n p) = r + 16" and "rest_at (snd (tlsf_malloc n p)) (r + b)"
    and "used_size (snd (tlsf_malloc n p)) = used_size p + b"
    and "used_blocks (snd (tlsf_malloc n p)) = used_blocks p + 1"
    and "pool_memory (snd (tlsf_malloc n p)) = pool_memory p" and "pool_size (snd (tlsf_malloc n p)) = pool_size p"
    and "unat (r + b) = unat r + unat b"
proof -
  define w where "w = pool_memory p + pool_size p - r"
  obtain fl sl where c: "mapping_insert (w - 16) = (fl, sl)" by fastforce
  obtain fl' sl' where c': "mapping_insert (w - b - 16) = (fl', sl')" by fastforce
  obtain fl0 sl0 where c0: "mapping_insert (b - 16) = (fl0, sl0)" by fastforce
  let ?E = "unat (pool_memory p) + unat (pool_size p)"
  have r: "0 < unat r" "?E < 2 ^ 64" "unat r + 32 \<le> ?E" "8 dvd unat w" "unat w < 2 ^ 31"
    and st: "block_lists p = (\<lambda>i j. if i = fl \<and> j = sl then r else 0)"
      "sl_bitmap p = (\<lambda>i. if i = fl then push_bit sl 1 else 0)" "fl_bitmap p = push_bit fl 1"
      "mem p r = w OR 1" "mem p (r + 16) = 0" "mem p (r + 24) = 0" "current_checkpoint p = 0"
    using rest by (simp_all add: rest_at_def Let_def w_def [symmetric] c)
  have E: "unat (pool_memory p + pool_size p) = ?E" using r(2) by (simp add: unat_word_ariths)
  have uw: "unat w = ?E - unat r" unfolding w_def using r(3) E by (simp add: unat_sub word_le_nat_alt)
  have ub: "unat b = (unat n + 23) div 8 * 8" unfolding b_def by (rule block_size_for_nat [OF n])
  have n1: "1 \<le> unat n" using n(1) by (simp add: unat_gt_0 Suc_le_eq)
  then have b24: "24 \<le> unat b" "8 dvd unat b" using ub by auto
  have bw: "unat b + 32 \<le> unat w" using room uw unfolding b_def by linarith
  have urb: "unat (r + b + k) = unat r + unat b + unat k" if "unat k \<le> 32" for k
  proof -
    have "unat r + unat b + unat k < 2 ^ 64" using bw uw r(2,3) that by linarith
    then show ?thesis by (simp add: unat_word_ariths)
  qed
  show rb: "unat (r + b) = unat r + unat b" using urb [of 0] by simp
  have uwb: "unat (w - b) = unat w - unat b" using bw by (simp add: unat_sub word_le_nat_alt)
  have u16: "unat (x - 16) = unat x - 16" if "16 \<le> unat x" for x :: c_size
    using that by (simp add: unat_sub word_le_nat_alt)
  have d: "8 dvd unat (w - b)" using uwb r(4) b24(2) by simp
  have le: "b + 32 \<le> w" "32 \<le> w - b" using bw uwb by (simp_all add: word_le_nat_alt unat_word_ariths)
  have neq: "r \<noteq> a" if "unat r < unat a" for a using that by auto
  have u8: "unat (8 :: c_size) = 8" "unat (16 :: c_size) = 16" "unat (24 :: c_size) = 24" by simp_all
  have ne: "r \<noteq> r + b" "r \<noteq> r + b + 8" "r \<noteq> r + b + 16" "r \<noteq> r + b + 24"
    by (rule neq, use rb urb [of 8] urb [of 16] urb [of 24] u8 b24(1) in linarith)+
  have cls: "fl < 30" "sl < 32" "sl0 < 32"
    using mapping_insert_bounds [OF _ c] mapping_insert_bounds [OF _ c0] bw b24 r(5) by (simp_all add: u16)
  have "fl0 < fl \<or> (fl0 = fl \<and> sl0 \<le> sl)"
    using mapping_monotone [OF _ _ c0 c] bw b24 r(5) by (simp add: u16)
  note found = find_rest [OF st(2,3) this cls]
  let ?p1 = "p\<lparr>block_lists := (\<lambda>_ _. 0), sl_bitmap := (\<lambda>_. 0), fl_bitmap := 0, free_blocks := free_blocks p - 1\<rparr>"
  let ?k = "(w OR 1) AND 7"
  let ?p2 = "?p1\<lparr>mem := (mem p)(r + b := (w - b) OR 1, r + b + 8 := r, r := b OR ?k, r + b + 16 := 0, r + b + 24 := 0),
      block_lists := (\<lambda>i j. if i = fl' \<and> j = sl' then r + b else 0),
      sl_bitmap := (\<lambda>i. if i = fl' then push_bit sl' 1 else 0), fl_bitmap := push_bit fl' 1,
      free_blocks := free_blocks p\<rparr>"
  have split: "split_block r b ?p1 = ?p2"
    using st(4) w_def by (subst split_rest [OF _ _ _ _ r(4) d le _ ne(1,2) c']) simp_all
  let ?p3 = "?p2\<lparr>mem := (mem ?p2)(r := mem ?p2 r AND NOT 1)\<rparr>"
  have memr: "mem ?p2 r = b OR ?k" using ne by simp
  have k: "?k < 8"
  proof -
    have "?k \<le> 7" by (rule word_and_le1)
    also have "(7 :: c_size) < 8" by simp
    finally show ?thesis .
  qed
  have size: "block_get_size ?p3 r = b"
  proof -
    have "NOT 1 AND NOT 7 = (NOT 7 :: c_size)" by simp
    then have "((b OR ?k) AND NOT 1) AND NOT 7 = (b OR ?k) AND NOT 7" by (simp only: and.assoc)
    also have "\<dots> = b" by (rule aligned_size [OF b24(2) k])
    finally have "((b OR ?k) AND NOT 1) AND NOT 7 = b" .
    moreover have "block_get_size (q\<lparr>mem := (mem q)(r := mem q r AND NOT 1)\<rparr>) r = (mem q r AND NOT 1) AND NOT 7"
      for q :: tlsf_pool
      by (simp add: block_get_size_def)
    from this [of ?p2] have "block_get_size ?p3 r = ((b OR ?k) AND NOT 1) AND NOT 7" unfolding memr .
    ultimately show ?thesis by (rule trans [rotated])
  qed
  have r0: "r \<noteq> 0" using r(1) by auto
  have m: "tlsf_malloc n p = (r + 16, ?p3\<lparr>used_size := used_size p + b, used_blocks := used_blocks p + 1\<rparr>)"
    using n(1) r0 found remove_rest [OF st(1-3,5,6)] split size st(7)
    by (simp add: tlsf_malloc_def Let_def b_def [symmetric] tlsf_constants c0 st(1) block_set_used_def store_def)
  show "fst (tlsf_malloc n p) = r + 16" 
    "used_size (snd (tlsf_malloc n p)) = used_size p + b" "used_blocks (snd (tlsf_malloc n p)) = used_blocks p + 1"
    "pool_memory (snd (tlsf_malloc n p)) = pool_memory p" "pool_size (snd (tlsf_malloc n p)) = pool_size p"
    by (simp_all add: m)
  have w': "pool_memory p + pool_size p - (r + b) = w - b" by (simp add: w_def)
  show "rest_at (snd (tlsf_malloc n p)) (r + b)"
    unfolding rest_at_def m snd_conv
    using rb room r(2,5) d uwb ne st(7) b24(1)
    by (simp add: w' c' b_def [symmetric])
qed

lemma create_rest:
  assumes "B \<noteq> 0" and "unat B + unat S < 2 ^ 64" and "8 dvd unat S" and "32 \<le> unat S" and "unat S < 2 ^ 31"
  shows "rest_at (tlsf_create_pool m B S) B"
    and "pool_memory (tlsf_create_pool m B S) = B" and "pool_size (tlsf_create_pool m B S) = S"
    and "used_size (tlsf_create_pool m B S) = 0" and "used_blocks (tlsf_create_pool m B S) = 0"
proof -
  obtain fl sl where c: "mapping_insert (S - 16) = (fl, sl)" by fastforce
  have "0 < unat B" using assms(1) by (simp add: unat_gt_0)
  then show "rest_at (tlsf_create_pool m B S) B"
    using assms by (simp add: rest_at_def tlsf_create_pool_def c tlsf_constants Let_def insert_free_block_def fun_eq_iff)
  show "pool_memory (tlsf_create_pool m B S) = B" "pool_size (tlsf_create_pool m B S) = S"
    "used_size (tlsf_create_pool m B S) = 0" "used_blocks (tlsf_create_pool m B S) = 0"
    by (simp_all add: tlsf_create_pool_def c tlsf_constants Let_def insert_free_block_def)
qed

section \<open>What a new pool hands out\<close>

text \<open>A client that allocates, and writes words inside the blocks it was given.\<close>

datatype client_op = Malloc c_size | Write address "64 word"

fun client_step :: "client_op \<Rightarrow> (address \<times> c_size) list \<times> tlsf_pool \<Rightarrow> (address \<times> c_size) list \<times> tlsf_pool" where
  "client_step (Malloc n) (bs, p) = (let (ptr, p) = tlsf_malloc n p in (bs @ [(ptr, n)], p))"
| "client_step (Write a v) (bs, p) =
     (bs, if 8 dvd unat a \<and> list_ex (\<lambda>(ptr, n). ptr \<le> a \<and> unat a < unat ptr + unat n) bs then store a v p else p)"

fun requests :: "client_op list \<Rightarrow> c_size list" where
  "requests [] = []"
| "requests (Malloc n # ops) = n # requests ops"
| "requests (Write a v # ops) = requests ops"

definition heap_use :: "c_size list \<Rightarrow> nat" where
  "heap_use ns = (\<Sum>n\<leftarrow>ns. unat (block_size_for n))"

text \<open>Blocks one after the other from \<open>a\<close>, each behind its header, before \<open>e\<close>.\<close>

fun laid_out :: "nat \<Rightarrow> (address \<times> c_size) list \<Rightarrow> nat \<Rightarrow> bool" where
  "laid_out a [] e = (a \<le> e)"
| "laid_out a ((ptr, n) # bs) e = (a + 16 \<le> unat ptr \<and> laid_out (unat ptr + unat n) bs e)"

lemma laid_out_append:
  "laid_out a (bs @ [(ptr, n)]) e \<longleftrightarrow> laid_out a bs (unat ptr - 16) \<and> 16 \<le> unat ptr \<and> unat ptr + unat n \<le> e"
  by (induction a bs e rule: laid_out.induct) auto

lemma laid_out_le: "laid_out a bs e \<Longrightarrow> a \<le> e"
  by (induction a bs e rule: laid_out.induct) auto

lemma laid_out_bounds: "laid_out a bs e \<Longrightarrow> (ptr, n) \<in> set bs \<Longrightarrow> a + 16 \<le> unat ptr \<and> unat ptr + unat n \<le> e"
  by (induction a bs e rule: laid_out.induct) (auto dest: laid_out_le)

definition client_ok :: "address \<Rightarrow> c_size \<Rightarrow> (address \<times> c_size) list \<times> tlsf_pool \<Rightarrow> bool" where
  "client_ok B S s \<longleftrightarrow>
     (let (bs, p) = s; r = unat B + heap_use (map snd bs) in
      r < 2 ^ 64 \<and> rest_at p (of_nat r) \<and> pool_memory p = B \<and> pool_size p = S \<and> laid_out (unat B) bs r \<and>
      unat (used_size p) = heap_use (map snd bs) \<and> used_blocks p = of_nat (length bs))"

lemma rest_at_store:
  assumes "rest_at p r" and "a \<noteq> r" "a \<noteq> r + 16" "a \<noteq> r + 24"
  shows "rest_at (store a v p) r"
  using assms by (auto simp: rest_at_def Let_def split: prod.splits)

lemma client_step_write:
  assumes "client_ok B S (bs, p)"
  shows "client_ok B S (client_step (Write a v) (bs, p))"
proof (cases "8 dvd unat a \<and> list_ex (\<lambda>(ptr, n). ptr \<le> a \<and> unat a < unat ptr + unat n) bs")
  case True
  let ?r = "unat B + heap_use (map snd bs)"
  from assms have ok: "?r < 2 ^ 64" "rest_at p (of_nat ?r)" "laid_out (unat B) bs ?r"
    by (simp_all add: client_ok_def Let_def)
  from True obtain ptr n where "(ptr, n) \<in> set bs" "unat a < unat ptr + unat n"
    by (auto simp: list_ex_iff)
  then have "unat a < ?r" using laid_out_bounds [OF ok(3)] by fastforce
  moreover have r: "unat (of_nat ?r :: address) = ?r" by (rule unat_of_nat_small [OF ok(1)])
  moreover have "unat (of_nat ?r + k :: address) = ?r + unat k" if "k \<in> {16, 24}" for k
  proof -
    have "?r + 32 \<le> unat (pool_memory p) + unat (pool_size p)" "unat (pool_memory p) + unat (pool_size p) < 2 ^ 64"
      using ok(2) r by (simp_all add: rest_at_def Let_def split: prod.splits)
    then show ?thesis using that r by (auto simp: unat_word_ariths)
  qed
  ultimately have "a \<noteq> of_nat ?r" "a \<noteq> of_nat ?r + 16" "a \<noteq> of_nat ?r + 24" by fastforce+
  with True assms show ?thesis by (simp add: client_ok_def Let_def rest_at_store)
next
  case False
  then have "client_step (Write a v) (bs, p) = (bs, p)" by auto
  with assms show ?thesis by simp
qed

lemma client_step_malloc:
  assumes "client_ok B S (bs, p)" and "n \<noteq> 0" and "unat n < 2 ^ 31"
    and "heap_use (map snd bs) + unat (block_size_for n) + 32 \<le> unat S"
  shows "client_ok B S (client_step (Malloc n) (bs, p)) \<and> map snd (fst (client_step (Malloc n) (bs, p))) = map snd bs @ [n]"
proof -
  let ?r = "unat B + heap_use (map snd bs)" and ?b = "block_size_for n"
  from assms(1) have ok: "?r < 2 ^ 64" "rest_at p (of_nat ?r)" "pool_memory p = B" "pool_size p = S"
      "laid_out (unat B) bs ?r" "unat (used_size p) = heap_use (map snd bs)" "used_blocks p = of_nat (length bs)"
    by (simp_all add: client_ok_def Let_def)
  have r: "unat (of_nat ?r :: address) = ?r" by (rule unat_of_nat_small [OF ok(1)])
  have room: "unat (of_nat ?r :: address) + unat ?b + 32 \<le> unat (pool_memory p) + unat (pool_size p)"
    unfolding r ok(3,4) using assms(4) by linarith
  obtain ptr q where m: "tlsf_malloc n p = (ptr, q)" by fastforce
  note step = malloc_rest [OF ok(2) assms(2,3) room, unfolded m fst_conv snd_conv]
  have e: "unat B + unat S < 2 ^ 64" using ok(2,3,4) by (simp add: rest_at_def Let_def split: prod.splits)
  have use: "heap_use (map snd bs @ [n]) = heap_use (map snd bs) + unat ?b" by (simp add: heap_use_def)
  have rb: "of_nat (unat B + heap_use (map snd bs @ [n])) = of_nat ?r + ?b" unfolding use by simp
  have lt: "?r + unat ?b < 2 ^ 64" using assms(4) e by linarith
  have b: "unat n + 16 \<le> unat ?b" using block_size_for_nat [OF assms(2,3)] by simp
  have ptr: "unat ptr = ?r + 16" using step(1) r lt b by (simp add: unat_word_ariths)
  have "unat (used_size q) = heap_use (map snd bs) + unat ?b"
  proof -
    have "heap_use (map snd bs) + unat ?b < 2 ^ 64" using lt by linarith
    then show ?thesis unfolding step(3) using ok(6) by (simp add: unat_word_ariths)
  qed
  then have "client_ok B S (bs @ [(ptr, n)], q)"
    using step ok lt ptr b rb
    by (simp add: client_ok_def Let_def use laid_out_append add.assoc)
  then show ?thesis by (simp add: m)
qed

lemma client_create:
  assumes "B \<noteq> 0" and "unat B + unat S < 2 ^ 64" and "8 dvd unat S" and "32 \<le> unat S" and "unat S < 2 ^ 31"
  shows "client_ok B S ([], tlsf_create_pool m B S)"
  using create_rest [OF assms, of m] assms(2) by (simp add: client_ok_def heap_use_def)

lemma client_run:
  assumes "client_ok B S s" and "list_all (\<lambda>n. n \<noteq> 0 \<and> unat n < 2 ^ 31) (requests ops)"
    and "heap_use (map snd (fst s) @ requests ops) + 32 \<le> unat S"
  shows "client_ok B S (fold client_step ops s) \<and> map snd (fst (fold client_step ops s)) = map snd (fst s) @ requests ops"
  using assms
proof (induction ops arbitrary: s rule: requests.induct)
  case (2 n ops)
  obtain bs p where s: "s = (bs, p)" by fastforce
  have "heap_use (map snd bs) + unat (block_size_for n) + 32 \<le> unat S"
    using "2.prems"(3) by (simp add: s heap_use_def)
  then have "client_ok B S (client_step (Malloc n) s)" "map snd (fst (client_step (Malloc n) s)) = map snd bs @ [n]"
    using client_step_malloc [of B S bs p n] "2.prems"(1,2) by (simp_all add: s del: client_step.simps)
  with "2.IH" [of "client_step (Malloc n) s"] "2.prems" show ?case by (simp add: s del: client_step.simps)
next
  case (3 a v ops)
  obtain bs p where s: "s = (bs, p)" by fastforce
  have "client_ok B S (client_step (Write a v) s)" using client_step_write "3.prems"(1) by (simp add: s)
  moreover have "fst (client_step (Write a v) s) = fst s" by (simp add: s)
  ultimately show ?case using "3.IH" [of "client_step (Write a v) s"] "3.prems" by simp
qed simp

text \<open>
  C12. While nothing is freed the allocator is correct.  For any requests that fit into a new
  pool, with any writes of the client inside its blocks in between, every request is
  answered, the blocks lie one behind the other in the pool with room for a header between
  them, and the statistics are the sums.
\<close>

theorem tlsf_fresh_pool_disjoint:
  assumes "B \<noteq> 0" and "unat B + unat S < 2 ^ 64" and "8 dvd unat S" and "unat S < 2 ^ 31"
    and "list_all (\<lambda>n. n \<noteq> 0 \<and> unat n < 2 ^ 31) (requests ops)" and "heap_use (requests ops) + 32 \<le> unat S"
  shows "case fold client_step ops ([], tlsf_create_pool m B S) of (bs, p) \<Rightarrow>
    map snd bs = requests ops \<and> laid_out (unat B) bs (unat B + unat S) \<and>
    unat (used_size p) = heap_use (requests ops) \<and> used_blocks p = of_nat (length (requests ops))"
proof -
  have "32 \<le> unat S" using assms(6) by linarith
  from client_run [OF client_create [OF assms(1-3) this assms(4)] assms(5)] assms(6)
  have ok: "client_ok B S (fold client_step ops ([], tlsf_create_pool m B S))"
    and ns: "map snd (fst (fold client_step ops ([], tlsf_create_pool m B S))) = requests ops"
    by simp_all
  obtain bs p where s: "fold client_step ops ([], tlsf_create_pool m B S) = (bs, p)" by fastforce
  have weaken: "laid_out a xs e \<Longrightarrow> e \<le> e' \<Longrightarrow> laid_out a xs e'" for a xs e e'
    by (induction a xs e rule: laid_out.induct) auto
  have "length bs = length (requests ops)" using ns by (metis s fst_conv length_map)
  with ok ns show ?thesis
    using assms(6) by (auto simp: s client_ok_def Let_def intro: weaken)
qed

lemma tlsf_fresh_pool_disjoint_witness:
  "case fold client_step [Malloc 100, Write 4120 7, Malloc 1] ([], tlsf_create_pool (\<lambda>_. 0) 4096 1024) of (bs, p) \<Rightarrow>
    map snd bs = [100, 1] \<and> laid_out 4096 bs 5120 \<and> unat (used_size p) = 144 \<and> used_blocks p = 2"
proof -
  have "heap_use (requests [Malloc 100, Write 4120 7, Malloc 1]) = 144"
    by (simp add: heap_use_def block_size_for_nat)
  then show ?thesis
    using tlsf_fresh_pool_disjoint [of 4096 1024 "[Malloc 100, Write 4120 7, Malloc 1]" "\<lambda>_. 0"]
    by (simp del: fold.simps client_step.simps)
qed

end
