(* ===== verification/Tlsf_Overlap.thy ===== *)
theory Tlsf_Overlap
  imports Tlsf
begin

text \<open>
  Three ways in which blocks of the allocator come to overlap: a flag that is never cleared, a
  class that holds blocks shorter than the request, and links of a free list that do not fit
  into a small block.
\<close>

section \<open>Evaluation\<close>

text \<open>
  The allocator on concrete sizes and a memory of any content: arguments are evaluated before
  the bodies they are bound in.
\<close>

lemma case_prod_strict: "x = y \<Longrightarrow> case_prod f x = case_prod f y"
  by simp

lemma case_option_strict: "x = y \<Longrightarrow> case_option d f x = case_option d f y"
  by simp

lemmas strict = let_weak_cong case_prod_strict case_option_strict

lemmas tlsf_eval = tlsf_malloc_def tlsf_create_pool_def tlsf_free_def insert_free_block_def remove_free_block_def
  split_block_def merge_prev_def merge_next_def store_def block_get_size_def block_set_size_def block_is_free_def
  block_set_free_def block_set_used_def block_is_prev_free_def block_set_prev_free_def block_next_def in_pool_def
  find_suitable_block_def block_size_for_def align_up_def tlsf_block_size_def tlsf_constants Let_def mask_eq_exp_minus_1

lemma class_values:
  "mapping_insert 64 = (0, 8)" "mapping_insert 1008 = (2, 31)" "mapping_insert 928 = (2, 26)"
  "mapping_insert 848 = (2, 21)" "mapping_insert 768 = (2, 16)" "mapping_insert 144 = (0, 18)"
  "mapping_insert 8 = (0, 1)" "mapping_insert 984 = (2, 29)" "mapping_insert 904 = (2, 24)"
  "mapping_insert 512 = (2, 0)" "mapping_insert 520 = (2, 0)" "mapping_insert 480 = (1, 28)"
  "mapping_insert 400 = (1, 18)" "mapping_insert 18446744073709551592 = (24, 31)"
  by code_simp+

lemma ffs_values:
  "tlsf_ffs 1 = 0" "tlsf_ffs 2 = 1" "tlsf_ffs 4 = 2" "tlsf_ffs 256 = 8" "tlsf_ffs 65536 = 16" "tlsf_ffs 262144 = 18"
  "tlsf_ffs 2097152 = 21" "tlsf_ffs 16777216 = 24" "tlsf_ffs 67108864 = 26" "tlsf_ffs 268435456 = 28"
  "tlsf_ffs 536870912 = 29" "tlsf_ffs 2147483648 = 31"
  by code_simp+

section \<open>Blocks that overlap\<close>

text \<open>Three blocks in a new pool of 1024 bytes at address 4096, the first of them freed.\<close>

definition first_freed :: "memory \<Rightarrow> tlsf_pool" where
  "first_freed m =
     \<lparr>fl_bitmap = 5, sl_bitmap = (\<lambda>_. 0)(2 := 65536, 0 := 256),
      block_lists = (\<lambda>_ _. 0)(2 := (\<lambda>_. 0)(31 := 0, 26 := 0, 21 := 0, 16 := 4336), 0 := (\<lambda>_. 0)(8 := 4096)),
      pool_memory = 4096, pool_size = 1024, current_checkpoint = 0, used_size = 160, used_blocks = 2, free_blocks = 2,
      mem = m(4104 := 0, 4184 := 4096, 4192 := 0, 4200 := 0, 4264 := 4176, 4272 := 0, 4280 := 0, 4336 := 785,
              4344 := 4256, 4352 := 0, 4360 := 0, 4256 := 80, 4096 := 81, 4176 := 82, 4112 := 0, 4120 := 0)\<rparr>"

lemma first_freed_reached:
  "(let (a, p) = tlsf_malloc 64 (tlsf_create_pool m 4096 1024); (b, p) = tlsf_malloc 64 p; (c, p) = tlsf_malloc 64 p
    in (a, b, tlsf_free a p)) = (4112, 4192, first_freed m)"
  by (simp add: tlsf_eval class_values ffs_values first_freed_def cong: strict)

lemma first_freed_reused:
  "(let (a, p) = tlsf_malloc 64 (first_freed m); p = tlsf_free 4192 p; (b, p) = tlsf_malloc 64 p in (a, b)) =
   (4112, 4112)"
  by (simp add: tlsf_eval class_values ffs_values first_freed_def cong: strict)

text \<open>
  C13. A block in use is handed out again.  Freeing a block sets a flag in the block behind it,
  and nothing clears the flag when the freed block is used again: when the block behind is
  freed it is joined with the one before, which is in use.
\<close>

theorem tlsf_hands_out_twice:
  "let (a, p) = tlsf_malloc 64 (tlsf_create_pool m 4096 1024); (b, p) = tlsf_malloc 64 p; (c, p) = tlsf_malloc 64 p;
       p = tlsf_free a p; (a', p) = tlsf_malloc 64 p; p = tlsf_free b p; (d, p) = tlsf_malloc 64 p
   in a' \<noteq> 0 \<and> d = a'"
proof -
  obtain a p1 where 1: "tlsf_malloc 64 (tlsf_create_pool m 4096 1024) = (a, p1)" by (metis surj_pair)
  obtain b p2 where 2: "tlsf_malloc 64 p1 = (b, p2)" by (metis surj_pair)
  obtain c p3 where 3: "tlsf_malloc 64 p2 = (c, p3)" by (metis surj_pair)
  have "(a, b, tlsf_free a p3) = (4112, 4192, first_freed m)"
    using first_freed_reached [of m] unfolding 1 2 3 Let_def prod.case .
  then have s: "tlsf_free a p3 = first_freed m" "b = 4192" by (metis prod.inject)+
  obtain a' p4 where 4: "tlsf_malloc 64 (first_freed m) = (a', p4)" by (metis surj_pair)
  obtain d p5 where 5: "tlsf_malloc 64 (tlsf_free 4192 p4) = (d, p5)" by (metis surj_pair)
  have "a' = 4112" "d = 4112" using first_freed_reused [of m] by (simp_all add: 4 5)
  then show ?thesis by (simp add: 1 2 3 4 5 s Let_def)
qed

text \<open>
  A block is handed out that is shorter than the request: the search takes any block of
  the class of the request, and cutting one that is too short computes a rest of nearly
  \<open>2 ^ 64\<close> bytes.  The request of 520 bytes at address \<open>c\<close> ends beyond the header of the next
  block in use, 16 bytes before \<open>b\<close>.
\<close>

theorem tlsf_block_too_short:
  "let (a, p) = tlsf_malloc 512 (tlsf_create_pool m 4096 1024); (b, p) = tlsf_malloc 64 p; p = tlsf_free a p;
       (c, p) = tlsf_malloc 520 p
   in c \<noteq> 0 \<and> c < b - 16 \<and> b - 16 < c + 520"
  by (simp add: tlsf_eval class_values ffs_values cong: strict)

text \<open>
  Freeing a block of up to 8 bytes overwrites the size of the next block in use with 0: the
  second link of its free list lies where the next header begins.
\<close>

theorem tlsf_small_block_corrupts:
  "let (a, p) = tlsf_malloc 8 (tlsf_create_pool m 4096 1024); (b, p) = tlsf_malloc 64 p
   in block_get_size p (b - 16) = 80 \<and> block_get_size (tlsf_free a p) (b - 16) = 0"
  by (simp add: tlsf_eval class_values ffs_values cong: strict)

end
