(* ===== verification/Thread_Pool.thy ===== *)
theory Thread_Pool
  imports Prelude
begin

text \<open>
  The thread pool, \<^verbatim>\<open>src/src/components/core/thread_pool.c\<close>.  The mutex makes every critical section
  one step: adding work, a worker that looks for work, goes to sleep, wakes up or finishes,
  a caller that waits for the pool to be idle, and changing the number of threads.  A worker
  sleeps in a timed wait, so it may wake up at any time; a caller that waits for the pool wakes
  up when it is signalled (the spurious wake-ups POSIX allows are left out).  Threads, functions
  and arguments are numbers, and thread handles are given out in order.  The pool and the
  function are not \<^verbatim>\<open>NULL\<close>, and memory does not run out.

  The counters of type \<^verbatim>\<open>int\<close> are integers here: they are bounded by the configuration and the
  number of threads.  A write outside the array of handles is \<open>Handle_Overflow\<close>.
\<close>

section \<open>Data\<close>

record work_item =
  work_function :: nat
  work_argument :: nat

record thread_pool_config =
  config_min_threads :: int
  config_max_threads :: int
  config_queue_size :: int
  config_idle_timeout :: int

record thread_pool =
  work_queue :: "work_item list"
  queue_size :: int
  max_queue_size :: int
  threads :: "nat option list"
  thread_count :: int
  min_threads :: int
  max_threads :: int
  active_threads :: int
  idle_timeout :: int
  shutdown :: bool
  tasks_processed :: c_int64
  peak_queue_size :: c_int64
  peak_threads :: c_int64

text \<open>Where a worker is: before its critical section, asleep since a time, at work, or gone.\<close>

datatype worker = Ready | Asleep int | Working work_item | Gone

record pool_system =
  pool :: thread_pool
  workers :: "worker list"
  idle_waiters :: "nat list"
  idle_woken :: "nat list"

definition thread_pool_create :: thread_pool_config where
  "thread_pool_create =
     \<lparr>config_min_threads = 4, config_max_threads = 16, config_queue_size = 1024, config_idle_timeout = 60\<rparr>"

text \<open>The argument tells which creations of a thread succeed; after a failure nothing is left.\<close>

definition thread_pool_create_config :: "(nat \<Rightarrow> bool) \<Rightarrow> thread_pool_config \<Rightarrow> pool_system option" where
  "thread_pool_create_config created c =
     (if config_min_threads c \<le> 0 \<or> config_max_threads c \<le> 0 \<or> config_max_threads c < config_min_threads c \<or>
         config_queue_size c \<le> 0 then None
      else if \<not> list_all created [0..<nat (config_min_threads c)] then None
      else Some
        \<lparr>pool =
           \<lparr>work_queue = [], queue_size = 0, max_queue_size = config_queue_size c,
            threads = map Some [0..<nat (config_min_threads c)] @
              replicate (nat (config_max_threads c) - nat (config_min_threads c)) None,
            thread_count = config_min_threads c, min_threads = config_min_threads c, max_threads = config_max_threads c,
            active_threads = 0, idle_timeout = config_idle_timeout c, shutdown = False,
            tasks_processed = 0, peak_queue_size = 0, peak_threads = word_of_int (config_min_threads c)\<rparr>,
         workers = replicate (nat (config_min_threads c)) Ready, idle_waiters = [], idle_woken = []\<rparr>)"

section \<open>Adding work\<close>

text \<open>A new thread and its entry in the array.\<close>

datatype pool_fault = Handle_Overflow

definition set_handle :: "int \<Rightarrow> nat \<Rightarrow> thread_pool \<Rightarrow> pool_fault + thread_pool" where
  "set_handle i t p =
     (if 0 \<le> i \<and> nat i < length (threads p) then Inr (p\<lparr>threads := (threads p)[nat i := Some t]\<rparr>) else Inl Handle_Overflow)"

definition count_thread :: "thread_pool \<Rightarrow> thread_pool" where
  "count_thread p =
     (let n = thread_count p + 1
      in p\<lparr>thread_count := n,
           peak_threads := (if peak_threads p < word_of_int n then word_of_int n else peak_threads p)\<rparr>)"

definition add_thread :: "pool_system \<Rightarrow> pool_fault + pool_system" where
  "add_thread s =
     (let t = length (workers s); p = count_thread (pool s); s = s\<lparr>workers := workers s @ [Ready]\<rparr> in
      if thread_count p \<le> max_threads p then
        (case set_handle (thread_count p - 1) t p of
           Inl e \<Rightarrow> Inl e
         | Inr p \<Rightarrow> Inr (s\<lparr>pool := p\<rparr>))
      else Inr (s\<lparr>pool := p\<rparr>))"

definition put_work :: "work_item \<Rightarrow> thread_pool \<Rightarrow> thread_pool" where
  "put_work w p =
     (let n = queue_size p + 1
      in p\<lparr>work_queue := work_queue p @ [w], queue_size := n,
           peak_queue_size := (if peak_queue_size p < word_of_int n then word_of_int n else peak_queue_size p)\<rparr>)"

text \<open>The result and the state; \<open>created\<close> tells whether a thread can be created.\<close>

definition thread_pool_add_work :: "bool \<Rightarrow> work_item \<Rightarrow> pool_system \<Rightarrow> pool_fault + (int \<times> pool_system)" where
  "thread_pool_add_work created w s =
     (if shutdown (pool s) then Inr (- 1, s)
      else if max_queue_size (pool s) \<le> queue_size (pool s) then
        (if thread_count (pool s) < max_threads (pool s) then
           (if created then
              (case add_thread s of
                 Inl e \<Rightarrow> Inl e
               | Inr s \<Rightarrow> Inr (0, s\<lparr>pool := put_work w (pool s)\<rparr>))
            else Inr (- 1, s))
         else Inr (- 1, s))
      else Inr (0, s\<lparr>pool := put_work w (pool s)\<rparr>))"

section \<open>Workers\<close>

datatype worker_event = Sleeps | Leaves | Takes work_item | Finishes work_item | Not_There

text \<open>Behind the loop that waits: sleep again, leave, or take the first item.\<close>

definition worker_look :: "nat \<Rightarrow> int \<Rightarrow> pool_system \<Rightarrow> worker_event \<times> pool_system" where
  "worker_look t wait_start s =
     (case work_queue (pool s) of
        [] \<Rightarrow>
          if shutdown (pool s) then (Leaves, s\<lparr>workers := (workers s)[t := Gone]\<rparr>)
          else (Sleeps, s\<lparr>workers := (workers s)[t := Asleep wait_start]\<rparr>)
      | w # ws \<Rightarrow>
          (Takes w,
           s\<lparr>pool := (pool s)\<lparr>work_queue := ws, queue_size := queue_size (pool s) - 1,
                               active_threads := active_threads (pool s) + 1\<rparr>,
             workers := (workers s)[t := Working w]\<rparr>))"

definition worker_wakes :: "nat \<Rightarrow> int \<Rightarrow> bool \<Rightarrow> int \<Rightarrow> pool_system \<Rightarrow> worker_event \<times> pool_system" where
  "worker_wakes t wait_start timed_out now s =
     (if timed_out \<and> idle_timeout (pool s) \<le> now - wait_start \<and> min_threads (pool s) < thread_count (pool s)
      then (Leaves, s\<lparr>pool := (pool s)\<lparr>thread_count := thread_count (pool s) - 1\<rparr>, workers := (workers s)[t := Gone]\<rparr>)
      else worker_look t wait_start s)"

text \<open>\<^verbatim>\<open>pthread_cond_signal\<close> wakes one of the callers that wait.\<close>

definition signal_idle :: "pool_system \<Rightarrow> pool_system" where
  "signal_idle s =
     (case idle_waiters s of
        [] \<Rightarrow> s
      | c # cs \<Rightarrow> s\<lparr>idle_waiters := cs, idle_woken := idle_woken s @ [c]\<rparr>)"

definition worker_done :: "nat \<Rightarrow> work_item \<Rightarrow> pool_system \<Rightarrow> worker_event \<times> pool_system" where
  "worker_done t w s =
     (let p = (pool s)\<lparr>tasks_processed := tasks_processed (pool s) + 1, active_threads := active_threads (pool s) - 1\<rparr>;
          s = s\<lparr>pool := p, workers := (workers s)[t := Ready]\<rparr>
      in (Finishes w, if queue_size p = 0 \<and> active_threads p = 0 then signal_idle s else s))"

text \<open>One step of a worker; the time and whether a wait timed out come from outside.\<close>

definition thread_worker :: "nat \<Rightarrow> bool \<Rightarrow> int \<Rightarrow> pool_system \<Rightarrow> worker_event \<times> pool_system" where
  "thread_worker t timed_out now s =
     (if length (workers s) \<le> t then (Not_There, s)
      else case workers s ! t of
        Ready \<Rightarrow> worker_look t now s
      | Asleep wait_start \<Rightarrow> worker_wakes t wait_start timed_out now s
      | Working w \<Rightarrow> worker_done t w s
      | Gone \<Rightarrow> (Not_There, s))"

section \<open>Waiting, adjusting, ending\<close>

text \<open>A call of \<^verbatim>\<open>thread_pool_wait\<close>, and what it does when it is woken: whether it returns.\<close>

definition wait_idle :: "nat \<Rightarrow> pool_system \<Rightarrow> bool \<times> pool_system" where
  "wait_idle c s =
     (if 0 < queue_size (pool s) \<or> 0 < active_threads (pool s)
      then (False, s\<lparr>idle_waiters := idle_waiters s @ [c]\<rparr>)
      else (True, s))"

definition thread_pool_wait :: "nat \<Rightarrow> pool_system \<Rightarrow> bool \<times> pool_system" where
  "thread_pool_wait c s = wait_idle c s"

definition wait_wakes :: "nat \<Rightarrow> pool_system \<Rightarrow> bool \<times> pool_system" where
  "wait_wakes c s =
     (if c \<in> set (idle_woken s) then wait_idle c (s\<lparr>idle_woken := remove1 c (idle_woken s)\<rparr>) else (False, s))"

definition thread_pool_stats :: "pool_system \<Rightarrow> int \<times> int \<times> c_int64" where
  "thread_pool_stats s = (active_threads (pool s), queue_size (pool s), tasks_processed (pool s))"

text \<open>The loop that creates threads up to the new minimum; the list tells which creations succeed.\<close>

fun create_threads :: "int \<Rightarrow> bool list \<Rightarrow> pool_system \<Rightarrow> pool_fault + (bool \<times> pool_system)" where
  "create_threads lower [] s = Inr (lower \<le> thread_count (pool s), s)"
| "create_threads lower (created # cs) s =
     (if lower \<le> thread_count (pool s) then Inr (True, s)
      else if \<not> created then Inr (False, s)
      else
        (let t = length (workers s); s = s\<lparr>workers := workers s @ [Ready]\<rparr> in
         if thread_count (pool s) < max_threads (pool s) then
           (case set_handle (thread_count (pool s)) t (pool s) of
              Inl e \<Rightarrow> Inl e
            | Inr p \<Rightarrow> create_threads lower cs (s\<lparr>pool := count_thread p\<rparr>))
         else create_threads lower cs (s\<lparr>pool := count_thread (pool s)\<rparr>)))"

definition thread_pool_adjust :: "bool list \<Rightarrow> int \<Rightarrow> int \<Rightarrow> pool_system \<Rightarrow> pool_fault + (int \<times> pool_system)" where
  "thread_pool_adjust cs lower upper s =
     (if lower \<le> 0 \<or> upper \<le> 0 \<or> upper < lower then Inr (- 1, s)
      else
        (let old_min = min_threads (pool s); old_max = max_threads (pool s) in
         case create_threads lower cs (s\<lparr>pool := (pool s)\<lparr>min_threads := lower, max_threads := upper\<rparr>\<rparr>) of
           Inl e \<Rightarrow> Inl e
         | Inr (False, s) \<Rightarrow> Inr (- 1, s\<lparr>pool := (pool s)\<lparr>min_threads := old_min, max_threads := old_max\<rparr>\<rparr>)
         | Inr (True, s) \<Rightarrow>
             Inr (0, if old_max < upper
                     then s\<lparr>pool := (pool s)\<lparr>threads :=
                       take (nat upper) (threads (pool s)) @ replicate (nat upper - length (threads (pool s))) None\<rparr>\<rparr>
                     else s)))"

text \<open>
  \<^verbatim>\<open>thread_pool_destroy\<close> sets the flag, joins the first \<open>thread_count\<close> handles, and then frees the
  pool: it gets there as soon as these threads are gone.
\<close>

definition start_shutdown :: "pool_system \<Rightarrow> pool_system" where
  "start_shutdown s = s\<lparr>pool := (pool s)\<lparr>shutdown := True\<rparr>\<rparr>"

definition thread_pool_destroy :: "pool_system \<Rightarrow> bool" where
  "thread_pool_destroy s \<longleftrightarrow>
     shutdown (pool s) \<and>
     list_all (\<lambda>h. case h of None \<Rightarrow> False | Some t \<Rightarrow> t < length (workers s) \<and> workers s ! t = Gone)
       (take (nat (thread_count (pool s))) (threads (pool s)))"

end
