(* ===== verification/Thread_Pool_Props.thy ===== *)
theory Thread_Pool_Props
  imports Thread_Pool "HOL-Library.Multiset"
begin

text \<open>
  Properties of the thread pool.  A history is a list of calls and worker steps in the order in
  which they get the mutex; what is proved holds for every such order.  Work has one owner at
  any time: the queue, a worker, or the past.
\<close>

section \<open>Histories\<close>

datatype pool_call =
    Add_Work bool work_item
  | Worker_Runs nat bool int
  | Wait nat
  | Wait_Woken nat
  | Adjust "bool list" int int
  | Start_Shutdown

datatype pool_event =
    Accepted work_item
  | Refused
  | Worker worker_event
  | Returned nat
  | Blocked nat
  | Adjusted int
  | Shutting_Down

definition wait_event :: "nat \<Rightarrow> bool \<times> pool_system \<Rightarrow> pool_event \<times> pool_system" where
  "wait_event c r = (if fst r then Returned c else Blocked c, snd r)"

fun pool_step :: "pool_call \<Rightarrow> pool_system \<Rightarrow> pool_fault + (pool_event \<times> pool_system)" where
  "pool_step (Add_Work created w) s =
     (case thread_pool_add_work created w s of
        Inl e \<Rightarrow> Inl e
      | Inr (r, s') \<Rightarrow> Inr (if r = 0 then Accepted w else Refused, s'))"
| "pool_step (Worker_Runs t timed_out now) s =
     (let (e, s') = thread_worker t timed_out now s in Inr (Worker e, s'))"
| "pool_step (Wait c) s = Inr (wait_event c (thread_pool_wait c s))"
| "pool_step (Wait_Woken c) s = Inr (wait_event c (wait_wakes c s))"
| "pool_step (Adjust cs lower upper) s =
     (case thread_pool_adjust cs lower upper s of
        Inl e \<Rightarrow> Inl e
      | Inr (r, s') \<Rightarrow> Inr (Adjusted r, s'))"
| "pool_step Start_Shutdown s = Inr (Shutting_Down, start_shutdown s)"

fun run_pool :: "pool_call list \<Rightarrow> pool_system \<Rightarrow> pool_fault + (pool_event list \<times> pool_system)" where
  "run_pool [] s = Inr ([], s)"
| "run_pool (c # cs) s =
     (case pool_step c s of
        Inl e \<Rightarrow> Inl e
      | Inr (e, s') \<Rightarrow>
          (case run_pool cs s' of
             Inl e \<Rightarrow> Inl e
           | Inr (es, s'') \<Rightarrow> Inr (e # es, s'')))"

fun accepted :: "pool_event list \<Rightarrow> work_item list" where
  "accepted [] = []"
| "accepted (e # es) = (case e of Accepted w \<Rightarrow> w # accepted es | _ \<Rightarrow> accepted es)"

fun taken :: "pool_event list \<Rightarrow> work_item list" where
  "taken [] = []"
| "taken (e # es) = (case e of Worker (Takes w) \<Rightarrow> w # taken es | _ \<Rightarrow> taken es)"

fun finished_items :: "pool_event list \<Rightarrow> work_item list" where
  "finished_items [] = []"
| "finished_items (e # es) = (case e of Worker (Finishes w) \<Rightarrow> w # finished_items es | _ \<Rightarrow> finished_items es)"

fun item_of :: "worker \<Rightarrow> work_item list" where
  "item_of (Working w) = [w]"
| "item_of _ = []"

definition in_work :: "worker list \<Rightarrow> work_item list" where
  "in_work ws = concat (map item_of ws)"

definition pool_ok :: "pool_system \<Rightarrow> bool" where
  "pool_ok s \<longleftrightarrow>
     queue_size (pool s) = int (length (work_queue (pool s))) \<and>
     active_threads (pool s) = int (length (in_work (workers s))) \<and>
     0 < min_threads (pool s) \<and> min_threads (pool s) \<le> max_threads (pool s) \<and>
     min_threads (pool s) \<le> thread_count (pool s) \<and>
     max_threads (pool s) \<le> int (length (threads (pool s)))"

section \<open>One step\<close>

lemma in_work_append [simp]: "in_work (xs @ ys) = in_work xs @ in_work ys"
  by (simp add: in_work_def)

lemma in_work_ready [simp]: "in_work [Ready] = []" "in_work (replicate n Ready) = []"
  by (simp_all add: in_work_def)

lemma in_work_update:
  "t < length ws \<Longrightarrow> mset (in_work (ws[t := x])) + mset (item_of (ws ! t)) = mset (in_work ws) + mset (item_of x)"
  by (induction ws arbitrary: t) (auto simp: in_work_def nth_Cons' less_Suc_eq_0_disj split: nat.splits)

lemma in_work_update_length:
  "t < length ws \<Longrightarrow>
    length (in_work (ws[t := x])) + length (item_of (ws ! t)) = length (in_work ws) + length (item_of x)"
  using arg_cong [OF in_work_update [of t ws x], of size] by simp

text \<open>What a step does to the owners of work.\<close>

definition owners_kept :: "pool_system \<Rightarrow> pool_event \<Rightarrow> pool_system \<Rightarrow> bool" where
  "owners_kept s e s' \<longleftrightarrow>
     work_queue (pool s) @ accepted [e] = taken [e] @ work_queue (pool s') \<and>
     mset (in_work (workers s)) + mset (taken [e]) = mset (finished_items [e]) + mset (in_work (workers s')) \<and>
     tasks_processed (pool s') = tasks_processed (pool s) + of_nat (length (finished_items [e]))"

lemmas pool_defs = put_work_def count_thread_def set_handle_def add_thread_def Let_def

lemma add_work_step:
  assumes "thread_pool_add_work created w s = Inr (r, s')" and "pool_ok s"
  shows "owners_kept s (if r = 0 then Accepted w else Refused) s' \<and> pool_ok s'"
  using assms
  by (auto simp: thread_pool_add_work_def pool_defs owners_kept_def pool_ok_def
      split: if_splits sum.splits)

lemma worker_look_step:
  assumes "worker_look t n s = (e, s')" and "pool_ok s" and "t < length (workers s)" and "item_of (workers s ! t) = []"
  shows "owners_kept s (Worker e) s' \<and> pool_ok s'"
  using assms in_work_update [of t "workers s"] in_work_update_length [of t "workers s"]
  by (auto simp: worker_look_def owners_kept_def pool_ok_def split: if_splits list.splits)

lemma worker_step:
  assumes "thread_worker t timed_out now s = (e, s')" and "pool_ok s"
  shows "owners_kept s (Worker e) s' \<and> pool_ok s'"
proof (cases "length (workers s) \<le> t")
  case True
  with assms show ?thesis by (simp add: thread_worker_def owners_kept_def)
next
  case False
  note up = in_work_update [of t "workers s"] in_work_update_length [of t "workers s"]
  show ?thesis
  proof (cases "workers s ! t")
    case Ready
    with assms False show ?thesis by (simp add: thread_worker_def worker_look_step)
  next
    case (Asleep n)
    show ?thesis
    proof (cases "timed_out \<and> idle_timeout (pool s) \<le> now - n \<and> min_threads (pool s) < thread_count (pool s)")
      case True
      with assms False up [of Gone] Asleep show ?thesis
        by (auto simp: thread_worker_def worker_wakes_def owners_kept_def pool_ok_def)
    next
      case stays: False
      with assms False Asleep have "worker_look t n s = (e, s')"
        by (auto simp: thread_worker_def worker_wakes_def)
      with assms False Asleep show ?thesis by (simp add: worker_look_step)
    qed
  next
    case (Working w)
    with assms False up [of Ready] show ?thesis
      by (auto simp: thread_worker_def worker_done_def signal_idle_def Let_def owners_kept_def pool_ok_def
          split: if_splits list.splits)
  next
    case Gone
    with assms False show ?thesis by (simp add: thread_worker_def owners_kept_def)
  qed
qed

lemma wait_step:
  assumes "wait_event c r = (e, s')" and "pool_ok s" and "r = thread_pool_wait c s \<or> r = wait_wakes c s"
  shows "owners_kept s e s' \<and> pool_ok s'"
  using assms
  by (auto simp: wait_event_def thread_pool_wait_def wait_wakes_def wait_idle_def owners_kept_def pool_ok_def
      split: if_splits)

text \<open>Creating threads leaves the work and the length of the array alone.\<close>

definition same_work :: "pool_system \<Rightarrow> pool_system \<Rightarrow> bool" where
  "same_work s s' \<longleftrightarrow>
     (\<exists>n. workers s' = workers s @ replicate n Ready) \<and>
     work_queue (pool s') = work_queue (pool s) \<and> queue_size (pool s') = queue_size (pool s) \<and>
     active_threads (pool s') = active_threads (pool s) \<and> tasks_processed (pool s') = tasks_processed (pool s) \<and>
     min_threads (pool s') = min_threads (pool s) \<and> max_threads (pool s') = max_threads (pool s) \<and>
     length (threads (pool s')) = length (threads (pool s)) \<and> thread_count (pool s) \<le> thread_count (pool s') \<and>
     idle_waiters s' = idle_waiters s \<and> idle_woken s' = idle_woken s"

lemma same_work_refl [simp]: "same_work s s"
  by (auto simp: same_work_def intro: exI [of _ 0])

lemma same_work_add:
  "same_work (s\<lparr>workers := workers s @ [Ready], pool := p\<rparr>) s' \<Longrightarrow>
   same_work s (s\<lparr>workers := workers s @ [Ready], pool := p\<rparr>) \<Longrightarrow> same_work s s'"
  by (auto simp: same_work_def simp flip: replicate_Suc intro: exI [of _ "Suc _"])

lemma create_threads_step:
  "create_threads lower cs s = Inr (b, s') \<Longrightarrow>
   same_work s s' \<and> (b \<longrightarrow> lower \<le> thread_count (pool s'))"
proof (induction cs arbitrary: s)
  case (Cons created cs)
  show ?case
  proof (cases "lower \<le> thread_count (pool s) \<or> \<not> created")
    case True
    with Cons.prems show ?thesis by (auto split: if_splits)
  next
    case False
    let ?s = "s\<lparr>workers := workers s @ [Ready]\<rparr>"
    obtain p where p: "create_threads lower cs (?s\<lparr>pool := p\<rparr>) = Inr (b, s')"
      "same_work s (?s\<lparr>pool := p\<rparr>)"
    proof (cases "thread_count (pool s) < max_threads (pool s)")
      case True
      with False Cons.prems show ?thesis
        by (intro that [of "count_thread ((pool s)\<lparr>threads :=
              (threads (pool s))[nat (thread_count (pool s)) := Some (length (workers s))]\<rparr>)"])
          (auto simp: Let_def set_handle_def count_thread_def same_work_def split: if_splits intro: exI [of _ 1])
    next
      case out: False
      with False Cons.prems show ?thesis
        by (intro that [of "count_thread (pool s)"])
          (auto simp: Let_def count_thread_def same_work_def intro: exI [of _ 1])
    qed
    from Cons.IH [OF p(1)] p(2) show ?thesis by (auto intro: same_work_add)
  qed
qed auto

lemma adjust_step:
  assumes "thread_pool_adjust cs lower upper s = Inr (r, s')" and "pool_ok s"
  shows "owners_kept s (Adjusted r) s' \<and> pool_ok s'"
  using assms
  by (auto simp: thread_pool_adjust_def Let_def owners_kept_def pool_ok_def same_work_def
      dest!: create_threads_step split: if_splits sum.splits bool.splits)

theorem pool_step_owners:
  assumes "pool_step c s = Inr (e, s')" and "pool_ok s"
  shows "owners_kept s e s' \<and> pool_ok s'"
proof (cases c)
  case (Start_Shutdown)
  with assms show ?thesis by (auto simp: start_shutdown_def owners_kept_def pool_ok_def)
qed (use assms in \<open>auto simp: Let_def wait_step adjust_step dest: add_work_step worker_step
      split: sum.splits prod.splits\<close>)

section \<open>Histories of a pool\<close>

lemma run_pool_append:
  "run_pool (cs @ ds) s =
     (case run_pool cs s of
        Inl e \<Rightarrow> Inl e
      | Inr (es, s') \<Rightarrow>
          (case run_pool ds s' of Inl e \<Rightarrow> Inl e | Inr (fs, s'') \<Rightarrow> Inr (es @ fs, s'')))"
  by (induction cs arbitrary: s) (auto split: sum.splits)

lemma accepted_Cons: "accepted (e # es) = accepted [e] @ accepted es"
  by (simp split: pool_event.splits)

lemma taken_Cons: "taken (e # es) = taken [e] @ taken es"
  by (simp split: pool_event.splits worker_event.splits)

lemma finished_Cons: "finished_items (e # es) = finished_items [e] @ finished_items es"
  by (simp split: pool_event.splits worker_event.splits)

lemma run_pool_owners:
  assumes "run_pool cs s = Inr (es, s')" and "pool_ok s"
  shows "pool_ok s' \<and>
    work_queue (pool s) @ accepted es = taken es @ work_queue (pool s') \<and>
    mset (in_work (workers s)) + mset (taken es) = mset (finished_items es) + mset (in_work (workers s')) \<and>
    tasks_processed (pool s') = tasks_processed (pool s) + of_nat (length (finished_items es))"
  using assms
proof (induction cs arbitrary: s es)
  case (Cons c cs)
  from Cons.prems(1) obtain e fs s1 where
    e: "pool_step c s = Inr (e, s1)" and r: "run_pool cs s1 = Inr (fs, s')" and es: "es = e # fs"
    by (auto split: sum.splits)
  from pool_step_owners [OF e Cons.prems(2)] have o: "owners_kept s e s1" and ok: "pool_ok s1" by auto
  note ih = Cons.IH [OF r ok]
  have "work_queue (pool s) @ accepted es = taken [e] @ work_queue (pool s1) @ accepted fs"
    using o es by (simp add: owners_kept_def accepted_Cons [of e fs] del: accepted.simps(2) flip: append_assoc)
  moreover have "mset (in_work (workers s)) + mset (taken es) =
      mset (finished_items [e]) + (mset (in_work (workers s1)) + mset (taken fs))"
    using o es by (simp add: owners_kept_def taken_Cons [of e fs] del: taken.simps(2) finished_items.simps(2) flip: add.assoc)
  ultimately show ?case
    using o ih es
    by (simp add: owners_kept_def taken_Cons [of e fs] finished_Cons [of e fs] ac_simps
        del: taken.simps(2) finished_items.simps(2))
qed simp

lemma pool_create_ok:
  assumes "thread_pool_create_config created c = Some s"
  shows "pool_ok s" and "work_queue (pool s) = []" and "workers s = replicate (nat (config_min_threads c)) Ready"
    and "tasks_processed (pool s) = 0"
  using assms by (auto simp: thread_pool_create_config_def pool_ok_def split: if_splits)

definition example_pool :: thread_pool_config where
  "example_pool =
     \<lparr>config_min_threads = 1, config_max_threads = 2, config_queue_size = 1, config_idle_timeout = 60\<rparr>"

definition example_start :: pool_system where
  "example_start =
     \<lparr>pool =
        \<lparr>work_queue = [], queue_size = 0, max_queue_size = 1, threads = [Some 0, None], thread_count = 1,
         min_threads = 1, max_threads = 2, active_threads = 0, idle_timeout = 60, shutdown = False,
         tasks_processed = 0, peak_queue_size = 0, peak_threads = 1\<rparr>,
      workers = [Ready], idle_waiters = [], idle_woken = []\<rparr>"

lemma example_created: "thread_pool_create_config (\<lambda>_. True) example_pool = Some example_start"
  by (simp add: thread_pool_create_config_def example_pool_def example_start_def upt_rec numeral_2_eq_2)

lemmas run_defs = thread_pool_add_work_def pool_defs thread_worker_def worker_look_def worker_wakes_def worker_done_def
  signal_idle_def wait_event_def thread_pool_wait_def wait_wakes_def wait_idle_def start_shutdown_def

text \<open>
  C18. Work is done in order and exactly once: in every history of a pool, whatever the order in
  which callers and workers get the mutex, the accepted items are the ones the workers took, in
  that order, followed by the queue; and every item taken is either finished or in the hands of
  one worker.  The statistics count the finished items.
\<close>

theorem pool_work_owned:
  assumes "thread_pool_create_config created c = Some s" and "run_pool cs s = Inr (es, s')"
  shows "accepted es = taken es @ work_queue (pool s') \<and>
    mset (taken es) = mset (finished_items es) + mset (in_work (workers s')) \<and>
    thread_pool_stats s' =
      (int (length (in_work (workers s'))), int (length (work_queue (pool s'))), of_nat (length (finished_items es)))"
  using run_pool_owners [OF assms(2) pool_create_ok(1) [OF assms(1)]] pool_create_ok [OF assms(1)]
  by (simp add: pool_ok_def thread_pool_stats_def)

lemma pool_work_owned_witness:
  "\<exists>es s'.
     run_pool [Add_Work True \<lparr>work_function = 1, work_argument = 5\<rparr>, Add_Work True \<lparr>work_function = 1, work_argument = 6\<rparr>,
       Worker_Runs 0 False 0, Worker_Runs 0 False 0] example_start = Inr (es, s') \<and>
     accepted es = taken es @ work_queue (pool s') \<and>
     work_queue (pool s') = [\<lparr>work_function = 1, work_argument = 6\<rparr>]"
proof -
  let ?cs = "[Add_Work True \<lparr>work_function = 1, work_argument = 5\<rparr>, Add_Work True \<lparr>work_function = 1, work_argument = 6\<rparr>,
    Worker_Runs 0 False 0, Worker_Runs 0 False 0]"
  obtain es s' where r: "run_pool ?cs example_start = Inr (es, s')"
    and q: "work_queue (pool s') = [\<lparr>work_function = 1, work_argument = 6\<rparr>]"
    by (simp add: run_defs example_start_def)
  from pool_work_owned [OF example_created r] q r show ?thesis by auto
qed

text \<open>The limits and the array, as long as the limits are not adjusted.\<close>

definition within_limits :: "thread_pool_config \<Rightarrow> pool_system \<Rightarrow> bool" where
  "within_limits c s \<longleftrightarrow>
     min_threads (pool s) = config_min_threads c \<and> max_threads (pool s) = config_max_threads c \<and>
     thread_count (pool s) \<le> config_max_threads c"

fun adjusts :: "pool_call \<Rightarrow> bool" where
  "adjusts (Adjust _ _ _) = True"
| "adjusts _ = False"

lemma step_within_limits:
  assumes "pool_ok s" and "within_limits c s" and "\<not> adjusts k"
  shows "\<exists>e s'. pool_step k s = Inr (e, s') \<and> within_limits c s'"
proof (cases k)
  case (Worker_Runs t timed_out now)
  with assms show ?thesis
    by (simp add: run_defs within_limits_def split: worker.split list.split prod.split)
next
  case (Add_Work created w)
  with assms show ?thesis
    by (auto simp: thread_pool_add_work_def pool_defs within_limits_def pool_ok_def)
qed (use assms in \<open>auto simp: run_defs within_limits_def\<close>)

lemma run_within_limits:
  assumes "pool_ok s" and "within_limits c s" and "\<forall>k \<in> set cs. \<not> adjusts k"
  shows "\<exists>es s'. run_pool cs s = Inr (es, s') \<and> pool_ok s' \<and> within_limits c s'"
  using assms
proof (induction cs arbitrary: s)
  case (Cons k cs)
  from step_within_limits [of s c k] Cons.prems obtain e s1 where
    e: "pool_step k s = Inr (e, s1)" and l: "within_limits c s1" by auto
  from pool_step_owners [OF e Cons.prems(1)] have "pool_ok s1" by simp
  from Cons.IH [OF this l] Cons.prems e show ?case by auto
qed simp

text \<open>
  C19. As long as the limits are not adjusted, no call fails: every handle that is stored fits the
  array, the counters of the pool are the length of the queue and the number of busy workers,
  and the number of threads stays between the configured limits.
\<close>

theorem pool_well_formed:
  assumes "thread_pool_create_config created c = Some s" and "\<forall>k \<in> set cs. \<not> adjusts k"
  shows "\<exists>es s'. run_pool cs s = Inr (es, s') \<and>
    queue_size (pool s') = int (length (work_queue (pool s'))) \<and>
    active_threads (pool s') = int (length (in_work (workers s'))) \<and>
    config_min_threads c \<le> thread_count (pool s') \<and> thread_count (pool s') \<le> config_max_threads c"
proof -
  have "within_limits c s"
    using assms(1) by (auto simp: thread_pool_create_config_def within_limits_def split: if_splits)
  from run_within_limits [OF pool_create_ok(1) [OF assms(1)] this assms(2)] show ?thesis
    by (auto simp: pool_ok_def within_limits_def)
qed

lemma pool_well_formed_witness:
  "\<exists>es s'. run_pool [Add_Work True \<lparr>work_function = 1, work_argument = 5\<rparr>, Worker_Runs 0 False 0, Worker_Runs 0 False 3]
      example_start = Inr (es, s') \<and>
     1 \<le> thread_count (pool s') \<and> thread_count (pool s') \<le> 2"
  using pool_well_formed [OF example_created, of "[Add_Work True \<lparr>work_function = 1, work_argument = 5\<rparr>,
      Worker_Runs 0 False 0, Worker_Runs 0 False 3]"]
  by (force simp: example_pool_def)

section \<open>What goes wrong\<close>

text \<open>New threads are written to the array before it grows.\<close>

lemma create_threads_overflow:
  assumes "lower \<le> max_threads (pool s)" and "int (length (threads (pool s))) < lower"
    and "0 \<le> thread_count (pool s)" and "thread_count (pool s) \<le> int (length (threads (pool s)))"
    and "lower \<le> thread_count (pool s) + int n"
  shows "create_threads lower (replicate n True) s = Inl Handle_Overflow"
  using assms
proof (induction n arbitrary: s)
  case (Suc n)
  let ?p = "count_thread ((pool s)\<lparr>threads := (threads (pool s))[nat (thread_count (pool s)) := Some (length (workers s))]\<rparr>)"
  show ?case
  proof (cases "thread_count (pool s) = int (length (threads (pool s)))")
    case True
    with Suc.prems show ?thesis by (simp add: set_handle_def Let_def)
  next
    case False
    have "create_threads lower (replicate n True) (s\<lparr>workers := workers s @ [Ready], pool := ?p\<rparr>) = Inl Handle_Overflow"
      using False Suc.prems by (intro Suc.IH) (auto simp: count_thread_def Let_def)
    with False Suc.prems show ?thesis by (simp add: set_handle_def Let_def)
  qed
qed simp

text \<open>
  Raising the minimum above the old maximum writes beyond the array: for every pool, adjusting
  to a minimum greater than the maximum it was created with stores the handle of a new thread
  behind the array, which is enlarged only afterwards.
\<close>

theorem pool_adjust_overflows:
  assumes "thread_pool_create_config created c = Some s" and "config_max_threads c < lower" and "lower \<le> upper"
  shows "thread_pool_adjust (replicate (nat lower) True) lower upper s = Inl Handle_Overflow"
proof -
  let ?s = "s\<lparr>pool := (pool s)\<lparr>min_threads := lower, max_threads := upper\<rparr>\<rparr>"
  have "create_threads lower (replicate (nat lower) True) ?s = Inl Handle_Overflow"
    using assms by (intro create_threads_overflow) (auto simp: thread_pool_create_config_def split: if_splits)
  with assms show ?thesis
    by (auto simp: thread_pool_adjust_def Let_def thread_pool_create_config_def split: if_splits)
qed

lemma pool_adjust_overflows_witness:
  "thread_pool_adjust (replicate (nat 3) True) 3 8 example_start = Inl Handle_Overflow"
  by (rule pool_adjust_overflows [OF example_created]) (simp_all add: example_pool_def)

text \<open>
  Destroying a pool does not wait for every worker: a worker that leaves because it was idle
  lowers the number of threads but keeps its place in the array, so that the pool joins the one
  that left and is freed while the other is still at work.
\<close>

theorem pool_destroy_early:
  "\<exists>es s'.
     run_pool [Add_Work True w, Add_Work True v, Worker_Runs 0 False 0, Worker_Runs 1 False 0, Worker_Runs 0 False 1,
       Worker_Runs 0 False 1, Worker_Runs 0 True 61, Start_Shutdown] example_start = Inr (es, s') \<and>
     accepted es = [w, v] \<and> workers s' = [Gone, Working v] \<and> thread_pool_destroy s'"
  by (simp add: run_defs example_start_def thread_pool_destroy_def)

text \<open>Without new work nobody signals once more.\<close>

fun adds_work :: "pool_call \<Rightarrow> bool" where
  "adds_work (Add_Work _ _) = True"
| "adds_work _ = False"

definition quiet :: "nat \<Rightarrow> pool_system \<Rightarrow> bool" where
  "quiet d s \<longleftrightarrow>
     work_queue (pool s) = [] \<and> queue_size (pool s) = 0 \<and> active_threads (pool s) = 0 \<and> in_work (workers s) = [] \<and>
     d \<in> set (idle_waiters s) \<and> d \<notin> set (idle_woken s)"

lemma in_work_quiet:
  "in_work ws = [] \<Longrightarrow> t < length ws \<Longrightarrow> item_of x = [] \<Longrightarrow> in_work (ws[t := x]) = []"
  using in_work_update [of t ws x] by auto

lemma not_working:
  assumes "in_work ws = []" and "t < length ws" shows "ws ! t \<noteq> Working w"
proof
  assume "ws ! t = Working w"
  with assms(2) have "w \<in> set (in_work ws)"
    by (force simp: in_work_def dest: nth_mem)
  with assms(1) show False by simp
qed

lemma step_quiet:
  assumes "pool_step k s = Inr (e, s')" and "quiet d s" and "\<not> adds_work k" and "k \<noteq> Wait d"
  shows "quiet d s' \<and> e \<noteq> Returned d"
proof (cases k)
  case (Worker_Runs t timed_out now)
  show ?thesis
  proof (cases "length (workers s) \<le> t")
    case True
    with Worker_Runs assms show ?thesis by (auto simp: thread_worker_def)
  next
    case False
    with Worker_Runs assms not_working [of "workers s" t] in_work_quiet [of "workers s" t] show ?thesis
      by (cases "workers s ! t")
        (auto simp: thread_worker_def worker_look_def worker_wakes_def quiet_def Let_def split: if_splits)
  qed
next
  case (Adjust cs lower upper)
  with assms show ?thesis
    by (auto simp: thread_pool_adjust_def Let_def quiet_def same_work_def
        dest!: create_threads_step split: if_splits sum.splits bool.splits)
qed (use assms in \<open>auto simp: run_defs quiet_def split: if_splits dest: notin_set_remove1\<close>)

lemma run_quiet:
  assumes "run_pool cs s = Inr (es, s')" and "quiet d s" and "\<forall>k \<in> set cs. \<not> adds_work k \<and> k \<noteq> Wait d"
  shows "quiet d s' \<and> Returned d \<notin> set es"
  using assms
proof (induction cs arbitrary: s es)
  case (Cons k cs)
  from Cons.prems(1) obtain e fs s1 where
    e: "pool_step k s = Inr (e, s1)" and r: "run_pool cs s1 = Inr (fs, s')" and es: "es = e # fs"
    by (auto split: sum.splits)
  from step_quiet [OF e Cons.prems(2)] Cons.prems(3) have "quiet d s1" "e \<noteq> Returned d" by auto
  with Cons.IH [OF r] Cons.prems(3) es show ?case by auto
qed simp

text \<open>
  C20. Of two callers that wait for the pool to be idle only one is told: when the last worker
  finishes it signals once, so that the second caller stays blocked, whatever workers and
  callers do later, until somebody adds work again.
\<close>

theorem pool_wait_lost:
  assumes "thread_pool_create_config created conf = Some s" and "c \<noteq> d"
    and "\<forall>k \<in> set cs. \<not> adds_work k \<and> k \<noteq> Wait d"
    and "run_pool ([Add_Work True w, Worker_Runs 0 False 0, Wait c, Wait d, Worker_Runs 0 False 1] @ cs) s = Inr (es, s')"
  shows "Returned d \<notin> set es \<and> d \<in> set (idle_waiters s') \<and> thread_pool_wait d s' = (True, s')"
proof -
  let ?first = "[Add_Work True w, Worker_Runs 0 False 0, Wait c, Wait d, Worker_Runs 0 False 1]"
  have s: "work_queue (pool s) = []" "queue_size (pool s) = 0" "0 < max_queue_size (pool s)" "active_threads (pool s) = 0"
    "\<not> shutdown (pool s)" "idle_waiters s = []" "idle_woken s = []"
    and ws: "workers s = replicate (nat (config_min_threads conf)) Ready" "0 < config_min_threads conf"
    using assms(1) by (auto simp: thread_pool_create_config_def split: if_splits)
  obtain rest where r: "workers s = Ready # rest" "in_work rest = []"
    using ws by (cases "nat (config_min_threads conf)") auto
  obtain es1 s1 where one: "run_pool ?first s = Inr (es1, s1)" and q: "quiet d s1" and e1: "Returned d \<notin> set es1"
    using s r assms(2) by (simp add: run_defs quiet_def in_work_def)
  from one assms(4) obtain es2 where two: "run_pool cs s1 = Inr (es2, s')" and es: "es = es1 @ es2"
    by (auto simp only: run_pool_append split: sum.splits)
  from run_quiet [OF two q assms(3)] e1 es show ?thesis
    by (auto simp: quiet_def thread_pool_wait_def wait_idle_def)
qed

lemma pool_wait_lost_witness:
  "\<exists>es s'. run_pool ([Add_Work True \<lparr>work_function = 1, work_argument = 5\<rparr>, Worker_Runs 0 False 0, Wait 1, Wait 2, Worker_Runs 0 False 1] @
       [Wait_Woken 1, Worker_Runs 0 False 2, Wait_Woken 2]) example_start = Inr (es, s') \<and>
     Returned 1 \<in> set es \<and> Returned 2 \<notin> set es \<and> 2 \<in> set (idle_waiters s')"
proof -
  let ?w = "\<lparr>work_function = 1, work_argument = 5\<rparr>"
  let ?cs = "[Wait_Woken 1, Worker_Runs 0 False 2, Wait_Woken 2]"
  obtain es s' where r: "run_pool ([Add_Work True ?w, Worker_Runs 0 False 0, Wait 1, Wait 2, Worker_Runs 0 False 1] @ ?cs)
      example_start = Inr (es, s')" and one: "Returned 1 \<in> set es"
    by (simp add: run_defs example_start_def)
  from pool_wait_lost [OF example_created _ _ r] one r show ?thesis by auto
qed

end
