(* ===== verification/Lockfree_Queue.thy ===== *)
theory Lockfree_Queue
  imports Prelude
begin

text \<open>
  The lock-free work queue, \<^verbatim>\<open>src/src/components/core/lockfree_queue.c\<close>: a linked list with a
  sentinel at its head, and a pool of free nodes.  Threads are not kept apart by a lock, so each
  function is a program counter with its local variables, and a step makes one access to shared
  memory: an atomic load or store, a compare-exchange, or the plain copy of a node's item.  What a
  thread writes to a node of its own goes with the next such access.  Atomic operations are
  sequentially consistent, as \<^verbatim>\<open>atomic_load\<close> and its like are by default.

  Nodes are numbers.  \<open>weak\<close> tells that a weak compare-exchange fails for no reason, \<open>oom\<close> that
  an allocation fails (creating a queue, all succeed).  What a new node holds is what memory held
  there before.
\<close>

section \<open>Data\<close>

record queue_item =
  item_function :: nat
  item_data :: nat
  item_data_size :: c_size

definition zero_item :: queue_item where
  "zero_item = \<lparr>item_function = 0, item_data = 0, item_data_size = 0\<rparr>"

record lockfree_queue =
  node_next :: "nat \<Rightarrow> nat option"
  node_work :: "nat \<Rightarrow> queue_item"
  fresh_node :: nat
  q_head :: nat
  q_tail :: nat
  q_size :: c_size
  enqueue_count :: c_int64
  dequeue_count :: c_int64
  q_max_size :: c_size
  free_nodes :: "nat option"
  node_pool_size :: c_size
  nodes_allocated :: c_size

definition set_next :: "nat \<Rightarrow> nat option \<Rightarrow> lockfree_queue \<Rightarrow> lockfree_queue" where
  "set_next n p q = q\<lparr>node_next := (node_next q)(n := p)\<rparr>"

definition set_work :: "nat \<Rightarrow> queue_item \<Rightarrow> lockfree_queue \<Rightarrow> lockfree_queue" where
  "set_work n i q = q\<lparr>node_work := (node_work q)(n := i)\<rparr>"

definition add_pool_node :: "lockfree_queue \<Rightarrow> lockfree_queue" where
  "add_pool_node q =
     (let n = fresh_node q
      in set_next n (free_nodes q) q
           \<lparr>fresh_node := n + 1, free_nodes := Some n, nodes_allocated := nodes_allocated q + 1\<rparr>)"

definition lockfree_queue_create :: "(nat \<Rightarrow> nat option) \<Rightarrow> (nat \<Rightarrow> queue_item) \<Rightarrow> c_size \<Rightarrow> c_size \<Rightarrow> lockfree_queue" where
  "lockfree_queue_create nx wk max_size pool_size =
     (let pool = (if 0 < pool_size then pool_size else 32)
      in (add_pool_node ^^ unat pool)
           \<lparr>node_next = nx(0 := None), node_work = wk(0 := zero_item), fresh_node = 1, q_head = 0, q_tail = 0,
            q_size = 0, enqueue_count = 0, dequeue_count = 0, q_max_size = max_size, free_nodes = None,
            node_pool_size = pool, nodes_allocated = 1\<rparr>)"

section \<open>The pool of nodes\<close>

datatype alloc_pc = Alloc_Load | Alloc_Next nat | Alloc_Cas nat "nat option" | Alloc_New

datatype alloc_result = Alloc_At alloc_pc | Alloc_Returns "nat option"

text \<open>The loop runs while there is a free node.\<close>

definition alloc_loop :: "nat option \<Rightarrow> alloc_result" where
  "alloc_loop node = Alloc_At (case node of None \<Rightarrow> Alloc_New | Some n \<Rightarrow> Alloc_Next n)"

fun allocate_node :: "bool \<Rightarrow> bool \<Rightarrow> alloc_pc \<Rightarrow> lockfree_queue \<Rightarrow> alloc_result \<times> lockfree_queue" where
  "allocate_node weak oom Alloc_Load q = (alloc_loop (free_nodes q), q)"
| "allocate_node weak oom (Alloc_Next n) q = (Alloc_At (Alloc_Cas n (node_next q n)), q)"
| "allocate_node weak oom (Alloc_Cas n nx) q =
     (if free_nodes q = Some n \<and> \<not> weak then (Alloc_Returns (Some n), q\<lparr>free_nodes := nx\<rparr>)
      else (Alloc_At Alloc_Load, q))"
| "allocate_node weak oom Alloc_New q =
     (if oom then (Alloc_Returns None, q)
      else (Alloc_Returns (Some (fresh_node q)),
            q\<lparr>fresh_node := fresh_node q + 1, nodes_allocated := nodes_allocated q + 1\<rparr>))"

datatype free_pc = Free_Load | Free_Store "nat option" | Free_Cas "nat option"

text \<open>\<open>None\<close> when the function returns.\<close>

fun free_node :: "bool \<Rightarrow> nat \<Rightarrow> free_pc \<Rightarrow> lockfree_queue \<Rightarrow> free_pc option \<times> lockfree_queue" where
  "free_node weak n Free_Load q = (Some (Free_Store (free_nodes q)), set_work n zero_item q)"
| "free_node weak n (Free_Store fh) q = (Some (Free_Cas fh), set_next n fh q)"
| "free_node weak n (Free_Cas fh) q =
     (if free_nodes q = fh \<and> \<not> weak then (None, q\<lparr>free_nodes := Some n\<rparr>)
      else (Some (Free_Store (free_nodes q)), q))"

section \<open>Enqueue\<close>

datatype enq_pc =
    Enq_Size
  | Enq_Alloc alloc_pc
  | Enq_Init nat
  | Enq_Tail nat
  | Enq_Next nat nat
  | Enq_Check nat nat "nat option"
  | Enq_Link nat nat
  | Enq_Swing nat nat
  | Enq_Help nat nat nat
  | Enq_Count
  | Enq_Total

datatype enq_result = Enq_At enq_pc | Enq_Returns bool

definition cas_tail :: "bool \<Rightarrow> nat \<Rightarrow> nat \<Rightarrow> lockfree_queue \<Rightarrow> lockfree_queue" where
  "cas_tail weak t n q = (if q_tail q = t \<and> \<not> weak then q\<lparr>q_tail := n\<rparr> else q)"

fun lockfree_queue_enqueue ::
    "bool \<Rightarrow> bool \<Rightarrow> queue_item \<Rightarrow> enq_pc \<Rightarrow> lockfree_queue \<Rightarrow> enq_result \<times> lockfree_queue" where
  "lockfree_queue_enqueue weak oom item Enq_Size q =
     (if 0 < q_max_size q \<and> q_max_size q \<le> q_size q then (Enq_Returns False, q)
      else (Enq_At (Enq_Alloc Alloc_Load), q))"
| "lockfree_queue_enqueue weak oom item (Enq_Alloc pc) q =
     (let (r, q') = allocate_node weak oom pc q
      in (case r of
            Alloc_At pc' \<Rightarrow> Enq_At (Enq_Alloc pc')
          | Alloc_Returns None \<Rightarrow> Enq_Returns False
          | Alloc_Returns (Some n) \<Rightarrow> Enq_At (Enq_Init n), q'))"
| "lockfree_queue_enqueue weak oom item (Enq_Init n) q =
     (Enq_At (Enq_Tail n), set_work n item (set_next n None q))"
| "lockfree_queue_enqueue weak oom item (Enq_Tail n) q = (Enq_At (Enq_Next n (q_tail q)), q)"
| "lockfree_queue_enqueue weak oom item (Enq_Next n t) q = (Enq_At (Enq_Check n t (node_next q t)), q)"
| "lockfree_queue_enqueue weak oom item (Enq_Check n t nx) q =
     (Enq_At (if t = q_tail q
              then (case nx of None \<Rightarrow> Enq_Link n t | Some x \<Rightarrow> Enq_Help n t x)
              else Enq_Tail n), q)"
| "lockfree_queue_enqueue weak oom item (Enq_Link n t) q =
     (if node_next q t = None \<and> \<not> weak then (Enq_At (Enq_Swing n t), set_next t (Some n) q)
      else (Enq_At (Enq_Tail n), q))"
| "lockfree_queue_enqueue weak oom item (Enq_Swing n t) q = (Enq_At Enq_Count, cas_tail weak t n q)"
| "lockfree_queue_enqueue weak oom item (Enq_Help n t x) q = (Enq_At (Enq_Tail n), cas_tail weak t x q)"
| "lockfree_queue_enqueue weak oom item Enq_Count q = (Enq_At Enq_Total, q\<lparr>q_size := q_size q + 1\<rparr>)"
| "lockfree_queue_enqueue weak oom item Enq_Total q =
     (Enq_Returns True, q\<lparr>enqueue_count := enqueue_count q + 1\<rparr>)"

section \<open>Dequeue\<close>

datatype deq_pc =
    Deq_Head
  | Deq_Tail nat
  | Deq_Next nat nat
  | Deq_Check nat nat "nat option"
  | Deq_Help nat nat
  | Deq_Read nat nat
  | Deq_Cas nat nat queue_item
  | Deq_Free nat queue_item free_pc
  | Deq_Count queue_item
  | Deq_Total queue_item

datatype deq_result = Deq_At deq_pc | Deq_Returns "queue_item option"

fun lockfree_queue_dequeue :: "bool \<Rightarrow> deq_pc \<Rightarrow> lockfree_queue \<Rightarrow> deq_result \<times> lockfree_queue" where
  "lockfree_queue_dequeue weak Deq_Head q = (Deq_At (Deq_Tail (q_head q)), q)"
| "lockfree_queue_dequeue weak (Deq_Tail h) q = (Deq_At (Deq_Next h (q_tail q)), q)"
| "lockfree_queue_dequeue weak (Deq_Next h t) q = (Deq_At (Deq_Check h t (node_next q h)), q)"
| "lockfree_queue_dequeue weak (Deq_Check h t nx) q =
     (if h \<noteq> q_head q then (Deq_At Deq_Head, q)
      else if h = t then
        (case nx of None \<Rightarrow> (Deq_Returns None, q) | Some x \<Rightarrow> (Deq_At (Deq_Help t x), q))
      else
        (case nx of None \<Rightarrow> (Deq_At Deq_Head, q) | Some x \<Rightarrow> (Deq_At (Deq_Read h x), q)))"
| "lockfree_queue_dequeue weak (Deq_Help t x) q = (Deq_At Deq_Head, cas_tail weak t x q)"
| "lockfree_queue_dequeue weak (Deq_Read h x) q = (Deq_At (Deq_Cas h x (node_work q x)), q)"
| "lockfree_queue_dequeue weak (Deq_Cas h x item) q =
     (if q_head q = h \<and> \<not> weak then (Deq_At (Deq_Free h item Free_Load), q\<lparr>q_head := x\<rparr>)
      else (Deq_At Deq_Head, q))"
| "lockfree_queue_dequeue weak (Deq_Free h item pc) q =
     (let (r, q') = free_node weak h pc q
      in (Deq_At (case r of Some pc' \<Rightarrow> Deq_Free h item pc' | None \<Rightarrow> Deq_Count item), q'))"
| "lockfree_queue_dequeue weak (Deq_Count item) q = (Deq_At (Deq_Total item), q\<lparr>q_size := q_size q - 1\<rparr>)"
| "lockfree_queue_dequeue weak (Deq_Total item) q =
     (Deq_Returns (Some item), q\<lparr>dequeue_count := dequeue_count q + 1\<rparr>)"

text \<open>Draining dequeues until the queue is empty, counting what it removes.\<close>

datatype drain_result = Drain_At c_size deq_pc | Drain_Returns c_size

definition lockfree_queue_drain :: "bool \<Rightarrow> c_size \<Rightarrow> deq_pc \<Rightarrow> lockfree_queue \<Rightarrow> drain_result \<times> lockfree_queue" where
  "lockfree_queue_drain weak drained pc q =
     (let (r, q') = lockfree_queue_dequeue weak pc q
      in (case r of
            Deq_At pc' \<Rightarrow> Drain_At drained pc'
          | Deq_Returns (Some _) \<Rightarrow> Drain_At (drained + 1) Deq_Head
          | Deq_Returns None \<Rightarrow> Drain_Returns drained, q'))"

section \<open>Statistics\<close>

definition lockfree_queue_size :: "lockfree_queue \<Rightarrow> c_size" where
  "lockfree_queue_size q = q_size q"

definition lockfree_queue_empty :: "lockfree_queue \<Rightarrow> bool" where
  "lockfree_queue_empty q \<longleftrightarrow> q_size q = 0"

record queue_stats =
  current_size :: c_size
  stats_max_size :: c_size
  total_enqueues :: c_int64
  total_dequeues :: c_int64
  stats_nodes_allocated :: c_size
  stats_node_pool_size :: c_size

definition lockfree_queue_get_stats :: "lockfree_queue \<Rightarrow> queue_stats" where
  "lockfree_queue_get_stats q =
     \<lparr>current_size = q_size q, stats_max_size = q_max_size q, total_enqueues = enqueue_count q,
      total_dequeues = dequeue_count q, stats_nodes_allocated = nodes_allocated q,
      stats_node_pool_size = node_pool_size q\<rparr>"

section \<open>Threads\<close>

datatype queue_thread =
    Idle
  | In_Enqueue queue_item enq_pc
  | In_Dequeue deq_pc
  | In_Drain c_size deq_pc

datatype queue_call = Call_Enqueue queue_item | Call_Dequeue | Call_Drain | Go bool bool

definition enqueue_thread :: "queue_item \<Rightarrow> enq_result \<Rightarrow> queue_thread" where
  "enqueue_thread item r = (case r of Enq_At pc \<Rightarrow> In_Enqueue item pc | Enq_Returns _ \<Rightarrow> Idle)"

definition dequeue_thread :: "deq_result \<Rightarrow> queue_thread" where
  "dequeue_thread r = (case r of Deq_At pc \<Rightarrow> In_Dequeue pc | Deq_Returns _ \<Rightarrow> Idle)"

definition drain_thread :: "drain_result \<Rightarrow> queue_thread" where
  "drain_thread r = (case r of Drain_At k pc \<Rightarrow> In_Drain k pc | Drain_Returns _ \<Rightarrow> Idle)"

text \<open>A thread that is idle starts a call; a thread in a call makes its next access.\<close>

fun queue_thread_step :: "queue_call \<Rightarrow> queue_thread \<Rightarrow> lockfree_queue \<Rightarrow> queue_thread \<times> lockfree_queue" where
  "queue_thread_step c Idle q =
     (case c of
        Call_Enqueue item \<Rightarrow> In_Enqueue item Enq_Size
      | Call_Dequeue \<Rightarrow> In_Dequeue Deq_Head
      | Call_Drain \<Rightarrow> In_Drain 0 Deq_Head
      | Go _ _ \<Rightarrow> Idle, q)"
| "queue_thread_step c (In_Enqueue item pc) q =
     (case c of
        Go weak oom \<Rightarrow> apfst (enqueue_thread item) (lockfree_queue_enqueue weak oom item pc q)
      | _ \<Rightarrow> (In_Enqueue item pc, q))"
| "queue_thread_step c (In_Dequeue pc) q =
     (case c of
        Go weak oom \<Rightarrow> apfst dequeue_thread (lockfree_queue_dequeue weak pc q)
      | _ \<Rightarrow> (In_Dequeue pc, q))"
| "queue_thread_step c (In_Drain k pc) q =
     (case c of
        Go weak oom \<Rightarrow> apfst drain_thread (lockfree_queue_drain weak k pc q)
      | _ \<Rightarrow> (In_Drain k pc, q))"

end
