(* ===== verification/Lockfree_Queue_Props.thy ===== *)
theory Lockfree_Queue_Props
  imports Lockfree_Queue
begin

text \<open>
  Properties of the lock-free queue.  With one thread that enqueues and one that dequeues, every
  interleaving of their memory accesses takes the items out in the order in which they were put
  in; the proof keeps the list of nodes from the head, the list of free nodes, and the nodes each
  thread holds.  With more threads the node pool makes the compare-exchange of the head of
  the free list succeed on a node that has been used in between (the ABA problem), and items
  are lost.
\<close>

section \<open>Linked nodes\<close>

fun first_of :: "nat list \<Rightarrow> nat option" where
  "first_of [] = None"
| "first_of (n # _) = Some n"

fun linked :: "(nat \<Rightarrow> nat option) \<Rightarrow> nat list \<Rightarrow> bool" where
  "linked nx [] = True"
| "linked nx (n # ns) = (nx n = first_of ns \<and> linked nx ns)"

lemma first_of_eq [simp]:
  "first_of ns = None \<longleftrightarrow> ns = []" "first_of ns = Some n \<longleftrightarrow> (\<exists>r. ns = n # r)"
  "None = first_of ns \<longleftrightarrow> ns = []" "Some n = first_of ns \<longleftrightarrow> (\<exists>r. ns = n # r)"
  by (cases ns; auto)+

lemma linked_cong: "(\<And>n. n \<in> set ns \<Longrightarrow> nx n = nx' n) \<Longrightarrow> linked nx ns = linked nx' ns"
  by (induction ns) auto

lemma linked_upd [simp]: "n \<notin> set ns \<Longrightarrow> linked (nx(n := p)) ns = linked nx ns"
  by (rule linked_cong) auto

lemma linked_last: "linked nx ns \<Longrightarrow> ns \<noteq> [] \<Longrightarrow> nx (last ns) = None"
  by (induction ns) auto

lemma linked_None: "linked nx ns \<Longrightarrow> n \<in> set ns \<Longrightarrow> nx n = None \<Longrightarrow> n = last ns"
  by (induction ns) auto

lemma linked_Some: "linked nx ns \<Longrightarrow> n \<in> set ns \<Longrightarrow> nx n = Some x \<Longrightarrow> x \<in> set ns"
  by (induction ns) auto

lemma linked_snoc:
  "linked nx ns \<Longrightarrow> ns \<noteq> [] \<Longrightarrow> distinct (ns @ [n]) \<Longrightarrow> nx n = None \<Longrightarrow>
   linked (nx(last ns := Some n)) (ns @ [n])"
proof (induction ns)
  case (Cons a ns)
  then show ?case
  proof (cases ns)
    case (Cons b r)
    with Cons.prems have "last ns \<noteq> a" "last ns \<in> set ns" by auto
    with Cons.prems Cons.IH Cons show ?thesis by (auto simp del: last.simps simp: last_ConsR)
  qed auto
qed simp

section \<open>The memory of a queue\<close>

text \<open>
  The nodes from the head, the free nodes, the node the producer holds and the one the consumer
  holds are different from each other; the tail is the last node or the one before.
\<close>

definition memory_ok :: "lockfree_queue \<Rightarrow> nat list \<Rightarrow> nat list \<Rightarrow> nat list \<Rightarrow> nat list \<Rightarrow> bool" where
  "memory_ok q ns fs ps cs \<longleftrightarrow>
     ns \<noteq> [] \<and> linked (node_next q) ns \<and> linked (node_next q) fs \<and>
     q_head q = hd ns \<and> free_nodes q = first_of fs \<and>
     q_tail q \<in> set ns \<and> (q_tail q = last ns \<or> node_next q (q_tail q) = Some (last ns)) \<and>
     distinct (ns @ fs @ ps @ cs) \<and> (\<forall>n \<in> set (ns @ fs @ ps @ cs). n < fresh_node q)"

definition queue_items :: "lockfree_queue \<Rightarrow> nat list \<Rightarrow> queue_item list" where
  "queue_items q ns = map (node_work q) (tl ns)"

lemma set_node_simps [simp]:
  "node_next (set_next n p q) = (node_next q)(n := p)" "node_work (set_next n p q) = node_work q"
  "node_work (set_work n i q) = (node_work q)(n := i)" "node_next (set_work n i q) = node_next q"
  "q_head (set_next n p q) = q_head q" "q_tail (set_next n p q) = q_tail q" "free_nodes (set_next n p q) = free_nodes q"
  "q_head (set_work n i q) = q_head q" "q_tail (set_work n i q) = q_tail q" "free_nodes (set_work n i q) = free_nodes q"
  by (simp_all add: set_next_def set_work_def)

lemma map_work_set [simp]: "n \<notin> set ns \<Longrightarrow> map ((node_work q)(n := i)) (tl ns) = map (node_work q) (tl ns)"
  by (cases ns) auto

lemma memory_pop:
  "memory_ok q ns (n # fs) [] cs \<Longrightarrow> memory_ok (q\<lparr>free_nodes := node_next q n\<rparr>) ns fs [n] cs"
  by (auto simp: memory_ok_def)

lemma memory_fresh:
  "memory_ok q ns fs [] cs \<Longrightarrow>
   memory_ok (q\<lparr>fresh_node := fresh_node q + 1, nodes_allocated := k\<rparr>) ns fs [fresh_node q] cs"
  by (auto simp: memory_ok_def less_Suc_eq)

lemma memory_link:
  assumes ok: "memory_ok q ns fs [n] cs" and new: "node_next q n = None" and t: "q_tail q = last ns"
  shows "memory_ok (set_next (last ns) (Some n) q) (ns @ [n]) fs [] cs"
proof -
  have ns: "ns \<noteq> []" and l: "linked (node_next q) ns" "linked (node_next q) fs"
    and d: "distinct (ns @ fs @ [n] @ cs)"
    using ok by (simp_all add: memory_ok_def)
  from ns have last: "last ns \<in> set ns" by simp
  with d have "last ns \<notin> set fs" by auto
  with l(2) have "linked ((node_next q)(last ns := Some n)) fs" by simp
  moreover from l(1) ns d new have "linked ((node_next q)(last ns := Some n)) (ns @ [n])"
    by (intro linked_snoc) auto
  moreover have "hd (ns @ [n]) = hd ns" using ns by simp
  ultimately show ?thesis
    using ok ns d last unfolding memory_ok_def set_next_def by (auto simp: t)
qed

lemma memory_tail: "memory_ok q ns fs ps cs \<Longrightarrow> memory_ok (q\<lparr>q_tail := last ns\<rparr>) ns fs ps cs"
  by (simp add: memory_ok_def)

lemma memory_dequeue:
  "memory_ok q (h # x # ns) fs ps [] \<Longrightarrow> q_tail q \<noteq> h \<Longrightarrow> memory_ok (q\<lparr>q_head := x\<rparr>) (x # ns) fs ps [h]"
  by (auto simp: memory_ok_def)

lemma memory_push:
  "memory_ok q ns fs ps [h] \<Longrightarrow> node_next q h = first_of fs \<Longrightarrow>
   memory_ok (q\<lparr>free_nodes := Some h\<rparr>) ns (h # fs) ps []"
  by (auto simp: memory_ok_def)

lemma memory_own:
  assumes "memory_ok q ns fs ps cs" and "n \<in> set ps \<union> set cs"
  shows "memory_ok (set_next n p q) ns fs ps cs"
proof -
  have "n \<notin> set ns" "n \<notin> set fs" using assms by (auto simp: memory_ok_def)
  moreover from this have "q_tail q \<noteq> n" using assms(1) by (auto simp: memory_ok_def)
  ultimately show ?thesis using assms(1) by (simp add: memory_ok_def set_next_def)
qed

lemma memory_irrelevant [simp]:
  "memory_ok (set_work n i q) ns fs ps cs = memory_ok q ns fs ps cs"
  "memory_ok (q\<lparr>q_size := k\<rparr>) ns fs ps cs = memory_ok q ns fs ps cs"
  "memory_ok (q\<lparr>enqueue_count := l\<rparr>) ns fs ps cs = memory_ok q ns fs ps cs"
  "memory_ok (q\<lparr>dequeue_count := l\<rparr>) ns fs ps cs = memory_ok q ns fs ps cs"
  by (simp_all add: memory_ok_def set_work_def)

section \<open>What a thread knows\<close>

text \<open>The producer: \<open>l\<close> is the last node, \<open>fs\<close> the free nodes.\<close>

fun alloc_ok :: "alloc_pc \<Rightarrow> lockfree_queue \<Rightarrow> nat list \<Rightarrow> bool" where
  "alloc_ok (Alloc_Next n) q fs \<longleftrightarrow> n \<in> set fs"
| "alloc_ok (Alloc_Cas n nx) q fs \<longleftrightarrow> n \<in> set fs \<and> nx = node_next q n"
| "alloc_ok _ q fs \<longleftrightarrow> True"

fun enq_own :: "enq_pc \<Rightarrow> nat list" where
  "enq_own (Enq_Init n) = [n]"
| "enq_own (Enq_Tail n) = [n]"
| "enq_own (Enq_Next n t) = [n]"
| "enq_own (Enq_Check n t nx) = [n]"
| "enq_own (Enq_Link n t) = [n]"
| "enq_own (Enq_Help n t x) = [n]"
| "enq_own _ = []"

fun enq_node :: "enq_pc \<Rightarrow> nat option" where
  "enq_node (Enq_Tail n) = Some n"
| "enq_node (Enq_Next n t) = Some n"
| "enq_node (Enq_Check n t nx) = Some n"
| "enq_node (Enq_Link n t) = Some n"
| "enq_node (Enq_Help n t x) = Some n"
| "enq_node _ = None"

fun enq_view :: "enq_pc \<Rightarrow> lockfree_queue \<Rightarrow> nat \<Rightarrow> nat list \<Rightarrow> bool" where
  "enq_view (Enq_Alloc pc) q l fs \<longleftrightarrow> alloc_ok pc q fs"
| "enq_view (Enq_Next n t) q l fs \<longleftrightarrow> (t = l \<longrightarrow> q_tail q = l)"
| "enq_view (Enq_Check n t nx) q l fs \<longleftrightarrow>
     (t = l \<longrightarrow> q_tail q = l \<and> nx = None) \<and> (t \<noteq> l \<and> t = q_tail q \<longrightarrow> nx = Some l)"
| "enq_view (Enq_Link n t) q l fs \<longleftrightarrow> t = l \<and> q_tail q = l"
| "enq_view (Enq_Swing n t) q l fs \<longleftrightarrow> n = l"
| "enq_view (Enq_Help n t x) q l fs \<longleftrightarrow> t \<noteq> l \<and> (q_tail q = t \<longrightarrow> x = l)"
| "enq_view _ q l fs \<longleftrightarrow> True"

definition enq_ok :: "queue_item \<Rightarrow> enq_pc \<Rightarrow> lockfree_queue \<Rightarrow> nat \<Rightarrow> nat list \<Rightarrow> bool" where
  "enq_ok item pc q l fs \<longleftrightarrow>
     enq_view pc q l fs \<and> (\<forall>n. enq_node pc = Some n \<longrightarrow> node_next q n = None \<and> node_work q n = item)"

text \<open>The consumer.\<close>

fun deq_own :: "deq_pc \<Rightarrow> nat list" where
  "deq_own (Deq_Free h item pc) = [h]"
| "deq_own _ = []"

fun deq_ok :: "deq_pc \<Rightarrow> lockfree_queue \<Rightarrow> bool" where
  "deq_ok (Deq_Tail h) q \<longleftrightarrow> h = q_head q"
| "deq_ok (Deq_Next h t) q \<longleftrightarrow> h = q_head q \<and> (t \<noteq> h \<longrightarrow> q_tail q \<noteq> h)"
| "deq_ok (Deq_Check h t nx) q \<longleftrightarrow>
     h = q_head q \<and> (t \<noteq> h \<longrightarrow> q_tail q \<noteq> h) \<and> (\<forall>x. nx = Some x \<longrightarrow> node_next q h = Some x)"
| "deq_ok (Deq_Help t x) q \<longleftrightarrow> t = q_head q \<and> node_next q t = Some x"
| "deq_ok (Deq_Read h x) q \<longleftrightarrow> h = q_head q \<and> node_next q h = Some x \<and> q_tail q \<noteq> h"
| "deq_ok (Deq_Cas h x item) q \<longleftrightarrow>
     h = q_head q \<and> node_next q h = Some x \<and> q_tail q \<noteq> h \<and> item = node_work q x"
| "deq_ok (Deq_Free h item (Free_Cas fh)) q \<longleftrightarrow> node_next q h = fh"
| "deq_ok _ q \<longleftrightarrow> True"

section \<open>Steps of the producer\<close>

text \<open>What a step of the producer leaves to the consumer.\<close>

definition producer_keeps :: "lockfree_queue \<Rightarrow> nat list \<Rightarrow> nat list \<Rightarrow> lockfree_queue \<Rightarrow> bool" where
  "producer_keeps q ns cs q' \<longleftrightarrow>
     q_head q' = q_head q \<and>
     (\<forall>n \<in> set ns. \<forall>x. node_next q n = Some x \<longrightarrow> node_next q' n = Some x) \<and>
     (\<forall>n \<in> set cs. node_next q' n = node_next q n) \<and>
     (\<forall>n \<in> set ns. node_work q' n = node_work q n) \<and>
     (q_tail q \<noteq> q_head q \<longrightarrow> q_tail q' \<noteq> q_head q)"

lemma memory_next_in:
  "memory_ok q ns fs ps cs \<Longrightarrow> n \<in> set ns \<Longrightarrow> node_next q n = Some x \<Longrightarrow> x \<in> set ns"
  by (auto simp: memory_ok_def intro: linked_Some)

lemma head_in: "memory_ok q ns fs ps cs \<Longrightarrow> q_head q \<in> set ns"
  by (simp add: memory_ok_def)

lemma deq_ok_kept:
  assumes "deq_ok pc q" and "producer_keeps q ns (deq_own pc) q'" and "memory_ok q ns fs ps (deq_own pc)"
  shows "deq_ok pc q'"
proof (cases "(pc, q)" rule: deq_ok.cases)
  case (6 h x item)
  with assms have "x \<in> set ns" by (auto intro: memory_next_in dest: head_in)
  with 6 assms head_in [OF assms(3)] show ?thesis by (auto simp: producer_keeps_def)
qed (use assms head_in [OF assms(3)] in \<open>auto simp: producer_keeps_def\<close>)

definition enq_result_own :: "enq_result \<Rightarrow> nat list" where
  "enq_result_own r = (case r of Enq_At pc \<Rightarrow> enq_own pc | Enq_Returns _ \<Rightarrow> [])"

definition enq_result_ok :: "queue_item \<Rightarrow> enq_result \<Rightarrow> lockfree_queue \<Rightarrow> nat \<Rightarrow> nat list \<Rightarrow> bool" where
  "enq_result_ok item r q l fs \<longleftrightarrow> (case r of Enq_At pc \<Rightarrow> enq_ok item pc q l fs | Enq_Returns _ \<Rightarrow> True)"

text \<open>The item goes into the queue when its node is linked.\<close>

definition linked_items :: "queue_item \<Rightarrow> enq_pc \<Rightarrow> enq_result \<Rightarrow> queue_item list" where
  "linked_items item pc r =
     (case pc of Enq_Link n t \<Rightarrow> if r = Enq_At (Enq_Swing n t) then [item] else [] | _ \<Rightarrow> [])"

definition enq_post :: "queue_item \<Rightarrow> enq_pc \<Rightarrow> lockfree_queue \<Rightarrow> nat list \<Rightarrow> nat list \<Rightarrow> enq_result \<Rightarrow> lockfree_queue \<Rightarrow> bool" where
  "enq_post item pc q ns cs r q' \<longleftrightarrow>
     (\<exists>ns' fs'. memory_ok q' ns' fs' (enq_result_own r) cs \<and> enq_result_ok item r q' (last ns') fs' \<and>
        queue_items q' ns' = queue_items q ns @ linked_items item pc r \<and> producer_keeps q ns cs q')"

lemma enq_postI:
  "memory_ok q' ns' fs' (enq_result_own r) cs \<Longrightarrow> enq_result_ok item r q' (last ns') fs' \<Longrightarrow>
   queue_items q' ns' = queue_items q ns @ linked_items item pc r \<Longrightarrow> producer_keeps q ns cs q' \<Longrightarrow>
   enq_post item pc q ns cs r q'"
  by (auto simp: enq_post_def)

lemmas enq_defs = enq_result_own_def enq_result_ok_def linked_items_def enq_ok_def

lemma producer_keeps_refl [simp]: "producer_keeps q ns cs q"
  by (simp add: producer_keeps_def)

lemma enq_alloc_post:
  assumes step: "lockfree_queue_enqueue weak oom item (Enq_Alloc pc) q = (r, q')"
    and ok: "memory_ok q ns fs [] cs" and pc: "alloc_ok pc q fs"
  shows "enq_post item (Enq_Alloc pc) q ns cs r q'"
proof (cases pc)
  case Alloc_Load
  then have r: "r = Enq_At (Enq_Alloc (case free_nodes q of None \<Rightarrow> Alloc_New | Some n \<Rightarrow> Alloc_Next n))" "q' = q"
    using step by (auto simp: alloc_loop_def)
  moreover have "free_nodes q = Some n \<Longrightarrow> n \<in> set fs" for n using ok by (auto simp: memory_ok_def)
  ultimately show ?thesis using ok by (intro enq_postI [of _ ns fs]) (auto simp: enq_defs split: option.split)
next
  case (Alloc_Next n)
  with assms show ?thesis by (intro enq_postI [of _ ns fs]) (auto simp: enq_defs)
next
  case (Alloc_Cas n nx)
  show ?thesis
  proof (cases "free_nodes q = Some n \<and> \<not> weak")
    case False
    with assms Alloc_Cas show ?thesis by (intro enq_postI [of _ ns fs]) (auto simp: enq_defs)
  next
    case True
    then obtain fs' where fs: "fs = n # fs'" using ok by (auto simp: memory_ok_def)
    from True step pc Alloc_Cas have "r = Enq_At (Enq_Init n)" "q' = q\<lparr>free_nodes := node_next q n\<rparr>" by auto
    with memory_pop [OF ok [unfolded fs]] show ?thesis
      by (intro enq_postI [of _ ns fs']) (auto simp: enq_defs producer_keeps_def queue_items_def)
  qed
next
  case Alloc_New
  with step memory_fresh [OF ok, of "nodes_allocated q + 1"] ok show ?thesis
    by (intro enq_postI [of _ ns fs])
      (auto simp: enq_defs producer_keeps_def queue_items_def split: if_splits)
qed

lemma last_facts:
  assumes "memory_ok q ns fs ps cs"
  shows "ns \<noteq> []" "last ns \<in> set ns" "node_next q (last ns) = None"
    "n \<in> set ns \<Longrightarrow> node_next q n = None \<longleftrightarrow> n = last ns"
    "q_tail q \<noteq> last ns \<Longrightarrow> node_next q (q_tail q) = Some (last ns)"
    "q_tail q \<noteq> q_head q \<Longrightarrow> last ns \<noteq> q_head q"
proof -
  show ns: "ns \<noteq> []" "last ns \<in> set ns" and n: "node_next q (last ns) = None"
    using assms by (auto simp: memory_ok_def dest: linked_last)
  show "q_tail q \<noteq> last ns \<Longrightarrow> node_next q (q_tail q) = Some (last ns)"
    using assms by (simp add: memory_ok_def)
  show "n \<in> set ns \<Longrightarrow> node_next q n = None \<longleftrightarrow> n = last ns"
    using assms n by (auto simp: memory_ok_def dest: linked_None)
  show "q_tail q \<noteq> q_head q \<Longrightarrow> last ns \<noteq> q_head q"
    using assms ns by (cases ns) (auto simp: memory_ok_def split: if_splits dest: last_in_set)
qed

lemma cas_tail_post:
  assumes ok: "memory_ok q ns fs ps cs" and x: "q_tail q = t \<Longrightarrow> x = last ns"
  shows "memory_ok (cas_tail weak t x q) ns fs ps cs" and "producer_keeps q ns cs (cas_tail weak t x q)"
    and "queue_items (cas_tail weak t x q) ns = queue_items q ns"
  using memory_tail [OF ok] ok x last_facts(6) [OF ok]
  by (auto simp: cas_tail_def producer_keeps_def queue_items_def)

theorem enqueue_post:
  assumes step: "lockfree_queue_enqueue weak oom item pc q = (r, q')"
    and ok: "memory_ok q ns fs (enq_own pc) cs" and pc: "enq_ok item pc q (last ns) fs"
  shows "enq_post item pc q ns cs r q'"
proof (cases pc)
  case (Enq_Alloc a)
  with assms enq_alloc_post show ?thesis by (simp add: enq_ok_def)
next
  case (Enq_Init n)
  then have own: "n \<notin> set ns" "n \<notin> set cs" "n \<notin> set (tl ns)" and n: "memory_ok (set_next n None q) ns fs [n] cs"
    using ok memory_own [OF ok, of n None] by (auto simp: memory_ok_def dest: list.set_sel(2) [rotated])
  with step Enq_Init show ?thesis
    by (intro enq_postI [of _ ns fs])
      (auto simp: enq_defs producer_keeps_def queue_items_def)
next
  case (Enq_Next n t)
  with assms last_facts [OF ok] show ?thesis
    by (intro enq_postI [of _ ns fs]) (auto simp: enq_defs)
next
  case (Enq_Check n t nx)
  from step Enq_Check have q: "q' = q"
    and r: "r = Enq_At (if t = q_tail q then (case nx of None \<Rightarrow> Enq_Link n t | Some x \<Rightarrow> Enq_Help n t x) else Enq_Tail n)"
    by auto
  show ?thesis
    by (rule enq_postI [of _ ns fs])
      (use Enq_Check q r ok pc in \<open>cases nx; cases "t = q_tail q"; auto simp: enq_defs\<close>)+
next
  case (Enq_Link n t)
  show ?thesis
  proof (cases weak)
    case True
    with assms Enq_Link show ?thesis by (intro enq_postI [of _ ns fs]) (auto simp: enq_defs)
  next
    case False
    have l: "t = last ns" "q_tail q = last ns" and n: "node_next q n = None" "node_work q n = item"
      using pc Enq_Link by (auto simp: enq_ok_def)
    have own: "n \<notin> set cs" "last ns \<notin> set cs" "n \<notin> set ns"
      using ok Enq_Link by (auto simp: memory_ok_def disjoint_iff)
    have end_None: "node_next q (last ns) \<noteq> Some x" for x using last_facts(3) [OF ok] by simp
    from False step Enq_Link l last_facts(3) [OF ok]
    have "r = Enq_At (Enq_Swing n t)" "q' = set_next (last ns) (Some n) q" by auto
    with memory_link [of q ns fs n cs] ok Enq_Link l n own last_facts(1) [OF ok] end_None show ?thesis
      by (intro enq_postI [of _ "ns @ [n]" fs])
        (auto simp: enq_defs producer_keeps_def queue_items_def set_next_def)
  qed
next
  case (Enq_Swing n t)
  with step cas_tail_post [OF ok, of t n weak] pc show ?thesis
    by (intro enq_postI [of _ ns fs]) (auto simp: enq_defs)
next
  case (Enq_Help n t x)
  with step cas_tail_post [OF ok, of t x weak] pc show ?thesis
    by (intro enq_postI [of _ ns fs]) (auto simp: enq_defs cas_tail_def)
qed (use assms in \<open>auto intro!: enq_postI [of _ ns fs] simp: enq_defs producer_keeps_def queue_items_def split: if_splits\<close>)

section \<open>Steps of the consumer\<close>

definition consumer_keeps ::
    "lockfree_queue \<Rightarrow> nat list \<Rightarrow> nat list \<Rightarrow> nat list \<Rightarrow> lockfree_queue \<Rightarrow> nat list \<Rightarrow> nat list \<Rightarrow> bool" where
  "consumer_keeps q ns fs ps q' ns' fs' \<longleftrightarrow>
     last ns' = last ns \<and> (q_tail q' = q_tail q \<or> q_tail q' = last ns) \<and> set fs \<subseteq> set fs' \<and>
     (\<forall>n \<in> set fs \<union> set ps. node_next q' n = node_next q n) \<and>
     (\<forall>n \<in> set ps. node_work q' n = node_work q n)"

lemma enq_node_own: "enq_node pc = Some n \<Longrightarrow> n \<in> set (enq_own pc)"
  by (cases pc) auto

lemma enq_ok_kept:
  assumes "enq_ok item pc q (last ns) fs" and "consumer_keeps q ns fs (enq_own pc) q' ns' fs'"
  shows "enq_ok item pc q' (last ns') fs'"
proof -
  have "enq_view pc q' (last ns') fs'"
  proof (cases pc)
    case (Enq_Alloc a)
    with assms show ?thesis by (cases a) (auto simp: enq_ok_def consumer_keeps_def)
  qed (use assms in \<open>auto simp: enq_ok_def consumer_keeps_def\<close>)
  moreover have "node_next q' n = node_next q n \<and> node_work q' n = node_work q n" if "enq_node pc = Some n" for n
    using enq_node_own [OF that] assms(2) by (simp add: consumer_keeps_def)
  ultimately show ?thesis
    using assms(1) by (simp add: enq_ok_def)
qed

definition deq_result_own :: "deq_result \<Rightarrow> nat list" where
  "deq_result_own r = (case r of Deq_At pc \<Rightarrow> deq_own pc | Deq_Returns _ \<Rightarrow> [])"

definition deq_result_ok :: "deq_result \<Rightarrow> lockfree_queue \<Rightarrow> bool" where
  "deq_result_ok r q \<longleftrightarrow> (case r of Deq_At pc \<Rightarrow> deq_ok pc q | Deq_Returns _ \<Rightarrow> True)"

text \<open>The item leaves the queue when the head moves past it.\<close>

definition removed_items :: "deq_pc \<Rightarrow> deq_result \<Rightarrow> queue_item list" where
  "removed_items pc r =
     (case pc of Deq_Cas h x item \<Rightarrow> if r = Deq_At (Deq_Free h item Free_Load) then [item] else [] | _ \<Rightarrow> [])"

definition deq_post ::
    "deq_pc \<Rightarrow> lockfree_queue \<Rightarrow> nat list \<Rightarrow> nat list \<Rightarrow> nat list \<Rightarrow> deq_result \<Rightarrow> lockfree_queue \<Rightarrow> bool" where
  "deq_post pc q ns fs ps r q' \<longleftrightarrow>
     (\<exists>ns' fs'. memory_ok q' ns' fs' ps (deq_result_own r) \<and> deq_result_ok r q' \<and>
        queue_items q ns = removed_items pc r @ queue_items q' ns' \<and> consumer_keeps q ns fs ps q' ns' fs')"

lemma deq_postI:
  "memory_ok q' ns' fs' ps (deq_result_own r) \<Longrightarrow> deq_result_ok r q' \<Longrightarrow>
   queue_items q ns = removed_items pc r @ queue_items q' ns' \<Longrightarrow> consumer_keeps q ns fs ps q' ns' fs' \<Longrightarrow>
   deq_post pc q ns fs ps r q'"
  by (auto simp: deq_post_def)

lemmas deq_defs = deq_result_own_def deq_result_ok_def removed_items_def

lemma consumer_keeps_refl [simp]: "consumer_keeps q ns fs ps q ns fs"
  by (simp add: consumer_keeps_def)

lemma deq_free_post:
  assumes step: "free_node weak h pc q = (r', q')" and r: "r = Deq_At (case r' of Some pc' \<Rightarrow> Deq_Free h item pc' | None \<Rightarrow> Deq_Count item)"
    and ok: "memory_ok q ns fs ps [h]" and pc: "deq_ok (Deq_Free h item pc) q"
  shows "deq_post (Deq_Free h item pc) q ns fs ps r q'"
proof -
  have own: "h \<notin> set ns" "h \<notin> set (tl ns)" "h \<notin> set fs" "h \<notin> set ps"
    using ok by (auto simp: memory_ok_def dest: list.set_sel(2) [rotated])
  show ?thesis
  proof (cases pc)
    case Free_Load
    with step r ok own show ?thesis
      by (intro deq_postI [of _ ns fs]) (auto simp: deq_defs consumer_keeps_def queue_items_def)
  next
    case (Free_Store fh)
    with step r memory_own [OF ok, of h fh] own show ?thesis
      by (intro deq_postI [of _ ns fs]) (auto simp: deq_defs consumer_keeps_def queue_items_def)
  next
    case (Free_Cas fh)
    show ?thesis
    proof (cases "free_nodes q = fh \<and> \<not> weak")
      case False
      with Free_Cas step r ok show ?thesis
        by (intro deq_postI [of _ ns fs]) (auto simp: deq_defs)
    next
      case True
      with pc ok Free_Cas have "node_next q h = first_of fs" by (auto simp: memory_ok_def)
      with memory_push [OF ok] True Free_Cas step r show ?thesis
        by (intro deq_postI [of _ ns "h # fs"]) (auto simp: deq_defs consumer_keeps_def queue_items_def)
    qed
  qed
qed

lemma head_next:
  assumes "memory_ok q ns fs ps cs" and "node_next q (q_head q) = Some x"
  obtains r where "ns = q_head q # x # r"
  using assms by (cases ns; cases "tl ns") (auto simp: memory_ok_def)

theorem dequeue_post:
  assumes step: "lockfree_queue_dequeue weak pc q = (r, q')"
    and ok: "memory_ok q ns fs ps (deq_own pc)" and pc: "deq_ok pc q"
  shows "deq_post pc q ns fs ps r q'"
proof (cases pc)
  case (Deq_Help t x)
  with pc have x: "t = q_head q" "node_next q t = Some x" by auto
  have "x = last ns" if "q_tail q = t"
    using that x last_facts [OF ok] by (cases "q_tail q = last ns") auto
  with step Deq_Help ok memory_tail [OF ok] show ?thesis
    by (intro deq_postI [of _ ns fs])
      (auto simp: deq_defs cas_tail_def consumer_keeps_def queue_items_def)
next
  case (Deq_Cas h x item)
  show ?thesis
  proof (cases weak)
    case True
    with assms Deq_Cas show ?thesis by (intro deq_postI [of _ ns fs]) (auto simp: deq_defs)
  next
    case False
    have h: "h = q_head q" "q_tail q \<noteq> q_head q" "item = node_work q x" "node_next q (q_head q) = Some x"
      using pc Deq_Cas by auto
    obtain rest where ns: "ns = q_head q # x # rest" by (rule head_next [OF ok h(4)])
    from False step Deq_Cas h have "r = Deq_At (Deq_Free h item Free_Load)" "q' = q\<lparr>q_head := x\<rparr>" by auto
    with memory_dequeue [of q "q_head q" x rest fs ps] ok ns h Deq_Cas show ?thesis
      by (intro deq_postI [of _ "x # rest" fs]) (auto simp: deq_defs consumer_keeps_def queue_items_def)
  qed
next
  case (Deq_Free h item a)
  with step obtain r' where "free_node weak h a q = (r', q')"
      "r = Deq_At (case r' of Some pc' \<Rightarrow> Deq_Free h item pc' | None \<Rightarrow> Deq_Count item)"
    by (auto simp: Let_def split: prod.splits)
  with deq_free_post ok pc Deq_Free show ?thesis by simp
next
  case (Deq_Check h t nx)
  with assms show ?thesis
    by (intro deq_postI [of _ ns fs]) (auto simp: deq_defs split: if_splits option.splits)
qed (use assms in \<open>auto intro!: deq_postI [of _ ns fs] simp: deq_defs consumer_keeps_def queue_items_def\<close>)

section \<open>Histories\<close>

text \<open>A step of one thread, and the item it puts into the queue or takes out of it.\<close>

datatype queue_event = Put queue_item | Take queue_item | No_Event

definition put_event :: "queue_item list \<Rightarrow> queue_event" where
  "put_event is = (case is of [] \<Rightarrow> No_Event | i # _ \<Rightarrow> Put i)"

definition take_event :: "queue_item list \<Rightarrow> queue_event" where
  "take_event is = (case is of [] \<Rightarrow> No_Event | i # _ \<Rightarrow> Take i)"

definition thread_event :: "queue_call \<Rightarrow> queue_thread \<Rightarrow> lockfree_queue \<Rightarrow> queue_event" where
  "thread_event c th q =
     (case c of
        Go weak oom \<Rightarrow>
          (case th of
             In_Enqueue item pc \<Rightarrow> put_event (linked_items item pc (fst (lockfree_queue_enqueue weak oom item pc q)))
           | In_Dequeue pc \<Rightarrow> take_event (removed_items pc (fst (lockfree_queue_dequeue weak pc q)))
           | In_Drain k pc \<Rightarrow> take_event (removed_items pc (fst (lockfree_queue_dequeue weak pc q)))
           | Idle \<Rightarrow> No_Event)
      | _ \<Rightarrow> No_Event)"

type_synonym queue_system = "(nat \<Rightarrow> queue_thread) \<times> lockfree_queue"

definition queue_step :: "queue_system \<Rightarrow> nat \<times> queue_call \<Rightarrow> queue_event \<times> queue_system" where
  "queue_step s tc =
     (case (s, tc) of ((ths, q), (t, c)) \<Rightarrow>
        let (th, q') = queue_thread_step c (ths t) q in (thread_event c (ths t) q, (ths(t := th), q')))"

fun items_put :: "queue_event list \<Rightarrow> queue_item list" where
  "items_put [] = []"
| "items_put (e # es) = (case e of Put i \<Rightarrow> i # items_put es | _ \<Rightarrow> items_put es)"

fun items_taken :: "queue_event list \<Rightarrow> queue_item list" where
  "items_taken [] = []"
| "items_taken (e # es) = (case e of Take i \<Rightarrow> i # items_taken es | _ \<Rightarrow> items_taken es)"

lemma put_event_items [simp]:
  "items_put [put_event (linked_items item pc r)] = linked_items item pc r" "items_taken [put_event is] = []"
  by (auto simp: put_event_def linked_items_def split: enq_pc.splits list.splits)

lemma take_event_items [simp]:
  "items_taken [take_event (removed_items pc r)] = removed_items pc r" "items_put [take_event is] = []"
  by (auto simp: take_event_def removed_items_def split: deq_pc.splits list.splits)

text \<open>What a caller that follows the links from the head finds.\<close>

fun walk :: "nat \<Rightarrow> lockfree_queue \<Rightarrow> nat \<Rightarrow> queue_item list" where
  "walk 0 q n = []"
| "walk (Suc k) q n = (case node_next q n of None \<Rightarrow> [] | Some m \<Rightarrow> node_work q m # walk k q m)"

definition contents :: "lockfree_queue \<Rightarrow> queue_item list" where
  "contents q = walk (fresh_node q) q (q_head q)"

lemma walk_linked: "linked (node_next q) (n # ns) \<Longrightarrow> length ns < k \<Longrightarrow> walk k q n = map (node_work q) ns"
proof (induction ns arbitrary: n k)
  case Nil
  then show ?case by (cases k) auto
next
  case (Cons m ns)
  then show ?case by (cases k) auto
qed

lemma contents_items:
  assumes "memory_ok q ns fs ps cs"
  shows "contents q = queue_items q ns"
proof -
  obtain n r where ns: "ns = n # r" using assms by (cases ns) (auto simp: memory_ok_def)
  have "set ns \<subseteq> {..<fresh_node q}" and "distinct ns" using assms by (auto simp: memory_ok_def)
  then have "length ns \<le> fresh_node q"
    using card_mono [of "{..<fresh_node q}" "set ns"] by (simp add: distinct_card)
  with walk_linked [of q n r "fresh_node q"] ns assms show ?thesis
    by (simp add: contents_def queue_items_def memory_ok_def)
qed

section \<open>One producer and one consumer\<close>

definition one_each :: "nat \<times> queue_call \<Rightarrow> bool" where
  "one_each tc \<longleftrightarrow>
     (case snd tc of
        Call_Enqueue _ \<Rightarrow> fst tc = 0
      | Call_Dequeue \<Rightarrow> fst tc = 1
      | Call_Drain \<Rightarrow> fst tc = 1
      | Go _ _ \<Rightarrow> True)"

fun producer_own :: "queue_thread \<Rightarrow> nat list" where
  "producer_own (In_Enqueue item pc) = enq_own pc"
| "producer_own _ = []"

fun producer_ok :: "queue_thread \<Rightarrow> lockfree_queue \<Rightarrow> nat \<Rightarrow> nat list \<Rightarrow> bool" where
  "producer_ok Idle q l fs = True"
| "producer_ok (In_Enqueue item pc) q l fs = enq_ok item pc q l fs"
| "producer_ok _ q l fs = False"

fun consumer_own :: "queue_thread \<Rightarrow> nat list" where
  "consumer_own (In_Dequeue pc) = deq_own pc"
| "consumer_own (In_Drain k pc) = deq_own pc"
| "consumer_own _ = []"

fun consumer_ok :: "queue_thread \<Rightarrow> lockfree_queue \<Rightarrow> bool" where
  "consumer_ok Idle q = True"
| "consumer_ok (In_Dequeue pc) q = deq_ok pc q"
| "consumer_ok (In_Drain k pc) q = deq_ok pc q"
| "consumer_ok _ q = False"

definition system_ok :: "queue_system \<Rightarrow> nat list \<Rightarrow> nat list \<Rightarrow> bool" where
  "system_ok s ns fs \<longleftrightarrow>
     memory_ok (snd s) ns fs (producer_own (fst s 0)) (consumer_own (fst s 1)) \<and>
     producer_ok (fst s 0) (snd s) (last ns) fs \<and> consumer_ok (fst s 1) (snd s) \<and>
     (\<forall>t > 1. fst s t = Idle)"

lemma producer_step:
  assumes ok: "memory_ok q ns fs (producer_own th) cs" "producer_ok th q (last ns) fs"
    and step: "queue_thread_step c th q = (th', q')" and c: "c \<noteq> Call_Dequeue" "c \<noteq> Call_Drain"
  shows "\<exists>ns' fs'. memory_ok q' ns' fs' (producer_own th') cs \<and> producer_ok th' q' (last ns') fs' \<and>
    queue_items q' ns' = queue_items q ns @ items_put [thread_event c th q] \<and> items_taken [thread_event c th q] = [] \<and>
    producer_keeps q ns cs q'"
proof (cases th)
  case Idle
  with assms show ?thesis
    by - (rule exI [of _ ns], rule exI [of _ fs], cases c, auto simp: thread_event_def enq_ok_def)
next
  case (In_Enqueue item pc)
  show ?thesis
  proof (cases "\<exists>weak oom. c = Go weak oom")
    case False
    with In_Enqueue assms show ?thesis
      by - (rule exI [of _ ns], rule exI [of _ fs], cases c, auto simp: thread_event_def)
  next
    case True
    then obtain weak oom where go: "c = Go weak oom" by auto
    obtain r where r: "lockfree_queue_enqueue weak oom item pc q = (r, q')" and th': "th' = enqueue_thread item r"
      using step In_Enqueue go by (cases "lockfree_queue_enqueue weak oom item pc q") auto
    from enqueue_post [OF r] ok In_Enqueue have "enq_post item pc q ns cs r q'" by simp
    then show ?thesis
      using In_Enqueue go r th'
      by (auto simp: enq_post_def enq_result_own_def enq_result_ok_def thread_event_def enqueue_thread_def
          simp del: items_put.simps items_taken.simps split: enq_result.splits)
  qed
qed (use ok in auto)

lemma consumer_step:
  assumes ok: "memory_ok q ns fs ps (consumer_own th)" "consumer_ok th q"
    and step: "queue_thread_step c th q = (th', q')" and c: "\<And>item. c \<noteq> Call_Enqueue item"
  shows "\<exists>ns' fs'. memory_ok q' ns' fs' ps (consumer_own th') \<and> consumer_ok th' q' \<and>
    queue_items q ns = items_taken [thread_event c th q] @ queue_items q' ns' \<and> items_put [thread_event c th q] = [] \<and>
    consumer_keeps q ns fs ps q' ns' fs'"
proof (cases th)
  case Idle
  with assms show ?thesis
    by - (rule exI [of _ ns], rule exI [of _ fs], cases c, auto simp: thread_event_def)
next
  case (In_Dequeue pc)
  show ?thesis
  proof (cases "\<exists>weak oom. c = Go weak oom")
    case False
    with In_Dequeue assms show ?thesis
      by - (rule exI [of _ ns], rule exI [of _ fs], cases c, auto simp: thread_event_def)
  next
    case True
    then obtain weak oom where go: "c = Go weak oom" by auto
    obtain r where r: "lockfree_queue_dequeue weak pc q = (r, q')" and th': "th' = dequeue_thread r"
      using step In_Dequeue go by (cases "lockfree_queue_dequeue weak pc q") auto
    from dequeue_post [OF r] ok In_Dequeue have "deq_post pc q ns fs ps r q'" by simp
    then show ?thesis
      using In_Dequeue go r th'
      by (auto simp: deq_post_def deq_result_own_def deq_result_ok_def thread_event_def dequeue_thread_def
          simp del: items_put.simps items_taken.simps split: deq_result.splits)
  qed
next
  case (In_Drain k pc)
  show ?thesis
  proof (cases "\<exists>weak oom. c = Go weak oom")
    case False
    with In_Drain assms show ?thesis
      by - (rule exI [of _ ns], rule exI [of _ fs], cases c, auto simp: thread_event_def)
  next
    case True
    then obtain weak oom where go: "c = Go weak oom" by auto
    obtain r where r: "lockfree_queue_dequeue weak pc q = (r, q')" using step In_Drain go
      by (cases "lockfree_queue_dequeue weak pc q") (auto simp: lockfree_queue_drain_def)
    with step In_Drain go have th': "th' = drain_thread (case r of Deq_At pc' \<Rightarrow> Drain_At k pc'
        | Deq_Returns (Some _) \<Rightarrow> Drain_At (k + 1) Deq_Head | Deq_Returns None \<Rightarrow> Drain_Returns k)"
      by (auto simp: lockfree_queue_drain_def)
    from dequeue_post [OF r] ok In_Drain have "deq_post pc q ns fs ps r q'" by simp
    then show ?thesis
      using In_Drain go r th'
      by (auto simp: deq_post_def deq_result_own_def deq_result_ok_def thread_event_def drain_thread_def
          simp del: items_put.simps items_taken.simps split: deq_result.splits option.splits)
  qed
qed (use ok in auto)

lemma producer_ok_kept:
  "producer_ok th q (last ns) fs \<Longrightarrow> consumer_keeps q ns fs (producer_own th) q' ns' fs' \<Longrightarrow>
   producer_ok th q' (last ns') fs'"
  by (cases th) (auto intro: enq_ok_kept)

lemma consumer_ok_kept:
  "consumer_ok th q \<Longrightarrow> producer_keeps q ns (consumer_own th) q' \<Longrightarrow>
   memory_ok q ns fs ps (consumer_own th) \<Longrightarrow> consumer_ok th q'"
  by (cases th) (auto intro: deq_ok_kept)

lemma step_ok:
  assumes "system_ok s ns fs" and "one_each tc" and "queue_step s tc = (e, s')"
  shows "\<exists>ns' fs'. system_ok s' ns' fs' \<and>
    queue_items (snd s) ns @ items_put [e] = items_taken [e] @ queue_items (snd s') ns'"
proof -
  obtain ths q t c where s: "s = (ths, q)" and tc: "tc = (t, c)" by (cases s; cases tc)
  obtain th q' where one: "queue_thread_step c (ths t) q = (th, q')" by (cases "queue_thread_step c (ths t) q")
  have e: "e = thread_event c (ths t) q" and s': "s' = (ths(t := th), q')"
    using assms(3) s tc one by (auto simp: queue_step_def)
  note ok = assms(1) [unfolded system_ok_def s fst_conv snd_conv]
  consider "t = 0" | "t = 1" | "1 < t" by linarith
  then show ?thesis
  proof cases
    case 1
    with assms(2) tc have c: "c \<noteq> Call_Dequeue" "c \<noteq> Call_Drain" by (auto simp: one_each_def)
    obtain ns' fs' where post: "memory_ok q' ns' fs' (producer_own th) (consumer_own (ths 1))"
      "producer_ok th q' (last ns') fs'" "queue_items q' ns' = queue_items q ns @ items_put [e]" "items_taken [e] = []"
      "producer_keeps q ns (consumer_own (ths 1)) q'"
      using producer_step [OF _ _ one c] ok e 1 by blast
    moreover have "consumer_ok (ths 1) q'" by (rule consumer_ok_kept) (use ok post(5) in auto)
    ultimately show ?thesis
      using s s' ok 1 by (intro exI [of _ ns'] exI [of _ fs']) (simp add: system_ok_def)
  next
    case 2
    with assms(2) tc have c: "c \<noteq> Call_Enqueue item" for item by (auto simp: one_each_def)
    obtain ns' fs' where post: "memory_ok q' ns' fs' (producer_own (ths 0)) (consumer_own th)" "consumer_ok th q'"
      "queue_items q ns = items_taken [e] @ queue_items q' ns'" "items_put [e] = []"
      "consumer_keeps q ns fs (producer_own (ths 0)) q' ns' fs'"
      using consumer_step [OF _ _ one c] ok e 2 by blast
    moreover have "producer_ok (ths 0) q' (last ns') fs'" by (rule producer_ok_kept) (use ok post(5) in auto)
    ultimately show ?thesis
      using s s' ok 2 by (intro exI [of _ ns'] exI [of _ fs']) (simp add: system_ok_def)
  next
    case 3
    with ok have idle: "ths t = Idle" by simp
    from 3 assms(2) tc obtain weak oom where "c = Go weak oom" by (cases c) (auto simp: one_each_def)
    with idle one e s' have "e = No_Event" "s' = (ths(t := Idle), q)" by (auto simp: thread_event_def)
    with s ok 3 show ?thesis
      by (intro exI [of _ ns] exI [of _ fs]) (simp add: system_ok_def)
  qed
qed

lemma history_ok:
  assumes "system_ok s ns fs" and "\<forall>tc \<in> set tcs. one_each tc" and "run_history queue_step s tcs = (es, s')"
  shows "\<exists>ns' fs'. system_ok s' ns' fs' \<and>
    queue_items (snd s) ns @ items_put es = items_taken es @ queue_items (snd s') ns'"
  using assms
proof (induction tcs arbitrary: s ns fs es)
  case (Cons tc tcs)
  obtain e s1 where e: "queue_step s tc = (e, s1)" by (cases "queue_step s tc")
  with Cons.prems(3) obtain es1 where r: "run_history queue_step s1 tcs = (es1, s')" and es: "es = e # es1"
    by (auto split: prod.splits)
  obtain ns1 fs1 where one: "system_ok s1 ns1 fs1"
      "queue_items (snd s) ns @ items_put [e] = items_taken [e] @ queue_items (snd s1) ns1"
    using step_ok [OF Cons.prems(1) _ e] Cons.prems(2) by auto
  obtain ns2 fs2 where two: "system_ok s' ns2 fs2"
      "queue_items (snd s1) ns1 @ items_put es1 = items_taken es1 @ queue_items (snd s') ns2"
    using Cons.IH [OF one(1) _ r] Cons.prems(2) by auto
  have p: "items_put es = items_put [e] @ items_put es1" and t: "items_taken es = items_taken [e] @ items_taken es1"
    using es by (simp_all split: queue_event.splits)
  have "queue_items (snd s) ns @ items_put es = items_taken es @ queue_items (snd s') ns2"
    unfolding p t using one(2) two(2) by (metis append.assoc)
  with two(1) show ?case by blast
qed auto

lemma pool_ok: "\<exists>fs. memory_ok q [0] fs [] [] \<Longrightarrow> \<exists>fs. memory_ok ((add_pool_node ^^ k) q) [0] fs [] []"
proof (induction k)
  case (Suc k)
  then obtain fs where ok: "memory_ok ((add_pool_node ^^ k) q) [0] fs [] []" by blast
  let ?q = "(add_pool_node ^^ k) q"
  let ?f = "fresh_node ?q"
  have "?f \<notin> set ([0] @ fs)" using ok by (auto simp: memory_ok_def)
  with ok have "memory_ok (add_pool_node ?q) [0] (?f # fs) [] []"
    by (auto simp: memory_ok_def add_pool_node_def Let_def)
  then show ?case by auto
qed simp

definition idle_threads :: "nat \<Rightarrow> queue_thread" where
  "idle_threads = (\<lambda>_. Idle)"

lemma queue_create_ok:
  "\<exists>fs. system_ok (idle_threads, lockfree_queue_create nx wk max_size pool_size) [0] fs"
proof -
  have "\<exists>fs. memory_ok (lockfree_queue_create nx wk max_size pool_size) [0] fs [] []"
    unfolding lockfree_queue_create_def Let_def
    by (rule pool_ok) (auto simp: memory_ok_def intro: exI [of _ "[]"])
  then show ?thesis by (auto simp: system_ok_def idle_threads_def)
qed

text \<open>
  C16. With one thread that enqueues and one that dequeues or drains, the queue is first in, first
  out, for every interleaving of their accesses to memory, spurious failures of the weak
  compare-exchanges and failed allocations: the items put in are the ones taken out, in the
  same order, followed by the contents.
\<close>

theorem lockfree_queue_fifo:
  assumes "\<forall>tc \<in> set tcs. one_each tc"
    and "run_history queue_step (idle_threads, lockfree_queue_create nx wk max_size pool_size) tcs = (es, ths, q)"
  shows "items_put es = items_taken es @ contents q"
proof -
  obtain fs where "system_ok (idle_threads, lockfree_queue_create nx wk max_size pool_size) [0] fs"
    using queue_create_ok by blast
  from history_ok [OF this assms] show ?thesis
    by (auto simp: system_ok_def queue_items_def [of _ "[0]"] dest: contents_items)
qed

text \<open>Histories on a small queue: a call of a thread and its next accesses.\<close>

definition alone :: "nat \<Rightarrow> queue_call \<Rightarrow> nat \<Rightarrow> (nat \<times> queue_call) list" where
  "alone t c n = (t, c) # replicate n (t, Go False False)"

definition sample_item :: "nat \<Rightarrow> queue_item" where
  "sample_item d = \<lparr>item_function = 1, item_data = d, item_data_size = 8\<rparr>"

definition small_queue :: "c_size \<Rightarrow> lockfree_queue" where
  "small_queue m =
     \<lparr>node_next = (\<lambda>_. None)(0 := None, 1 := None, 2 := Some 1), node_work = (\<lambda>_. zero_item)(0 := zero_item),
      fresh_node = 3, q_head = 0, q_tail = 0, q_size = 0, enqueue_count = 0, dequeue_count = 0, q_max_size = m,
      free_nodes = Some 2, node_pool_size = 2, nodes_allocated = 3\<rparr>"

lemma small_queue_created:
  "lockfree_queue_create (\<lambda>_. None) (\<lambda>_. zero_item) m 2 = small_queue m"
proof -
  have "unat (2 :: c_size) = Suc (Suc 0)" by simp
  then have "(f ^^ unat (2 :: c_size)) x = f (f x)" for f :: "lockfree_queue \<Rightarrow> lockfree_queue" and x
    by (simp only: funpow.simps o_apply id_apply)
  then show ?thesis
    by (simp add: lockfree_queue_create_def add_pool_node_def set_next_def small_queue_def Let_def fun_eq_iff)
qed

lemma replicate_numeral_step: "replicate (numeral k) x = x # replicate (pred_numeral k) x"
  by (simp add: numeral_eq_Suc)

lemma walk_numeral_step:
  "walk (numeral k) q n = (case node_next q n of None \<Rightarrow> [] | Some m \<Rightarrow> node_work q m # walk (pred_numeral k) q m)"
  by (simp add: numeral_eq_Suc)

lemmas queue_eval = replicate_numeral_step walk_numeral_step alone_def idle_threads_def small_queue_def queue_step_def enqueue_thread_def dequeue_thread_def
  alloc_loop_def set_next_def set_work_def cas_tail_def thread_event_def linked_items_def removed_items_def
  put_event_def take_event_def Let_def contents_def

lemma sample_item_eq [simp]: "sample_item d = sample_item e \<longleftrightarrow> d = e"
  by (simp add: sample_item_def)

lemma lockfree_queue_fifo_witness:
  "\<exists>es ths q. run_history queue_step (idle_threads, small_queue 0)
       (alone 0 (Call_Enqueue (sample_item 1)) 12 @ alone 0 (Call_Enqueue (sample_item 2)) 9 @ alone 1 Call_Dequeue 6) =
         (es, ths, q) \<and>
     items_put es = [sample_item 1, sample_item 2] \<and> items_taken es = [sample_item 1] \<and> contents q = [sample_item 2]"
proof -
  let ?tcs = "alone 0 (Call_Enqueue (sample_item 1)) 12 @ alone 0 (Call_Enqueue (sample_item 2)) 9 @ alone 1 Call_Dequeue 6"
  obtain es ths q where r: "run_history queue_step (idle_threads, small_queue 0) ?tcs = (es, ths, q)"
    and p: "items_put es = [sample_item 1, sample_item 2]" and t: "items_taken es = [sample_item 1]"
    by (simp add: queue_eval)
  have "\<forall>tc \<in> set ?tcs. one_each tc" by (auto simp: alone_def one_each_def)
  from lockfree_queue_fifo [OF this r [folded small_queue_created]] r p t show ?thesis by auto
qed

section \<open>More threads\<close>

text \<open>
  C17. With two threads that do both, items are lost: the first reads the free node 2 and its
  successor 1 and is interrupted; the second uses both nodes, so that 1 becomes the sentinel and 2
  is free again.  The compare-exchange of the first succeeds and makes the sentinel a free node;
  the enqueue that gets it clears its link, and the queue looks empty although two items were put
  in and not taken out.
\<close>

theorem lockfree_queue_aba:
  "\<exists>es ths q. run_history queue_step (idle_threads, small_queue 0)
       (alone 0 (Call_Enqueue c) 3 @
        alone 1 (Call_Enqueue a) 12 @ alone 1 (Call_Enqueue b) 12 @ alone 1 Call_Dequeue 11 @ alone 1 Call_Dequeue 11 @
        replicate 9 (0, Go False False) @ alone 1 (Call_Enqueue d) 12) = (es, ths, q) \<and>
     items_put es = [a, b, c, d] \<and> items_taken es = [a, b] \<and> ths 0 = Idle \<and> ths 1 = Idle \<and>
     lockfree_queue_size q = 2 \<and> contents q = [] \<and>
     fst (lockfree_queue_dequeue False (Deq_Check (q_head q) (q_tail q) (node_next q (q_head q))) q) = Deq_Returns None"
  by (simp add: queue_eval lockfree_queue_size_def)

text \<open>
  The count of items may go below 0: an item can be taken out before its producer has counted
  it.  The size is then the largest value of the type, and another enqueue is refused although
  the queue is empty and its limit is ten.
\<close>

theorem lockfree_queue_size_wraps:
  "\<exists>es ths q. run_history queue_step (idle_threads, small_queue 10)
       (alone 0 (Call_Enqueue a) 10 @ alone 1 Call_Dequeue 11) = (es, ths, q) \<and>
     contents q = [] \<and> lockfree_queue_size q = 2 ^ 64 - 1 \<and>
     lockfree_queue_enqueue False False b Enq_Size q = (Enq_Returns False, q)"
  by (simp add: queue_eval lockfree_queue_size_def)

end
