(* ===== verification/Schema.thy ===== *)
theory Schema
  imports Query_Match
begin

text \<open>
  Validation rules for documents, \<^verbatim>\<open>src/src/components/database/schema.c\<close>: rules on fields given
  by dotted paths, validation of a document, and the two conversions between a schema and JSON.
  The linked list of rules is a list.  \<^verbatim>\<open>regcomp\<close> and \<^verbatim>\<open>regexec\<close> of the C library are arguments:
  whether a pattern can be compiled, and whether a string matches a compiled pattern.  A result
  is valid and then has neither field nor message, or it names both.
\<close>

section \<open>Data\<close>

datatype schema_rule_type =
    SCHEMA_TYPE_CHECK | SCHEMA_REQUIRED | SCHEMA_MIN_LENGTH | SCHEMA_MAX_LENGTH
  | SCHEMA_MIN_VALUE | SCHEMA_MAX_VALUE | SCHEMA_PATTERN | SCHEMA_ENUM | SCHEMA_NESTED

text \<open>The type of a rule and the member of the union that goes with it are one constructor.\<close>

datatype schema = Schema (schema_name: string) (schema_description: cstr) (schema_rules: "schema_rule list")
  and schema_rule = Rule (field_path: string) (rule_params: rule_params) (regex_compiled: bool)
  and rule_params =
    Type_Value c_int
  | Is_Required c_int
  | Min_Length c_int
  | Max_Length c_int
  | Min_Value double
  | Max_Value double
  | Pattern cstr
  | Enum_Values jptr
  | Nested "schema option"

record schema_validation_result =
  is_valid :: bool
  error_field :: cstr
  error_message :: cstr

definition valid_result :: schema_validation_result where
  "valid_result = \<lparr>is_valid = True, error_field = None, error_message = None\<rparr>"

definition invalid_result :: "string \<Rightarrow> string \<Rightarrow> schema_validation_result" where
  "invalid_result path msg = \<lparr>is_valid = False, error_field = Some path, error_message = Some msg\<rparr>"

definition db_create_schema :: "cstr \<Rightarrow> cstr \<Rightarrow> schema option" where
  "db_create_schema nm description = (case nm of None \<Rightarrow> None | Some n \<Rightarrow> Some (Schema n description []))"

fun default_params :: "schema_rule_type \<Rightarrow> rule_params" where
  "default_params SCHEMA_TYPE_CHECK = Type_Value 6"
| "default_params SCHEMA_REQUIRED = Is_Required 1"
| "default_params SCHEMA_MIN_LENGTH = Min_Length 0"
| "default_params SCHEMA_MAX_LENGTH = Max_Length 1024"
| "default_params SCHEMA_MIN_VALUE = Min_Value (Fin 0)"
| "default_params SCHEMA_MAX_VALUE = Max_Value (Fin 1000000)"
| "default_params SCHEMA_PATTERN = Pattern None"
| "default_params SCHEMA_ENUM = Enum_Values None"
| "default_params SCHEMA_NESTED = Nested None"

definition db_create_schema_rule :: "schema_rule_type \<Rightarrow> cstr \<Rightarrow> schema_rule option" where
  "db_create_schema_rule t path = (case path of None \<Rightarrow> None | Some p \<Rightarrow> Some (Rule p (default_params t) False))"

text \<open>Compiling the pattern of a rule; \<open>None\<close> when it cannot be compiled.\<close>

definition compile_rule :: "(string \<Rightarrow> bool) \<Rightarrow> schema_rule \<Rightarrow> schema_rule option" where
  "compile_rule regcomp r =
     (case r of
        Rule path (Pattern (Some p)) compiled \<Rightarrow>
          if regcomp p then Some (Rule path (Pattern (Some p)) True) else None
      | _ \<Rightarrow> Some r)"

definition db_add_schema_rule :: "(string \<Rightarrow> bool) \<Rightarrow> schema \<Rightarrow> schema_rule \<Rightarrow> schema option" where
  "db_add_schema_rule regcomp s r =
     (case compile_rule regcomp r of
        None \<Rightarrow> None
      | Some r' \<Rightarrow> Some (Schema (schema_name s) (schema_description s) (schema_rules s @ [r'])))"

section \<open>Paths\<close>

text \<open>\<^verbatim>\<open>strtol\<close> must read the whole token, and the number must not be negative.\<close>

definition array_index :: "string \<Rightarrow> nat option" where
  "array_index token =
     (let t = dropWhile isspace token;
          u = (case t of c # r \<Rightarrow> if c = CHR ''-'' \<or> c = CHR ''+'' then r else t | [] \<Rightarrow> []);
          index = strtol10 token
      in if takeWhile isdigit u = [] \<or> dropWhile isdigit u \<noteq> [] \<or> index < 0 then None else Some (nat index))"

definition enter_value :: "json \<Rightarrow> string \<Rightarrow> jptr" where
  "enter_value current token =
     (case current of
        JObject _ \<Rightarrow> json_object_get (Some current) (Some token)
      | JArray _ \<Rightarrow>
          (case array_index token of None \<Rightarrow> None | Some i \<Rightarrow> json_array_get (Some current) i)
      | _ \<Rightarrow> None)"

fun enter_path :: "jptr \<Rightarrow> string list \<Rightarrow> jptr" where
  "enter_path (Some current) (token # tokens) = enter_path (enter_value current token) tokens"
| "enter_path current _ = current"

definition get_json_value_at_path :: "jptr \<Rightarrow> cstr \<Rightarrow> jptr" where
  "get_json_value_at_path start path =
     (case (start, path) of (Some v, Some p) \<Rightarrow> enter_path (Some v) (strtok_dots [] p) | _ \<Rightarrow> None)"

section \<open>Validation\<close>

definition too_short :: "string \<Rightarrow> c_int \<Rightarrow> bool" where
  "too_short s m \<longleftrightarrow> of_nat (length s) < (scast m :: c_size)"

definition too_long :: "string \<Rightarrow> c_int \<Rightarrow> bool" where
  "too_long s m \<longleftrightarrow> (scast m :: c_size) < of_nat (length s)"

definition too_small :: "json \<Rightarrow> double \<Rightarrow> bool" where
  "too_small v m \<longleftrightarrow>
     (case v of JNumber d \<Rightarrow> double_lt d m | JInteger i \<Rightarrow> double_lt (double_of_int64 i) m | _ \<Rightarrow> False)"

definition too_large :: "json \<Rightarrow> double \<Rightarrow> bool" where
  "too_large v m \<longleftrightarrow>
     (case v of JNumber d \<Rightarrow> double_lt m d | JInteger i \<Rightarrow> double_lt m (double_of_int64 i) | _ \<Rightarrow> False)"

definition check_that :: "bool \<Rightarrow> string \<Rightarrow> string \<Rightarrow> schema_validation_result" where
  "check_that violated path msg = (if violated then invalid_result path msg else valid_result)"

text \<open>The error of a nested schema gets the path of the rule in front.\<close>

definition nested_result :: "string \<Rightarrow> schema_validation_result \<Rightarrow> schema_validation_result" where
  "nested_result path r =
     (if is_valid r then valid_result
      else r\<lparr>error_field := Some (case error_field r of None \<Rightarrow> path | Some f \<Rightarrow> path @ ''.'' @ f)\<rparr>)"

fun validate_schema :: "(string \<Rightarrow> string \<Rightarrow> bool) \<Rightarrow> schema \<Rightarrow> json \<Rightarrow> schema_validation_result"
  and validate_rules :: "(string \<Rightarrow> string \<Rightarrow> bool) \<Rightarrow> schema_rule list \<Rightarrow> json \<Rightarrow> schema_validation_result"
  and validate_rule :: "(string \<Rightarrow> string \<Rightarrow> bool) \<Rightarrow> schema_rule \<Rightarrow> json \<Rightarrow> schema_validation_result"
  and validate_value :: "(string \<Rightarrow> string \<Rightarrow> bool) \<Rightarrow> rule_params \<Rightarrow> string \<Rightarrow> bool \<Rightarrow> json \<Rightarrow> schema_validation_result" where
  "validate_schema regexec (Schema n d rs) document = validate_rules regexec rs document"
| "validate_rules regexec [] document = valid_result"
| "validate_rules regexec (r # rs) document =
     (let result = validate_rule regexec r document
      in if is_valid result then validate_rules regexec rs document else result)"
| "validate_rule regexec (Rule path params compiled) document =
     (case get_json_value_at_path (Some document) (Some path) of
        None \<Rightarrow>
          check_that (case params of Is_Required b \<Rightarrow> b \<noteq> 0 | _ \<Rightarrow> False) path ''Required field missing''
      | Some v \<Rightarrow> validate_value regexec params path compiled v)"
| "validate_value regexec (Type_Value t) path compiled v =
     check_that (word_of_int (type_rank (json_type_of v)) \<noteq> t) path ''Type mismatch''"
| "validate_value regexec (Is_Required b) path compiled v = valid_result"
| "validate_value regexec (Min_Length m) path compiled v =
     check_that (case v of JString s \<Rightarrow> too_short s m | _ \<Rightarrow> False) path ''String too short''"
| "validate_value regexec (Max_Length m) path compiled v =
     check_that (case v of JString s \<Rightarrow> too_long s m | _ \<Rightarrow> False) path ''String too long''"
| "validate_value regexec (Min_Value m) path compiled v = check_that (too_small v m) path ''Value too small''"
| "validate_value regexec (Max_Value m) path compiled v = check_that (too_large v m) path ''Value too large''"
| "validate_value regexec (Pattern p) path compiled v =
     check_that (case (v, p) of (JString s, Some p') \<Rightarrow> compiled \<and> \<not> regexec p' s | _ \<Rightarrow> False)
       path ''Pattern match failed''"
| "validate_value regexec (Enum_Values e) path compiled v =
     check_that (case e of Some (JArray xs) \<Rightarrow> \<not> list_ex (json_equals v) xs | _ \<Rightarrow> False) path ''Value not in enum''"
| "validate_value regexec (Nested None) path compiled v = valid_result"
| "validate_value regexec (Nested (Some s)) path compiled v = nested_result path (validate_schema regexec s v)"

definition db_validate_document :: "(string \<Rightarrow> string \<Rightarrow> bool) \<Rightarrow> schema option \<Rightarrow> jptr \<Rightarrow> schema_validation_result" where
  "db_validate_document regexec schema document =
     (case (schema, document) of
        (Some s, Some d) \<Rightarrow> validate_schema regexec s d
      | _ \<Rightarrow> \<lparr>is_valid = False, error_field = None, error_message = Some ''Invalid schema or document''\<rparr>)"

section \<open>Conversion to JSON\<close>

fun rule_type :: "rule_params \<Rightarrow> schema_rule_type" where
  "rule_type (Type_Value _) = SCHEMA_TYPE_CHECK"
| "rule_type (Is_Required _) = SCHEMA_REQUIRED"
| "rule_type (Min_Length _) = SCHEMA_MIN_LENGTH"
| "rule_type (Max_Length _) = SCHEMA_MAX_LENGTH"
| "rule_type (Min_Value _) = SCHEMA_MIN_VALUE"
| "rule_type (Max_Value _) = SCHEMA_MAX_VALUE"
| "rule_type (Pattern _) = SCHEMA_PATTERN"
| "rule_type (Enum_Values _) = SCHEMA_ENUM"
| "rule_type (Nested _) = SCHEMA_NESTED"

fun type_str :: "schema_rule_type \<Rightarrow> string" where
  "type_str SCHEMA_TYPE_CHECK = ''type''"
| "type_str SCHEMA_REQUIRED = ''required''"
| "type_str SCHEMA_MIN_LENGTH = ''minLength''"
| "type_str SCHEMA_MAX_LENGTH = ''maxLength''"
| "type_str SCHEMA_MIN_VALUE = ''minValue''"
| "type_str SCHEMA_MAX_VALUE = ''maxValue''"
| "type_str SCHEMA_PATTERN = ''pattern''"
| "type_str SCHEMA_ENUM = ''enum''"
| "type_str SCHEMA_NESTED = ''nested''"

definition type_value_str :: "c_int \<Rightarrow> string" where
  "type_value_str t =
     (if t = 0 then ''null'' else if t = 1 then ''boolean'' else if t = 3 then ''integer''
      else if t = 2 then ''number'' else if t = 4 then ''string'' else if t = 5 then ''array''
      else if t = 6 then ''object'' else ''any'')"

definition put_field :: "string \<Rightarrow> json \<Rightarrow> jptr \<Rightarrow> jptr" where
  "put_field k v ob = json_object_set ob (Some k) (Some v)"

definition put_optional :: "string \<Rightarrow> jptr \<Rightarrow> jptr \<Rightarrow> jptr" where
  "put_optional k v ob = (case v of None \<Rightarrow> ob | Some w \<Rightarrow> put_field k w ob)"

fun schema_to_json :: "schema \<Rightarrow> json"
  and rules_to_json :: "schema_rule list \<Rightarrow> jptr \<Rightarrow> jptr"
  and rule_to_json :: "schema_rule \<Rightarrow> jptr"
  and params_to_json :: "rule_params \<Rightarrow> jptr" where
  "schema_to_json (Schema n d rs) =
     the (put_optional ''rules'' (rules_to_json rs (Some json_create_array))
       (put_optional ''description'' (map_option json_create_string d)
         (put_field ''name'' (json_create_string n) (Some json_create_object))))"
| "rules_to_json [] rules_array = rules_array"
| "rules_to_json (r # rs) rules_array = rules_to_json rs (json_array_append rules_array (rule_to_json r))"
| "rule_to_json (Rule path params compiled) =
     put_optional ''value'' (params_to_json params)
       (put_field ''type'' (json_create_string (type_str (rule_type params)))
         (put_field ''field'' (json_create_string path) (Some json_create_object)))"
| "params_to_json (Type_Value t) = Some (json_create_string (type_value_str t))"
| "params_to_json (Is_Required b) = Some (json_create_boolean b)"
| "params_to_json (Min_Length m) = Some (json_create_integer (scast m))"
| "params_to_json (Max_Length m) = Some (json_create_integer (scast m))"
| "params_to_json (Min_Value m) = Some (json_create_number m)"
| "params_to_json (Max_Value m) = Some (json_create_number m)"
| "params_to_json (Pattern p) = map_option json_create_string p"
| "params_to_json (Enum_Values e) = map_option json_clone e"
| "params_to_json (Nested None) = None"
| "params_to_json (Nested (Some s)) = Some (schema_to_json s)"

definition db_schema_to_json :: "schema option \<Rightarrow> jptr" where
  "db_schema_to_json s = map_option schema_to_json s"

section \<open>Conversion from JSON\<close>

definition rule_type_of_str :: "string \<Rightarrow> schema_rule_type option" where
  "rule_type_of_str t =
     (if strcmp t ''type'' = 0 then Some SCHEMA_TYPE_CHECK
      else if strcmp t ''required'' = 0 then Some SCHEMA_REQUIRED
      else if strcmp t ''minLength'' = 0 then Some SCHEMA_MIN_LENGTH
      else if strcmp t ''maxLength'' = 0 then Some SCHEMA_MAX_LENGTH
      else if strcmp t ''minValue'' = 0 then Some SCHEMA_MIN_VALUE
      else if strcmp t ''maxValue'' = 0 then Some SCHEMA_MAX_VALUE
      else if strcmp t ''pattern'' = 0 then Some SCHEMA_PATTERN
      else if strcmp t ''enum'' = 0 then Some SCHEMA_ENUM
      else if strcmp t ''nested'' = 0 then Some SCHEMA_NESTED
      else None)"

definition type_value_of_str :: "string \<Rightarrow> c_int \<Rightarrow> c_int" where
  "type_value_of_str s old =
     (if strcmp s ''null'' = 0 then 0 else if strcmp s ''boolean'' = 0 then 1
      else if strcmp s ''integer'' = 0 then 3 else if strcmp s ''number'' = 0 then 2
      else if strcmp s ''string'' = 0 then 4 else if strcmp s ''array'' = 0 then 5
      else if strcmp s ''object'' = 0 then 6 else old)"

text \<open>A value of another type leaves the default; a nested value is read by the caller.\<close>

fun params_from_json :: "rule_params \<Rightarrow> json \<Rightarrow> rule_params" where
  "params_from_json (Type_Value t) (JString s) = Type_Value (type_value_of_str s t)"
| "params_from_json (Is_Required b) (JBoolean c) = Is_Required (if c then 1 else 0)"
| "params_from_json (Min_Length m) (JInteger i) = Min_Length (ucast i)"
| "params_from_json (Min_Length m) (JNumber d) = Min_Length (int_of_double d)"
| "params_from_json (Max_Length m) (JInteger i) = Max_Length (ucast i)"
| "params_from_json (Max_Length m) (JNumber d) = Max_Length (int_of_double d)"
| "params_from_json (Min_Value m) (JInteger i) = Min_Value (double_of_int64 i)"
| "params_from_json (Min_Value m) (JNumber d) = Min_Value d"
| "params_from_json (Max_Value m) (JInteger i) = Max_Value (double_of_int64 i)"
| "params_from_json (Max_Value m) (JNumber d) = Max_Value d"
| "params_from_json (Pattern p) (JString s) = Pattern (Some s)"
| "params_from_json (Enum_Values e) (JArray xs) = Enum_Values (Some (json_clone (JArray xs)))"
| "params_from_json params _ = params"

text \<open>The rule the loop creates from one element of the array, or \<open>None\<close> when it is skipped.\<close>

definition rule_header :: "json \<Rightarrow> (string \<times> schema_rule_type) option" where
  "rule_header rule_obj =
     (case (json_object_get (Some rule_obj) (Some ''field''), json_object_get (Some rule_obj) (Some ''type'')) of
        (Some (JString path), Some (JString t)) \<Rightarrow> map_option (Pair path) (rule_type_of_str t)
      | _ \<Rightarrow> None)"

lemma size_obj_get: "obj_get es k = Some v \<Longrightarrow> size v < size_list (size_prod (\<lambda>_. 0) size) es"
  by (induction es k rule: obj_get.induct) (auto split: if_splits)

lemma size_json_object_get: "json_object_get (Some j) (Some k) = Some v \<Longrightarrow> size v < size j"
  by (cases j) (auto dest: size_obj_get)

function schema_from_json :: "(string \<Rightarrow> bool) \<Rightarrow> json \<Rightarrow> schema option"
  and rules_from_json :: "(string \<Rightarrow> bool) \<Rightarrow> json list \<Rightarrow> schema \<Rightarrow> schema"
  and rule_from_json :: "(string \<Rightarrow> bool) \<Rightarrow> json \<Rightarrow> schema_rule option" where
  "schema_from_json regcomp json =
     (case json_object_get (Some json) (Some ''name'') of
        Some (JString n) \<Rightarrow>
          let description = json_get_string (json_object_get (Some json) (Some ''description'')) in
          (case db_create_schema (Some n) description of
             None \<Rightarrow> None
           | Some s \<Rightarrow>
               (case json_object_get (Some json) (Some ''rules'') of
                  Some (JArray rules_arr) \<Rightarrow> Some (rules_from_json regcomp rules_arr s)
                | _ \<Rightarrow> None))
      | _ \<Rightarrow> None)"
| "rules_from_json regcomp [] s = s"
| "rules_from_json regcomp (rule_obj # rest) s =
     rules_from_json regcomp rest
       (case rule_from_json regcomp rule_obj of
          None \<Rightarrow> s
        | Some r \<Rightarrow> (case db_add_schema_rule regcomp s r of None \<Rightarrow> s | Some s' \<Rightarrow> s'))"
| "rule_from_json regcomp rule_obj =
     (case rule_header rule_obj of
        None \<Rightarrow> None
      | Some (path, t) \<Rightarrow>
          Some (Rule path
            (case json_object_get (Some rule_obj) (Some ''value'') of
               None \<Rightarrow> default_params t
             | Some value_val \<Rightarrow>
                 if t = SCHEMA_NESTED \<and> json_type_of value_val = JSON_OBJECT
                 then Nested (schema_from_json regcomp value_val)
                 else params_from_json (default_params t) value_val) False))"
  by pat_completeness auto
termination
  by (relation "measure (\<lambda>x. case x of
        Inl (_, j) \<Rightarrow> 2 * size j
      | Inr (Inl (_, js, _)) \<Rightarrow> 2 * size_list size js
      | Inr (Inr (_, j)) \<Rightarrow> 2 * size j + 1)")
    (auto dest!: size_json_object_get)

declare schema_from_json.simps [simp del] rule_from_json.simps [simp del]

definition db_schema_from_json :: "(string \<Rightarrow> bool) \<Rightarrow> jptr \<Rightarrow> schema option" where
  "db_schema_from_json regcomp json = (case json of None \<Rightarrow> None | Some j \<Rightarrow> schema_from_json regcomp j)"

section \<open>Collections\<close>

text \<open>
  \<^verbatim>\<open>db_get_collection\<close> of \<^verbatim>\<open>database.c\<close> returns one static collection for every name; it is the only
  state these functions have, besides the flag of the database.
\<close>

record db_collection =
  coll_documents :: jptr
  coll_schema :: "schema option"

record schema_store =
  stub_collection :: db_collection
  is_modified :: bool

definition schema_store_init :: schema_store where
  "schema_store_init = \<lparr>stub_collection = \<lparr>coll_documents = None, coll_schema = None\<rparr>, is_modified = False\<rparr>"

definition db_get_collection :: "schema_store \<Rightarrow> string \<Rightarrow> db_collection" where
  "db_get_collection db nm = stub_collection db"

definition set_coll_schema :: "schema option \<Rightarrow> schema_store \<Rightarrow> schema_store" where
  "set_coll_schema s db =
     db\<lparr>stub_collection := (stub_collection db)\<lparr>coll_schema := s\<rparr>, is_modified := True\<rparr>"

definition db_attach_schema :: "schema_store \<Rightarrow> cstr \<Rightarrow> schema option \<Rightarrow> bool \<times> schema_store" where
  "db_attach_schema db nm schema =
     (case (nm, schema) of
        (Some n, Some s) \<Rightarrow> (True, set_coll_schema (Some s) db)
      | _ \<Rightarrow> (False, db))"

definition db_detach_schema :: "schema_store \<Rightarrow> cstr \<Rightarrow> bool \<times> schema_store" where
  "db_detach_schema db nm =
     (case nm of None \<Rightarrow> (False, db) | Some n \<Rightarrow> (True, set_coll_schema None db))"

definition db_get_schema :: "schema_store \<Rightarrow> cstr \<Rightarrow> schema option" where
  "db_get_schema db nm = (case nm of None \<Rightarrow> None | Some n \<Rightarrow> coll_schema (db_get_collection db n))"

definition db_validate_collection :: "(string \<Rightarrow> string \<Rightarrow> bool) \<Rightarrow> schema_store \<Rightarrow> cstr \<Rightarrow> bool" where
  "db_validate_collection regexec db nm =
     (case nm of
        None \<Rightarrow> False
      | Some n \<Rightarrow>
          (let coll = db_get_collection db n in
           case coll_schema coll of
             None \<Rightarrow> False
           | Some s \<Rightarrow>
               (case coll_documents coll of
                  Some (JArray docs) \<Rightarrow>
                    list_all (\<lambda>doc. is_valid (db_validate_document regexec (Some s) (Some doc))) docs
                | _ \<Rightarrow> True)))"

end
