(* ===== verification/Schema_Props.thy ===== *)
theory Schema_Props
  imports Schema
begin

text \<open>
  Properties of schemas.  A schema with nested schemas is a flat list of rules with dotted paths,
  and validation reports the first of them that fails; a schema and its JSON form are read back
  from each other; and the collections are one.
\<close>

section \<open>Paths\<close>

lemma strtok_dots_join: "strtok_dots acc (p @ ''.'' @ q) = strtok_dots acc p @ strtok_dots [] q"
  by (induction p arbitrary: acc) auto

lemma enter_path_None [simp]: "enter_path None ts = None"
  by (cases ts) auto

lemma enter_path_append: "enter_path v (ts @ us) = enter_path (enter_path v ts) us"
proof (induction ts arbitrary: v)
  case (Cons t ts)
  then show ?case by (cases v) auto
qed simp

lemma value_at_join:
  "get_json_value_at_path (Some d) (Some (p @ ''.'' @ q)) =
     (case get_json_value_at_path (Some d) (Some p) of
        None \<Rightarrow> None
      | Some v \<Rightarrow> get_json_value_at_path (Some v) (Some q))"
  by (simp only: get_json_value_at_path_def option.case prod.case strtok_dots_join enter_path_append)
    (auto split: option.split)

section \<open>The flat list of rules\<close>

text \<open>A rule with the path of the value it belongs to, its own path from the document, and what it checks.\<close>

type_synonym flat_rule = "string option \<times> string \<times> rule_params \<times> bool"

definition join_path :: "string option \<Rightarrow> string \<Rightarrow> string" where
  "join_path pre path = (case pre of None \<Rightarrow> path | Some a \<Rightarrow> a @ ''.'' @ path)"

fun flat_schema :: "string option \<Rightarrow> schema \<Rightarrow> flat_rule list"
  and flat_rules :: "string option \<Rightarrow> schema_rule list \<Rightarrow> flat_rule list"
  and flat_params :: "string option \<Rightarrow> string \<Rightarrow> bool \<Rightarrow> rule_params \<Rightarrow> flat_rule list" where
  "flat_schema pre (Schema n d rs) = flat_rules pre rs"
| "flat_rules pre [] = []"
| "flat_rules pre (Rule path ps compiled # rs) = flat_params pre (join_path pre path) compiled ps @ flat_rules pre rs"
| "flat_params pre path compiled (Nested None) = []"
| "flat_params pre path compiled (Nested (Some s)) = flat_schema (Some path) s"
| "flat_params pre path compiled ps = [(pre, path, ps, compiled)]"

text \<open>When a value, or its absence, violates a rule, and what is then said.\<close>

fun violates :: "(string \<Rightarrow> string \<Rightarrow> bool) \<Rightarrow> rule_params \<Rightarrow> bool \<Rightarrow> jptr \<Rightarrow> bool" where
  "violates regexec (Is_Required b) compiled v \<longleftrightarrow> b \<noteq> 0 \<and> v = None"
| "violates regexec (Type_Value t) compiled (Some v) \<longleftrightarrow> word_of_int (type_rank (json_type_of v)) \<noteq> t"
| "violates regexec (Min_Length m) compiled (Some (JString s)) \<longleftrightarrow> too_short s m"
| "violates regexec (Max_Length m) compiled (Some (JString s)) \<longleftrightarrow> too_long s m"
| "violates regexec (Min_Value m) compiled (Some v) \<longleftrightarrow> too_small v m"
| "violates regexec (Max_Value m) compiled (Some v) \<longleftrightarrow> too_large v m"
| "violates regexec (Pattern (Some p)) compiled (Some (JString s)) \<longleftrightarrow> compiled \<and> \<not> regexec p s"
| "violates regexec (Enum_Values (Some (JArray xs))) compiled (Some v) \<longleftrightarrow> (\<forall>x \<in> set xs. \<not> json_equals v x)"
| "violates regexec _ compiled _ \<longleftrightarrow> False"

fun violation :: "rule_params \<Rightarrow> string" where
  "violation (Type_Value _) = ''Type mismatch''"
| "violation (Is_Required _) = ''Required field missing''"
| "violation (Min_Length _) = ''String too short''"
| "violation (Max_Length _) = ''String too long''"
| "violation (Min_Value _) = ''Value too small''"
| "violation (Max_Value _) = ''Value too large''"
| "violation (Pattern _) = ''Pattern match failed''"
| "violation (Enum_Values _) = ''Value not in enum''"
| "violation (Nested _) = []"

text \<open>A rule of a nested schema applies when the value it belongs to is there.\<close>

definition flat_fails :: "(string \<Rightarrow> string \<Rightarrow> bool) \<Rightarrow> json \<Rightarrow> flat_rule \<Rightarrow> bool" where
  "flat_fails regexec d f =
     (case f of (pre, path, ps, compiled) \<Rightarrow>
        (\<forall>a. pre = Some a \<longrightarrow> get_json_value_at_path (Some d) (Some a) \<noteq> None) \<and>
        violates regexec ps compiled (get_json_value_at_path (Some d) (Some path)))"

definition first_failure :: "(string \<Rightarrow> string \<Rightarrow> bool) \<Rightarrow> json \<Rightarrow> flat_rule list \<Rightarrow> schema_validation_result" where
  "first_failure regexec d fs =
     (case find (flat_fails regexec d) fs of
        None \<Rightarrow> valid_result
      | Some (pre, path, ps, compiled) \<Rightarrow> invalid_result path (violation ps))"

lemma find_append: "find P (xs @ ys) = (case find P xs of None \<Rightarrow> find P ys | Some x \<Rightarrow> Some x)"
  by (induction xs) auto

lemma first_failure_simps [simp]:
  "first_failure regexec d [] = valid_result"
  "first_failure regexec d [f] =
     (if flat_fails regexec d f then (case f of (pre, path, ps, compiled) \<Rightarrow> invalid_result path (violation ps)) else valid_result)"
  "first_failure regexec d (fs @ gs) =
     (let r = first_failure regexec d fs in if is_valid r then first_failure regexec d gs else r)"
  by (auto simp: first_failure_def find_append Let_def valid_result_def invalid_result_def split: option.split prod.split)

definition below :: "string option \<Rightarrow> schema_validation_result \<Rightarrow> schema_validation_result" where
  "below pre r = (case pre of None \<Rightarrow> r | Some a \<Rightarrow> nested_result a r)"

definition value_at :: "json \<Rightarrow> string option \<Rightarrow> jptr" where
  "value_at d pre = (case pre of None \<Rightarrow> Some d | Some a \<Rightarrow> get_json_value_at_path (Some d) (Some a))"

lemma value_at_path:
  "value_at d pre = Some v \<Longrightarrow>
   get_json_value_at_path (Some d) (Some (join_path pre path)) = get_json_value_at_path (Some v) (Some path)"
  by (auto simp: value_at_def join_path_def value_at_join [simplified] split: option.splits)

lemma value_at_path_None: "value_at d pre = None \<Longrightarrow> get_json_value_at_path (Some d) (Some (join_path pre path)) = None"
  by (auto simp: value_at_def join_path_def value_at_join [simplified] split: option.splits)

lemma below_simps [simp]:
  "below pre valid_result = valid_result"
  "below pre (invalid_result path msg) = invalid_result (join_path pre path) msg"
  "is_valid (below pre r) = is_valid r"
  "below pre (if c then r else q) = (if c then below pre r else below pre q)"
  by (auto simp: below_def nested_result_def valid_result_def invalid_result_def join_path_def split: option.split)

lemma is_valid_simps [simp]: "is_valid valid_result" "\<not> is_valid (invalid_result path msg)"
  by (simp_all add: valid_result_def invalid_result_def)

lemma below_check [simp]: "below pre (check_that b path msg) = check_that b (join_path pre path) msg"
  by (simp add: check_that_def)

text \<open>Below a value that is not there no rule applies.\<close>

lemma flat_absent:
  "f \<in> set (flat_schema pre s) \<Longrightarrow> pre \<noteq> None \<Longrightarrow> value_at d pre = None \<Longrightarrow> \<not> flat_fails regexec d f"
  "f \<in> set (flat_rules pre rs) \<Longrightarrow> pre \<noteq> None \<Longrightarrow> value_at d pre = None \<Longrightarrow> \<not> flat_fails regexec d f"
  "f \<in> set (flat_params pre path compiled ps) \<Longrightarrow> pre \<noteq> None \<Longrightarrow> value_at d pre = None \<Longrightarrow>
     (\<exists>p. path = join_path pre p) \<Longrightarrow> \<not> flat_fails regexec d f"
proof (induction pre s and pre rs and pre path compiled ps rule: flat_schema_flat_rules_flat_params.induct)
  case (5 pre path compiled s)
  then have "value_at d (Some path) = None" by (auto simp: value_at_path_None value_at_def [of _ "Some _"])
  with 5 show ?case by simp
qed (auto simp: flat_fails_def value_at_def)

lemma first_failure_absent: "(\<And>f. f \<in> set fs \<Longrightarrow> \<not> flat_fails regexec d f) \<Longrightarrow> first_failure regexec d fs = valid_result"
  by (induction fs) (auto simp: first_failure_def)

text \<open>An invalid result names a field.\<close>

lemma named_simps [simp]:
  "error_field (invalid_result path msg) = Some path" "error_field (nested_result path r) = None \<longleftrightarrow> is_valid r"
  "is_valid (nested_result path r) = is_valid r" "is_valid (check_that b path msg) \<longleftrightarrow> \<not> b"
  "error_field (check_that b path msg) = (if b then Some path else None)"
  by (auto simp: invalid_result_def nested_result_def valid_result_def check_that_def)

lemma validate_named:
  "\<not> is_valid (validate_schema regexec s v) \<Longrightarrow> error_field (validate_schema regexec s v) \<noteq> None"
  "\<not> is_valid (validate_rules regexec rs v) \<Longrightarrow> error_field (validate_rules regexec rs v) \<noteq> None"
  "\<not> is_valid (validate_rule regexec r v) \<Longrightarrow> error_field (validate_rule regexec r v) \<noteq> None"
  "\<not> is_valid (validate_value regexec ps path compiled v) \<Longrightarrow>
     error_field (validate_value regexec ps path compiled v) \<noteq> None"
  by (induction regexec s v and regexec rs v and regexec r v and regexec ps path compiled v
      rule: validate_schema_validate_rules_validate_rule_validate_value.induct)
    (auto simp: Let_def split: option.splits if_splits)

lemma below_nested:
  "(\<not> is_valid r \<Longrightarrow> error_field r \<noteq> None) \<Longrightarrow> below pre (nested_result path r) = below (Some (join_path pre path)) r"
  by (auto simp: below_def nested_result_def join_path_def valid_result_def split: option.split)

lemma flat_rules_Cons: "flat_rules pre (r # rs) = flat_rules pre [r] @ flat_rules pre rs"
  by (cases r) simp

lemma absent_flat:
  assumes "value_at d pre = Some v" and "get_json_value_at_path (Some v) (Some path) = None"
  shows "below pre (check_that (case params of Is_Required b \<Rightarrow> b \<noteq> 0 | _ \<Rightarrow> False) path ''Required field missing'') =
    first_failure regexec d (flat_rules pre [Rule path params compiled])"
proof -
  have absent: "get_json_value_at_path (Some d) (Some (join_path pre path)) = None"
    using value_at_path [OF assms(1)] assms(2) by simp
  show ?thesis
  proof (cases params)
    case (Nested so)
    have "first_failure regexec d (flat_schema (Some (join_path pre path)) s) = valid_result" for s
      by (rule first_failure_absent) (rule flat_absent(1), auto simp: value_at_def absent)
    with Nested show ?thesis by (cases so) (auto simp: check_that_def)
  qed (use assms(1) in \<open>auto simp: check_that_def flat_fails_def absent value_at_def split: option.splits\<close>)
qed

lemma validate_flat:
  "value_at d pre = Some v \<Longrightarrow>
     below pre (validate_schema regexec s v) = first_failure regexec d (flat_schema pre s)"
  "value_at d pre = Some v \<Longrightarrow>
     below pre (validate_rules regexec rs v) = first_failure regexec d (flat_rules pre rs)"
  "value_at d pre = Some v \<Longrightarrow>
     below pre (validate_rule regexec r v) = first_failure regexec d (flat_rules pre [r])"
  "value_at d pre \<noteq> None \<Longrightarrow> get_json_value_at_path (Some d) (Some (join_path pre path)) = Some v \<Longrightarrow>
     below pre (validate_value regexec ps path compiled v) =
       first_failure regexec d (flat_params pre (join_path pre path) compiled ps)"
proof (induction regexec s v and regexec rs v and regexec r v and regexec ps path compiled v arbitrary: pre and pre and pre and pre
    rule: validate_schema_validate_rules_validate_rule_validate_value.induct)
  case (3 regexec r rs document)
  note one = "3.IH"(1) [OF "3.prems"]
  then have valid: "is_valid (first_failure regexec d (flat_rules pre [r])) = is_valid (validate_rule regexec r document)"
    by (metis below_simps(3))
  show ?case
    by (subst flat_rules_Cons, cases "is_valid (validate_rule regexec r document)")
      (use one valid "3.IH"(2) [OF refl _ "3.prems"] in \<open>simp_all add: Let_def\<close>)
next
  case (4 regexec path params compiled document)
  show ?case
  proof (cases "get_json_value_at_path (Some document) (Some path)")
    case None
    with absent_flat [OF "4.prems" None] show ?thesis by simp
  next
    case (Some v)
    with value_at_path [OF "4.prems", of path] "4.IH" [OF Some, of pre] "4.prems" show ?thesis by simp
  qed
next
  case (14 regexec s path compiled v)
  then show ?case using validate_named(1) by (simp add: below_nested value_at_def)
qed (auto simp: flat_fails_def value_at_def check_that_def list_ex_iff split: json.splits option.splits)

text \<open>
  C21. Validating a document against a schema, whatever its nesting, is looking for the first rule of
  the flat list that fails, where a nested rule has the path of its parents in front and applies
  when the value it belongs to is there; the result is valid if there is none, and otherwise names
  the full path of that rule and what it violates.
\<close>

theorem schema_validation_flat:
  "db_validate_document regexec (Some s) (Some d) =
     (case find (flat_fails regexec d) (flat_schema None s) of
        None \<Rightarrow> valid_result
      | Some (pre, path, ps, compiled) \<Rightarrow> invalid_result path (violation ps))"
  using validate_flat(1) [of d None d regexec s]
  by (simp add: db_validate_document_def value_at_def below_def first_failure_def)

section \<open>JSON\<close>

text \<open>The schemas a document can hold: numbers that name a type, flags, patterns that compile.\<close>

fun schema_ok :: "(string \<Rightarrow> bool) \<Rightarrow> schema \<Rightarrow> bool"
  and rule_ok :: "(string \<Rightarrow> bool) \<Rightarrow> schema_rule \<Rightarrow> bool"
  and params_ok :: "(string \<Rightarrow> bool) \<Rightarrow> rule_params \<Rightarrow> bool" where
  "schema_ok regcomp (Schema n d rs) \<longleftrightarrow> (\<forall>r \<in> set rs. rule_ok regcomp r)"
| "rule_ok regcomp (Rule path ps compiled) \<longleftrightarrow>
     params_ok regcomp ps \<and> compiled = (case ps of Pattern (Some p) \<Rightarrow> True | _ \<Rightarrow> False)"
| "params_ok regcomp (Type_Value t) \<longleftrightarrow> t \<in> {0, 1, 2, 3, 4, 5, 6}"
| "params_ok regcomp (Is_Required b) \<longleftrightarrow> b = 0 \<or> b = 1"
| "params_ok regcomp (Pattern (Some p)) \<longleftrightarrow> regcomp p"
| "params_ok regcomp (Enum_Values (Some e)) \<longleftrightarrow> json_type_of e = JSON_ARRAY \<and> json_wf e"
| "params_ok regcomp (Nested (Some s)) \<longleftrightarrow> schema_ok regcomp s"
| "params_ok regcomp _ \<longleftrightarrow> True"

lemma put_field_object [simp]: "put_field k v (Some (JObject es)) = Some (JObject (obj_set es k v))"
  by (simp add: put_field_def)

lemma rule_to_json_object:
  "rule_to_json (Rule path ps compiled) = Some (JObject
     ([(''field'', JString path), (''type'', JString (type_str (rule_type ps)))] @
      (case params_to_json ps of None \<Rightarrow> [] | Some v \<Rightarrow> [(''value'', v)])))"
  by (simp add: put_optional_def json_create_object_def json_create_string_def split: option.split)

lemma rules_to_json_array:
  "rules_to_json rs (Some (JArray xs)) = Some (JArray (xs @ map (\<lambda>r. the (rule_to_json r)) rs))"
proof (induction rs arbitrary: xs)
  case (Cons r rs)
  obtain v where "rule_to_json r = Some v" by (cases r) (simp only: rule_to_json_object)
  with Cons show ?case by simp
qed simp

lemma schema_to_json_object:
  "schema_to_json (Schema n d rs) = JObject
     ((''name'', JString n) # (case d of None \<Rightarrow> [] | Some s \<Rightarrow> [(''description'', JString s)]) @
      [(''rules'', JArray (map (\<lambda>r. the (rule_to_json r)) rs))])"
  by (simp add: put_optional_def json_create_object_def json_create_string_def json_create_array_def
      rules_to_json_array split: option.split)

lemma rule_type_of_type_str [simp]: "rule_type_of_str (type_str t) = Some t"
  by (cases t) (simp_all add: rule_type_of_str_def)

lemma type_value_of_type_value_str:
  "t \<in> {0, 1, 2, 3, 4, 5, 6} \<Longrightarrow> type_value_of_str (type_value_str t) old = t"
  by (auto simp: type_value_of_str_def type_value_str_def)

lemma ucast_scast [simp]: "ucast (scast (m :: c_int) :: c_int64) = m"
  by (transfer) (simp add: take_bit_signed_take_bit)

text \<open>The value of a rule, as the loop reads it.\<close>

definition read_value :: "(string \<Rightarrow> bool) \<Rightarrow> schema_rule_type \<Rightarrow> jptr \<Rightarrow> rule_params" where
  "read_value regcomp t v =
     (case v of
        None \<Rightarrow> default_params t
      | Some value_val \<Rightarrow>
          if t = SCHEMA_NESTED \<and> json_type_of value_val = JSON_OBJECT
          then Nested (schema_from_json regcomp value_val)
          else params_from_json (default_params t) value_val)"

lemma rule_from_json_to_json:
  assumes "read_value regcomp (rule_type ps) (params_to_json ps) = ps"
  shows "rule_from_json regcomp (the (rule_to_json (Rule path ps compiled))) = Some (Rule path ps False)"
  using assms
  by (cases "params_to_json ps")
    (simp_all add: rule_to_json_object rule_from_json.simps rule_header_def read_value_def del: rule_to_json.simps)

lemma add_compiled:
  "rule_ok regcomp (Rule path ps compiled) \<Longrightarrow>
   db_add_schema_rule regcomp (Schema n d rs) (Rule path ps False) = Some (Schema n d (rs @ [Rule path ps compiled]))"
  by (auto simp: db_add_schema_rule_def compile_rule_def split: rule_params.splits option.splits)

lemma rules_from_json_to_json:
  "(\<And>r. r \<in> set rs \<Longrightarrow> rule_ok regcomp r \<and>
      read_value regcomp (rule_type (rule_params r)) (params_to_json (rule_params r)) = rule_params r) \<Longrightarrow>
   rules_from_json regcomp (map (\<lambda>r. the (rule_to_json r)) rs) (Schema n d acc) = Schema n d (acc @ rs)"
proof (induction rs arbitrary: acc)
  case (Cons r rs)
  obtain path ps compiled where r: "r = Rule path ps compiled" by (cases r)
  from Cons.prems [of r] r have ok: "rule_ok regcomp r" and
    read: "read_value regcomp (rule_type ps) (params_to_json ps) = ps" by auto
  from Cons.IH [of "acc @ [r]"] Cons.prems
  show ?case
    by (simp add: r rule_from_json_to_json [OF read] add_compiled [OF ok [unfolded r]] del: rule_to_json.simps)
qed simp

lemma schema_from_json_to_json:
  "schema_ok regcomp s \<Longrightarrow> schema_from_json regcomp (schema_to_json s) = Some s"
  "rule_ok regcomp r \<Longrightarrow>
     read_value regcomp (rule_type (rule_params r)) (params_to_json (rule_params r)) = rule_params r"
  "params_ok regcomp ps \<Longrightarrow> read_value regcomp (rule_type ps) (params_to_json ps) = ps"
proof (induction regcomp s and regcomp r and regcomp ps rule: schema_ok_rule_ok_params_ok.induct)
  case (1 regcomp n d rs)
  then have "rules_from_json regcomp (map (\<lambda>r. the (rule_to_json r)) rs) (Schema n d []) = Schema n d ([] @ rs)"
    by (intro rules_from_json_to_json) auto
  then show ?case
    by (cases d) (simp_all add: schema_to_json_object schema_from_json.simps db_create_schema_def json_get_string_def
        del: schema_to_json.simps)
next
  case (6 regcomp e)
  then show ?case by (cases e) (auto simp: read_value_def json_clone_wf simp del: json_clone.simps)
next
  case (7 regcomp s)
  have "json_type_of (schema_to_json s) = JSON_OBJECT" by (cases s) (simp only: schema_to_json_object json_type_of.simps)
  with 7 show ?case by (simp add: read_value_def)
qed (auto simp: read_value_def json_create_string_def json_create_boolean_def json_create_integer_def
    json_create_number_def type_value_of_str_def type_value_str_def)

text \<open>What is read from JSON is such a schema.\<close>

lemma params_from_json_ok:
  assumes "json_wf v" and "t \<noteq> SCHEMA_NESTED"
  shows "params_ok regcomp (params_from_json (default_params t) v) \<or>
    (\<exists>p. params_from_json (default_params t) v = Pattern (Some p))"
  using assms by (cases t; cases v) (auto simp: type_value_of_str_def json_clone_wf simp del: json_clone.simps)

definition added_ok :: "(string \<Rightarrow> bool) \<Rightarrow> schema_rule \<Rightarrow> bool" where
  "added_ok regcomp r \<longleftrightarrow> (\<forall>r'. compile_rule regcomp r = Some r' \<longrightarrow> rule_ok regcomp r')"

lemma added_okI:
  "params_ok regcomp ps \<or> (\<exists>p. ps = Pattern (Some p)) \<Longrightarrow> added_ok regcomp (Rule path ps False)"
  by (auto simp: added_ok_def compile_rule_def split: rule_params.splits option.splits if_splits)

lemma default_params_ok: "params_ok regcomp (default_params t)"
  by (cases t) auto

lemma json_wf_get: "json_wf j \<Longrightarrow> json_object_get (Some j) (Some k) = Some v \<Longrightarrow> json_wf v"
  by (cases j) (auto intro: json_wf_obj_get)

lemma read_schema_ok:
  "json_wf j \<Longrightarrow> schema_from_json regcomp j = Some s' \<Longrightarrow> schema_ok regcomp s'"
  "(\<forall>j \<in> set js. json_wf j) \<Longrightarrow> schema_ok regcomp s \<Longrightarrow> schema_ok regcomp (rules_from_json regcomp js s)"
  "json_wf j' \<Longrightarrow> rule_from_json regcomp j' = Some r \<Longrightarrow> added_ok regcomp r"
proof (induction regcomp j and regcomp js s and regcomp j' arbitrary: s' and s' and r
    rule: schema_from_json_rules_from_json_rule_from_json.induct)
  case (1 regcomp j)
  from 1(3) obtain n rs where n: "json_object_get (Some j) (Some ''name'') = Some (JString n)"
    and rs: "json_object_get (Some j) (Some ''rules'') = Some (JArray rs)"
    and s': "s' = rules_from_json regcomp rs (Schema n (json_get_string (json_object_get (Some j) (Some ''description''))) [])"
    by (subst (asm) schema_from_json.simps) (auto simp: db_create_schema_def split: option.splits json.splits)
  have "\<forall>j \<in> set rs. json_wf j" using json_wf_get [OF 1(2) rs] by (simp add: list_all_iff)
  with 1(1) [OF n refl refl _ rs refl] s' show ?case by (simp add: db_create_schema_def)
next
  case (3 regcomp j js s)
  have "schema_ok regcomp (case rule_from_json regcomp j of None \<Rightarrow> s
      | Some r \<Rightarrow> (case db_add_schema_rule regcomp s r of None \<Rightarrow> s | Some s' \<Rightarrow> s'))"
    using 3(1) 3(3,4) by (cases s) (auto simp: db_add_schema_rule_def added_ok_def split: option.split)
  with 3 show ?case by simp
next
  case (4 regcomp j)
  from 4(3) obtain path t where h: "rule_header j = Some (path, t)"
    and r: "r = Rule path (read_value regcomp t (json_object_get (Some j) (Some ''value''))) False"
    by (subst (asm) rule_from_json.simps) (auto simp: read_value_def split: option.splits)
  show ?case
  proof (cases "json_object_get (Some j) (Some ''value'')")
    case None
    with r default_params_ok show ?thesis by (auto simp: read_value_def intro: added_okI)
  next
    case (Some v)
    show ?thesis
    proof (cases "t = SCHEMA_NESTED \<and> json_type_of v = JSON_OBJECT")
      case True
      with 4(1) [OF h refl Some True] json_wf_get [OF 4(2) Some] Some r show ?thesis
        by (cases "schema_from_json regcomp v") (auto simp: read_value_def intro: added_okI)
    next
      case False
      have "params_ok regcomp (params_from_json (default_params t) v) \<or>
          (\<exists>p. params_from_json (default_params t) v = Pattern (Some p))"
      proof (cases "t = SCHEMA_NESTED")
        case True
        then show ?thesis by (cases v) auto
      qed (use params_from_json_ok json_wf_get [OF 4(2) Some] in blast)
      with False r Some show ?thesis by (auto simp: read_value_def intro: added_okI)
    qed
  qed
qed simp

text \<open>
  C22. A schema that was read from JSON is well formed (its types are types, its patterns are
  compiled, its enumerations are arrays), and converting it to JSON and back gives the same
  schema, at any depth of nesting.
\<close>

theorem schema_json_roundtrip:
  assumes "json_wf j" and "db_schema_from_json regcomp (Some j) = Some s"
  shows "schema_ok regcomp s \<and> db_schema_from_json regcomp (db_schema_to_json (Some s)) = Some s"
  using read_schema_ok(1) [OF assms(1)] assms(2) schema_from_json_to_json(1)
  by (auto simp: db_schema_from_json_def db_schema_to_json_def)

definition rule_json :: "string \<Rightarrow> string \<Rightarrow> json \<Rightarrow> json" where
  "rule_json path t v = JObject [(''field'', JString path), (''type'', JString t), (''value'', v)]"

definition schema_json :: "string \<Rightarrow> json list \<Rightarrow> json" where
  "schema_json n rs = JObject [(''name'', JString n), (''rules'', JArray rs)]"

lemma read_schema_json: "schema_from_json regcomp (schema_json n rs) = Some (rules_from_json regcomp rs (Schema n None []))"
  by (simp add: schema_json_def schema_from_json.simps db_create_schema_def json_get_string_def)

lemma read_rule_json:
  "rule_from_json regcomp (rule_json path t v) =
     map_option (\<lambda>k. Rule path (read_value regcomp k (Some v)) False) (rule_type_of_str t)"
  by (simp add: rule_json_def rule_from_json.simps rule_header_def read_value_def split: option.split)

lemmas known_types =
  rule_type_of_type_str [of SCHEMA_MIN_LENGTH, unfolded type_str.simps]
  rule_type_of_type_str [of SCHEMA_PATTERN, unfolded type_str.simps]
  rule_type_of_type_str [of SCHEMA_NESTED, unfolded type_str.simps]

lemma schema_json_object [simp]: "json_type_of (schema_json n rs) = JSON_OBJECT"
  by (simp add: schema_json_def)

lemma schema_json_roundtrip_witness:
  "\<exists>s. db_schema_from_json (\<lambda>p. p = ''^a+$'')
       (Some (schema_json ''user'' [rule_json ''name'' ''pattern'' (JString ''^a+$''), rule_json ''name'' ''pattern'' (JString ''('')
          , rule_json ''address'' ''nested'' (schema_json ''address'' [rule_json ''zip'' ''minLength'' (JInteger 5)])])) = Some s \<and>
     length (schema_rules s) = 2 \<and>
     db_schema_from_json (\<lambda>p. p = ''^a+$'') (db_schema_to_json (Some s)) = Some s"
proof -
  let ?j = "schema_json ''user'' [rule_json ''name'' ''pattern'' (JString ''^a+$''), rule_json ''name'' ''pattern'' (JString ''(''),
    rule_json ''address'' ''nested'' (schema_json ''address'' [rule_json ''zip'' ''minLength'' (JInteger 5)])]"
  let ?rc = "\<lambda>p. p = ''^a+$''"
  have wf: "json_wf ?j" by (simp add: schema_json_def rule_json_def)
  obtain s where s: "db_schema_from_json ?rc (Some ?j) = Some s" and l: "length (schema_rules s) = 2"
    by (simp add: db_schema_from_json_def read_schema_json read_rule_json known_types read_value_def
        db_add_schema_rule_def compile_rule_def)
  from schema_json_roundtrip [OF wf s] s l show ?thesis by blast
qed

section \<open>What goes wrong\<close>

text \<open>A length is compared as \<^verbatim>\<open>size_t\<close>.\<close>

lemma too_short_negative:
  assumes "sint m < 0" and "length s < 2 ^ 63" shows "too_short s m"
proof -
  have m: "- (2 ^ 31) \<le> sint m" using sint_ge [of m] by simp
  have "scast m = (word_of_int (sint m) :: c_size)" by (rule scast_eq)
  then have "uint (scast m :: c_size) = sint m mod 2 ^ 64" by (simp only: uint_word_of_int) simp
  also have "\<dots> = (sint m + 2 ^ 64) mod 2 ^ 64" by simp
  also have "\<dots> = sint m + 2 ^ 64" using m assms(1) by (intro mod_pos_pos_trivial) auto
  finally have "2 ^ 64 - 2 ^ 31 \<le> uint (scast m :: c_size)" using m by simp
  moreover have "uint (of_nat (length s) :: c_size) = int (length s)"
    using assms(2) by (simp only: unsigned_of_nat) (simp add: take_bit_nat_eq_self)
  ultimately show ?thesis using assms(2) unfolding too_short_def word_less_def by simp
qed

text \<open>
  A negative minimum length refuses every string: it is converted to \<^verbatim>\<open>size_t\<close> before the
  comparison, and a schema with it is accepted.
\<close>

theorem negative_min_length_refuses:
  assumes "db_schema_from_json regcomp (Some (schema_json n [rule_json path ''minLength'' (JInteger (- 1))])) = Some s"
    and "get_json_value_at_path (Some d) (Some path) = Some (JString v)" and "length v < 2 ^ 63"
  shows "db_validate_document regexec (Some s) (Some d) = invalid_result path ''String too short''"
proof -
  have minus_one: "ucast (- 1 :: c_int64) = (- 1 :: c_int)" by transfer simp
  have "s = Schema n None [Rule path (Min_Length (- 1)) False]"
    using assms(1) minus_one by (auto simp: db_schema_from_json_def read_schema_json read_rule_json known_types
        read_value_def db_add_schema_rule_def compile_rule_def)
  moreover have "too_short v (- 1)" using too_short_negative [of "- 1" v] assms(3) by simp
  ultimately show ?thesis
    using assms(2) by (simp add: db_validate_document_def check_that_def invalid_result_def Let_def)
qed

text \<open>
  All collections share one schema: \<^verbatim>\<open>db_get_collection\<close> returns the same object for every name,
  so a schema attached to one collection is the schema of every other, and as that object has no
  documents, every collection passes validation against every schema.
\<close>

theorem one_schema_for_all:
  "\<exists>db. db_attach_schema schema_store_init (Some a) (Some s) = (True, db) \<and>
     db_get_schema db (Some b) = Some s \<and> db_validate_collection regexec db (Some b)"
  by (simp add: db_attach_schema_def set_coll_schema_def schema_store_init_def db_get_schema_def db_get_collection_def
      db_validate_collection_def Let_def)

lemma negative_min_length_refuses_witness:
  "\<exists>s. db_validate_document (\<lambda>_ _. True) (Some s) (Some (JObject [(''a'', JString ''x'')])) =
     invalid_result ''a'' ''String too short''"
proof -
  obtain s where "db_schema_from_json (\<lambda>_. True) (Some (schema_json ''n'' [rule_json ''a'' ''minLength'' (JInteger (- 1))])) = Some s"
    by (simp add: db_schema_from_json_def read_schema_json)
  from negative_min_length_refuses [OF this, of "JObject [(''a'', JString ''x'')]" "''x''"] show ?thesis
    by (auto simp: get_json_value_at_path_def enter_value_def)
qed

end
