(* ===== verification/Btree.thy ===== *)
theory Btree
  imports Crc32
begin

text \<open>
  The B-tree of the page store, \<^verbatim>\<open>src/src/components/storage/jdbx_btree.c\<close>, with the layouts of
  \<^verbatim>\<open>jdbx.h\<close>.  The code works on bytes through pointers, and so does the model: memory is a function
  from addresses to bytes, a structure is an address, a field is read and written as little-endian
  bytes at its offset in the packed \<^verbatim>\<open>struct\<close>.  An access past a page reaches whatever lies there.

  The functions \<^verbatim>\<open>jdbx_alloc_page\<close>, \<^verbatim>\<open>jdbx_get_page\<close>, \<^verbatim>\<open>jdbx_get_page_for_write\<close> and
  \<^verbatim>\<open>jdbx_free_page\<close> are declared in \<^verbatim>\<open>jdbx.h\<close> and defined nowhere in the repository: they are the
  parameter \<open>page_ops\<close>.  What getting a page records for the manager itself is not seen by the tree.
  Page numbers, sizes and counts are natural numbers, cut to the width of the field when they are
  stored.  Loops over pages take fuel, for the pages may lead in a circle: \<open>None\<close> is a call that has
  not returned yet.  Allocating a buffer fails for 0 bytes only.
\<close>

section \<open>Memory\<close>

type_synonym byte_memory = "nat \<Rightarrow> byte"

fun le_nat :: "byte list \<Rightarrow> nat" where
  "le_nat [] = 0"
| "le_nat (b # bs) = unat b + 256 * le_nat bs"

definition nat_bytes :: "nat \<Rightarrow> nat \<Rightarrow> byte list" where
  "nat_bytes n v = map (\<lambda>i. of_nat (v div 256 ^ i)) [0..<n]"

definition bytes_at :: "byte_memory \<Rightarrow> nat \<Rightarrow> nat \<Rightarrow> byte list" where
  "bytes_at m a n = map m [a..<a + n]"

definition load_int :: "byte_memory \<Rightarrow> nat \<Rightarrow> nat \<Rightarrow> nat" where
  "load_int m a n = le_nat (bytes_at m a n)"

text \<open>\<^verbatim>\<open>memcpy\<close> from a buffer, a store of an \<open>n\<close>-byte integer, and \<^verbatim>\<open>memmove\<close>.\<close>

definition write_bytes :: "nat \<Rightarrow> byte list \<Rightarrow> byte_memory \<Rightarrow> byte_memory" where
  "write_bytes a bs m = (\<lambda>x. if a \<le> x \<and> x < a + length bs then bs ! (x - a) else m x)"

definition store_int :: "nat \<Rightarrow> nat \<Rightarrow> nat \<Rightarrow> byte_memory \<Rightarrow> byte_memory" where
  "store_int a n v m = write_bytes a (nat_bytes n v) m"

definition memmove :: "nat \<Rightarrow> nat \<Rightarrow> nat \<Rightarrow> byte_memory \<Rightarrow> byte_memory" where
  "memmove dst src n m = write_bytes dst (bytes_at m src n) m"

text \<open>Unsigned subtraction in \<open>b\<close> bytes.\<close>

definition sub_width :: "nat \<Rightarrow> nat \<Rightarrow> nat \<Rightarrow> nat" where
  "sub_width b x y = nat ((int x - int y) mod 256 ^ b)"

section \<open>Layouts\<close>

definition btree_page_size :: nat where
  "btree_page_size = 4096"

definition page_header_size :: nat where
  "page_header_size = 56"

definition node_header_size :: nat where
  "node_header_size = 80"

definition btree_entry_header :: nat where
  "btree_entry_header = 16"

definition btree_max_keys :: nat where
  "btree_max_keys = 100"

definition jdbx_max_key_size :: nat where
  "jdbx_max_key_size = 1024"

definition overflow_threshold :: nat where
  "overflow_threshold = 2048"

definition page_type_internal :: nat where
  "page_type_internal = 4"

definition page_type_leaf :: nat where
  "page_type_leaf = 5"

definition page_type_overflow :: nat where
  "page_type_overflow = 6"

definition page_type :: "byte_memory \<Rightarrow> nat \<Rightarrow> nat" where
  "page_type m p = load_int m p 2"

definition next_page :: "byte_memory \<Rightarrow> nat \<Rightarrow> nat" where
  "next_page m p = load_int m (p + 16) 8"

definition num_keys :: "byte_memory \<Rightarrow> nat \<Rightarrow> nat" where
  "num_keys m p = load_int m (p + 56) 2"

definition level :: "byte_memory \<Rightarrow> nat \<Rightarrow> nat" where
  "level m p = load_int m (p + 58) 2"

definition total_size :: "byte_memory \<Rightarrow> nat \<Rightarrow> nat" where
  "total_size m p = load_int m (p + 60) 4"

definition right_sibling :: "byte_memory \<Rightarrow> nat \<Rightarrow> nat" where
  "right_sibling m p = load_int m (p + 64) 8"

definition parent_page :: "byte_memory \<Rightarrow> nat \<Rightarrow> nat" where
  "parent_page m p = load_int m (p + 72) 8"

definition set_page_type :: "nat \<Rightarrow> nat \<Rightarrow> byte_memory \<Rightarrow> byte_memory" where
  "set_page_type p = store_int p 2"

definition set_page_id :: "nat \<Rightarrow> nat \<Rightarrow> byte_memory \<Rightarrow> byte_memory" where
  "set_page_id p = store_int (p + 8) 8"

definition set_next_page :: "nat \<Rightarrow> nat \<Rightarrow> byte_memory \<Rightarrow> byte_memory" where
  "set_next_page p = store_int (p + 16) 8"

definition set_num_keys :: "nat \<Rightarrow> nat \<Rightarrow> byte_memory \<Rightarrow> byte_memory" where
  "set_num_keys p = store_int (p + 56) 2"

definition set_level :: "nat \<Rightarrow> nat \<Rightarrow> byte_memory \<Rightarrow> byte_memory" where
  "set_level p = store_int (p + 58) 2"

definition set_total_size :: "nat \<Rightarrow> nat \<Rightarrow> byte_memory \<Rightarrow> byte_memory" where
  "set_total_size p = store_int (p + 60) 4"

definition set_right_sibling :: "nat \<Rightarrow> nat \<Rightarrow> byte_memory \<Rightarrow> byte_memory" where
  "set_right_sibling p = store_int (p + 64) 8"

definition set_parent_page :: "nat \<Rightarrow> nat \<Rightarrow> byte_memory \<Rightarrow> byte_memory" where
  "set_parent_page p = store_int (p + 72) 8"

definition key_size :: "byte_memory \<Rightarrow> nat \<Rightarrow> nat" where
  "key_size m e = load_int m e 4"

definition value_size :: "byte_memory \<Rightarrow> nat \<Rightarrow> nat" where
  "value_size m e = load_int m (e + 4) 4"

definition overflow_page :: "byte_memory \<Rightarrow> nat \<Rightarrow> nat" where
  "overflow_page m e = load_int m (e + 8) 8"

definition write_entry :: "nat \<Rightarrow> nat \<Rightarrow> nat \<Rightarrow> nat \<Rightarrow> byte_memory \<Rightarrow> byte_memory" where
  "write_entry e ks vs ov m = store_int (e + 8) 8 ov (store_int (e + 4) 4 vs (store_int e 4 ks m))"

text \<open>The checksum of a page is taken with the old checksum still in it.\<close>

definition update_checksum :: "nat \<Rightarrow> byte_memory \<Rightarrow> byte_memory" where
  "update_checksum p m = store_int (p + 4) 4 (unat (jdbx_crc32 (bytes_at m p btree_page_size))) m"

section \<open>The tree\<close>

record 'p page_ops =
  alloc_page :: "nat \<Rightarrow> byte_memory \<Rightarrow> 'p \<Rightarrow> nat \<times> byte_memory \<times> 'p"
  get_page :: "'p \<Rightarrow> nat \<Rightarrow> nat option"
  get_page_for_write :: "'p \<Rightarrow> nat \<Rightarrow> nat option"
  free_page :: "nat \<Rightarrow> byte_memory \<Rightarrow> 'p \<Rightarrow> byte_memory \<times> 'p"

type_synonym comparator = "byte list \<Rightarrow> byte list \<Rightarrow> int"

record 'p btree =
  bt_mem :: byte_memory
  bt_pm :: 'p
  root_page :: nat
  compare_fn :: comparator
  stat_height :: c_int64
  stat_num_keys :: c_int64
  stat_num_pages :: c_int64

definition on_mem :: "(byte_memory \<Rightarrow> byte_memory) \<Rightarrow> 'p btree \<Rightarrow> 'p btree" where
  "on_mem f t = t\<lparr>bt_mem := f (bt_mem t)\<rparr>"

definition tree_alloc :: "'p page_ops \<Rightarrow> nat \<Rightarrow> 'p btree \<Rightarrow> nat \<times> 'p btree" where
  "tree_alloc ops ty t = (let (n, m, s) = alloc_page ops ty (bt_mem t) (bt_pm t) in (n, t\<lparr>bt_mem := m, bt_pm := s\<rparr>))"

definition tree_free :: "'p page_ops \<Rightarrow> nat \<Rightarrow> 'p btree \<Rightarrow> 'p btree" where
  "tree_free ops n t = (let (m, s) = free_page ops n (bt_mem t) (bt_pm t) in t\<lparr>bt_mem := m, bt_pm := s\<rparr>)"

definition buffer_ok :: "nat \<Rightarrow> bool" where
  "buffer_ok n \<longleftrightarrow> 0 < n"

text \<open>\<^verbatim>\<open>memcmp\<close>, of which only the sign counts, and the default order of keys.\<close>

fun memcmp :: "byte list \<Rightarrow> byte list \<Rightarrow> int" where
  "memcmp (a # as) (b # bs) = (if a < b then - 1 else if b < a then 1 else memcmp as bs)"
| "memcmp _ _ = 0"

definition default_compare :: comparator where
  "default_compare a b =
     (let n = min (length a) (length b);
          c = memcmp (take n a) (take n b)
      in if c \<noteq> 0 then c
         else if length a < length b then - 1 else if length b < length a then 1 else 0)"

definition empty_leaf :: "nat \<Rightarrow> nat \<Rightarrow> byte_memory \<Rightarrow> byte_memory" where
  "empty_leaf n p m =
     update_checksum p (set_parent_page p 0 (set_right_sibling p 0 (set_total_size p node_header_size
       (set_level p 0 (set_num_keys p 0 (set_page_id p n (set_page_type p page_type_leaf m)))))))"

definition jdbx_btree_create ::
    "'p page_ops \<Rightarrow> comparator option \<Rightarrow> byte_memory \<Rightarrow> 'p \<Rightarrow> 'p btree option \<times> byte_memory \<times> 'p" where
  "jdbx_btree_create ops cmp m s =
     (let (n, m1, s1) = alloc_page ops page_type_leaf m s
      in if n = 0 then (None, m1, s1)
         else case get_page_for_write ops s1 n of
           None \<Rightarrow> (None, free_page ops n m1 s1)
         | Some p \<Rightarrow>
             (let m2 = empty_leaf n p m1
              in (Some \<lparr>bt_mem = m2, bt_pm = s1, root_page = n,
                        compare_fn = (case cmp of None \<Rightarrow> default_compare | Some c \<Rightarrow> c),
                        stat_height = 1, stat_num_keys = 0, stat_num_pages = 1\<rparr>, m2, s1)))"

definition jdbx_btree_open ::
    "'p page_ops \<Rightarrow> nat \<Rightarrow> comparator option \<Rightarrow> byte_memory \<Rightarrow> 'p \<Rightarrow> 'p btree option" where
  "jdbx_btree_open ops n cmp m s =
     (case get_page ops s n of
        None \<Rightarrow> None
      | Some p \<Rightarrow>
          if page_type m p \<noteq> page_type_leaf \<and> page_type m p \<noteq> page_type_internal then None
          else Some \<lparr>bt_mem = m, bt_pm = s, root_page = n,
                     compare_fn = (case cmp of None \<Rightarrow> default_compare | Some c \<Rightarrow> c),
                     stat_height = 1, stat_num_keys = 0, stat_num_pages = 1\<rparr>)"

section \<open>Searching a node\<close>

text \<open>The bytes from one entry to the next, as \<^verbatim>\<open>get_key_ptr\<close> steps over them.\<close>

definition entry_span :: "byte_memory \<Rightarrow> nat \<Rightarrow> nat \<Rightarrow> nat" where
  "entry_span m lv e =
     btree_entry_header + key_size m e +
     (if lv = 0 \<and> overflow_page m e = 0 then value_size m e else 0) + (if 0 < lv then 8 else 0)"

fun skip_entries :: "byte_memory \<Rightarrow> nat \<Rightarrow> nat \<Rightarrow> nat \<Rightarrow> nat" where
  "skip_entries m lv 0 e = e"
| "skip_entries m lv (Suc i) e = skip_entries m lv i (e + entry_span m lv e)"

definition get_key_ptr :: "byte_memory \<Rightarrow> nat \<Rightarrow> nat \<Rightarrow> nat" where
  "get_key_ptr m p i = skip_entries m (level m p) i (p + node_header_size)"

definition entry_key :: "byte_memory \<Rightarrow> nat \<Rightarrow> byte list" where
  "entry_key m e = bytes_at m (e + btree_entry_header) (key_size m e)"

function search_node :: "comparator \<Rightarrow> byte_memory \<Rightarrow> nat \<Rightarrow> byte list \<Rightarrow> int \<Rightarrow> int \<Rightarrow> nat \<times> bool" where
  "search_node cmp m p key l r =
     (if r < l then (nat l, False)
      else (let mid = (l + r) div 2;
                c = cmp key (entry_key m (get_key_ptr m p (nat mid)))
            in if c = 0 then (nat mid, True)
               else if c < 0 then search_node cmp m p key l (mid - 1)
               else search_node cmp m p key (mid + 1) r))"
  by pat_completeness auto
termination
  by (relation "measure (\<lambda>(cmp, m, p, key, l, r). nat (r - l + 1))") auto

declare search_node.simps [simp del]

definition find_key_position :: "comparator \<Rightarrow> byte_memory \<Rightarrow> nat \<Rightarrow> byte list \<Rightarrow> nat \<times> bool" where
  "find_key_position cmp m p key =
     (if num_keys m p = 0 then (0, False) else search_node cmp m p key 0 (int (num_keys m p) - 1))"

fun skip_children :: "byte_memory \<Rightarrow> nat \<Rightarrow> nat \<Rightarrow> nat" where
  "skip_children m 0 e = e"
| "skip_children m (Suc i) e = skip_children m i (e + btree_entry_header + key_size m e + 8)"

definition get_child_page :: "byte_memory \<Rightarrow> nat \<Rightarrow> nat \<Rightarrow> nat" where
  "get_child_page m p i =
     (if i = 0 then load_int m (p + node_header_size) 8
      else (let e = skip_children m (i - 1) (p + node_header_size + 8)
            in load_int m (e + btree_entry_header + key_size m e) 8))"

definition node_is_full :: "byte_memory \<Rightarrow> nat \<Rightarrow> bool" where
  "node_is_full m p \<longleftrightarrow> btree_max_keys \<le> num_keys m p"

section \<open>Overflow pages\<close>

definition overflow_room :: nat where
  "overflow_room = btree_page_size - page_header_size"

text \<open>The loop over the pages: \<open>first\<close> is 0 until the first page is allocated.\<close>

definition fill_overflow :: "nat \<Rightarrow> bool \<Rightarrow> nat \<Rightarrow> byte list \<Rightarrow> byte_memory \<Rightarrow> byte_memory" where
  "fill_overflow p is_first len chunk m =
     (let m1 = write_bytes (p + page_header_size) chunk m;
          m2 = (if is_first then store_int (p + page_header_size) 4 len m1 else m1)
      in update_checksum p m2)"

definition link_overflow :: "'p page_ops \<Rightarrow> nat \<Rightarrow> nat \<Rightarrow> 'p btree \<Rightarrow> 'p btree" where
  "link_overflow ops prev n t =
     (if prev = 0 then t
      else case get_page_for_write ops (bt_pm t) prev of
        None \<Rightarrow> t
      | Some q \<Rightarrow> on_mem (set_next_page q n) t)"

fun write_overflow_pages ::
    "'p page_ops \<Rightarrow> nat \<Rightarrow> nat \<Rightarrow> nat \<Rightarrow> nat \<Rightarrow> byte list \<Rightarrow> 'p btree \<Rightarrow> nat \<times> 'p btree" where
  "write_overflow_pages ops 0 len first prev data t = (first, t)"
| "write_overflow_pages ops (Suc k) len first prev data t =
     (let (n, t1) = tree_alloc ops page_type_overflow t
      in if n = 0 then (0, t1)
         else case get_page_for_write ops (bt_pm t1) n of
           None \<Rightarrow> (0, t1)
         | Some p \<Rightarrow>
             (let t2 = link_overflow ops prev n t1;
                  chunk = take overflow_room data;
                  t3 = on_mem (fill_overflow p (first = 0) len chunk) t2
              in write_overflow_pages ops k len (if first = 0 then n else first) n (drop overflow_room data) t3))"

definition write_overflow_value :: "'p page_ops \<Rightarrow> byte list \<Rightarrow> 'p btree \<Rightarrow> nat \<times> 'p btree" where
  "write_overflow_value ops val t =
     write_overflow_pages ops ((length val + btree_page_size - 1) div btree_page_size) (length val) 0 0 val t"

function read_overflow_pages ::
    "'p page_ops \<Rightarrow> byte_memory \<Rightarrow> 'p \<Rightarrow> nat \<Rightarrow> nat \<Rightarrow> nat \<Rightarrow> byte list \<Rightarrow> byte list option" where
  "read_overflow_pages ops m s first sz n copied =
     (if n = 0 \<or> sz \<le> length copied then (if length copied = sz then Some copied else None)
      else case get_page ops s n of
        None \<Rightarrow> None
      | Some p \<Rightarrow>
          if page_type m p \<noteq> page_type_overflow then None
          else (let off = (if n = first then 4 else 0);
                    chunk = min (overflow_room - off) (sz - length copied)
                in read_overflow_pages ops m s first sz (next_page m p)
                     (copied @ bytes_at m (p + page_header_size + off) chunk)))"
  by pat_completeness auto
termination
  by (relation "measure (\<lambda>(ops, m, s, first, sz, n, copied). sz - length copied)")
    (auto simp: bytes_at_def overflow_room_def btree_page_size_def page_header_size_def)

declare read_overflow_pages.simps [simp del]

definition read_overflow_value :: "'p page_ops \<Rightarrow> byte_memory \<Rightarrow> 'p \<Rightarrow> nat \<Rightarrow> byte list option" where
  "read_overflow_value ops m s n =
     (if n = 0 then None
      else case get_page ops s n of
        None \<Rightarrow> None
      | Some p \<Rightarrow>
          if page_type m p \<noteq> page_type_overflow then None
          else (let sz = load_int m (p + page_header_size) 4
                in if \<not> buffer_ok sz then None else read_overflow_pages ops m s n sz n []))"

section \<open>Splitting\<close>

text \<open>The new sibling takes the entries after the middle one; its key goes to the parent.\<close>

definition init_sibling :: "nat \<Rightarrow> nat \<Rightarrow> nat \<Rightarrow> nat \<Rightarrow> byte_memory \<Rightarrow> byte_memory" where
  "init_sibling f s sib par m =
     (let m1 = set_page_id s sib (set_page_type s (page_type m f) m);
          m2 = set_level s (level m1 f) m1;
          m3 = set_parent_page s par m2
      in set_right_sibling s (right_sibling m3 f) m3)"

definition move_upper :: "nat \<Rightarrow> nat \<Rightarrow> nat \<Rightarrow> nat \<Rightarrow> byte_memory \<Rightarrow> byte_memory" where
  "move_upper f s sib mid_key_size m =
     (let n = num_keys m f;
          mid = n div 2;
          src = get_key_ptr m f (mid + 1);
          dst = s + node_header_size + (if 0 < level m f then 8 else 0);
          copy_size = skip_entries m (level m f) (n - (mid + 1)) src - src;
          m1 = memmove dst src copy_size m;
          m2 = set_num_keys s (sub_width 2 n (mid + 1)) m1;
          m3 = set_num_keys f mid m2;
          m4 = set_total_size s (node_header_size + copy_size) m3;
          m5 = set_total_size f (sub_width 4 (total_size m4 f) (copy_size + btree_entry_header + mid_key_size)) m4
      in set_right_sibling f sib m5)"

definition init_root :: "nat \<Rightarrow> nat \<Rightarrow> nat \<Rightarrow> nat \<Rightarrow> nat \<Rightarrow> nat \<Rightarrow> byte list \<Rightarrow> byte_memory \<Rightarrow> byte_memory" where
  "init_root r f s new_root full sib key m =
     (let m1 = set_page_id r new_root (set_page_type r page_type_internal m);
          m2 = set_level r (level m1 f + 1) m1;
          m3 = set_right_sibling r 0 (set_parent_page r 0 (set_num_keys r 1 m2));
          d = r + node_header_size;
          m4 = store_int d 8 full m3;
          m5 = write_entry (d + 8) (length key) 0 0 m4;
          m6 = write_bytes (d + 8 + btree_entry_header) key m5;
          m7 = store_int (d + 8 + btree_entry_header + length key) 8 sib m6;
          m8 = set_total_size r (node_header_size + 8 + btree_entry_header + length key + 8) m7;
          m9 = set_parent_page s new_root (set_parent_page f new_root m8)
      in m9)"

definition insert_separator :: "comparator \<Rightarrow> nat \<Rightarrow> byte list \<Rightarrow> nat \<Rightarrow> nat \<Rightarrow> byte_memory \<Rightarrow> byte_memory" where
  "insert_separator cmp p key left_child right_child m =
     (let pos = fst (find_key_position cmp m p key);
          entry_size = btree_entry_header + length key + 8;
          ptr = get_key_ptr m p pos;
          shift = (\<Sum>i\<leftarrow>[pos..<num_keys m p]. btree_entry_header + key_size m (get_key_ptr m p i) + 8);
          m1 = (if 0 < shift then memmove (ptr + entry_size) ptr shift m else m);
          m2 = write_bytes (ptr + btree_entry_header) key (write_entry ptr (length key) 0 0 m1);
          m3 = store_int (ptr + btree_entry_header + length key) 8 right_child m2;
          m4 = (if pos = 0 then store_int (p + node_header_size) 8 left_child m3
                else (let e = get_key_ptr m3 p (pos - 1)
                      in store_int (e + btree_entry_header + key_size m3 e) 8 left_child m3));
          m5 = set_num_keys p (num_keys m4 p + 1) m4;
          m6 = set_total_size p (total_size m5 p + entry_size) m5
      in update_checksum p m6)"

text \<open>
  \<^verbatim>\<open>split_node\<close> without a parent makes a new root; with one, it puts the middle key there, which may
  split the parent first.  The two functions call each other.
\<close>

definition split_root ::
    "'p page_ops \<Rightarrow> nat \<Rightarrow> nat \<Rightarrow> nat \<Rightarrow> nat \<Rightarrow> byte list \<Rightarrow> 'p btree \<Rightarrow> bool \<times> 'p btree" where
  "split_root ops f s full sib key t =
     (let (n, t1) = tree_alloc ops page_type_internal t
      in if n = 0 then (False, tree_free ops sib t1)
         else case get_page_for_write ops (bt_pm t1) n of
           None \<Rightarrow> (False, tree_free ops n (tree_free ops sib t1))
         | Some r \<Rightarrow>
             (let t2 = on_mem (init_root r f s n full sib key) t1;
                  t3 = t2\<lparr>root_page := n, stat_height := stat_height t2 + 1, stat_num_pages := stat_num_pages t2 + 1\<rparr>
              in (True, on_mem (update_checksum r) t3)))"

definition split_done :: "nat \<Rightarrow> nat \<Rightarrow> 'p btree \<Rightarrow> 'p btree" where
  "split_done f s t =
     (let t1 = on_mem (\<lambda>m. update_checksum s (update_checksum f m)) t
      in t1\<lparr>stat_num_pages := stat_num_pages t1 + 1\<rparr>)"

text \<open>The part of \<^verbatim>\<open>split_node\<close> before the parent: the two pages and the middle key.\<close>

definition split_halves ::
    "'p page_ops \<Rightarrow> nat \<Rightarrow> nat \<Rightarrow> 'p btree \<Rightarrow> (nat \<times> nat \<times> nat \<times> byte list) option \<times> 'p btree" where
  "split_halves ops par full t =
     (case get_page_for_write ops (bt_pm t) full of
        None \<Rightarrow> (None, t)
      | Some f \<Rightarrow>
          (let (sib, t1) = tree_alloc ops (if level (bt_mem t) f = 0 then page_type_leaf else page_type_internal) t
           in if sib = 0 then (None, t1)
              else case get_page_for_write ops (bt_pm t1) sib of
                None \<Rightarrow> (None, tree_free ops sib t1)
              | Some s \<Rightarrow>
                  (let t2 = on_mem (init_sibling f s sib par) t1;
                       m = bt_mem t2;
                       e = get_key_ptr m f (num_keys m f div 2);
                       key = entry_key m e
                   in if \<not> buffer_ok (key_size m e) then (None, tree_free ops sib t2)
                      else (Some (f, s, sib, key), on_mem (move_upper f s sib (key_size m e)) t2))))"

fun split_node :: "'p page_ops \<Rightarrow> nat \<Rightarrow> nat \<Rightarrow> nat \<Rightarrow> 'p btree \<Rightarrow> (bool \<times> 'p btree) option"
  and insert_into_parent ::
    "'p page_ops \<Rightarrow> nat \<Rightarrow> nat \<Rightarrow> byte list \<Rightarrow> nat \<Rightarrow> nat \<Rightarrow> 'p btree \<Rightarrow> (bool \<times> 'p btree) option" where
  "split_node ops 0 par full t = None"
| "split_node ops (Suc fuel) par full t =
     (case split_halves ops par full t of
        (None, t1) \<Rightarrow> Some (False, t1)
      | (Some (f, s, sib, key), t1) \<Rightarrow>
          if par = 0
          then (case split_root ops f s full sib key t1 of
                  (False, t2) \<Rightarrow> Some (False, t2)
                | (True, t2) \<Rightarrow> Some (True, split_done f s t2))
          else (case insert_into_parent ops fuel par key full sib t1 of
                  None \<Rightarrow> None
                | Some (False, t2) \<Rightarrow> Some (False, tree_free ops sib t2)
                | Some (True, t2) \<Rightarrow> Some (True, split_done f s t2)))"
| "insert_into_parent ops 0 par key left_child right_child t = None"
| "insert_into_parent ops (Suc fuel) par key left_child right_child t =
     (case get_page_for_write ops (bt_pm t) par of
        None \<Rightarrow> Some (False, t)
      | Some p \<Rightarrow>
          if node_is_full (bt_mem t) p
             \<or> btree_page_size < total_size (bt_mem t) p + (btree_entry_header + length key + 8)
          then (case split_node ops fuel (parent_page (bt_mem t) p) par t of
                  None \<Rightarrow> None
                | Some (False, t1) \<Rightarrow> Some (False, t1)
                | Some (True, t1) \<Rightarrow> insert_into_parent ops fuel par key left_child right_child t1)
          else Some (True, on_mem (insert_separator (compare_fn t) p key left_child right_child) t))"

section \<open>Operations\<close>

text \<open>
  A key or value that is \<^verbatim>\<open>NULL\<close> and one of length 0 are refused alike: both are the empty list.
  \<open>delete_entry\<close> and \<open>insert_entry\<close> are the part of the functions that works on a leaf.
\<close>

definition leaf_shift :: "byte_memory \<Rightarrow> nat \<Rightarrow> nat \<Rightarrow> nat" where
  "leaf_shift m p pos =
     (\<Sum>i\<leftarrow>[pos..<num_keys m p].
        let e = get_key_ptr m p i
        in btree_entry_header + key_size m e + (if overflow_page m e = 0 then value_size m e else 0))"

definition delete_entry :: "nat \<Rightarrow> nat \<Rightarrow> byte_memory \<Rightarrow> byte_memory" where
  "delete_entry p pos m =
     (let e = get_key_ptr m p pos;
          entry_size = btree_entry_header + key_size m e + (if overflow_page m e = 0 then value_size m e else 0);
          shift = leaf_shift m p (pos + 1);
          m1 = (if 0 < shift then memmove e (e + entry_size) shift m else m);
          m2 = set_num_keys p (sub_width 2 (num_keys m1 p) 1) m1
      in set_total_size p (sub_width 4 (total_size m2 p) entry_size) m2)"

fun btree_delete_from :: "'p page_ops \<Rightarrow> nat \<Rightarrow> nat \<Rightarrow> byte list \<Rightarrow> 'p btree \<Rightarrow> (bool \<times> 'p btree) option" where
  "btree_delete_from ops 0 n key t = None"
| "btree_delete_from ops (Suc fuel) n key t =
     (if n = 0 then Some (False, t)
      else case get_page_for_write ops (bt_pm t) n of
        None \<Rightarrow> Some (False, t)
      | Some p \<Rightarrow>
          (let m = bt_mem t;
               (pos, found) = find_key_position (compare_fn t) m p key
           in if level m p = 0
              then (if found
                    then Some (True, (on_mem (delete_entry p pos) t)\<lparr>stat_num_keys := stat_num_keys t - 1\<rparr>)
                    else Some (False, t))
              else if pos < num_keys m p
              then (let e = get_key_ptr m p pos
                    in btree_delete_from ops fuel (load_int m (e + btree_entry_header + key_size m e) 8) key t)
              else btree_delete_from ops fuel (right_sibling m p) key t))"

definition jdbx_btree_delete :: "'p page_ops \<Rightarrow> nat \<Rightarrow> byte list \<Rightarrow> 'p btree \<Rightarrow> (bool \<times> 'p btree) option" where
  "jdbx_btree_delete ops fuel key t =
     (if key = [] then Some (False, t) else btree_delete_from ops fuel (root_page t) key t)"

definition insert_entry :: "nat \<Rightarrow> nat \<Rightarrow> byte list \<Rightarrow> byte list \<Rightarrow> nat \<Rightarrow> byte_memory \<Rightarrow> byte_memory" where
  "insert_entry p pos key val ov m =
     (let entry_size = btree_entry_header + length key + (if ov = 0 then length val else 0);
          e = get_key_ptr m p pos;
          shift = leaf_shift m p pos;
          m1 = (if 0 < shift then memmove (e + entry_size) e shift m else m);
          m2 = write_bytes (e + btree_entry_header) key (write_entry e (length key) (length val) ov m1);
          m3 = (if ov = 0 then write_bytes (e + btree_entry_header + length key) val m2 else m2);
          m4 = set_num_keys p (num_keys m3 p + 1) m3;
          m5 = set_total_size p (total_size m4 p + entry_size) m4
      in update_checksum p m5)"

definition update_in_place :: "nat \<Rightarrow> byte list \<Rightarrow> byte_memory \<Rightarrow> byte_memory" where
  "update_in_place e val m =
     (let m1 = store_int (e + 4) 4 (length val) m
      in write_bytes (e + btree_entry_header + key_size m1 e) val m1)"

text \<open>The value of a new key is written to overflow pages before the room in the leaf is checked.\<close>

definition place_value :: "'p page_ops \<Rightarrow> byte list \<Rightarrow> 'p btree \<Rightarrow> nat option \<times> 'p btree" where
  "place_value ops val t =
     (if overflow_threshold < length val
      then (let (ov, t1) = write_overflow_value ops val t in (if ov = 0 then None else Some ov, t1))
      else (Some 0, t))"

fun btree_insert_from ::
    "'p page_ops \<Rightarrow> nat \<Rightarrow> nat \<Rightarrow> byte list \<Rightarrow> byte list \<Rightarrow> 'p btree \<Rightarrow> (bool \<times> 'p btree) option" where
  "btree_insert_from ops 0 n key val t = None"
| "btree_insert_from ops (Suc fuel) n key val t =
     (case get_page_for_write ops (bt_pm t) n of
        None \<Rightarrow> Some (False, t)
      | Some p \<Rightarrow>
          if node_is_full (bt_mem t) p
          then (case split_node ops fuel (parent_page (bt_mem t) p) n t of
                  None \<Rightarrow> None
                | Some (False, t1) \<Rightarrow> Some (False, t1)
                | Some (True, t1) \<Rightarrow> btree_insert_from ops fuel (root_page t1) key val t1)
          else
            (let m = bt_mem t;
                 (pos, found) = find_key_position (compare_fn t) m p key;
                 e = get_key_ptr m p pos
             in if level m p \<noteq> 0 then btree_insert_from ops fuel (get_child_page m p pos) key val t
                else if found
                then (if length val \<le> value_size m e \<and> overflow_page m e = 0
                      then Some (True, on_mem (update_in_place e val) t)
                      else case jdbx_btree_delete ops fuel key t of
                        None \<Rightarrow> None
                      | Some (False, t1) \<Rightarrow> Some (False, t1)
                      | Some (True, t1) \<Rightarrow> btree_insert_from ops fuel (root_page t1) key val t1)
                else (case place_value ops val t of
                        (None, t1) \<Rightarrow> Some (False, t1)
                      | (Some ov, t1) \<Rightarrow>
                          if btree_page_size < total_size (bt_mem t1) p +
                               (btree_entry_header + length key + (if overflow_threshold < length val then 0 else length val))
                          then (case split_node ops fuel (parent_page (bt_mem t1) p) n t1 of
                                  None \<Rightarrow> None
                                | Some (False, t2) \<Rightarrow> Some (False, t2)
                                | Some (True, t2) \<Rightarrow> btree_insert_from ops fuel (root_page t2) key val t2)
                          else Some (True, (on_mem (insert_entry p pos key val ov) t1)
                                             \<lparr>stat_num_keys := stat_num_keys t1 + 1\<rparr>))))"

definition jdbx_btree_insert ::
    "'p page_ops \<Rightarrow> nat \<Rightarrow> byte list \<Rightarrow> byte list \<Rightarrow> 'p btree \<Rightarrow> (bool \<times> 'p btree) option" where
  "jdbx_btree_insert ops fuel key val t =
     (if key = [] \<or> val = [] \<or> jdbx_max_key_size < length key then Some (False, t)
      else btree_insert_from ops fuel (root_page t) key val t)"

fun btree_get_from :: "'p page_ops \<Rightarrow> nat \<Rightarrow> nat \<Rightarrow> byte list \<Rightarrow> 'p btree \<Rightarrow> byte list option option" where
  "btree_get_from ops 0 n key t = None"
| "btree_get_from ops (Suc fuel) n key t =
     (case get_page ops (bt_pm t) n of
        None \<Rightarrow> Some None
      | Some p \<Rightarrow>
          (let m = bt_mem t;
               (pos, found) = find_key_position (compare_fn t) m p key;
               e = get_key_ptr m p pos
           in if level m p \<noteq> 0
              then btree_get_from ops fuel (get_child_page m p (if found then pos + 1 else pos)) key t
              else if \<not> found then Some None
              else if overflow_page m e \<noteq> 0
              then Some (read_overflow_value ops m (bt_pm t) (overflow_page m e))
              else if \<not> buffer_ok (value_size m e) then Some None
              else Some (Some (bytes_at m (e + btree_entry_header + key_size m e) (value_size m e)))))"

definition jdbx_btree_get :: "'p page_ops \<Rightarrow> nat \<Rightarrow> byte list \<Rightarrow> 'p btree \<Rightarrow> byte list option option" where
  "jdbx_btree_get ops fuel key t =
     (if key = [] then Some None else btree_get_from ops fuel (root_page t) key t)"

section \<open>Iterators\<close>

record btree_iterator =
  it_page :: nat
  it_index :: nat
  it_finished :: bool

fun leftmost_from :: "'p page_ops \<Rightarrow> nat \<Rightarrow> nat \<Rightarrow> 'p btree \<Rightarrow> nat option" where
  "leftmost_from ops 0 n t = None"
| "leftmost_from ops (Suc fuel) n t =
     (if n = 0 then Some 0
      else case get_page ops (bt_pm t) n of
        None \<Rightarrow> Some 0
      | Some p \<Rightarrow>
          if level (bt_mem t) p = 0 then Some n
          else leftmost_from ops fuel (get_child_page (bt_mem t) p 0) t)"

definition find_leftmost_leaf :: "'p page_ops \<Rightarrow> nat \<Rightarrow> 'p btree \<Rightarrow> nat option" where
  "find_leftmost_leaf ops fuel t = leftmost_from ops fuel (root_page t) t"

definition jdbx_btree_iterator_create :: "'p page_ops \<Rightarrow> nat \<Rightarrow> 'p btree \<Rightarrow> btree_iterator option" where
  "jdbx_btree_iterator_create ops fuel t =
     (case find_leftmost_leaf ops fuel t of
        None \<Rightarrow> None
      | Some n \<Rightarrow> Some \<lparr>it_page = n, it_index = 0, it_finished = (n = 0)\<rparr>)"

text \<open>\<open>iterator_loop\<close> returns the pair found, or nothing for -1, and the iterator afterwards.\<close>

definition iterator_entry :: "byte_memory \<Rightarrow> nat \<Rightarrow> (byte list \<times> byte list) option" where
  "iterator_entry m e =
     (if \<not> buffer_ok (key_size m e) \<or> overflow_page m e \<noteq> 0 \<or> \<not> buffer_ok (value_size m e) then None
      else Some (entry_key m e, bytes_at m (e + btree_entry_header + key_size m e) (value_size m e)))"

fun iterator_loop ::
    "'p page_ops \<Rightarrow> nat \<Rightarrow> 'p btree \<Rightarrow> btree_iterator \<Rightarrow> ((byte list \<times> byte list) option \<times> btree_iterator) option" where
  "iterator_loop ops 0 t it = None"
| "iterator_loop ops (Suc fuel) t it =
     (if it_page it = 0 then Some (None, it\<lparr>it_finished := True\<rparr>)
      else case get_page ops (bt_pm t) (it_page it) of
        None \<Rightarrow> Some (None, it\<lparr>it_finished := True\<rparr>)
      | Some p \<Rightarrow>
          if it_index it < num_keys (bt_mem t) p
          then (case iterator_entry (bt_mem t) (get_key_ptr (bt_mem t) p (it_index it)) of
                  None \<Rightarrow> Some (None, it)
                | Some kv \<Rightarrow> Some (Some kv, it\<lparr>it_index := it_index it + 1\<rparr>))
          else (let n = right_sibling (bt_mem t) p
                in if n = 0 then Some (None, it\<lparr>it_page := 0, it_index := 0, it_finished := True\<rparr>)
                   else iterator_loop ops fuel t (it\<lparr>it_page := n, it_index := 0\<rparr>)))"

definition jdbx_btree_iterator_next ::
    "'p page_ops \<Rightarrow> nat \<Rightarrow> 'p btree \<Rightarrow> btree_iterator \<Rightarrow> ((byte list \<times> byte list) option \<times> btree_iterator) option" where
  "jdbx_btree_iterator_next ops fuel t it =
     (if it_finished it then Some (None, it) else iterator_loop ops fuel t it)"

end
