(* ===== verification/Btree_Node.thy ===== *)
theory Btree_Node
  imports Btree
begin

text \<open>
  What the bytes of a leaf page stand for: the pairs of key and value it holds, in the order of the
  page.  Reading, searching, inserting, deleting and updating on the bytes are shown to be the
  operations on that list.
\<close>

named_theorems field_defs "header fields, as loads and stores"

declare page_type_def [field_defs] next_page_def [field_defs] num_keys_def [field_defs] level_def [field_defs]
  total_size_def [field_defs] right_sibling_def [field_defs] parent_page_def [field_defs]
  set_page_type_def [field_defs] set_page_id_def [field_defs] set_next_page_def [field_defs]
  set_num_keys_def [field_defs] set_level_def [field_defs] set_total_size_def [field_defs]
  set_right_sibling_def [field_defs] set_parent_page_def [field_defs] update_checksum_def [field_defs]
  key_size_def [field_defs] value_size_def [field_defs] overflow_page_def [field_defs] write_entry_def [field_defs]

lemmas size_defs = btree_page_size_def page_header_size_def node_header_size_def btree_entry_header_def
  btree_max_keys_def jdbx_max_key_size_def overflow_threshold_def

section \<open>Bytes\<close>

lemma length_nat_bytes [simp]: "length (nat_bytes n v) = n"
  by (simp add: nat_bytes_def)

lemma nat_bytes_Suc: "nat_bytes (Suc n) v = of_nat v # nat_bytes n (v div 256)"
proof -
  have "nat_bytes (Suc n) v = map (\<lambda>i. of_nat (v div 256 ^ i)) (0 # map Suc [0..<n])"
    by (simp add: nat_bytes_def map_Suc_upt upt_conv_Cons del: upt_Suc)
  then show ?thesis by (simp add: nat_bytes_def div_mult2_eq comp_def)
qed

lemma le_nat_bytes: "le_nat (nat_bytes n v) = v mod 256 ^ n"
proof (induction n arbitrary: v)
  case (Suc n)
  have "unat (of_nat v :: byte) = v mod 256" by (simp add: unsigned_of_nat take_bit_eq_mod)
  then show ?case by (simp add: nat_bytes_Suc Suc mod_mult2_eq)
qed (simp add: nat_bytes_def)

lemma length_bytes_at [simp]: "length (bytes_at m a n) = n"
  by (simp add: bytes_at_def)

lemma bytes_at_0 [simp]: "bytes_at m a 0 = []"
  by (simp add: bytes_at_def)

lemma nth_bytes_at [simp]: "i < n \<Longrightarrow> bytes_at m a n ! i = m (a + i)"
  by (simp add: bytes_at_def)

lemma bytes_at_add: "bytes_at m a (i + j) = bytes_at m a i @ bytes_at m (a + i) j"
  by (rule nth_equalityI) (auto simp: nth_append)

lemma bytes_at_cong: "(\<And>x. a \<le> x \<Longrightarrow> x < a + n \<Longrightarrow> m x = m' x) \<Longrightarrow> bytes_at m a n = bytes_at m' a n"
  by (simp add: bytes_at_def)

lemma bytes_at_write: "bytes_at (write_bytes a bs m) a (length bs) = bs"
  by (rule nth_equalityI) (auto simp: write_bytes_def)

lemma bytes_at_write_n: "n = length bs \<Longrightarrow> bytes_at (write_bytes a bs m) a n = bs"
  by (simp add: bytes_at_write)

lemma write_bytes_other: "x < a \<or> a + length bs \<le> x \<Longrightarrow> write_bytes a bs m x = m x"
  by (auto simp: write_bytes_def)

lemma bytes_at_write_other [simp]:
  "a + n \<le> b \<or> b + length bs \<le> a \<Longrightarrow> bytes_at (write_bytes b bs m) a n = bytes_at m a n"
  by (rule bytes_at_cong) (auto simp: write_bytes_def)

lemma bytes_at_store_other [simp]: "a + n \<le> b \<or> b + k \<le> a \<Longrightarrow> bytes_at (store_int b k v m) a n = bytes_at m a n"
  by (simp add: store_int_def)

lemma bytes_at_store: "bytes_at (store_int a n v m) a n = nat_bytes n v"
  unfolding store_int_def by (rule bytes_at_write_n) simp

lemma store_other: "x < a \<or> a + n \<le> x \<Longrightarrow> store_int a n v m x = m x"
  by (simp add: store_int_def write_bytes_other)

lemma load_store [simp]: "load_int (store_int a n v m) a n = v mod 256 ^ n"
  by (simp add: load_int_def bytes_at_store le_nat_bytes)

lemma load_store_other [simp]: "a + n \<le> b \<or> b + k \<le> a \<Longrightarrow> load_int (store_int b k v m) a n = load_int m a n"
  by (simp add: load_int_def)

lemma load_write_other [simp]: "a + n \<le> b \<or> b + length bs \<le> a \<Longrightarrow> load_int (write_bytes b bs m) a n = load_int m a n"
  by (simp add: load_int_def)

lemma memmove_other: "x < a \<or> a + n \<le> x \<Longrightarrow> memmove a b n m x = m x"
  by (simp add: memmove_def write_bytes_other)

lemma bytes_at_memmove [simp]: "bytes_at (memmove a b n m) a n = bytes_at m b n"
  by (simp add: memmove_def bytes_at_write_n)

lemma bytes_at_memmove_other [simp]: "a + n \<le> b \<or> b + k \<le> a \<Longrightarrow> bytes_at (memmove b c k m) a n = bytes_at m a n"
  by (simp add: memmove_def)

lemma load_memmove_other [simp]: "a + n \<le> b \<or> b + k \<le> a \<Longrightarrow> load_int (memmove b c k m) a n = load_int m a n"
  by (simp add: memmove_def)

lemma write_bytes_Nil [simp]: "write_bytes a [] m = m"
  by (rule ext) (auto simp: write_bytes_def)

lemma memmove_0 [simp]: "memmove a b 0 m = m"
  by (simp add: memmove_def)

section \<open>Entries as bytes\<close>

type_synonym pair = "byte list \<times> byte list"

definition encode_entry :: "pair \<Rightarrow> byte list" where
  "encode_entry kv = nat_bytes 4 (length (fst kv)) @ nat_bytes 4 (length (snd kv)) @ nat_bytes 8 0 @ fst kv @ snd kv"

definition entry_bytes :: "pair \<Rightarrow> nat" where
  "entry_bytes kv = 16 + length (fst kv) + length (snd kv)"

definition span_of :: "pair list \<Rightarrow> nat" where
  "span_of es = sum_list (map entry_bytes es)"

definition encode_entries :: "pair list \<Rightarrow> byte list" where
  "encode_entries es = concat (map encode_entry es)"

definition pair_ok :: "pair \<Rightarrow> bool" where
  "pair_ok kv \<longleftrightarrow> fst kv \<noteq> [] \<and> length (fst kv) \<le> jdbx_max_key_size \<and> snd kv \<noteq> [] \<and> length (snd kv) \<le> overflow_threshold"

lemma length_encode_entry [simp]: "length (encode_entry kv) = entry_bytes kv"
  by (simp add: encode_entry_def entry_bytes_def)

lemma span_of_simps [simp]:
  "span_of [] = 0" "span_of (kv # es) = entry_bytes kv + span_of es" "span_of (es @ es') = span_of es + span_of es'"
  by (simp_all add: span_of_def)

lemma encode_entries_simps [simp]:
  "encode_entries [] = []" "encode_entries (kv # es) = encode_entry kv @ encode_entries es"
  "encode_entries (es @ es') = encode_entries es @ encode_entries es'"
  by (simp_all add: encode_entries_def)

lemma length_encode_entries [simp]: "length (encode_entries es) = span_of es"
  by (induction es) simp_all

text \<open>Bytes that begin with an encoded pair, read as an entry.\<close>

lemma entry_fields:
  assumes "bytes_at m e (entry_bytes (k, v)) = encode_entry (k, v)" "pair_ok (k, v)"
  shows "key_size m e = length k" "value_size m e = length v" "overflow_page m e = 0"
    "entry_key m e = k" "bytes_at m (e + 16 + length k) (length v) = v"
proof -
  have "bytes_at m e (4 + (4 + (8 + (length k + length v)))) = encode_entry (k, v)"
    using assms(1) by (simp add: entry_bytes_def add.assoc)
  then have b: "bytes_at m e 4 = nat_bytes 4 (length k)" "bytes_at m (e + 4) 4 = nat_bytes 4 (length v)"
    "bytes_at m (e + 8) 8 = nat_bytes 8 0" "bytes_at m (e + 16) (length k) = k"
    "bytes_at m (e + 16 + length k) (length v) = v"
    unfolding bytes_at_add by (simp_all add: encode_entry_def ac_simps)
  moreover have "length k < 256 ^ 4" "length v < 256 ^ 4"
    using assms(2) by (simp_all add: pair_ok_def size_defs)
  ultimately show k: "key_size m e = length k" "value_size m e = length v" "overflow_page m e = 0"
    and "entry_key m e = k" "bytes_at m (e + 16 + length k) (length v) = v"
    by (simp_all add: field_defs load_int_def entry_key_def le_nat_bytes size_defs)
qed

lemma entry_span_leaf:
  assumes "bytes_at m e (entry_bytes kv) = encode_entry kv" "pair_ok kv"
  shows "entry_span m 0 e = entry_bytes kv"
  using entry_fields [of m e "fst kv" "snd kv"] assms
  by (simp add: entry_span_def entry_bytes_def size_defs)

lemma skip_entries_leaf:
  assumes "bytes_at m a (span_of (L @ R)) = encode_entries (L @ R)" "\<forall>kv\<in>set L. pair_ok kv"
  shows "skip_entries m 0 (length L) a = a + span_of L"
  using assms
proof (induction L arbitrary: a)
  case (Cons kv L)
  have "bytes_at m a (entry_bytes kv + span_of (L @ R)) = encode_entry kv @ encode_entries (L @ R)"
    using Cons.prems(1) by (simp add: add.assoc)
  then have b: "bytes_at m a (entry_bytes kv) = encode_entry kv"
    "bytes_at m (a + entry_bytes kv) (span_of (L @ R)) = encode_entries (L @ R)"
    unfolding bytes_at_add by simp_all
  have "skip_entries m 0 (length L) (a + entry_bytes kv) = a + entry_bytes kv + span_of L"
    using Cons.prems(2) b(2) by (intro Cons.IH) simp_all
  then show ?case using entry_span_leaf [OF b(1)] Cons.prems(2) by simp
qed simp

section \<open>Leaves\<close>

definition leaf_at :: "byte_memory \<Rightarrow> nat \<Rightarrow> pair list \<Rightarrow> bool" where
  "leaf_at m p es \<longleftrightarrow>
     num_keys m p = length es \<and> level m p = 0 \<and> total_size m p = 80 + span_of es \<and>
     bytes_at m (p + 80) (span_of es) = encode_entries es"

definition leaf_ok :: "pair list \<Rightarrow> bool" where
  "leaf_ok es \<longleftrightarrow> (\<forall>kv\<in>set es. pair_ok kv) \<and> length es \<le> 100 \<and> 80 + span_of es \<le> 4096"

lemma leaf_ok_sub: "leaf_ok (L @ M @ R) \<Longrightarrow> leaf_ok (L @ R)"
  by (auto simp: leaf_ok_def)

lemma get_key_ptr_leaf:
  assumes "leaf_at m p (L @ R)" "leaf_ok (L @ R)"
  shows "get_key_ptr m p (length L) = p + 80 + span_of L"
  using skip_entries_leaf [of m "p + 80" L R] assms
  by (simp add: get_key_ptr_def leaf_at_def leaf_ok_def size_defs)

lemma leaf_entry:
  assumes "leaf_at m p (L @ kv # R)"
  shows "bytes_at m (p + 80 + span_of L) (entry_bytes kv) = encode_entry kv"
proof -
  have "bytes_at m (p + 80) (span_of L + (entry_bytes kv + span_of R)) = encode_entries L @ encode_entry kv @ encode_entries R"
    using assms by (simp add: leaf_at_def)
  then show ?thesis unfolding bytes_at_add by simp
qed

lemma leaf_suffix:
  assumes "leaf_at m p (L @ R)"
  shows "bytes_at m (p + 80) (span_of L) = encode_entries L" "bytes_at m (p + 80 + span_of L) (span_of R) = encode_entries R"
proof -
  have "bytes_at m (p + 80) (span_of L + span_of R) = encode_entries L @ encode_entries R"
    using assms by (simp add: leaf_at_def)
  then show "bytes_at m (p + 80) (span_of L) = encode_entries L"
    "bytes_at m (p + 80 + span_of L) (span_of R) = encode_entries R"
    unfolding bytes_at_add by (simp_all)
qed

lemma leaf_entry_at:
  assumes "leaf_at m p es" "leaf_ok es" "i < length es"
  shows "get_key_ptr m p i = p + 80 + span_of (take i es)"
    "key_size m (get_key_ptr m p i) = length (fst (es ! i))"
    "value_size m (get_key_ptr m p i) = length (snd (es ! i))"
    "overflow_page m (get_key_ptr m p i) = 0"
    "entry_key m (get_key_ptr m p i) = fst (es ! i)"
    "bytes_at m (get_key_ptr m p i + 16 + length (fst (es ! i))) (length (snd (es ! i))) = snd (es ! i)"
proof -
  have es: "es = take i es @ es ! i # drop (Suc i) es" using assms(3) by (rule id_take_nth_drop)
  show p: "get_key_ptr m p i = p + 80 + span_of (take i es)"
    using get_key_ptr_leaf [of m p "take i es" "drop i es"] assms by simp
  have "bytes_at m (get_key_ptr m p i) (entry_bytes (es ! i)) = encode_entry (es ! i)"
    unfolding p using leaf_entry [of m p "take i es" "es ! i" "drop (Suc i) es"] assms(1) es by simp
  moreover have "pair_ok (es ! i)" using assms by (simp add: leaf_ok_def)
  ultimately show "key_size m (get_key_ptr m p i) = length (fst (es ! i))"
    "value_size m (get_key_ptr m p i) = length (snd (es ! i))" "overflow_page m (get_key_ptr m p i) = 0"
    "entry_key m (get_key_ptr m p i) = fst (es ! i)"
    "bytes_at m (get_key_ptr m p i + 16 + length (fst (es ! i))) (length (snd (es ! i))) = snd (es ! i)"
    using entry_fields [of m "get_key_ptr m p i" "fst (es ! i)" "snd (es ! i)"] by simp_all
qed

lemma leaf_shift_span:
  assumes "leaf_at m p (L @ R)" "leaf_ok (L @ R)"
  shows "leaf_shift m p (length L) = span_of R"
proof -
  have "num_keys m p = length L + length R" using assms(1) by (simp add: leaf_at_def)
  then have "leaf_shift m p (length L) = (\<Sum>i\<leftarrow>[length L..<length L + length R]. entry_bytes ((L @ R) ! i))"
    unfolding leaf_shift_def
    by (intro arg_cong [of _ _ sum_list] map_cong)
      (auto simp: Let_def entry_bytes_def size_defs leaf_entry_at(2-4) [OF assms])
  also have "\<dots> = span_of (map (\<lambda>i. (L @ R) ! i) [length L..<length L + length R])"
    by (simp add: span_of_def comp_def)
  also have "map (\<lambda>i. (L @ R) ! i) [length L..<length L + length R] = R"
    by (rule nth_equalityI) auto
  finally show ?thesis .
qed

section \<open>Orders on keys\<close>

text \<open>The pairs below and above a key, and what inserting and deleting do to the list of a leaf.\<close>

definition below :: "comparator \<Rightarrow> byte list \<Rightarrow> pair list \<Rightarrow> pair list" where
  "below cmp k es = filter (\<lambda>kv. cmp (fst kv) k < 0) es"

definition above :: "comparator \<Rightarrow> byte list \<Rightarrow> pair list \<Rightarrow> pair list" where
  "above cmp k es = filter (\<lambda>kv. cmp k (fst kv) < 0) es"

definition sorted_pairs :: "comparator \<Rightarrow> pair list \<Rightarrow> bool" where
  "sorted_pairs cmp es \<longleftrightarrow> sorted_wrt (\<lambda>a b. cmp (fst a) (fst b) < 0) es"

definition the_pair :: "byte list \<Rightarrow> pair list \<Rightarrow> pair list" where
  "the_pair k es = (case map_of es k of None \<Rightarrow> [] | Some v \<Rightarrow> [(k, v)])"

definition put_pair :: "comparator \<Rightarrow> byte list \<Rightarrow> byte list \<Rightarrow> pair list \<Rightarrow> pair list" where
  "put_pair cmp k v es = below cmp k es @ (k, v) # above cmp k es"

definition del_pair :: "comparator \<Rightarrow> byte list \<Rightarrow> pair list \<Rightarrow> pair list" where
  "del_pair cmp k es = below cmp k es @ above cmp k es"

lemma map_of_below: "map_of (below cmp k es) x = (if cmp x k < 0 then map_of es x else None)"
  by (induction es) (auto simp: below_def)

lemma map_of_above: "map_of (above cmp k es) x = (if cmp k x < 0 then map_of es x else None)"
  by (induction es) (auto simp: above_def)

text \<open>
  What the tree relies on in a comparison function: the one given to
  \<^verbatim>\<open>jdbx_btree_create\<close>, or \<^verbatim>\<open>default_compare\<close>.
\<close>

locale comparison =
  fixes cmp :: comparator
  assumes cmp_zero: "cmp a b = 0 \<longleftrightarrow> a = b"
    and cmp_swap: "0 < cmp a b \<longleftrightarrow> cmp b a < 0"
    and cmp_trans: "cmp a b < 0 \<Longrightarrow> cmp b c < 0 \<Longrightarrow> cmp a c < 0"
begin

lemma cmp_cases: "cmp a b < 0 \<or> a = b \<or> cmp b a < 0"
  using cmp_zero [of a b] cmp_swap [of a b] by linarith

lemma cmp_irrefl [simp]: "cmp a a = 0"
  by (simp add: cmp_zero)

lemma cmp_asym: "cmp a b < 0 \<Longrightarrow> \<not> cmp b a < 0"
  using cmp_swap [of b a] by simp

lemma map_of_put [simp]: "map_of (put_pair cmp k v es) = (map_of es)(k \<mapsto> v)"
proof (rule ext)
  fix x
  show "map_of (put_pair cmp k v es) x = ((map_of es)(k \<mapsto> v)) x"
    using cmp_cases [of x k]
    by (auto simp: put_pair_def map_of_below map_of_above map_add_def dest: cmp_asym split: option.split)
qed

lemma map_of_del [simp]: "map_of (del_pair cmp k es) = (map_of es)(k := None)"
proof (rule ext)
  fix x
  show "map_of (del_pair cmp k es) x = ((map_of es)(k := None)) x"
    using cmp_cases [of x k]
    by (auto simp: del_pair_def map_of_below map_of_above map_add_def dest: cmp_asym split: option.split)
qed

lemma sorted_put: "sorted_pairs cmp es \<Longrightarrow> sorted_pairs cmp (put_pair cmp k v es)"
  by (auto simp: sorted_pairs_def put_pair_def below_def above_def sorted_wrt_append sorted_wrt_filter
      intro: cmp_trans)

lemma sorted_del: "sorted_pairs cmp es \<Longrightarrow> sorted_pairs cmp (del_pair cmp k es)"
  by (auto simp: sorted_pairs_def del_pair_def below_def above_def sorted_wrt_append sorted_wrt_filter
      intro: cmp_trans)

lemma sorted_drop: "sorted_pairs cmp es \<Longrightarrow> sorted_pairs cmp (drop n es)"
  by (simp add: sorted_pairs_def sorted_wrt_drop)

text \<open>A sorted list falls into the pairs below a key, its own, and those above.\<close>

lemma split_sorted: "sorted_pairs cmp es \<Longrightarrow> es = below cmp k es @ the_pair k es @ above cmp k es"
proof (induction es)
  case (Cons kv es)
  then have IH: "es = below cmp k es @ the_pair k es @ above cmp k es"
    and lt: "\<And>x. x \<in> set es \<Longrightarrow> cmp (fst kv) (fst x) < 0"
    by (auto simp: sorted_pairs_def)
  consider "cmp (fst kv) k < 0" | "fst kv = k" | "cmp k (fst kv) < 0" using cmp_cases by blast
  then show ?case
  proof cases
    case 1
    then have "fst kv \<noteq> k" "\<not> cmp k (fst kv) < 0" by (auto dest: cmp_asym)
    with 1 IH show ?thesis by (cases kv) (simp add: below_def above_def the_pair_def)
  next
    case 2
    with lt have "below cmp k es = []" "above cmp k es = es"
      by (auto simp: below_def above_def filter_empty_conv filter_id_conv dest: cmp_asym)
    then show ?thesis using 2 by (cases kv) (simp add: below_def above_def the_pair_def)
  next
    case 3
    then have gt: "cmp k (fst x) < 0" if "x \<in> set es" for x using lt [OF that] cmp_trans by blast
    have "map_of es k = None" using gt by (force simp: map_of_eq_None_iff)
    moreover have "below cmp k es = []" "above cmp k es = es"
      using gt by (auto simp: below_def above_def filter_empty_conv filter_id_conv dest: cmp_asym)
    moreover have "fst kv \<noteq> k" "\<not> cmp (fst kv) k < 0" using 3 by (auto dest: cmp_asym)
    ultimately show ?thesis using 3 by (cases kv) (simp add: below_def above_def the_pair_def)
  qed
qed (simp add: below_def above_def the_pair_def)

text \<open>The binary search finds that place.\<close>

lemma search_node_finds:
  assumes keys: "\<And>i. i < length (L @ M @ R) \<Longrightarrow> entry_key m (get_key_ptr m p i) = fst ((L @ M @ R) ! i)"
    and L: "\<forall>kv\<in>set L. cmp (fst kv) k < 0" and R: "\<forall>kv\<in>set R. cmp k (fst kv) < 0"
    and M: "M = [] \<or> (\<exists>v. M = [(k, v)])"
    and "0 \<le> l" "l \<le> int (length L)" "int (length L + length M) \<le> r + 1" "r < int (length (L @ M @ R))"
  shows "search_node cmp m p k l r = (length L, M \<noteq> [])"
  using assms(5-)
proof (induction "nat (r - l + 1)" arbitrary: l r rule: less_induct)
  case less
  show ?case
  proof (cases "r < l")
    case True
    with less.prems have "int (length M) \<le> 0" "l = int (length L)" by linarith+
    then have "nat l = length L" "M = []" by auto
    then show ?thesis using True by (simp add: search_node.simps [of _ _ _ _ l])
  next
    case False
    define mid where "mid = (l + r) div 2"
    define i where "i = nat mid"
    have mid: "l \<le> mid" "mid \<le> r" "mid = int i" using False less.prems by (auto simp: mid_def i_def)
    then have i: "i < length (L @ M @ R)" using less.prems by linarith
    let ?c = "cmp k (entry_key m (get_key_ptr m p i))"
    have step: "search_node cmp m p k l r =
        (if ?c = 0 then (i, True) else if ?c < 0 then search_node cmp m p k l (mid - 1)
         else search_node cmp m p k (mid + 1) r)"
      using False by (simp add: search_node.simps [of _ _ _ _ l] Let_def mid_def i_def)
    consider "i < length L" | "i = length L" "M \<noteq> []" | "length L + length M \<le> i"
      using M by (cases "M = []") force+
    then show ?thesis
    proof cases
      case 1
      then have "cmp (fst ((L @ M @ R) ! i)) k < 0" using L by (simp add: nth_append)
      then have "0 < ?c" using keys [OF i] cmp_swap by simp
      moreover have "search_node cmp m p k (mid + 1) r = (length L, M \<noteq> [])"
        using 1 mid less.prems by (intro less.hyps) auto
      ultimately show ?thesis by (simp add: step)
    next
      case 2
      then have "fst ((L @ M @ R) ! i) = k" using M by auto
      then show ?thesis using keys [OF i] 2 by (simp add: step)
    next
      case 3
      then have "(L @ M @ R) ! i \<in> set R" using i by (auto simp: nth_append)
      then have "?c < 0" using R keys [OF i] by simp
      moreover have "search_node cmp m p k l (mid - 1) = (length L, M \<noteq> [])"
        using 3 mid less.prems by (intro less.hyps) auto
      ultimately show ?thesis by (simp add: step)
    qed
  qed
qed

lemma find_key_position_leaf:
  assumes "leaf_at m p es" "leaf_ok es" "sorted_pairs cmp es"
  shows "find_key_position cmp m p k = (length (below cmp k es), map_of es k \<noteq> None)"
proof -
  have n: "num_keys m p = length es" using assms(1) by (simp add: leaf_at_def)
  have es: "es = below cmp k es @ the_pair k es @ above cmp k es" by (rule split_sorted) fact
  have M: "the_pair k es \<noteq> [] \<longleftrightarrow> map_of es k \<noteq> None" by (simp add: the_pair_def split: option.split)
  have "search_node cmp m p k 0 (int (length es) - 1) = (length (below cmp k es), the_pair k es \<noteq> [])"
  proof (rule search_node_finds [where R = "above cmp k es"])
    show "entry_key m (get_key_ptr m p i) = fst ((below cmp k es @ the_pair k es @ above cmp k es) ! i)"
      if "i < length (below cmp k es @ the_pair k es @ above cmp k es)" for i
      using leaf_entry_at(5) [OF assms(1,2), of i] that unfolding es [symmetric] by simp
    show "int (length (below cmp k es) + length (the_pair k es)) \<le> int (length es) - 1 + 1"
      using arg_cong [OF es, of length] by simp
    show "int (length es) - 1 < int (length (below cmp k es @ the_pair k es @ above cmp k es))"
      unfolding es [symmetric] by simp
  qed (auto simp: below_def above_def the_pair_def split: option.split)
  then show ?thesis using M n by (cases "es = []") (auto simp: find_key_position_def below_def)
qed

end

lemma default_compare_simps [simp]:
  "default_compare [] [] = 0" "default_compare [] (b # bs) = - 1" "default_compare (a # as) [] = 1"
  "default_compare (a # as) (b # bs) = (if a < b then - 1 else if b < a then 1 else default_compare as bs)"
  by (auto simp: default_compare_def Let_def)

lemma default_compare_zero: "default_compare a b = 0 \<longleftrightarrow> a = b"
proof (induction a arbitrary: b)
  case Nil
  then show ?case by (cases b) simp_all
next
  case (Cons x a)
  then show ?case by (cases b) auto
qed

lemma default_compare_swap: "0 < default_compare a b \<longleftrightarrow> default_compare b a < 0"
proof (induction a arbitrary: b)
  case Nil
  then show ?case by (cases b) simp_all
next
  case (Cons x a)
  then show ?case by (cases b) auto
qed

lemma default_compare_trans: "default_compare a b < 0 \<Longrightarrow> default_compare b c < 0 \<Longrightarrow> default_compare a c < 0"
proof (induction a arbitrary: b c)
  case Nil
  then show ?case by (cases b; cases c) simp_all
next
  case (Cons x a)
  from Cons.prems obtain y b' where b: "b = y # b'" by (cases b) simp_all
  with Cons.prems obtain z c' where c: "c = z # c'" by (cases c) simp_all
  from Cons.prems b c show ?case by (auto split: if_splits dest: Cons.IH)
qed

interpretation dc: comparison default_compare
  by (rule comparison.intro [OF default_compare_zero default_compare_swap]) (erule (1) default_compare_trans)

end
