(* ===== verification/Btree_Leaf.thy ===== *)
theory Btree_Leaf
  imports Btree_Node
begin

text \<open>
  The operations on the bytes of a leaf page are the operations on its list of pairs, and they leave
  the links of the page and all other pages alone.
\<close>

section \<open>Changes of one page\<close>

definition same_outside :: "nat \<Rightarrow> byte_memory \<Rightarrow> byte_memory \<Rightarrow> bool" where
  "same_outside p m m' \<longleftrightarrow> (\<forall>x. x < p \<or> p + 4096 \<le> x \<longrightarrow> m' x = m x)"

definition same_links :: "nat \<Rightarrow> byte_memory \<Rightarrow> byte_memory \<Rightarrow> bool" where
  "same_links p m m' \<longleftrightarrow> right_sibling m' p = right_sibling m p \<and> parent_page m' p = parent_page m p"

lemma leaf_at_elsewhere:
  assumes "leaf_at m q es" "80 + span_of es \<le> 4096" "\<And>x. q \<le> x \<Longrightarrow> x < q + 4096 \<Longrightarrow> m' x = m x"
  shows "leaf_at m' q es"
proof -
  have b: "bytes_at m' (q + a) n = bytes_at m (q + a) n" if "a + n \<le> 4096" for a n
    by (rule bytes_at_cong, rule assms(3)) (use that in linarith)+
  show ?thesis
    using assms(1,2) b [of 56 2] b [of 58 2] b [of 60 4] b [of 80 "span_of es"]
    by (simp add: leaf_at_def field_defs load_int_def)
qed

lemma leaf_at_other_page:
  assumes "leaf_at m q es" "80 + span_of es \<le> 4096" "same_outside p m m'" "q + 4096 \<le> p \<or> p + 4096 \<le> q"
  shows "leaf_at m' q es"
proof (rule leaf_at_elsewhere [OF assms(1,2)])
  fix x assume "q \<le> x" "x < q + 4096"
  then have "x < p \<or> p + 4096 \<le> x" using assms(4) by linarith
  then show "m' x = m x" using assms(3) unfolding same_outside_def by blast
qed

lemma leaf_at_data:
  assumes "num_keys m' p = length es" "level m' p = 0" "total_size m' p = 80 + span_of es"
    "bytes_at m' (p + 80) (span_of es) = encode_entries es"
  shows "leaf_at m' p es"
  using assms by (simp add: leaf_at_def)

lemma leaf_at_join:
  assumes "bytes_at m (p + 80) (span_of L) = encode_entries L" "bytes_at m (p + 80 + span_of L) (span_of R) = encode_entries R"
  shows "bytes_at m (p + 80) (span_of (L @ R)) = encode_entries (L @ R)"
  using assms by (simp add: bytes_at_add)

text \<open>Writing an entry.\<close>

definition put_entry :: "nat \<Rightarrow> byte list \<Rightarrow> byte list \<Rightarrow> byte_memory \<Rightarrow> byte_memory" where
  "put_entry e k v m =
     write_bytes (e + 16 + length k) v (write_bytes (e + 16) k (write_entry e (length k) (length v) 0 m))"

lemma put_entry_bytes: "bytes_at (put_entry e k v m) e (entry_bytes (k, v)) = encode_entry (k, v)"
proof -
  have b: "entry_bytes (k, v) = 4 + (4 + (8 + (length k + length v)))" by (simp add: entry_bytes_def)
  show ?thesis
    unfolding b bytes_at_add
    by (simp add: put_entry_def encode_entry_def field_defs bytes_at_store bytes_at_write add.assoc)
qed

lemma put_entry_other [simp]:
  "a + n \<le> e \<or> e + entry_bytes (k, v) \<le> a \<Longrightarrow> bytes_at (put_entry e k v m) a n = bytes_at m a n"
  by (auto simp: put_entry_def field_defs entry_bytes_def)

lemma put_entry_outside: "x < e \<or> e + entry_bytes (k, v) \<le> x \<Longrightarrow> put_entry e k v m x = m x"
  by (auto simp: put_entry_def field_defs entry_bytes_def write_bytes_other store_other)

section \<open>Insertion\<close>

lemma insert_entry_eq:
  assumes "leaf_at m p (L @ R)" "leaf_ok (L @ R)"
  shows "insert_entry p (length L) k v 0 m =
    (let e = p + 80 + span_of L;
         D = put_entry e k v (memmove (e + entry_bytes (k, v)) e (span_of R) m);
         D1 = set_num_keys p (num_keys D p + 1) D
     in update_checksum p (set_total_size p (total_size D1 p + entry_bytes (k, v)) D1))"
  using leaf_shift_span [OF assms] get_key_ptr_leaf [OF assms]
  by (simp add: insert_entry_def Let_def put_entry_def size_defs entry_bytes_def)

lemma insert_entry_leaf:
  assumes "leaf_at m p (L @ R)" "leaf_ok (L @ (k, v) # R)"
  shows "leaf_at (insert_entry p (length L) k v 0 m) p (L @ (k, v) # R)"
    "same_links p m (insert_entry p (length L) k v 0 m)"
    "same_outside p m (insert_entry p (length L) k v 0 m)"
proof -
  define e where "e = p + 80 + span_of L"
  define n where "n = entry_bytes (k, v)"
  define D where "D = put_entry e k v (memmove (e + n) e (span_of R) m)"
  define D1 where "D1 = set_num_keys p (num_keys D p + 1) D"
  define D2 where "D2 = set_total_size p (total_size D1 p + n) D1"
  have ok: "leaf_ok (L @ R)" using assms(2) leaf_ok_sub [of L "[(k, v)]" R] by simp
  have room: "80 + span_of L + n + span_of R \<le> 4096" "length L + length R + 1 \<le> 100"
    using assms(2) by (simp_all add: leaf_ok_def n_def)
  have m': "insert_entry p (length L) k v 0 m = update_checksum p D2"
    unfolding insert_entry_eq [OF assms(1) ok] Let_def D2_def D1_def D_def e_def n_def ..
  have D: "bytes_at D a j = bytes_at m a j" if "a + j \<le> e" for a j
    using that by (simp add: D_def n_def)
  have h: "load_int D (p + a) j = load_int m (p + a) j" if "a + j \<le> 80" for a j
    using D [of "p + a" j] that by (simp add: load_int_def e_def)
  have L: "num_keys D p = length L + length R" "level D p = 0" "total_size D p = 80 + span_of L + span_of R"
    using assms(1) h by (simp_all add: leaf_at_def field_defs)
  have "bytes_at D (p + 80) (span_of L) = encode_entries L"
    using D [of "p + 80" "span_of L"] leaf_suffix(1) [OF assms(1)] by (simp add: e_def)
  moreover have "bytes_at D e (n + span_of R) = encode_entry (k, v) @ encode_entries R"
  proof -
    have "bytes_at D (e + n) (span_of R) = encode_entries R"
      using leaf_suffix(2) [OF assms(1)] by (simp add: D_def e_def n_def)
    then show ?thesis unfolding bytes_at_add by (simp add: D_def n_def put_entry_bytes)
  qed
  ultimately have data: "bytes_at D (p + 80) (span_of (L @ (k, v) # R)) = encode_entries (L @ (k, v) # R)"
    unfolding e_def n_def by (intro leaf_at_join) simp_all
  show "leaf_at (insert_entry p (length L) k v 0 m) p (L @ (k, v) # R)"
  proof (rule leaf_at_data)
    show "num_keys (insert_entry p (length L) k v 0 m) p = length (L @ (k, v) # R)"
      using L(1) room(2) by (simp add: m' D2_def D1_def field_defs)
    show "level (insert_entry p (length L) k v 0 m) p = 0"
      using L(2) by (simp add: m' D2_def D1_def field_defs)
    show "total_size (insert_entry p (length L) k v 0 m) p = 80 + span_of (L @ (k, v) # R)"
      using L(3) room(1) by (simp add: m' D2_def D1_def field_defs n_def)
    show "bytes_at (insert_entry p (length L) k v 0 m) (p + 80) (span_of (L @ (k, v) # R)) = encode_entries (L @ (k, v) # R)"
      using data by (simp add: m' D2_def D1_def field_defs)
  qed
  show "same_links p m (insert_entry p (length L) k v 0 m)"
    using h by (simp add: same_links_def m' D2_def D1_def field_defs)
  have "D x = m x" if "x < p \<or> p + 4096 \<le> x" for x
    using that room by (auto simp: D_def n_def put_entry_outside memmove_other e_def)
  then show "same_outside p m (insert_entry p (length L) k v 0 m)"
    by (auto simp: same_outside_def m' D2_def D1_def field_defs store_other)
qed

section \<open>Deletion\<close>

lemma sub_width_exact: "y \<le> x \<Longrightarrow> x < 256 ^ b \<Longrightarrow> sub_width b x y = x - y"
  by (simp add: sub_width_def flip: of_nat_diff of_nat_power)

lemma delete_entry_leaf:
  assumes "leaf_at m p (L @ (k, v) # R)" "leaf_ok (L @ (k, v) # R)"
  shows "leaf_at (delete_entry p (length L) m) p (L @ R)"
    "same_links p m (delete_entry p (length L) m)"
    "same_outside p m (delete_entry p (length L) m)"
proof -
  define e where "e = p + 80 + span_of L"
  define n where "n = entry_bytes (k, v)"
  define D where "D = memmove e (e + n) (span_of R) m"
  define D1 where "D1 = set_num_keys p (sub_width 2 (num_keys D p) 1) D"
  have room: "80 + span_of L + n + span_of R \<le> 4096" "length L + length R + 1 \<le> 100"
    using assms(2) by (simp_all add: leaf_ok_def n_def)
  have "leaf_shift m p (Suc (length L)) = span_of R"
    using leaf_shift_span [of m p "L @ [(k, v)]" R] assms by simp
  moreover have "get_key_ptr m p (length L) = e"
    using get_key_ptr_leaf [OF assms] by (simp add: e_def)
  moreover have "key_size m e = length k" "value_size m e = length v" "overflow_page m e = 0"
    using entry_fields [OF leaf_entry [OF assms(1)]] assms(2) by (simp_all add: leaf_ok_def e_def)
  ultimately have m': "delete_entry p (length L) m = set_total_size p (sub_width 4 (total_size D1 p) n) D1"
    by (simp add: delete_entry_def Let_def D1_def D_def n_def entry_bytes_def size_defs)
  have D: "bytes_at D a j = bytes_at m a j" if "a + j \<le> e" for a j
    using that by (simp add: D_def)
  have h: "load_int D (p + a) j = load_int m (p + a) j" if "a + j \<le> 80" for a j
    using D [of "p + a" j] that by (simp add: load_int_def e_def)
  have L: "num_keys D p = length L + length R + 1" "level D p = 0" "total_size D p = 80 + span_of L + n + span_of R"
    using assms(1) h by (simp_all add: leaf_at_def field_defs n_def)
  have "bytes_at D (p + 80) (span_of L) = encode_entries L"
    using D [of "p + 80" "span_of L"] leaf_suffix(1) [OF assms(1)] by (simp add: e_def)
  moreover have "bytes_at D e (span_of R) = encode_entries R"
    using leaf_suffix(2) [of m p "L @ [(k, v)]" R] assms(1) by (simp add: D_def e_def n_def add.assoc)
  ultimately have data: "bytes_at D (p + 80) (span_of (L @ R)) = encode_entries (L @ R)"
    unfolding e_def by (rule leaf_at_join)
  show "leaf_at (delete_entry p (length L) m) p (L @ R)"
  proof (rule leaf_at_data)
    show "num_keys (delete_entry p (length L) m) p = length (L @ R)"
      using L(1) room(2) by (simp add: m' D1_def field_defs sub_width_exact)
    show "level (delete_entry p (length L) m) p = 0"
      using L(2) by (simp add: m' D1_def field_defs)
    show "total_size (delete_entry p (length L) m) p = 80 + span_of (L @ R)"
      using L(3) room(1) by (simp add: m' D1_def field_defs sub_width_exact)
    show "bytes_at (delete_entry p (length L) m) (p + 80) (span_of (L @ R)) = encode_entries (L @ R)"
      using data by (simp add: m' D1_def field_defs)
  qed
  show "same_links p m (delete_entry p (length L) m)"
    using h by (simp add: same_links_def m' D1_def field_defs)
  have "D x = m x" if "x < p \<or> p + 4096 \<le> x" for x
    using that room by (auto simp: D_def memmove_other e_def)
  then show "same_outside p m (delete_entry p (length L) m)"
    by (auto simp: same_outside_def m' D1_def field_defs store_other)
qed

section \<open>Update\<close>

lemma update_in_place_leaf:
  assumes "leaf_at m p (L @ (k, w) # R)" "leaf_ok (L @ (k, w) # R)" "length v = length w"
  shows "leaf_at (update_in_place (p + 80 + span_of L) v m) p (L @ (k, v) # R)"
    "same_outside p m (update_in_place (p + 80 + span_of L) v m)"
proof -
  define e where "e = p + 80 + span_of L"
  define n where "n = entry_bytes (k, w)"
  have room: "80 + span_of L + n + span_of R \<le> 4096"
    using assms(2) by (simp add: leaf_ok_def n_def)
  have ok: "pair_ok (k, w)" using assms(2) by (simp add: leaf_ok_def)
  have E: "bytes_at m e n = encode_entry (k, w)" using leaf_entry [OF assms(1)] by (simp add: e_def n_def)
  have ks: "key_size m e = length k" using entry_fields(1) E ok by (simp add: n_def)
  define D where "D = write_bytes (e + 16 + length k) v (store_int (e + 4) 4 (length v) m)"
  have m': "update_in_place (p + 80 + span_of L) v m = D"
    using ks by (simp add: update_in_place_def Let_def D_def e_def [symmetric] size_defs) (simp add: field_defs)
  have n: "n = 4 + (4 + (8 + (length k + length w)))" by (simp add: n_def entry_bytes_def)
  have "bytes_at D e (4 + (4 + (8 + (length k + length w)))) = encode_entry (k, v)"
    using E assms(3) unfolding n bytes_at_add
    by (simp add: D_def encode_entry_def bytes_at_store bytes_at_write_n add.assoc)
  then have "bytes_at D e (n + span_of R) = encode_entry (k, v) @ bytes_at D (e + n) (span_of R)"
    unfolding bytes_at_add [of D e n] by (simp add: n)
  also have "bytes_at D (e + n) (span_of R) = encode_entries R"
    using leaf_suffix(2) [of m p "L @ [(k, w)]" R] assms(1,3) by (simp add: D_def e_def n_def entry_bytes_def add.assoc)
  finally have data: "bytes_at D (p + 80) (span_of (L @ (k, v) # R)) = encode_entries (L @ (k, v) # R)"
    using leaf_suffix(1) [OF assms(1)] assms(3)
    by (intro leaf_at_join) (simp_all add: D_def e_def n_def entry_bytes_def)
  have h: "load_int D (p + a) j = load_int m (p + a) j" if "a + j \<le> 80" for a j
    using that by (simp add: D_def e_def)
  show "leaf_at (update_in_place (p + 80 + span_of L) v m) p (L @ (k, v) # R)"
    using assms(1,3) h data by (intro leaf_at_data) (simp_all add: m' leaf_at_def field_defs entry_bytes_def)
  show "same_outside p m (update_in_place (p + 80 + span_of L) v m)"
    using room n assms(3) by (auto simp: same_outside_def m' D_def store_other write_bytes_other e_def)
qed

end
