(* ===== verification/Btree_Props.thy ===== *)
theory Btree_Props
  imports Btree_Leaf
begin

text \<open>
  The B-tree as a map: as long as it is one leaf, and no value gets shorter, it is one.  Beyond
  that the code loses keys, which is proved as well.
\<close>

section \<open>A tree that is one leaf\<close>

definition leaf_tree :: "'p page_ops \<Rightarrow> 'p btree \<Rightarrow> pair list \<Rightarrow> bool" where
  "leaf_tree ops t es \<longleftrightarrow>
     (\<exists>p. get_page ops (bt_pm t) (root_page t) = Some p \<and> get_page_for_write ops (bt_pm t) (root_page t) = Some p \<and>
          leaf_at (bt_mem t) p es) \<and>
     root_page t \<noteq> 0 \<and> leaf_ok es \<and> sorted_pairs (compare_fn t) es \<and> stat_num_keys t = of_nat (length es)"

definition same_manager :: "'p btree \<Rightarrow> 'p btree \<Rightarrow> bool" where
  "same_manager t t' \<longleftrightarrow> bt_pm t' = bt_pm t \<and> root_page t' = root_page t \<and> compare_fn t' = compare_fn t"

lemma place_value_inline: "length v \<le> overflow_threshold \<Longrightarrow> place_value ops v t = (Some 0, t)"
  by (simp add: place_value_def)

context comparison
begin

lemma leaf_pieces:
  assumes "leaf_at m p es" "leaf_ok es" "sorted_pairs cmp es"
  shows "find_key_position cmp m p k = (length (below cmp k es), map_of es k \<noteq> None)"
    "get_key_ptr m p (length (below cmp k es)) = p + 80 + span_of (below cmp k es)"
    "map_of es k = Some v \<Longrightarrow> es = below cmp k es @ (k, v) # above cmp k es"
    "map_of es k = None \<Longrightarrow> es = below cmp k es @ above cmp k es"
proof -
  show "find_key_position cmp m p k = (length (below cmp k es), map_of es k \<noteq> None)"
    by (rule find_key_position_leaf) fact+
  have es: "es = below cmp k es @ the_pair k es @ above cmp k es" by (rule split_sorted) fact
  show "get_key_ptr m p (length (below cmp k es)) = p + 80 + span_of (below cmp k es)"
    using get_key_ptr_leaf [of m p "below cmp k es" "the_pair k es @ above cmp k es"] assms(1,2)
    unfolding es [symmetric] by simp
  show "map_of es k = Some v \<Longrightarrow> es = below cmp k es @ (k, v) # above cmp k es"
    "map_of es k = None \<Longrightarrow> es = below cmp k es @ above cmp k es"
    using es by (simp_all add: the_pair_def)
qed

lemma leaf_found:
  assumes "leaf_at m p es" "leaf_ok es" "sorted_pairs cmp es" "map_of es k = Some v"
  defines "e \<equiv> p + 80 + span_of (below cmp k es)"
  shows "key_size m e = length k" "value_size m e = length v" "overflow_page m e = 0"
    "bytes_at m (e + 16 + length k) (length v) = v" "v \<noteq> []"
proof -
  have es: "es = below cmp k es @ (k, v) # above cmp k es" by (rule leaf_pieces(3)) fact+
  then have "bytes_at m e (entry_bytes (k, v)) = encode_entry (k, v)"
    using leaf_entry [of m p "below cmp k es" "(k, v)" "above cmp k es"] assms(1) by (simp add: e_def)
  moreover have ok: "pair_ok (k, v)" using assms(2) map_of_SomeD [OF assms(4)] by (simp add: leaf_ok_def)
  ultimately show "key_size m e = length k" "value_size m e = length v" "overflow_page m e = 0"
    "bytes_at m (e + 16 + length k) (length v) = v"
    by (rule entry_fields)+
  show "v \<noteq> []" using ok by (simp add: pair_ok_def)
qed

lemma get_page_leaf:
  assumes "get_page ops (bt_pm t) n = Some p" "leaf_at (bt_mem t) p es" "leaf_ok es" "sorted_pairs cmp es"
    and "compare_fn t = cmp"
  shows "btree_get_from ops (Suc f) n k t = Some (map_of es k)"
proof -
  note P = leaf_pieces [OF assms(2-4)]
  have lv: "level (bt_mem t) p = 0" using assms(2) by (simp add: leaf_at_def)
  show ?thesis
  proof (cases "map_of es k")
    case None
    then show ?thesis using assms(1,5) lv P(1) by simp
  next
    case (Some v)
    then show ?thesis
      using assms(1,5) lv P(1,2) [of k] leaf_found [OF assms(2-4) Some] by (simp add: buffer_ok_def size_defs)
  qed
qed

lemma get_leaf:
  assumes "leaf_tree ops t es" "compare_fn t = cmp"
  shows "jdbx_btree_get ops (Suc f) k t = Some (map_of es k)"
proof -
  from assms obtain p where p: "get_page ops (bt_pm t) (root_page t) = Some p" "leaf_at (bt_mem t) p es"
    and es: "leaf_ok es" "sorted_pairs cmp es"
    by (auto simp: leaf_tree_def)
  have "map_of es [] = None" using es(1) by (force simp: leaf_ok_def pair_ok_def map_of_eq_None_iff)
  then show ?thesis
    using get_page_leaf [OF p es assms(2)] by (simp add: jdbx_btree_get_def del: btree_get_from.simps)
qed

lemma delete_leaf:
  assumes "leaf_tree ops t es" "compare_fn t = cmp"
  shows "\<exists>t'. jdbx_btree_delete ops (Suc f) k t = Some (map_of es k \<noteq> None, t') \<and>
    leaf_tree ops t' (del_pair cmp k es) \<and> same_manager t t'"
proof -
  from assms obtain p where p: "get_page_for_write ops (bt_pm t) (root_page t) = Some p"
      "get_page ops (bt_pm t) (root_page t) = Some p" "leaf_at (bt_mem t) p es"
    and es: "leaf_ok es" "sorted_pairs cmp es" and n: "root_page t \<noteq> 0" "stat_num_keys t = of_nat (length es)"
    by (auto simp: leaf_tree_def)
  note P = leaf_pieces [OF p(3) es]
  have lv: "level (bt_mem t) p = 0" using p(3) by (simp add: leaf_at_def)
  show ?thesis
  proof (cases "map_of es k")
    case None
    then have "del_pair cmp k es = es" using P(4) by (simp add: del_pair_def)
    then show ?thesis
      using p lv assms n P(1) [of k] None by (simp add: jdbx_btree_delete_def same_manager_def)
  next
    case (Some v)
    define t' where
      "t' = (on_mem (delete_entry p (length (below cmp k es))) t)\<lparr>stat_num_keys := stat_num_keys t - 1\<rparr>"
    have k: "k \<noteq> []" using es(1) map_of_SomeD [OF Some] by (auto simp: leaf_ok_def pair_ok_def)
    have es': "es = below cmp k es @ (k, v) # above cmp k es" using P(3) Some by simp
    then have "leaf_at (bt_mem t') p (del_pair cmp k es)"
      using delete_entry_leaf(1) [of "bt_mem t" p "below cmp k es" k v "above cmp k es"] p(3) es(1)
      by (simp add: t'_def on_mem_def del_pair_def)
    moreover have "leaf_ok (del_pair cmp k es)"
      using es(1) es' leaf_ok_sub [of "below cmp k es" "[(k, v)]" "above cmp k es"] by (simp add: del_pair_def)
    moreover have "stat_num_keys t' = of_nat (length (del_pair cmp k es))"
      using n(2) arg_cong [OF es', of length] by (simp add: t'_def del_pair_def)
    ultimately have "leaf_tree ops t' (del_pair cmp k es)"
      using p n(1) assms(2) sorted_del [OF es(2)] by (auto simp: leaf_tree_def t'_def on_mem_def)
    moreover have "jdbx_btree_delete ops (Suc f) k t = Some (True, t')"
      using p(1) lv assms(2) n(1) k P(1) [of k] Some by (simp add: jdbx_btree_delete_def t'_def)
    ultimately show ?thesis using Some by (auto simp: same_manager_def t'_def on_mem_def)
  qed
qed

text \<open>A new key, and a key whose value keeps its length.\<close>

lemma insert_new_page:
  assumes "get_page_for_write ops (bt_pm t) n = Some p" "leaf_at (bt_mem t) p es" "leaf_ok es" "sorted_pairs cmp es"
    and "compare_fn t = cmp" "length es < 100" "map_of es k = None"
    and "pair_ok (k, v)" "80 + span_of (put_pair cmp k v es) \<le> 4096"
  defines "t' \<equiv> (on_mem (insert_entry p (length (below cmp k es)) k v 0) t)\<lparr>stat_num_keys := stat_num_keys t + 1\<rparr>"
  shows "btree_insert_from ops (Suc f) n k v t = Some (True, t')" "leaf_at (bt_mem t') p (put_pair cmp k v es)"
    "same_outside p (bt_mem t) (bt_mem t')" "leaf_ok (put_pair cmp k v es)" "length (put_pair cmp k v es) = length es + 1"
proof -
  note P = leaf_pieces [OF assms(2-4)]
  have m: "level (bt_mem t) p = 0" "num_keys (bt_mem t) p = length es" "total_size (bt_mem t) p = 80 + span_of es"
    using assms(2) by (simp_all add: leaf_at_def)
  have es': "es = below cmp k es @ above cmp k es" using P(4) assms(7) by simp
  show len: "length (put_pair cmp k v es) = length es + 1"
    using arg_cong [OF es', of length] by (simp add: put_pair_def)
  have sp: "span_of (put_pair cmp k v es) = span_of es + entry_bytes (k, v)"
    using arg_cong [OF es', of span_of] by (simp add: put_pair_def)
  show ok: "leaf_ok (put_pair cmp k v es)"
    using assms(3,6,8,9) len by (auto simp: leaf_ok_def put_pair_def below_def above_def)
  show "leaf_at (bt_mem t') p (put_pair cmp k v es)" "same_outside p (bt_mem t) (bt_mem t')"
    using insert_entry_leaf(1,3) [of "bt_mem t" p "below cmp k es" "above cmp k es" k v] assms(2) ok es'
    by (simp_all add: t'_def on_mem_def put_pair_def)
  show "btree_insert_from ops (Suc f) n k v t = Some (True, t')"
    using assms(1,5-9) m sp P(1) [of k] place_value_inline [of v ops t]
    by (simp add: t'_def node_is_full_def size_defs pair_ok_def entry_bytes_def Let_def)
qed

lemma insert_new_leaf:
  assumes "leaf_tree ops t es" "compare_fn t = cmp" "length es < 100" "map_of es k = None"
    and "pair_ok (k, v)" "80 + span_of (put_pair cmp k v es) \<le> 4096"
  shows "\<exists>t'. btree_insert_from ops (Suc f) (root_page t) k v t = Some (True, t') \<and>
    leaf_tree ops t' (put_pair cmp k v es) \<and> same_manager t t'"
proof -
  from assms obtain p where p: "get_page_for_write ops (bt_pm t) (root_page t) = Some p"
      "get_page ops (bt_pm t) (root_page t) = Some p" "leaf_at (bt_mem t) p es"
    and es: "leaf_ok es" "sorted_pairs cmp es" and n: "root_page t \<noteq> 0" "stat_num_keys t = of_nat (length es)"
    by (auto simp: leaf_tree_def)
  note I = insert_new_page [OF p(1,3) es assms(2-6)]
  define t' where
    "t' = (on_mem (insert_entry p (length (below cmp k es)) k v 0) t)\<lparr>stat_num_keys := stat_num_keys t + 1\<rparr>"
  have "leaf_tree ops t' (put_pair cmp k v es)"
    using p(1,2) n assms(2) I(2,4,5) sorted_put [OF es(2)] by (auto simp: leaf_tree_def t'_def on_mem_def)
  then show ?thesis using I(1) by (auto simp: same_manager_def t'_def on_mem_def)
qed

lemma insert_same_length_leaf:
  assumes "leaf_tree ops t es" "compare_fn t = cmp" "length es < 100" "map_of es k = Some w"
    and "length v = length w"
  shows "\<exists>t'. btree_insert_from ops (Suc f) (root_page t) k v t = Some (True, t') \<and>
    leaf_tree ops t' (put_pair cmp k v es) \<and> same_manager t t'"
proof -
  from assms obtain p where p: "get_page_for_write ops (bt_pm t) (root_page t) = Some p"
      "get_page ops (bt_pm t) (root_page t) = Some p" "leaf_at (bt_mem t) p es"
    and es: "leaf_ok es" "sorted_pairs cmp es" and n: "root_page t \<noteq> 0" "stat_num_keys t = of_nat (length es)"
    by (auto simp: leaf_tree_def)
  note P = leaf_pieces [OF p(3) es]
  have m: "level (bt_mem t) p = 0" "num_keys (bt_mem t) p = length es" using p(3) by (simp_all add: leaf_at_def)
  have es': "es = below cmp k es @ (k, w) # above cmp k es" using P(3) assms(4) by simp
  have len: "length (put_pair cmp k v es) = length es" "span_of (put_pair cmp k v es) = span_of es"
    using arg_cong [OF es', of length] arg_cong [OF es', of span_of] assms(5)
    by (simp_all add: put_pair_def entry_bytes_def)
  have "pair_ok (k, w)" using es(1) map_of_SomeD [OF assms(4)] by (simp add: leaf_ok_def)
  then have "pair_ok (k, v)" using assms(5) by (auto simp: pair_ok_def)
  then have ok: "leaf_ok (put_pair cmp k v es)"
    using es(1) len by (auto simp: leaf_ok_def put_pair_def below_def above_def)
  define t' where "t' = on_mem (update_in_place (p + 80 + span_of (below cmp k es)) v) t"
  have "leaf_at (bt_mem t') p (put_pair cmp k v es)"
    using update_in_place_leaf(1) [of "bt_mem t" p "below cmp k es" k w "above cmp k es" v] p(3) es(1) es' assms(5)
    by (simp add: t'_def on_mem_def put_pair_def)
  then have "leaf_tree ops t' (put_pair cmp k v es)"
    using p n assms(2) ok len sorted_put [OF es(2)] by (auto simp: leaf_tree_def t'_def on_mem_def)
  moreover have "btree_insert_from ops (Suc f) (root_page t) k v t = Some (True, t')"
    using p(1) m assms(2-5) P(1,2) [of k] leaf_found(2,3) [OF p(3) es assms(4)]
    by (simp add: t'_def node_is_full_def size_defs Let_def)
  ultimately show ?thesis by (auto simp: same_manager_def t'_def on_mem_def)
qed

text \<open>A longer value goes in by deleting the old entry.\<close>

lemma insert_longer_leaf:
  assumes "leaf_tree ops t es" "compare_fn t = cmp" "length es < 100" "map_of es k = Some w"
    and "length w < length v" "pair_ok (k, v)" "80 + span_of (put_pair cmp k v es) \<le> 4096"
  shows "\<exists>t'. btree_insert_from ops (Suc (Suc f)) (root_page t) k v t = Some (True, t') \<and>
    leaf_tree ops t' (put_pair cmp k v es) \<and> same_manager t t'"
proof -
  from assms obtain p where p: "get_page_for_write ops (bt_pm t) (root_page t) = Some p" "leaf_at (bt_mem t) p es"
    and es: "leaf_ok es" "sorted_pairs cmp es"
    by (auto simp: leaf_tree_def)
  note P = leaf_pieces [OF p(2) es]
  have m: "level (bt_mem t) p = 0" "num_keys (bt_mem t) p = length es" using p(2) by (simp_all add: leaf_at_def)
  obtain t1 where t1: "jdbx_btree_delete ops (Suc f) k t = Some (True, t1)" "leaf_tree ops t1 (del_pair cmp k es)"
      "same_manager t t1"
    using delete_leaf [OF assms(1,2), of f k] assms(4) by auto
  have es': "es = below cmp k es @ (k, w) # above cmp k es" using P(3) assms(4) by simp
  have "length (del_pair cmp k es) < 100" using arg_cong [OF es', of length] assms(3) by (simp add: del_pair_def)
  moreover have ba: "below cmp k (del_pair cmp k es) = below cmp k es" "above cmp k (del_pair cmp k es) = above cmp k es"
    by (auto simp: del_pair_def below_def above_def filter_empty_conv dest: cmp_asym)
  then have put: "put_pair cmp k v (del_pair cmp k es) = put_pair cmp k v es" by (simp add: put_pair_def)
  moreover have "map_of (del_pair cmp k es) k = None" by simp
  ultimately obtain t2 where t2: "btree_insert_from ops (Suc f) (root_page t1) k v t1 = Some (True, t2)"
      "leaf_tree ops t2 (put_pair cmp k v es)" "same_manager t1 t2"
    using insert_new_leaf [OF t1(2), of k v f] t1(3) assms(2,6,7)
    by (auto simp: same_manager_def simp del: btree_insert_from.simps)
  have "btree_insert_from ops (Suc (Suc f)) (root_page t) k v t = btree_insert_from ops (Suc f) (root_page t1) k v t1"
    using p(1) m assms(2-5) P(1,2) [of k] leaf_found(2,3) [OF p(2) es assms(4)] t1(1)
    by (simp add: btree_insert_from.simps(2) [of ops "Suc f"] node_is_full_def size_defs Let_def del: btree_insert_from.simps)
  then show ?thesis using t1(3) t2 by (auto simp: same_manager_def simp del: btree_insert_from.simps)
qed

lemma insert_leaf:
  assumes "leaf_tree ops t es" "compare_fn t = cmp" "length es < 100" "pair_ok (k, v)"
    and "80 + span_of (put_pair cmp k v es) \<le> 4096" "\<And>w. map_of es k = Some w \<Longrightarrow> length w \<le> length v"
  shows "\<exists>t'. jdbx_btree_insert ops (Suc (Suc f)) k v t = Some (True, t') \<and>
    leaf_tree ops t' (put_pair cmp k v es) \<and> same_manager t t'"
proof -
  have eq: "jdbx_btree_insert ops (Suc (Suc f)) k v t = btree_insert_from ops (Suc (Suc f)) (root_page t) k v t"
    using assms(4) by (auto simp: jdbx_btree_insert_def pair_ok_def)
  consider "map_of es k = None" | w where "map_of es k = Some w" "length v = length w"
    | w where "map_of es k = Some w" "length w < length v"
    using assms(6) by (cases "map_of es k") force+
  then show ?thesis
  proof cases
    case 1
    show ?thesis unfolding eq by (rule insert_new_leaf [OF assms(1-3) 1 assms(4,5)])
  next
    case 2
    show ?thesis unfolding eq by (rule insert_same_length_leaf [OF assms(1-3) 2])
  next
    case 3
    show ?thesis unfolding eq by (rule insert_longer_leaf [OF assms(1-3) 3 assms(4,5)])
  qed
qed

end

section \<open>Programs over a tree\<close>

datatype btree_call = Put "byte list" "byte list" | Get "byte list" | Del "byte list"
datatype btree_reply = Done bool | Found "byte list option"

fun tree_call :: "'p page_ops \<Rightarrow> nat \<Rightarrow> btree_call \<Rightarrow> 'p btree \<Rightarrow> (btree_reply \<times> 'p btree) option" where
  "tree_call ops fuel (Put k v) t = map_option (\<lambda>(ok, t'). (Done ok, t')) (jdbx_btree_insert ops fuel k v t)"
| "tree_call ops fuel (Get k) t = map_option (\<lambda>r. (Found r, t)) (jdbx_btree_get ops fuel k t)"
| "tree_call ops fuel (Del k) t = map_option (\<lambda>(ok, t'). (Done ok, t')) (jdbx_btree_delete ops fuel k t)"

fun tree_calls :: "'p page_ops \<Rightarrow> nat \<Rightarrow> btree_call list \<Rightarrow> 'p btree \<Rightarrow> btree_reply list option" where
  "tree_calls ops fuel [] t = Some []"
| "tree_calls ops fuel (c # cs) t =
     (case tree_call ops fuel c t of
        None \<Rightarrow> None
      | Some (r, t') \<Rightarrow> map_option ((#) r) (tree_calls ops fuel cs t'))"

definition refused_pair :: "byte list \<Rightarrow> byte list \<Rightarrow> bool" where
  "refused_pair k v \<longleftrightarrow> k = [] \<or> v = [] \<or> jdbx_max_key_size < length k"

text \<open>The same calls on a map.\<close>

fun map_calls :: "btree_call list \<Rightarrow> (byte list \<rightharpoonup> byte list) \<Rightarrow> btree_reply list" where
  "map_calls [] mp = []"
| "map_calls (Put k v # cs) mp =
     (if refused_pair k v then Done False # map_calls cs mp else Done True # map_calls cs (mp(k \<mapsto> v)))"
| "map_calls (Get k # cs) mp = Found (mp k) # map_calls cs mp"
| "map_calls (Del k # cs) mp = Done (mp k \<noteq> None) # map_calls cs (mp(k := None))"

text \<open>
  The pairs fit into one leaf throughout: at most 99 of them when one is put, values of at most 2048
  bytes, 4096 bytes in all; and no value is replaced by a shorter one.
\<close>

fun fits_leaf :: "btree_call list \<Rightarrow> pair list \<Rightarrow> bool" where
  "fits_leaf [] es \<longleftrightarrow> True"
| "fits_leaf (Put k v # cs) es \<longleftrightarrow>
     (if refused_pair k v then fits_leaf cs es
      else length es < 100 \<and> length v \<le> overflow_threshold \<and>
           (case map_of es k of None \<Rightarrow> True | Some w \<Rightarrow> length w \<le> length v) \<and>
           80 + span_of (put_pair default_compare k v es) \<le> 4096 \<and>
           fits_leaf cs (put_pair default_compare k v es))"
| "fits_leaf (Get k # cs) es \<longleftrightarrow> fits_leaf cs es"
| "fits_leaf (Del k # cs) es \<longleftrightarrow> fits_leaf cs (del_pair default_compare k es)"

lemma tree_calls_leaf:
  assumes "leaf_tree ops t es" "compare_fn t = default_compare" "fits_leaf cs es"
  shows "tree_calls ops (Suc (Suc f)) cs t = Some (map_calls cs (map_of es))"
  using assms
proof (induction cs arbitrary: t es)
  case (Cons c cs)
  show ?case
  proof (cases c)
    case (Put k v)
    show ?thesis
    proof (cases "refused_pair k v")
      case True
      then have "jdbx_btree_insert ops (Suc (Suc f)) k v t = Some (False, t)"
        by (auto simp: refused_pair_def jdbx_btree_insert_def)
      then show ?thesis using Cons Put True by simp
    next
      case False
      then have "pair_ok (k, v)" using Cons.prems Put by (simp add: refused_pair_def pair_ok_def)
      then obtain t' where t': "jdbx_btree_insert ops (Suc (Suc f)) k v t = Some (True, t')"
        "leaf_tree ops t' (put_pair default_compare k v es)" "same_manager t t'"
        using dc.insert_leaf [OF Cons.prems(1,2), of k v f] Cons.prems(3) Put False
        by (auto split: option.splits)
      then have "tree_calls ops (Suc (Suc f)) cs t' = Some (map_calls cs (map_of (put_pair default_compare k v es)))"
        using Cons.prems(2,3) Put False by (intro Cons.IH) (simp_all add: same_manager_def)
      then show ?thesis using t'(1) Put False by simp
    qed
  next
    case (Get k)
    then show ?thesis using Cons dc.get_leaf [OF Cons.prems(1,2)] by simp
  next
    case (Del k)
    obtain t' where t': "jdbx_btree_delete ops (Suc (Suc f)) k t = Some (map_of es k \<noteq> None, t')"
      "leaf_tree ops t' (del_pair default_compare k es)" "same_manager t t'"
      using dc.delete_leaf [OF Cons.prems(1,2)] by blast
    then have "tree_calls ops (Suc (Suc f)) cs t' = Some (map_calls cs (map_of (del_pair default_compare k es)))"
      using Cons.prems(2,3) Del by (intro Cons.IH) (simp_all add: same_manager_def)
    then show ?thesis using t'(1) Del by simp
  qed
qed simp

lemma empty_leaf_at: "leaf_at (empty_leaf n p m) p []"
  by (rule leaf_at_data) (simp_all add: empty_leaf_def field_defs size_defs)

lemma created_leaf_tree:
  assumes "jdbx_btree_create ops None m s = (Some t, m', s')" "get_page ops s' (root_page t) = get_page_for_write ops s' (root_page t)"
  shows "leaf_tree ops t []" "compare_fn t = default_compare"
proof -
  from assms(1) obtain n p where
    "n \<noteq> 0" "get_page_for_write ops s' n = Some p" "root_page t = n" "bt_pm t = s'" "stat_num_keys t = 0"
    "bt_mem t = empty_leaf n p (fst (snd (alloc_page ops page_type_leaf m s)))" and c: "compare_fn t = default_compare"
    by (auto simp: jdbx_btree_create_def Let_def split: prod.splits if_splits option.splits)
  with assms(2) show "leaf_tree ops t []"
    by (simp add: leaf_tree_def empty_leaf_at leaf_ok_def sorted_pairs_def)
  show "compare_fn t = default_compare" by (rule c)
qed

text \<open>
  C14. A new B-tree is a map: any sequence of insertions, lookups and deletions, refused ones and
  replaced values included, answers as a map from keys to values would, as long as all fits into the
  first page and no value is replaced by a shorter one.
\<close>

theorem btree_leaf_refines_map:
  assumes "jdbx_btree_create ops None m s = (Some t, m', s')"
    and "get_page ops s' (root_page t) = get_page_for_write ops s' (root_page t)"
    and "fits_leaf cs []" "2 \<le> fuel"
  shows "tree_calls ops fuel cs t = Some (map_calls cs Map.empty)"
proof -
  from assms(4) obtain f where "fuel = Suc (Suc f)" by (auto simp: numeral_2_eq_2 le_iff_add)
  then show ?thesis using tree_calls_leaf [OF created_leaf_tree [OF assms(1,2)] assms(3)] by simp
qed

definition sample_ops :: "unit page_ops" where
  "sample_ops = \<lparr>alloc_page = \<lambda>ty m s. (1, m, s), get_page = \<lambda>s n. if n = 1 then Some 4096 else None,
                 get_page_for_write = \<lambda>s n. if n = 1 then Some 4096 else None, free_page = \<lambda>n m s. (m, s)\<rparr>"

definition sample_calls :: "btree_call list" where
  "sample_calls = [Put [2] [7], Put [1] [8, 9], Get [2], Put [2] [5, 5], Get [2], Del [1], Get [1], Put [] [1]]"

theorem btree_leaf_refines_map_witness:
  "tree_calls sample_ops 2 sample_calls (the (fst (jdbx_btree_create sample_ops None (\<lambda>_. 0) ()))) =
     Some [Done True, Done True, Found (Some [7]), Done True, Found (Some [5, 5]), Done True, Found None, Done False]"
proof -
  obtain t m' s' where t: "jdbx_btree_create sample_ops None (\<lambda>_. 0) () = (Some t, m', s')" "root_page t = 1"
    by (auto simp: jdbx_btree_create_def sample_ops_def Let_def)
  have "fits_leaf sample_calls []"
    by (simp add: sample_calls_def refused_pair_def size_defs put_pair_def del_pair_def below_def above_def entry_bytes_def)
  with t have "tree_calls sample_ops 2 sample_calls t = Some (map_calls sample_calls Map.empty)"
    by (intro btree_leaf_refines_map) (simp_all add: sample_ops_def)
  with t show ?thesis by (simp add: sample_calls_def refused_pair_def size_defs)
qed

end
