(* ===== verification/Btree_Split.thy ===== *)
theory Btree_Split
  imports Btree_Props
begin

text \<open>
  What a B-tree holds after its first page has split.  \<^verbatim>\<open>split_node\<close> gives the middle key of a leaf
  to the new root and its value to nobody, and \<^verbatim>\<open>get_key_ptr\<close> takes the child pointer in front of
  the first key of a root for the key: every search goes right.
\<close>

section \<open>Other pages\<close>

abbreviation apart :: "nat \<Rightarrow> nat \<Rightarrow> bool" where
  "apart p q \<equiv> p + 4096 \<le> q \<or> q + 4096 \<le> p"

lemma same_outside_refl [intro]: "same_outside p m m"
  by (simp add: same_outside_def)

lemma same_outside_trans: "same_outside p m m' \<Longrightarrow> same_outside p m' m'' \<Longrightarrow> same_outside p m m''"
  by (simp add: same_outside_def)

lemma same_outside_write:
  "same_outside p m m' \<Longrightarrow> p \<le> a \<Longrightarrow> a + length bs \<le> p + 4096 \<Longrightarrow> same_outside p m (write_bytes a bs m')"
  by (auto simp: same_outside_def write_bytes_other)

lemma same_outside_store:
  "same_outside p m m' \<Longrightarrow> p \<le> a \<Longrightarrow> a + n \<le> p + 4096 \<Longrightarrow> same_outside p m (store_int a n v m')"
  by (auto simp: same_outside_def store_other)

lemma bytes_other_page:
  assumes "same_outside p m m'" "apart p q" "a + n \<le> 4096"
  shows "bytes_at m' (q + a) n = bytes_at m (q + a) n"
proof (rule bytes_at_cong)
  fix x assume "q + a \<le> x" "x < q + a + n"
  then have "x < p \<or> p + 4096 \<le> x" using assms(2,3) by linarith
  then show "m' x = m x" using assms(1) unfolding same_outside_def by blast
qed

lemma load_other_page:
  "same_outside p m m' \<Longrightarrow> apart p q \<Longrightarrow> a + n \<le> 4096 \<Longrightarrow> load_int m' (q + a) n = load_int m (q + a) n"
  by (simp add: load_int_def bytes_other_page)

lemma leaf_other_page:
  "leaf_at m q es \<Longrightarrow> leaf_ok es \<Longrightarrow> same_outside p m m' \<Longrightarrow> apart p q \<Longrightarrow> leaf_at m' q es"
  by (rule leaf_at_other_page) (auto simp: leaf_ok_def)

text \<open>Writing the links or the checksum of a leaf.\<close>

lemma leaf_set_parent: "leaf_at m p es \<Longrightarrow> leaf_at (set_parent_page p x m) p es"
  by (simp add: leaf_at_def field_defs)

lemma leaf_checksum: "leaf_at m p es \<Longrightarrow> leaf_at (update_checksum p m) p es"
  by (simp add: leaf_at_def field_defs)

lemma outside_checksum: "same_outside p m (update_checksum p m)"
  unfolding update_checksum_def by (rule same_outside_store) (auto simp: same_outside_def)

lemma outside_set_parent: "same_outside p m (set_parent_page p x m)"
  unfolding set_parent_page_def by (rule same_outside_store) (auto simp: same_outside_def)

section \<open>The new root\<close>

text \<open>The one key of the new root, at its place behind the left child.\<close>

definition split_root_at :: "byte_memory \<Rightarrow> nat \<Rightarrow> nat \<Rightarrow> nat \<Rightarrow> bool" where
  "split_root_at m r sib n \<longleftrightarrow>
     num_keys m r = 1 \<and> level m r = 1 \<and> right_sibling m r = 0 \<and> m (r + 96) = 0 \<and>
     key_size m (r + 88) = n \<and> load_int m (r + (104 + n)) 8 = sib"

lemma split_root_other_page:
  assumes "split_root_at m r sib n" "n \<le> 1024" "same_outside p m m'" "apart p r"
  shows "split_root_at m' r sib n"
proof -
  have "r + 96 < p \<or> p + 4096 \<le> r + 96" using assms(4) by linarith
  then have "m' (r + 96) = m (r + 96)" using assms(3) unfolding same_outside_def by blast
  then show ?thesis
    using assms(1,2) load_other_page [OF assms(3,4)] by (simp add: split_root_at_def field_defs)
qed

lemma split_root_checksum:
  assumes "split_root_at m r sib n"
  shows "split_root_at (update_checksum r m) r sib n"
  using assms by (simp add: split_root_at_def field_defs store_other)

definition root_image :: "nat \<Rightarrow> nat \<Rightarrow> nat \<Rightarrow> nat \<Rightarrow> byte list \<Rightarrow> byte_memory \<Rightarrow> byte_memory" where
  "root_image r new_root full sib key m =
     set_total_size r (node_header_size + 8 + btree_entry_header + length key + 8)
      (store_int (r + 104 + length key) 8 sib (write_bytes (r + 104) key (write_entry (r + 88) (length key) 0 0
        (store_int (r + 80) 8 full (set_right_sibling r 0 (set_parent_page r 0 (set_num_keys r 1 (set_level r 1
          (set_page_id r new_root (set_page_type r page_type_internal m))))))))))"

lemma init_root_eq:
  assumes "level m f = 0" "apart r f"
  shows "init_root r f s new_root full sib key m =
    set_parent_page s new_root (set_parent_page f new_root (root_image r new_root full sib key m))"
proof -
  have "same_outside r m (set_page_id r new_root (set_page_type r page_type_internal m))"
    unfolding set_page_id_def set_page_type_def by (intro same_outside_store) auto
  then have "level (set_page_id r new_root (set_page_type r page_type_internal m)) f = 0"
    using load_other_page [of r m _ f 58 2] assms by (simp add: level_def)
  then show ?thesis by (simp add: init_root_def root_image_def Let_def size_defs add.commute [of _ r])
qed

lemma root_image_split_root:
  assumes "length key \<le> 1024" "sib < 256 ^ 8"
  shows "split_root_at (root_image r new_root full sib key m) r sib (length key)"
    "same_outside r m (root_image r new_root full sib key m)"
proof -
  let ?m = "root_image r new_root full sib key m"
  have "bytes_at ?m (r + 96) 8 = nat_bytes 8 0"
    by (simp add: root_image_def field_defs bytes_at_store add.commute [of _ r])
  then have "?m (r + 96) = nat_bytes 8 0 ! 0" by (metis nth_bytes_at add_0_right zero_less_numeral)
  then show "split_root_at ?m r sib (length key)"
    using assms by (simp add: split_root_at_def root_image_def field_defs nat_bytes_def flip: add.assoc)
  show "same_outside r m ?m"
    unfolding root_image_def field_defs using assms(1)
    by (intro same_outside_store same_outside_write same_outside_refl) simp_all
qed

text \<open>Every key whose first byte is not 0 is found to the right of the first entry.\<close>

lemma find_in_split_root:
  assumes "split_root_at m r sib n" "k \<noteq> []" "hd k \<noteq> 0"
  shows "find_key_position default_compare m r k = (1, False)" "get_child_page m r 1 = sib"
proof -
  obtain b k' where k: "k = b # k'" "b \<noteq> 0" using assms(2,3) by (cases k) auto
  have first: "bytes_at m (r + 96) (Suc j) = 0 # bytes_at m (r + 97) j" for j
    using assms(1) by (simp add: split_root_at_def bytes_at_def upt_conv_Cons ac_simps del: upt_Suc)
  have "default_compare k (entry_key m (get_key_ptr m r 0)) = 1"
    using k by (cases "key_size m (r + 80)")
      (auto simp: entry_key_def get_key_ptr_def size_defs first word_gt_0 add.commute [of _ r])
  then show "find_key_position default_compare m r k = (1, False)"
    using assms(1) by (simp add: find_key_position_def split_root_at_def search_node.simps)
  show "get_child_page m r 1 = sib"
    using assms(1) by (simp add: get_child_page_def split_root_at_def size_defs add.assoc Let_def)
qed

section \<open>The two halves\<close>

lemma init_sibling_outside: "same_outside s m (init_sibling f s sib par m)"
  unfolding init_sibling_def Let_def field_defs by (intro same_outside_store same_outside_refl) simp_all

lemma init_sibling_level:
  assumes "apart s f" "level m f = 0"
  shows "level (init_sibling f s sib par m) s = 0"
proof -
  have "same_outside s m (set_page_id s sib (set_page_type s (page_type m f) m))"
    unfolding set_page_id_def set_page_type_def by (intro same_outside_store same_outside_refl) simp_all
  then have "level (set_page_id s sib (set_page_type s (page_type m f) m)) f = 0"
    using load_other_page [of s m _ f 58 2] assms by (simp add: level_def)
  then show ?thesis by (simp add: init_sibling_def Let_def field_defs)
qed

lemma move_upper_leaf:
  assumes m: "leaf_at m f es" "level m s = 0" "length es = 100" "leaf_ok es" and apart: "apart s f"
  shows "leaf_at (move_upper f s sib n m) s (drop 51 es)" "level (move_upper f s sib n m) f = 0"
proof -
  let ?src = "f + 80 + span_of (take 51 es)"
  let ?c = "span_of (drop 51 es)"
  have es: "es = take 51 es @ drop 51 es" by simp
  have sum: "span_of es = span_of (take 51 es) + ?c" by (subst es) (simp only: span_of_simps)
  then have room: "80 + span_of (take 51 es) + ?c \<le> 4096" using assms(4) by (simp add: leaf_ok_def)
  have src: "get_key_ptr m f 51 = ?src"
    using get_key_ptr_leaf [of m f "take 51 es" "drop 51 es"] assms by simp
  have b: "bytes_at m ?src ?c = encode_entries (drop 51 es)"
    using leaf_suffix(2) [of m f "take 51 es" "drop 51 es"] assms(1) by simp
  then have "skip_entries m 0 49 ?src = ?src + ?c"
    using skip_entries_leaf [of m ?src "drop 51 es" "[]"] assms(3,4) by (auto simp: leaf_ok_def dest: in_set_dropD)
  moreover have lv: "level m f = 0" "num_keys m f = 100" using m(1,3) by (simp_all add: leaf_at_def)
  ultimately have eq: "move_upper f s sib n m =
      (let m4 = set_total_size s (80 + ?c) (set_num_keys f 50 (set_num_keys s (sub_width 2 100 51)
                  (memmove (s + 80) ?src ?c m)))
       in set_right_sibling f sib (set_total_size f (sub_width 4 (total_size m4 f) (?c + 16 + n)) m4))"
    using src by (simp add: move_upper_def Let_def size_defs ac_simps)
  have w: "sub_width 2 100 51 = 49" by (simp add: sub_width_exact)
  from apart show "leaf_at (move_upper f s sib n m) s (drop 51 es)"
    using m(2,3) b room w unfolding eq Let_def
    by (elim disjE; intro leaf_at_data) (simp_all add: field_defs)
  from apart show "level (move_upper f s sib n m) f = 0"
    using lv(1) room unfolding eq Let_def by (elim disjE) (simp_all add: field_defs)
qed

text \<open>
  What the split asks of the page functions: the page handed out has a number other than 0, it can be
  opened for writing, and handing it out writes to no other page.
\<close>

definition hands_out :: "'p page_ops \<Rightarrow> 'p \<Rightarrow> nat \<Rightarrow> nat \<Rightarrow> nat \<Rightarrow> 'p \<Rightarrow> bool" where
  "hands_out ops s ty n p s' \<longleftrightarrow>
     n \<noteq> 0 \<and> n < 256 ^ 8 \<and> get_page_for_write ops s' n = Some p \<and>
     (\<forall>m. \<exists>m'. alloc_page ops ty m s = (n, m', s') \<and> same_outside p m m')"

lemma tree_alloc_hands_out:
  assumes "hands_out ops (bt_pm t) ty n p s'"
  obtains m' where "tree_alloc ops ty t = (n, t\<lparr>bt_mem := m', bt_pm := s'\<rparr>)" "same_outside p (bt_mem t) m'"
proof -
  from assms obtain m' where "alloc_page ops ty (bt_mem t) (bt_pm t) = (n, m', s')" "same_outside p (bt_mem t) m'"
    unfolding hands_out_def by blast
  then show ?thesis by (intro that [of m']) (simp_all add: tree_alloc_def)
qed

lemma split_halves_leaf:
  assumes "leaf_at (bt_mem t) f es" "leaf_ok es" "length es = 100"
    and "get_page_for_write ops (bt_pm t) full = Some f"
    and "hands_out ops (bt_pm t) page_type_leaf sib s s1" "apart s f"
  shows "\<exists>t1. split_halves ops par full t = (Some (f, s, sib, fst (es ! 50)), t1) \<and>
    leaf_at (bt_mem t1) s (drop 51 es) \<and> level (bt_mem t1) f = 0 \<and> bt_pm t1 = s1 \<and> compare_fn t1 = compare_fn t"
proof -
  obtain m1 where a: "tree_alloc ops page_type_leaf t = (sib, t\<lparr>bt_mem := m1, bt_pm := s1\<rparr>)"
    and o1: "same_outside s (bt_mem t) m1"
    by (rule tree_alloc_hands_out [OF assms(5)])
  have sib: "sib \<noteq> 0" "get_page_for_write ops s1 sib = Some s" using assms(5) by (simp_all add: hands_out_def)
  define m2 where "m2 = init_sibling f s sib par m1"
  have L1: "leaf_at m1 f es" by (rule leaf_other_page [OF assms(1,2) o1 assms(6)])
  then have "level m1 f = 0" by (simp add: leaf_at_def)
  then have s0: "level m2 s = 0" unfolding m2_def by (rule init_sibling_level [OF assms(6)])
  have L2: "leaf_at m2 f es" unfolding m2_def by (rule leaf_other_page [OF L1 assms(2) init_sibling_outside assms(6)])
  have e: "num_keys m2 f div 2 = 50" "level (bt_mem t) f = 0" using L2 assms(1,3) by (simp_all add: leaf_at_def)
  have "50 < length es" using assms(3) by simp
  note E = leaf_entry_at(2,5) [OF L2 assms(2) this]
  have "fst (es ! 50) \<noteq> []" using assms(2,3) by (auto simp: leaf_ok_def pair_ok_def dest!: bspec [of _ _ "es ! 50"])
  then have "buffer_ok (length (fst (es ! 50)))" by (simp add: buffer_ok_def)
  then have "split_halves ops par full t = (Some (f, s, sib, fst (es ! 50)),
      t\<lparr>bt_pm := s1, bt_mem := move_upper f s sib (length (fst (es ! 50))) m2\<rparr>)"
    using assms(4) a sib e E by (simp add: split_halves_def on_mem_def m2_def [symmetric] Let_def)
  then show ?thesis using move_upper_leaf [OF L2 s0 assms(3,2,6)] by simp
qed

lemma split_root_leaf:
  assumes "leaf_at (bt_mem t) s es" "leaf_ok es" "level (bt_mem t) f = 0" "length key \<le> 1024" "sib < 256 ^ 8"
    and "hands_out ops (bt_pm t) page_type_internal n r s2" "apart r f" "apart r s" "apart s f"
  shows "\<exists>t1. split_root ops f s full sib key t = (True, t1) \<and>
    leaf_at (bt_mem t1) s es \<and> split_root_at (bt_mem t1) r sib (length key) \<and>
    root_page t1 = n \<and> bt_pm t1 = s2 \<and> compare_fn t1 = compare_fn t"
proof -
  obtain m1 where a: "tree_alloc ops page_type_internal t = (n, t\<lparr>bt_mem := m1, bt_pm := s2\<rparr>)"
    and o1: "same_outside r (bt_mem t) m1"
    by (rule tree_alloc_hands_out [OF assms(6)])
  have n: "n \<noteq> 0" "get_page_for_write ops s2 n = Some r" using assms(6) by (simp_all add: hands_out_def)
  have "level m1 f = 0" using load_other_page [OF o1 assms(7), of 58 2] assms(3) by (simp add: level_def)
  note I = init_root_eq [OF this assms(7)]
  define m2 where "m2 = root_image r n full sib key m1"
  note R = root_image_split_root [OF assms(4,5), where r = r and new_root = n and full = full and m = m1, folded m2_def]
  define m3 where "m3 = set_parent_page s n (set_parent_page f n m2)"
  have L1: "leaf_at m1 s es" by (rule leaf_other_page [OF assms(1,2) o1 assms(8)])
  have L2: "leaf_at m2 s es" by (rule leaf_other_page [OF L1 assms(2) R(2) assms(8)])
  have fs: "apart f s" "apart f r" "apart s r" using assms(7-9) by auto
  have L3: "leaf_at m3 s es"
    unfolding m3_def by (intro leaf_set_parent leaf_other_page [OF L2 assms(2) outside_set_parent fs(1)])
  have R3: "split_root_at m3 r sib (length key)"
    unfolding m3_def
    by (rule split_root_other_page [OF split_root_other_page [OF R(1) assms(4) outside_set_parent fs(2)]
        assms(4) outside_set_parent fs(3)])
  have "leaf_at (update_checksum r m3) s es" by (rule leaf_other_page [OF L3 assms(2) outside_checksum assms(8)])
  moreover have "split_root_at (update_checksum r m3) r sib (length key)" by (rule split_root_checksum [OF R3])
  moreover have "init_root r f s n full sib key m1 = m3" unfolding I m3_def m2_def ..
  ultimately show ?thesis
    using a n by (auto simp: split_root_def on_mem_def Let_def)
qed

lemma split_node_leaf:
  assumes "leaf_at (bt_mem t) f es" "leaf_ok es" "length es = 100"
    and "get_page_for_write ops (bt_pm t) full = Some f"
    and "hands_out ops (bt_pm t) page_type_leaf sib s s1" "hands_out ops s1 page_type_internal n r s2"
    and "apart s f" "apart r f" "apart r s"
  shows "\<exists>t1. split_node ops (Suc fuel) 0 full t = Some (True, t1) \<and>
    leaf_at (bt_mem t1) s (drop 51 es) \<and> split_root_at (bt_mem t1) r sib (length (fst (es ! 50))) \<and>
    root_page t1 = n \<and> bt_pm t1 = s2 \<and> compare_fn t1 = compare_fn t"
proof -
  obtain t1 where t1: "split_halves ops 0 full t = (Some (f, s, sib, fst (es ! 50)), t1)"
    "leaf_at (bt_mem t1) s (drop 51 es)" "level (bt_mem t1) f = 0" "bt_pm t1 = s1" "compare_fn t1 = compare_fn t"
    using split_halves_leaf [OF assms(1-5,7), of 0] by blast
  have ok: "leaf_ok (drop 51 es)" using assms(2) leaf_ok_sub [of "[]" "take 51 es" "drop 51 es"] by simp
  have "pair_ok (es ! 50)" using assms(2,3) by (simp add: leaf_ok_def)
  then have k: "length (fst (es ! 50)) \<le> 1024" by (simp add: pair_ok_def size_defs)
  have "sib < 256 ^ 8" using assms(5) by (simp add: hands_out_def)
  then obtain t2 where t2: "split_root ops f s full sib (fst (es ! 50)) t1 = (True, t2)"
    "leaf_at (bt_mem t2) s (drop 51 es)" "split_root_at (bt_mem t2) r sib (length (fst (es ! 50)))"
    "root_page t2 = n" "bt_pm t2 = s2" "compare_fn t2 = compare_fn t"
    using split_root_leaf [OF t1(2) ok t1(3) k, of sib ops n r s2 full] assms(6-9) t1(4,5) by auto
  have fs: "apart f s" "apart f r" "apart s r" using assms(7-9) by auto
  have "leaf_at (bt_mem (split_done f s t2)) s (drop 51 es)"
    using leaf_checksum leaf_other_page [OF t2(2) ok outside_checksum fs(1)] by (simp add: split_done_def on_mem_def)
  moreover have "split_root_at (bt_mem (split_done f s t2)) r sib (length (fst (es ! 50)))"
    using split_root_other_page [OF split_root_other_page [OF t2(3) k outside_checksum fs(2)] k outside_checksum fs(3)]
    by (simp add: split_done_def on_mem_def)
  ultimately show ?thesis using t1(1) t2 by (simp add: split_done_def on_mem_def)
qed

section \<open>Searching below the new root\<close>

lemma get_below_split_root:
  assumes "split_root_at (bt_mem t) r sib n" "leaf_at (bt_mem t) s es" "leaf_ok es" "sorted_pairs default_compare es"
    and "get_page ops (bt_pm t) (root_page t) = Some r" "get_page ops (bt_pm t) sib = Some s"
    and "compare_fn t = default_compare" "k \<noteq> []" "hd k \<noteq> 0"
  shows "jdbx_btree_get ops (Suc (Suc fuel)) k t = Some (map_of es k)"
proof -
  have "level (bt_mem t) r \<noteq> 0" using assms(1) by (simp add: split_root_at_def)
  then have "jdbx_btree_get ops (Suc (Suc fuel)) k t = btree_get_from ops (Suc fuel) sib k t"
    using assms(5,7-9) find_in_split_root [OF assms(1,8,9)]
    by (simp add: jdbx_btree_get_def btree_get_from.simps(2) [of ops "Suc fuel"] del: btree_get_from.simps)
  also have "\<dots> = Some (map_of es k)"
    using assms(2-4,6,7) by (intro dc.get_page_leaf) simp_all
  finally show ?thesis .
qed

lemma delete_below_split_root:
  assumes "split_root_at (bt_mem t) r sib n" "root_page t \<noteq> 0"
    and "get_page_for_write ops (bt_pm t) (root_page t) = Some r" "compare_fn t = default_compare" "k \<noteq> []" "hd k \<noteq> 0"
  shows "jdbx_btree_delete ops (Suc (Suc fuel)) k t = Some (False, t)"
  using assms find_in_split_root [OF assms(1,5,6)] by (simp add: jdbx_btree_delete_def split_root_at_def Let_def)

text \<open>
  The first page of a tree is full, the page functions hand out two more, and a new pair is inserted.
\<close>

definition full_leaf_tree :: "'p page_ops \<Rightarrow> 'p btree \<Rightarrow> nat \<Rightarrow> pair list \<Rightarrow> bool" where
  "full_leaf_tree ops t f es \<longleftrightarrow>
     get_page_for_write ops (bt_pm t) (root_page t) = Some f \<and> leaf_at (bt_mem t) f es \<and> leaf_ok es \<and>
     length es = 100 \<and> sorted_pairs default_compare es \<and> compare_fn t = default_compare \<and> parent_page (bt_mem t) f = 0"

definition two_fresh_pages :: "'p page_ops \<Rightarrow> 'p \<Rightarrow> nat \<Rightarrow> bool" where
  "two_fresh_pages ops s0 f \<longleftrightarrow>
     (\<exists>sib s s1 n r s2.
        hands_out ops s0 page_type_leaf sib s s1 \<and> hands_out ops s1 page_type_internal n r s2 \<and>
        get_page_for_write ops s2 sib = Some s \<and> get_page ops s2 sib = Some s \<and> get_page ops s2 n = Some r \<and>
        apart s f \<and> apart r f \<and> apart r s)"

text \<open>
  C15. The 101st key makes a B-tree forget half of what it held.  When the first page is full, an
  insertion succeeds, and after it the tree finds the new pair and the 49 greatest old ones; the
  other 51 are not found any more.  And from then on every deletion fails.  (Keys whose first byte
  is not 0, that is all text.)
\<close>

theorem btree_split_loses_half:
  assumes "full_leaf_tree ops t f es" "two_fresh_pages ops (bt_pm t) f"
    and "pair_ok (k, v)" "hd k \<noteq> 0" "map_of es k = None"
    and "80 + span_of (put_pair default_compare k v (drop 51 es)) \<le> 4096" "3 \<le> fuel"
  shows "\<exists>t'. jdbx_btree_insert ops fuel k v t = Some (True, t') \<and>
    (\<forall>x. x \<noteq> [] \<longrightarrow> hd x \<noteq> 0 \<longrightarrow>
       jdbx_btree_get ops fuel x t' = Some (((map_of (drop 51 es))(k \<mapsto> v)) x) \<and>
       jdbx_btree_delete ops fuel x t' = Some (False, t'))"
proof -
  obtain g where g: "fuel = Suc (Suc (Suc g))" using assms(7) by (auto simp: numeral_3_eq_3 le_iff_add)
  have t: "get_page_for_write ops (bt_pm t) (root_page t) = Some f" "leaf_at (bt_mem t) f es" "leaf_ok es"
    "length es = 100" "sorted_pairs default_compare es" "compare_fn t = default_compare" "parent_page (bt_mem t) f = 0"
    using assms(1) by (simp_all add: full_leaf_tree_def)
  obtain sib s s1 n r s2 where P: "hands_out ops (bt_pm t) page_type_leaf sib s s1" "hands_out ops s1 page_type_internal n r s2"
    "get_page_for_write ops s2 sib = Some s" "get_page ops s2 sib = Some s" "get_page ops s2 n = Some r"
    and A: "apart s f" "apart r f" "apart r s"
    using assms(2) unfolding two_fresh_pages_def by metis
  obtain t1 where t1: "split_node ops (Suc (Suc g)) 0 (root_page t) t = Some (True, t1)" "leaf_at (bt_mem t1) s (drop 51 es)"
    "split_root_at (bt_mem t1) r sib (length (fst (es ! 50)))" "root_page t1 = n" "bt_pm t1 = s2" "compare_fn t1 = default_compare"
    using split_node_leaf [OF t(2-4,1) P(1,2) A, of "Suc g"] t(6) by auto
  have upper: "leaf_ok (drop 51 es)" "sorted_pairs default_compare (drop 51 es)" "length (drop 51 es) < 100"
    using t(3-5) leaf_ok_sub [of "[]" "take 51 es" "drop 51 es"] dc.sorted_drop by simp_all
  have "map_of (drop 51 es) k = None" using assms(5) by (auto simp: map_of_eq_None_iff dest: in_set_dropD)
  note I = dc.insert_new_page [OF P(3) [folded t1(5)] t1(2) upper(1,2) t1(6) upper(3) this assms(3,6)]
  define t' where "t' = (on_mem (insert_entry s (length (below default_compare k (drop 51 es))) k v 0) t1)
    \<lparr>stat_num_keys := stat_num_keys t1 + 1\<rparr>"
  have k: "k \<noteq> []" "\<not> (k = [] \<or> v = [] \<or> jdbx_max_key_size < length k)" using assms(3) by (auto simp: pair_ok_def)
  have n: "n \<noteq> 0" "get_page_for_write ops s2 n = Some r" using P(2) by (simp_all add: hands_out_def)
  have lv: "level (bt_mem t1) r \<noteq> 0" "\<not> node_is_full (bt_mem t1) r"
    using t1(3) by (simp_all add: split_root_at_def node_is_full_def size_defs)
  have full: "node_is_full (bt_mem t) f" using t(2,4) by (simp add: leaf_at_def node_is_full_def size_defs)
  have "jdbx_btree_insert ops fuel k v t = btree_insert_from ops (Suc (Suc g)) n k v t1"
    using t(1,7) full t1(1,4) k(2) unfolding g
    by (simp add: jdbx_btree_insert_def btree_insert_from.simps(2) [of ops "Suc (Suc g)"] del: btree_insert_from.simps split_node.simps)
  also have "\<dots> = btree_insert_from ops (Suc g) sib k v t1"
    using n(2) lv t1(5,6) find_in_split_root [OF t1(3) k(1) assms(4)]
    by (simp add: btree_insert_from.simps(2) [of ops "Suc g"] del: btree_insert_from.simps split_node.simps)
  also have "\<dots> = Some (True, t')" using I(1) unfolding t'_def .
  finally have ins: "jdbx_btree_insert ops fuel k v t = Some (True, t')" .
  have t': "root_page t' = n" "bt_pm t' = s2" "compare_fn t' = default_compare"
    using t1 by (simp_all add: t'_def on_mem_def)
  have "pair_ok (es ! 50)" using t(3,4) by (simp add: leaf_ok_def)
  then have "length (fst (es ! 50)) \<le> 1024" by (simp add: pair_ok_def size_defs)
  moreover have "apart s r" using A(3) by auto
  ultimately have root: "split_root_at (bt_mem t') r sib (length (fst (es ! 50)))"
    using split_root_other_page [OF t1(3) _ I(3)] unfolding t'_def by blast
  have leaf: "leaf_at (bt_mem t') s (put_pair default_compare k v (drop 51 es))" using I(2) unfolding t'_def .
  have "jdbx_btree_get ops fuel x t' = Some (((map_of (drop 51 es))(k \<mapsto> v)) x) \<and>
      jdbx_btree_delete ops fuel x t' = Some (False, t')" if x: "x \<noteq> []" "hd x \<noteq> 0" for x
    using get_below_split_root [OF root leaf I(4) dc.sorted_put [OF upper(2)], of ops x "Suc g"]
      delete_below_split_root [OF root, of ops x "Suc g"] t' P(4,5) n x
    unfolding g dc.map_of_put by simp
  then show ?thesis using ins by blast
qed

text \<open>A full first page: the keys 1 to 100, each of one byte.\<close>

definition full_pairs :: "pair list" where
  "full_pairs = map (\<lambda>i. ([of_nat (i + 1)], [1])) [0..<100]"

definition full_tree :: "nat btree" where
  "full_tree = \<lparr>bt_mem = write_bytes (4096 + 80) (encode_entries full_pairs)
                  (set_parent_page 4096 0 (set_total_size 4096 1880 (set_level 4096 0 (set_num_keys 4096 100 (\<lambda>_. 0))))),
                bt_pm = 2, root_page = 1, compare_fn = default_compare,
                stat_height = 1, stat_num_keys = 100, stat_num_pages = 1\<rparr>"

definition counting_ops :: "nat page_ops" where
  "counting_ops = \<lparr>alloc_page = \<lambda>ty m s. (s, m, s + 1), get_page = \<lambda>s n. if n < s then Some (4096 * n) else None,
                   get_page_for_write = \<lambda>s n. if n < s then Some (4096 * n) else None, free_page = \<lambda>n m s. (m, s)\<rparr>"

lemma span_full: "span_of (map (\<lambda>i. ([of_nat (i + 1)], [1])) is) = 18 * length is"
  by (induction "is") (simp_all add: entry_bytes_def)

lemma small_byte: "i < 100 \<Longrightarrow> unat (of_nat (Suc i) :: byte) = Suc i"
  by (simp only: unsigned_of_nat take_bit_eq_mod) simp

lemma full_tree_full: "full_leaf_tree counting_ops full_tree 4096 full_pairs"
proof -
  have sp: "span_of full_pairs = 1800" unfolding full_pairs_def span_full by simp
  have len: "length full_pairs = 100" by (simp add: full_pairs_def)
  have "bytes_at (bt_mem full_tree) (4096 + 80) (span_of full_pairs) = encode_entries full_pairs"
    unfolding full_tree_def by (simp add: bytes_at_write_n)
  then have "leaf_at (bt_mem full_tree) 4096 full_pairs"
    using sp len by (intro leaf_at_data) (simp_all add: full_tree_def field_defs)
  moreover have "sorted_pairs default_compare full_pairs"
    unfolding sorted_pairs_def full_pairs_def sorted_wrt_map
    by (rule sorted_wrt_mono_rel [OF _ sorted_wrt_upt])
      (simp add: word_less_nat_alt small_byte del: of_nat_Suc)
  moreover have "leaf_ok full_pairs"
    using sp len by (auto simp: leaf_ok_def full_pairs_def pair_ok_def size_defs)
  ultimately show ?thesis
    using len by (simp add: full_leaf_tree_def) (simp add: full_tree_def counting_ops_def field_defs)
qed

lemma counting_ops_fresh: "two_fresh_pages counting_ops 2 4096"
proof -
  have "hands_out counting_ops 2 page_type_leaf 2 8192 3" "hands_out counting_ops 3 page_type_internal 3 12288 4"
    by (auto simp: hands_out_def counting_ops_def)
  moreover have "get_page_for_write counting_ops 4 2 = Some 8192" "get_page counting_ops 4 2 = Some 8192"
    "get_page counting_ops 4 3 = Some 12288"
    by (simp_all add: counting_ops_def)
  ultimately show ?thesis unfolding two_fresh_pages_def by (intro exI conjI) (assumption | simp)+
qed

theorem btree_split_loses_half_witness:
  "\<exists>t'. jdbx_btree_insert counting_ops 3 [200] [7] full_tree = Some (True, t') \<and>
     jdbx_btree_get counting_ops 3 [200] t' = Some (Some [7]) \<and>
     jdbx_btree_get counting_ops 3 [1] t' = Some None \<and> jdbx_btree_delete counting_ops 3 [200] t' = Some (False, t')"
proof -
  let ?up = "drop 51 full_pairs"
  have up: "?up = map (\<lambda>i. ([of_nat (i + 1)], [1])) [51..<100]" by (simp add: full_pairs_def drop_map)
  have lt: "default_compare (fst kv) [200] < 0" "fst kv \<noteq> [200]" "\<not> default_compare [200] (fst kv) < 0" if "kv \<in> set full_pairs" for kv
  proof -
    from that obtain i where "i < 100" "fst kv = [of_nat (Suc i)]" by (auto simp: full_pairs_def)
    then show "default_compare (fst kv) [200] < 0" by (simp add: word_less_nat_alt small_byte del: of_nat_Suc)
    then show "fst kv \<noteq> [200]" "\<not> default_compare [200] (fst kv) < 0" by (auto dest: dc.cmp_asym)
  qed
  have "map_of full_pairs [200] = None" using lt(2) by (force simp: map_of_eq_None_iff)
  moreover have "below default_compare [200] ?up = ?up" "above default_compare [200] ?up = []"
    using lt(1,3) by (auto simp: below_def above_def filter_id_conv filter_empty_conv dest!: in_set_dropD)
  then have "80 + span_of (put_pair default_compare [200] [7] ?up) \<le> 4096"
    unfolding put_pair_def up span_of_simps span_full by (simp add: span_full entry_bytes_def)
  moreover have "pair_ok ([200], [7])" by (simp add: pair_ok_def size_defs)
  moreover have "two_fresh_pages counting_ops (bt_pm full_tree) 4096" using counting_ops_fresh by (simp add: full_tree_def)
  ultimately obtain t' where t': "jdbx_btree_insert counting_ops 3 [200] [7] full_tree = Some (True, t')"
    and find: "\<And>x. x \<noteq> [] \<Longrightarrow> hd x \<noteq> 0 \<Longrightarrow>
      jdbx_btree_get counting_ops 3 x t' = Some (((map_of ?up)([200] \<mapsto> [7])) x) \<and>
      jdbx_btree_delete counting_ops 3 x t' = Some (False, t')"
    using btree_split_loses_half [OF full_tree_full, of "[200]" "[7]" 3] by auto
  have "map_of ?up [1] = None"
    unfolding up by (auto simp: map_of_eq_None_iff unat_eq_nat_uint dest!: arg_cong [of _ _ unat] simp: small_byte simp del: of_nat_Suc)
  then show ?thesis using t' find [of "[200]"] find [of "[1]"] by auto
qed

end
