(* ===== verification/Btree_Values.thy ===== *)
theory Btree_Values
  imports Btree_Split
begin

text \<open>
  Iterating over a leaf, and two ways in which values go wrong: one replaced by a shorter value hides
  the entries behind it, one in overflow pages comes back shifted.
\<close>

section \<open>Iterators\<close>

theorem iterator_leaf:
  assumes "leaf_tree ops t es"
  shows "jdbx_btree_iterator_create ops (Suc fuel) t = Some \<lparr>it_page = root_page t, it_index = 0, it_finished = False\<rparr>"
    and "i < length es \<Longrightarrow>
      jdbx_btree_iterator_next ops (Suc fuel) t \<lparr>it_page = root_page t, it_index = i, it_finished = False\<rparr> =
        Some (Some (es ! i), \<lparr>it_page = root_page t, it_index = i + 1, it_finished = False\<rparr>)"
proof -
  from assms obtain p where p: "get_page ops (bt_pm t) (root_page t) = Some p" "leaf_at (bt_mem t) p es"
    and es: "leaf_ok es" and n: "root_page t \<noteq> 0"
    by (auto simp: leaf_tree_def)
  have m: "level (bt_mem t) p = 0" "num_keys (bt_mem t) p = length es" using p(2) by (simp_all add: leaf_at_def)
  show "jdbx_btree_iterator_create ops (Suc fuel) t = Some \<lparr>it_page = root_page t, it_index = 0, it_finished = False\<rparr>"
    using p(1) m n by (simp add: jdbx_btree_iterator_create_def find_leftmost_leaf_def)
  assume i: "i < length es"
  then have "pair_ok (es ! i)" using es by (simp add: leaf_ok_def)
  then show "jdbx_btree_iterator_next ops (Suc fuel) t \<lparr>it_page = root_page t, it_index = i, it_finished = False\<rparr> =
      Some (Some (es ! i), \<lparr>it_page = root_page t, it_index = i + 1, it_finished = False\<rparr>)"
    using p(1) m n i leaf_entry_at(2-6) [OF p(2) es i]
    by (simp add: jdbx_btree_iterator_next_def iterator_entry_def buffer_ok_def pair_ok_def size_defs)
qed

section \<open>A shorter value\<close>

text \<open>
  The update in place leaves the entries behind the value where they are, and \<^verbatim>\<open>get_key_ptr\<close>
  looks for them where the shorter value ends.  If the old value goes on with sixteen zero bytes
  there, these are read as an entry with an empty key.
\<close>

lemma update_shorter:
  assumes "leaf_at m p [(k, w), (j, u)]" "leaf_ok [(k, w), (j, u)]" "v \<noteq> []"
    and "length v + 16 \<le> length w" "take 16 (drop (length v) w) = replicate 16 0"
  defines "m' \<equiv> update_in_place (p + 80) v m"
  shows "num_keys m' p = 2" "level m' p = 0" "get_key_ptr m' p 1 = p + 96 + length k + length v"
    "entry_key m' (p + 80) = k" "key_size m' (get_key_ptr m' p 1) = 0"
proof -
  define e where "e = p + 80"
  have ok: "pair_ok (k, w)" using assms(2) by (simp add: leaf_ok_def)
  have "bytes_at m e (entry_bytes (k, w)) = encode_entry (k, w)"
    using leaf_entry [of m p "[]" "(k, w)" "[(j, u)]"] assms(1) by (simp add: e_def)
  note F = entry_fields [OF this ok]
  have m': "m' = write_bytes (e + 16 + length k) v (store_int (e + 4) 4 (length v) m)"
    using F(1) by (simp add: m'_def update_in_place_def Let_def e_def [symmetric] size_defs) (simp add: field_defs)
  show "num_keys m' p = 2" and l: "level m' p = 0"
    using assms(1) by (simp_all add: m' leaf_at_def field_defs e_def)
  have "length v < 256 ^ 4" using ok assms(4) by (simp add: pair_ok_def size_defs)
  then have f: "key_size m' e = length k" "value_size m' e = length v" "overflow_page m' e = 0" "entry_key m' e = k"
    using F(1,3,4) by (simp_all add: m' field_defs entry_key_def size_defs)
  then show "entry_key m' (p + 80) = k" by (simp add: e_def)
  show q: "get_key_ptr m' p 1 = p + 96 + length k + length v"
    using l f by (simp add: get_key_ptr_def entry_span_def size_defs e_def [symmetric]) (simp add: e_def)
  obtain n where n: "length w = length v + (4 + n)" using assms(4) by (auto simp: le_iff_add)
  have "bytes_at m (e + 16 + length k) (length v + (4 + n)) = w" using F(5) n by simp
  then have "bytes_at m (e + 16 + length k + length v) 4 = take 4 (drop (length v) w)"
    unfolding bytes_at_add by (auto simp: n)
  also have "\<dots> = take 4 (take 16 (drop (length v) w))" by simp
  also have "\<dots> = replicate 4 0" unfolding assms(5) by simp
  finally have "bytes_at m' (e + 16 + length k + length v) 4 = replicate 4 0" by (simp add: m')
  then have "key_size m' (e + 16 + length k + length v) = 0"
    by (simp add: key_size_def load_int_def numeral_eq_Suc)
  then show "key_size m' (get_key_ptr m' p 1) = 0" unfolding q by (simp add: e_def ac_simps)
qed

text \<open>
  A key is lost when the value of the key in front of it gets shorter: the update is reported to have
  succeeded, and the other key is not found any more.
\<close>

theorem shorter_value_hides:
  assumes "leaf_tree ops t [(k, w), (j, u)]" "compare_fn t = default_compare" "v \<noteq> []"
    and "length v + 16 \<le> length w" "take 16 (drop (length v) w) = replicate 16 0"
  shows "\<exists>t'. jdbx_btree_insert ops (Suc fuel) k v t = Some (True, t') \<and> jdbx_btree_get ops (Suc fuel) j t' = Some None"
proof -
  let ?es = "[(k, w), (j, u)]"
  from assms obtain p where p: "get_page_for_write ops (bt_pm t) (root_page t) = Some p"
      "get_page ops (bt_pm t) (root_page t) = Some p" "leaf_at (bt_mem t) p ?es"
    and es: "leaf_ok ?es" "sorted_pairs default_compare ?es"
    by (auto simp: leaf_tree_def)
  have kj: "default_compare k j < 0" using es(2) by (simp add: sorted_pairs_def)
  then have "below default_compare k ?es = []" by (auto simp: below_def dest: dc.cmp_asym)
  note P = dc.leaf_pieces [OF p(3) es, of k, unfolded this]
  have "map_of ?es k = Some w" by simp
  note F = dc.leaf_found [OF p(3) es this, unfolded \<open>below default_compare k ?es = []\<close>]
  have k: "k \<noteq> []" "length k \<le> jdbx_max_key_size" "j \<noteq> []" using es(1) by (simp_all add: leaf_ok_def pair_ok_def)
  define t' where "t' = on_mem (update_in_place (p + 80) v) t"
  note U = update_shorter [OF p(3) es(1) assms(3-5)]
  have "jdbx_btree_insert ops (Suc fuel) k v t = Some (True, t')"
    using p(1,3) assms(2-4) P(1,2) F(2,3) k
    by (simp add: jdbx_btree_insert_def node_is_full_def leaf_at_def size_defs Let_def t'_def)
  moreover have "find_key_position default_compare (bt_mem t') p j = (2, False)"
  proof -
    have "0 < default_compare j k" using kj dc.cmp_swap by simp
    moreover have "0 < default_compare j []" using k(3) by (cases j) simp_all
    moreover have "entry_key (bt_mem t') (get_key_ptr (bt_mem t') p 0) = k"
      "entry_key (bt_mem t') (get_key_ptr (bt_mem t') p (Suc 0)) = []"
      using U(4,5) by (simp_all add: t'_def on_mem_def get_key_ptr_def [of _ _ 0] entry_key_def [of _ "get_key_ptr _ _ _"] size_defs)
    moreover have "num_keys (bt_mem t') p = 2" using U(1) by (simp add: t'_def on_mem_def)
    ultimately show ?thesis by (simp add: find_key_position_def search_node.simps Let_def)
  qed
  ultimately show ?thesis
    using p(2) U(2) assms(2) k(3) by (auto simp: jdbx_btree_get_def t'_def on_mem_def)
qed

section \<open>Overflow pages\<close>

text \<open>
  The length of a value is written over its first four bytes, and reading starts behind it: what
  comes back is the value without these, followed by four bytes that were in the page before.
\<close>

theorem overflow_value_shifted:
  assumes "hands_out ops (bt_pm t) page_type_overflow n p s1" "get_page ops s1 n = Some p"
    and "\<And>m m'. alloc_page ops page_type_overflow m (bt_pm t) = (n, m', s1) \<Longrightarrow> page_type m' p = page_type_overflow"
    and "4 \<le> length v" "length v \<le> 4036"
  shows "\<exists>t1 rest. write_overflow_value ops v t = (n, t1) \<and> length rest = 4 \<and>
    read_overflow_value ops (bt_mem t1) s1 n = Some (drop 4 v @ rest)"
proof -
  obtain m1 where a: "alloc_page ops page_type_overflow (bt_mem t) (bt_pm t) = (n, m1, s1)"
    and n: "n \<noteq> 0" "get_page_for_write ops s1 n = Some p"
    using assms(1) unfolding hands_out_def by blast
  define m2 where "m2 = fill_overflow p True (length v) v m1"
  define rest where "rest = bytes_at m1 (p + 56 + length v) 4"
  have "(length v + btree_page_size - 1) div btree_page_size = Suc 0"
    using assms(4,5) by (intro div_nat_eqI) (simp_all add: size_defs)
  then have w: "write_overflow_value ops v t = (n, t\<lparr>bt_mem := m2, bt_pm := s1\<rparr>)"
    using a n assms(5)
    by (simp add: write_overflow_value_def tree_alloc_def link_overflow_def on_mem_def m2_def overflow_room_def)
      (simp add: size_defs)
  have "load_int m2 (p + 56) 4 = length v"
    using assms(5) by (simp add: m2_def fill_overflow_def Let_def size_defs field_defs)
  moreover have ty: "page_type m2 p = page_type_overflow"
    using assms(3) [OF a] by (simp add: m2_def fill_overflow_def Let_def size_defs field_defs)
  moreover have "bytes_at m2 (p + 60) (length v) = drop 4 v @ rest"
  proof -
    obtain i where i: "length v = 4 + i" using assms(4) by (auto simp: le_iff_add)
    have "bytes_at (write_bytes (p + 56) v m1) (p + 56) (4 + i) = v" using i by (simp add: bytes_at_write_n)
    from arg_cong [OF this [unfolded bytes_at_add], of "drop 4"]
    have "bytes_at (write_bytes (p + 56) v m1) (p + 60) i = drop 4 v" by (simp add: add.assoc)
    moreover have "bytes_at (write_bytes (p + 56) v m1) (p + 60 + i) 4 = rest"
      using i by (simp add: rest_def add.assoc)
    ultimately have "bytes_at (write_bytes (p + 56) v m1) (p + 60) (i + 4) = drop 4 v @ rest"
      unfolding bytes_at_add [of _ "p + 60" i 4] by simp
    then show ?thesis using i by (simp add: m2_def fill_overflow_def Let_def size_defs field_defs add.commute [of i])
  qed
  ultimately have "read_overflow_value ops m2 s1 n = Some (drop 4 v @ rest)"
    using n(1) assms(2,4,5)
    by (simp add: read_overflow_value_def buffer_ok_def size_defs)
      (auto simp: read_overflow_pages.simps overflow_room_def size_defs Let_def rest_def add.commute [of _ p])
  then show ?thesis using w by (intro exI [of _ "t\<lparr>bt_mem := m2, bt_pm := s1\<rparr>"] exI [of _ rest]) (simp add: rest_def)
qed

end
