(* ===== verification/Json_Schema.thy ===== *)
theory Json_Schema
  imports Schema Database
begin

text \<open>
  JSON schemas that are themselves JSON values: the validator of
  \<^verbatim>\<open>src/src/components/database/json_schema_validator.c\<close> and the second one in
  \<^verbatim>\<open>json_schema_manager.c\<close>.  Both walk over schema and value together; the first keeps the path to
  the place it is at, for its message.  A result is one of \<open>Schema\<close>'s.
\<close>

section \<open>Conversions and messages\<close>

text \<open>
  The cast of a \<^verbatim>\<open>double\<close> to \<^verbatim>\<open>size_t\<close> as x86-64 does it (out of range it is undefined in C), and
  \<^verbatim>\<open>fmod\<close>, whose finite results are exact.
\<close>

definition size_of_double :: "double \<Rightarrow> c_size" where
  "size_of_double d =
     (if double_le (Fin (2 ^ 63)) d then int64_of_double (double_add d (Fin (- (2 ^ 63)))) + 2 ^ 63
      else int64_of_double d)"

definition fmod :: "double \<Rightarrow> double \<Rightarrow> double" where
  "fmod x y =
     (if x = NaN \<or> y = NaN \<or> is_inf x \<or> double_val y = 0 \<and> \<not> is_inf y then NaN
      else if is_inf y then x
      else (let r = double_val x - double_val y * of_int (rat_trunc (double_val x / double_val y))
            in if r = 0 then signed_zero (double_signbit x) else Fin r))"

definition size_str :: "c_size \<Rightarrow> string" where
  "size_str n = int_str (uint n)"

text \<open>\<^verbatim>\<open>snprintf\<close> into a buffer of \<open>n\<close> bytes.\<close>

definition snprintf :: "nat \<Rightarrow> string \<Rightarrow> string" where
  "snprintf n s = take (n - 1) s"

definition success_result :: schema_validation_result where
  "success_result = valid_result"

definition error_result :: "string \<Rightarrow> string \<Rightarrow> schema_validation_result" where
  "error_result err path = invalid_result path err"

text \<open>Results in the order of the checks: the first error counts.\<close>

definition then_check :: "schema_validation_result \<Rightarrow> schema_validation_result \<Rightarrow> schema_validation_result" where
  "then_check r s = (if is_valid r then s else r)"

section \<open>Constraints of one value\<close>

fun size_constraint :: "jptr \<Rightarrow> c_size option" where
  "size_constraint (Some (JInteger i)) = Some i"
| "size_constraint (Some (JNumber d)) = Some (size_of_double d)"
| "size_constraint _ = None"

fun double_constraint :: "jptr \<Rightarrow> double option" where
  "double_constraint (Some (JInteger i)) = Some (double_of_int64 i)"
| "double_constraint (Some (JNumber d)) = Some d"
| "double_constraint _ = None"

definition check_limit :: "'a option \<Rightarrow> ('a \<Rightarrow> bool) \<Rightarrow> ('a \<Rightarrow> string) \<Rightarrow> string \<Rightarrow> schema_validation_result" where
  "check_limit c bad msg path =
     (case c of
        None \<Rightarrow> success_result
      | Some x \<Rightarrow> if bad x then error_result (snprintf 256 (msg x)) path else success_result)"

definition enum_ok :: "string \<Rightarrow> json list \<Rightarrow> bool" where
  "enum_ok s xs \<longleftrightarrow> list_ex (\<lambda>v. case v of JString e \<Rightarrow> strcmp s e = 0 | _ \<Rightarrow> False) xs"

definition validate_string :: "entries \<Rightarrow> string \<Rightarrow> string \<Rightarrow> schema_validation_result" where
  "validate_string es s path =
     (let len = of_nat (length s) :: c_size
      in then_check
           (check_limit (size_constraint (obj_get es ''minLength'')) (\<lambda>m. len < m)
             (\<lambda>m. ''String length '' @ size_str len @ '' is less than minimum '' @ size_str m) path)
         (then_check
           (check_limit (size_constraint (obj_get es ''maxLength'')) (\<lambda>m. m < len)
             (\<lambda>m. ''String length '' @ size_str len @ '' exceeds maximum '' @ size_str m) path)
           (case obj_get es ''enum'' of
              Some (JArray xs) \<Rightarrow>
                if enum_ok s xs then success_result else error_result ''Value not in enumeration'' path
            | _ \<Rightarrow> success_result)))"

definition validate_number :: "entries \<Rightarrow> double \<Rightarrow> string \<Rightarrow> schema_validation_result" where
  "validate_number es num path =
     then_check
       (check_limit (double_constraint (obj_get es ''minimum'')) (\<lambda>m. double_lt num m)
         (\<lambda>m. ''Value '' @ fmt_g num @ '' is less than minimum '' @ fmt_g m) path)
     (then_check
       (check_limit (double_constraint (obj_get es ''maximum'')) (\<lambda>m. double_lt m num)
         (\<lambda>m. ''Value '' @ fmt_g num @ '' exceeds maximum '' @ fmt_g m) path)
       (check_limit (double_constraint (obj_get es ''multipleOf''))
         (\<lambda>d. \<not> double_eq d (Fin 0) \<and> \<not> double_eq (fmod num d) (Fin 0))
         (\<lambda>d. ''Value '' @ fmt_g num @ '' is not a multiple of '' @ fmt_g d) path))"

text \<open>The part of \<^verbatim>\<open>validate_array\<close> after the elements: the sizes are compared as \<^verbatim>\<open>int\<close>.\<close>

definition array_limits :: "entries \<Rightarrow> nat \<Rightarrow> string \<Rightarrow> schema_validation_result" where
  "array_limits es n path =
     (let len = of_nat n :: c_size; as_int = (\<lambda>x. sint (ucast x :: c_int))
      in then_check
           (check_limit (size_constraint (obj_get es ''minItems'')) (\<lambda>m. as_int len < as_int m)
             (\<lambda>m. ''Array has '' @ size_str len @ '' items, minimum is '' @ size_str m) path)
           (check_limit (size_constraint (obj_get es ''maxItems'')) (\<lambda>m. as_int m < as_int len)
             (\<lambda>m. ''Array has '' @ size_str len @ '' items, maximum is '' @ size_str m) path))"

text \<open>The parts of \<^verbatim>\<open>validate_object\<close> after the properties.\<close>

fun check_required :: "json list \<Rightarrow> entries \<Rightarrow> string \<Rightarrow> schema_validation_result" where
  "check_required [] vs path = success_result"
| "check_required (r # rs) vs path =
     (case r of
        JString p \<Rightarrow>
          if json_object_has (Some (JObject vs)) (Some p) then check_required rs vs path
          else error_result (snprintf 256 (''Missing required property: '' @ p)) path
      | _ \<Rightarrow> check_required rs vs path)"

fun check_additional :: "jptr \<Rightarrow> entries \<Rightarrow> string \<Rightarrow> schema_validation_result" where
  "check_additional props [] path = success_result"
| "check_additional props ((k, v) # vs) path =
     (if json_object_has props (Some k) then check_additional props vs path
      else error_result (snprintf 256 (''Additional property not allowed: '' @ k)) path)"

definition object_limits :: "entries \<Rightarrow> entries \<Rightarrow> string \<Rightarrow> schema_validation_result" where
  "object_limits es vs path =
     then_check
       (case obj_get es ''required'' of Some (JArray rs) \<Rightarrow> check_required rs vs path | _ \<Rightarrow> success_result)
       (case (obj_get es ''additionalProperties'', obj_get es ''properties'') of
          (Some (JBoolean False), Some props) \<Rightarrow> check_additional (Some props) vs path
        | _ \<Rightarrow> success_result)"

section \<open>The validator\<close>

lemma obj_get_smaller: "obj_get es k = Some v \<Longrightarrow> size v < size (JObject es)"
  by (induction es k rule: obj_get.induct) (auto split: if_splits)

text \<open>
  \<open>validate_properties\<close> and \<open>validate_items\<close> are the loops of \<^verbatim>\<open>validate_object\<close> and
  \<^verbatim>\<open>validate_array\<close>.
\<close>

function validate_json_value :: "json \<Rightarrow> json \<Rightarrow> string \<Rightarrow> schema_validation_result"
  and validate_object :: "entries \<Rightarrow> entries \<Rightarrow> string \<Rightarrow> schema_validation_result"
  and validate_properties :: "entries \<Rightarrow> entries \<Rightarrow> string \<Rightarrow> schema_validation_result"
  and validate_array :: "entries \<Rightarrow> json list \<Rightarrow> string \<Rightarrow> schema_validation_result"
  and validate_items :: "json \<Rightarrow> json list \<Rightarrow> nat \<Rightarrow> string \<Rightarrow> schema_validation_result" where
  "validate_json_value schema v path =
     (case schema of
        JObject es \<Rightarrow>
          (case obj_get es ''type'' of
             Some (JString t) \<Rightarrow>
               if strcmp t ''object'' = 0
               then (case v of JObject vs \<Rightarrow> validate_object es vs path
                     | _ \<Rightarrow> error_result ''Expected object'' path)
               else if strcmp t ''array'' = 0
               then (case v of JArray xs \<Rightarrow> validate_array es xs path
                     | _ \<Rightarrow> error_result ''Expected array'' path)
               else if strcmp t ''string'' = 0
               then (case v of JString s \<Rightarrow> validate_string es s path
                     | _ \<Rightarrow> error_result ''Expected string'' path)
               else if strcmp t ''number'' = 0
               then (case v of JNumber d \<Rightarrow> validate_number es d path
                     | JInteger i \<Rightarrow> validate_number es (double_of_int64 i) path
                     | _ \<Rightarrow> error_result ''Expected number'' path)
               else if strcmp t ''integer'' = 0
               then (case v of JInteger i \<Rightarrow> validate_number es (double_of_int64 i) path
                     | _ \<Rightarrow> error_result ''Expected integer'' path)
               else if strcmp t ''boolean'' = 0
               then (case v of JBoolean b \<Rightarrow> success_result
                     | _ \<Rightarrow> error_result ''Expected boolean'' path)
               else if strcmp t ''null'' = 0
               then (case v of JNull \<Rightarrow> success_result
                     | _ \<Rightarrow> error_result ''Expected null'' path)
               else success_result
           | _ \<Rightarrow> success_result)
      | _ \<Rightarrow> error_result ''Invalid schema'' path)"
| "validate_object es vs path =
     then_check
       (case obj_get es ''properties'' of
          Some (JObject ps) \<Rightarrow> validate_properties ps vs path
        | _ \<Rightarrow> success_result)
       (object_limits es vs path)"
| "validate_properties [] vs path = success_result"
| "validate_properties ((k, s) # ps) vs path =
     then_check
       (case obj_get vs k of
          None \<Rightarrow> success_result
        | Some x \<Rightarrow> validate_json_value s x (snprintf 256 (path @ ''.'' @ k)))
       (validate_properties ps vs path)"
| "validate_array es xs path =
     then_check
       (case obj_get es ''items'' of
          None \<Rightarrow> success_result
        | Some s \<Rightarrow> validate_items s xs 0 path)
       (array_limits es (length xs) path)"
| "validate_items s [] i path = success_result"
| "validate_items s (x # xs) i path =
     then_check
       (validate_json_value s x (snprintf 256 (path @ ''['' @ size_str (of_nat i) @ '']'')))
       (validate_items s xs (Suc i) path)"
  by pat_completeness auto
termination
proof (relation "measures [\<lambda>x. case x of
      Inl (Inl (s, v, p)) \<Rightarrow> 3 * size s
    | Inl (Inr (es, vs, p)) \<Rightarrow> 3 * size (JObject es) - 1
    | Inr (Inl (ps, vs, p)) \<Rightarrow> 3 * size (JObject ps) - 1
    | Inr (Inr (Inl (es, xs, p))) \<Rightarrow> 3 * size (JObject es) - 1
    | Inr (Inr (Inr (s, xs, i, p))) \<Rightarrow> 3 * size s + 1,
    \<lambda>x. case x of Inl (Inr (es, vs, p)) \<Rightarrow> 1 | Inr (Inr (Inr (s, xs, i, p))) \<Rightarrow> length xs | _ \<Rightarrow> 0]")
qed (auto dest!: obj_get_smaller)

definition json_schema_validate :: "jptr \<Rightarrow> jptr \<Rightarrow> bool \<times> cstr" where
  "json_schema_validate schema v =
     (case (schema, v) of
        (Some s, Some x) \<Rightarrow>
          (let r = validate_json_value s x ''$''
           in (is_valid r,
               if is_valid r then None
               else Some (snprintf 512 (''Validation failed at '' @ the (error_field r) @ '': '' @ the (error_message r)))))
      | _ \<Rightarrow> (False, Some ''Schema and value cannot be NULL''))"

section \<open>The validator of the manager\<close>

text \<open>The type is checked for five names only.  \<open>None\<close> is success, otherwise the message.\<close>

definition basic_type_error :: "string \<Rightarrow> json \<Rightarrow> cstr" where
  "basic_type_error t v =
     (if strcmp t ''object'' = 0 \<and> json_type_of v \<noteq> JSON_OBJECT then Some ''Document must be an object''
      else if strcmp t ''array'' = 0 \<and> json_type_of v \<noteq> JSON_ARRAY then Some ''Document must be an array''
      else if strcmp t ''string'' = 0 \<and> json_type_of v \<noteq> JSON_STRING then Some ''Document must be a string''
      else if strcmp t ''number'' = 0 \<and> json_type_of v \<noteq> JSON_NUMBER then Some ''Document must be a number''
      else if strcmp t ''boolean'' = 0 \<and> json_type_of v \<noteq> JSON_BOOLEAN then Some ''Document must be a boolean''
      else None)"

fun missing_required :: "json list \<Rightarrow> entries \<Rightarrow> cstr" where
  "missing_required [] vs = None"
| "missing_required (r # rs) vs =
     (case r of
        JString p \<Rightarrow>
          if obj_get vs p = None then Some (snprintf 256 (''Missing required property: '' @ p))
          else missing_required rs vs
      | _ \<Rightarrow> missing_required rs vs)"

definition required_error :: "entries \<Rightarrow> entries \<Rightarrow> cstr" where
  "required_error es vs =
     (case obj_get es ''required'' of Some (JArray rs) \<Rightarrow> missing_required rs vs | _ \<Rightarrow> None)"

function validate_document_basic :: "json \<Rightarrow> json \<Rightarrow> cstr"
  and validate_members :: "entries \<Rightarrow> entries \<Rightarrow> cstr" where
  "validate_document_basic schema document =
     (case json_object_get (Some schema) (Some ''type'') of
        Some (JString t) \<Rightarrow>
          (case basic_type_error t document of
             Some msg \<Rightarrow> Some msg
           | None \<Rightarrow>
               (case (schema, document) of
                  (JObject es, JObject vs) \<Rightarrow>
                    if strcmp t ''object'' = 0
                    then (case obj_get es ''properties'' of
                            Some (JObject ps) \<Rightarrow>
                              (case required_error es vs of
                                 Some msg \<Rightarrow> Some msg
                               | None \<Rightarrow> validate_members ps vs)
                          | _ \<Rightarrow> None)
                    else None
                | _ \<Rightarrow> None))
      | _ \<Rightarrow> Some (''Schema missing '' @ [CHR 0x27] @ ''type'' @ [CHR 0x27] @ '' field''))"
| "validate_members ps [] = None"
| "validate_members ps ((k, v) # vs) =
     (case obj_get ps k of
        None \<Rightarrow> validate_members ps vs
      | Some s \<Rightarrow>
          (case validate_document_basic s v of
             None \<Rightarrow> validate_members ps vs
           | Some msg \<Rightarrow> Some (snprintf 512 (''Property '' @ [CHR 0x27] @ k @ [CHR 0x27] @ '': '' @ msg))))"
  by pat_completeness auto
termination
  by (relation "measure (\<lambda>x. case x of Inl (s, v) \<Rightarrow> 2 * size v | Inr (ps, vs) \<Rightarrow> 2 * size (JObject vs) - 1)") auto

definition db_validate_json_schema :: "jptr \<Rightarrow> jptr \<Rightarrow> bool \<times> cstr" where
  "db_validate_json_schema schema document =
     (case (schema, document) of
        (Some s, Some d) \<Rightarrow>
          (case validate_document_basic s d of None \<Rightarrow> (True, None) | Some msg \<Rightarrow> (False, Some msg))
      | _ \<Rightarrow> (False, Some ''Invalid parameters''))"

section \<open>Storing schemas\<close>

text \<open>
  The only collection there is below the virtual layer is \<^verbatim>\<open>default/documents\<close>, which
  \<^verbatim>\<open>db_collection_exists\<close> therefore finds.
\<close>

definition db_collection_exists :: "cstr \<Rightarrow> bool" where
  "db_collection_exists path =
     (case path of None \<Rightarrow> False | Some p \<Rightarrow> parse_collection_path p = (''default'', ''documents''))"

definition collection_field :: "string \<Rightarrow> jptr" where
  "collection_field name = set_field (Some json_create_object) ''collection'' (json_create_string name)"

definition query_schemas :: "jptr \<Rightarrow> database \<Rightarrow> jptr" where
  "query_schemas q db = virtual_query (Some ''schema'') (Some ''system'') (Some ''schemas'') q db"

definition result_documents :: "jptr \<Rightarrow> json list" where
  "result_documents r = (case json_object_get r (Some ''documents'') of Some (JArray ds) \<Rightarrow> ds | _ \<Rightarrow> [])"

definition delete_by_uuid :: "json \<Rightarrow> database \<Rightarrow> bool \<times> database" where
  "delete_by_uuid d db =
     (case json_object_get (Some d) (Some ''uuid'') of
        Some (JString u) \<Rightarrow> (let (r, db') = virtual_delete (Some u) db in (r \<noteq> 0, db'))
      | _ \<Rightarrow> (True, db))"

definition schema_document :: "string \<Rightarrow> json \<Rightarrow> string \<Rightarrow> jptr" where
  "schema_document name schema stamp =
     set_field (set_field (collection_field name) ''schema'' (json_clone schema))
       ''updated_at'' (json_create_string stamp)"

text \<open>Moments and times formatted by \<^verbatim>\<open>strftime\<close>: of the collection, and of the schema.\<close>

definition db_store_json_schema ::
    "moment \<Rightarrow> string \<Rightarrow> moment \<Rightarrow> string \<Rightarrow> string \<Rightarrow> json \<Rightarrow> database \<Rightarrow> (bool \<times> database) faulty" where
  "db_store_json_schema m1 stamp1 m2 stamp2 name schema db =
     (case (if db_collection_exists (Some ''system/schemas'') then Inr (True, db)
            else db_create_collection m1 stamp1 (Some ''system/schemas'') db) of
        Inl f \<Rightarrow> Inl f
      | Inr (False, db) \<Rightarrow> Inr (False, db)
      | Inr (True, db) \<Rightarrow>
          (let db = (case result_documents (query_schemas (collection_field name) db) of
                       [] \<Rightarrow> db
                     | d # ds \<Rightarrow> snd (delete_by_uuid d db));
               (r, db) = virtual_insert m2 (Some ''schema'') (Some ''system'') (Some ''schemas'')
                 (schema_document name schema stamp2) (Some ''system-admin'') db
           in Inr (r \<noteq> None, db)))"

definition db_get_json_schema :: "string \<Rightarrow> database \<Rightarrow> jptr" where
  "db_get_json_schema name db =
     (case result_documents (query_schemas (collection_field name) db) of
        [] \<Rightarrow> None
      | d # ds \<Rightarrow> map_option json_clone (json_object_get (Some d) (Some ''schema'')))"

fun delete_all :: "json list \<Rightarrow> database \<Rightarrow> bool \<times> database" where
  "delete_all [] db = (True, db)"
| "delete_all (d # ds) db =
     (let (r1, db1) = delete_by_uuid d db; (r2, db2) = delete_all ds db1 in (r1 \<and> r2, db2))"

definition db_delete_json_schema :: "string \<Rightarrow> database \<Rightarrow> bool \<times> database" where
  "db_delete_json_schema name db = delete_all (result_documents (query_schemas (collection_field name) db)) db"

definition db_list_json_schemas :: "database \<Rightarrow> jptr" where
  "db_list_json_schemas db =
     (if \<not> db_collection_exists (Some ''system/schemas'') then Some json_create_array
      else case json_object_get (query_schemas (Some json_create_object) db) (Some ''documents'') of
        Some (JArray ds) \<Rightarrow> Some (json_clone (JArray ds))
      | _ \<Rightarrow> Some json_create_array)"

end
