(* ===== verification/Json_Schema_Props.thy ===== *)
theory Json_Schema_Props
  imports Json_Schema Database_Cached
begin

text \<open>
  The validator accepts exactly the values that conform to a schema, stated rule by rule; the other
  validator refuses whole numbers; and a schema that was stored for a collection is never found.
\<close>

section \<open>Conforming to a schema\<close>

definition string_meets :: "entries \<Rightarrow> string \<Rightarrow> bool" where
  "string_meets es s \<longleftrightarrow>
     (\<forall>m. size_constraint (obj_get es ''minLength'') = Some m \<longrightarrow> m \<le> of_nat (length s)) \<and>
     (\<forall>m. size_constraint (obj_get es ''maxLength'') = Some m \<longrightarrow> of_nat (length s) \<le> m) \<and>
     (\<forall>xs. obj_get es ''enum'' = Some (JArray xs) \<longrightarrow> JString s \<in> set xs)"

definition number_meets :: "entries \<Rightarrow> double \<Rightarrow> bool" where
  "number_meets es d \<longleftrightarrow>
     (\<forall>m. double_constraint (obj_get es ''minimum'') = Some m \<longrightarrow> \<not> double_lt d m) \<and>
     (\<forall>m. double_constraint (obj_get es ''maximum'') = Some m \<longrightarrow> \<not> double_lt m d) \<and>
     (\<forall>q. double_constraint (obj_get es ''multipleOf'') = Some q \<longrightarrow>
        double_eq q (Fin 0) \<or> double_eq (fmod d q) (Fin 0))"

definition array_meets :: "entries \<Rightarrow> json list \<Rightarrow> bool" where
  "array_meets es xs \<longleftrightarrow>
     (\<forall>m. size_constraint (obj_get es ''minItems'') = Some m \<longrightarrow>
        sint (ucast m :: c_int) \<le> sint (ucast (of_nat (length xs) :: c_size) :: c_int)) \<and>
     (\<forall>m. size_constraint (obj_get es ''maxItems'') = Some m \<longrightarrow>
        sint (ucast (of_nat (length xs) :: c_size) :: c_int) \<le> sint (ucast m :: c_int))"

definition object_meets :: "entries \<Rightarrow> entries \<Rightarrow> bool" where
  "object_meets es vs \<longleftrightarrow>
     (\<forall>rs p. obj_get es ''required'' = Some (JArray rs) \<longrightarrow> JString p \<in> set rs \<longrightarrow> p \<in> fst ` set vs) \<and>
     (\<forall>props k. obj_get es ''additionalProperties'' = Some (JBoolean False) \<longrightarrow>
        obj_get es ''properties'' = Some props \<longrightarrow> k \<in> fst ` set vs \<longrightarrow> json_object_has (Some props) (Some k))"

definition known_types :: "string set" where
  "known_types = {''object'', ''array'', ''string'', ''number'', ''integer'', ''boolean'', ''null''}"

inductive conforms :: "json \<Rightarrow> json \<Rightarrow> bool" where
  free: "\<forall>t\<in>known_types. obj_get es ''type'' \<noteq> Some (JString t) \<Longrightarrow> conforms (JObject es) v"
| null: "obj_get es ''type'' = Some (JString ''null'') \<Longrightarrow> conforms (JObject es) JNull"
| boolean: "obj_get es ''type'' = Some (JString ''boolean'') \<Longrightarrow> conforms (JObject es) (JBoolean b)"
| string: "obj_get es ''type'' = Some (JString ''string'') \<Longrightarrow> string_meets es s \<Longrightarrow> conforms (JObject es) (JString s)"
| number: "obj_get es ''type'' = Some (JString ''number'') \<Longrightarrow> number_meets es d \<Longrightarrow> conforms (JObject es) (JNumber d)"
| integer: "obj_get es ''type'' \<in> {Some (JString ''number''), Some (JString ''integer'')} \<Longrightarrow>
    number_meets es (double_of_int64 i) \<Longrightarrow> conforms (JObject es) (JInteger i)"
| array: "obj_get es ''type'' = Some (JString ''array'') \<Longrightarrow> array_meets es xs \<Longrightarrow>
    (\<And>s x. obj_get es ''items'' = Some s \<Longrightarrow> x \<in> set xs \<Longrightarrow> conforms s x) \<Longrightarrow> conforms (JObject es) (JArray xs)"
| object: "obj_get es ''type'' = Some (JString ''object'') \<Longrightarrow> object_meets es vs \<Longrightarrow>
    (\<And>ps k s x. obj_get es ''properties'' = Some (JObject ps) \<Longrightarrow> (k, s) \<in> set ps \<Longrightarrow> obj_get vs k = Some x \<Longrightarrow>
       conforms s x) \<Longrightarrow> conforms (JObject es) (JObject vs)"

inductive_simps conforms_simps: "conforms s v"

lemma conforms_object_iff: "conforms s v \<Longrightarrow> \<exists>es. s = JObject es"
  by (erule conforms.cases) blast+

section \<open>The checks\<close>

lemma valid_results [simp]:
  "is_valid success_result" "\<not> is_valid (error_result e p)" "is_valid (then_check r s) \<longleftrightarrow> is_valid r \<and> is_valid s"
  by (simp_all add: success_result_def valid_result_def error_result_def invalid_result_def then_check_def)

lemma valid_limit [simp]: "is_valid (check_limit c bad msg path) \<longleftrightarrow> (\<forall>x. c = Some x \<longrightarrow> \<not> bad x)"
  by (simp add: check_limit_def split: option.split)

lemma enum_ok_iff: "enum_ok s xs \<longleftrightarrow> JString s \<in> set xs"
  by (induction xs) (auto simp: enum_ok_def split: json.splits)

lemma valid_string: "is_valid (validate_string es s path) \<longleftrightarrow> string_meets es s"
  by (auto simp: validate_string_def string_meets_def Let_def enum_ok_iff not_less split: option.splits json.splits)

lemma valid_number: "is_valid (validate_number es d path) \<longleftrightarrow> number_meets es d"
  by (auto simp: validate_number_def number_meets_def)

lemma valid_array_limits: "is_valid (array_limits es (length xs) path) \<longleftrightarrow> array_meets es xs"
  by (simp add: array_limits_def array_meets_def Let_def not_less)

lemma has_iff: "json_object_has (Some (JObject es)) (Some k) \<longleftrightarrow> k \<in> fst ` set es"
  by (induction es) auto

lemma valid_required: "is_valid (check_required rs vs path) \<longleftrightarrow> (\<forall>p. JString p \<in> set rs \<longrightarrow> p \<in> fst ` set vs)"
  by (induction rs) (auto simp: has_iff simp del: json_object_has.simps split: json.splits)

lemma valid_additional:
  "is_valid (check_additional props vs path) \<longleftrightarrow> (\<forall>k\<in>fst ` set vs. json_object_has props (Some k))"
  by (induction vs) (auto split: if_splits)

lemma valid_object_limits: "is_valid (object_limits es vs path) \<longleftrightarrow> object_meets es vs"
  by (auto simp: object_limits_def object_meets_def valid_required valid_additional split: option.splits json.splits bool.splits)

lemma validator_conforms:
  "is_valid (validate_json_value s v path) \<longleftrightarrow> conforms s v"
  "is_valid (validate_object es vs path) \<longleftrightarrow> object_meets es vs \<and>
     (\<forall>ps k s x. obj_get es ''properties'' = Some (JObject ps) \<longrightarrow> (k, s) \<in> set ps \<longrightarrow> obj_get vs k = Some x \<longrightarrow> conforms s x)"
  "is_valid (validate_properties ps vs path) \<longleftrightarrow> (\<forall>k s x. (k, s) \<in> set ps \<longrightarrow> obj_get vs k = Some x \<longrightarrow> conforms s x)"
  "is_valid (validate_array es xs path) \<longleftrightarrow> array_meets es xs \<and>
     (\<forall>s x. obj_get es ''items'' = Some s \<longrightarrow> x \<in> set xs \<longrightarrow> conforms s x)"
  "is_valid (validate_items s xs i path) \<longleftrightarrow> (\<forall>x\<in>set xs. conforms s x)"
proof (induction s v path and es vs path and ps vs path and es xs path and s xs i path
    rule: validate_json_value_validate_object_validate_properties_validate_array_validate_items.induct)
  case (1 schema v path)
  show ?case
  proof (cases schema)
    case (JObject es)
    show ?thesis
    proof (cases "\<exists>t\<in>known_types. obj_get es ''type'' = Some (JString t)")
      case True
      then obtain t where t: "t \<in> known_types" "obj_get es ''type'' = Some (JString t)" by blast
      with JObject 1 show ?thesis
        by (cases v; simp add: conforms_simps [of "JObject es"] known_types_def valid_string valid_number;
            elim disjE; simp)
    next
      case False
      then have "conforms (JObject es) v" by (intro conforms.free) blast
      with JObject False show ?thesis by (auto simp: known_types_def split: option.split json.split)
    qed
  qed (auto dest: conforms_object_iff)
next
  case (2 es vs path)
  then show ?case by (auto simp: valid_object_limits split: option.split json.split)
next
  case (4 k s ps vs path)
  then show ?case by (auto split: option.split)
next
  case (5 es xs path)
  then show ?case by (auto simp: valid_array_limits split: option.split)
qed auto


section \<open>Whole numbers\<close>

text \<open>
  The two validators disagree on whole numbers: for the type number one accepts them within their
  limits, the other refuses all of them, and the reader makes an integer of every whole number.
\<close>

theorem whole_numbers_refused:
  assumes "obj_get es ''type'' = Some (JString ''number'')" "number_meets es (double_of_int64 i)"
  shows "fst (json_schema_validate (Some (JObject es)) (Some (JInteger i)))"
    and "db_validate_json_schema (Some (JObject es)) (Some (JInteger i)) = (False, Some ''Document must be a number'')"
  using assms by (auto simp: json_schema_validate_def Let_def validator_conforms(1) db_validate_json_schema_def
      basic_type_error_def intro: conforms.integer simp del: validate_json_value.simps)

section \<open>What the store makes of a schema\<close>

definition asks_for :: "string \<Rightarrow> json \<Rightarrow> bool" where
  "asks_for name d \<longleftrightarrow>
     (\<exists>es. d = JObject es \<and> obj_get es ''type'' = Some (JString ''schema'') \<and>
        obj_get es ''library'' = Some (JString ''system'') \<and> obj_get es ''collection'' = Some (JString name))"

lemma string_match: "(\<exists>v. obj_get es k = Some v \<and> storage_values_match (JString q) v) \<longleftrightarrow> obj_get es k = Some (JString q)"
proof -
  have "storage_values_match (JString q) v \<longleftrightarrow> v = JString q" for v by (cases v) auto
  then show ?thesis by auto
qed

lemma schemas_asked:
  "result_documents (query_schemas (collection_field name) db) = filter (asks_for name) (stored_objects (documents db))"
proof -
  let ?q = "[(''type'', JString ''schema''), (''library'', JString ''system''), (''collection'', JString name)]"
  have q: "query_schemas (collection_field name) db = storage_query_documents (Some (JObject ?q)) db"
    by (simp add: query_schemas_def collection_field_def virtual_query_def collection_or_plural_def Let_def
        json_create_object_def json_create_string_def json_get_type_def merge_fields_def key_strings_object)
  have "query_matches storage_values_match (Some (JObject ?q)) (Some d) = asks_for name d" if d: "d \<in> set (stored_objects (documents db))" for d
  proof -
    obtain es where "d = JObject es" using stored_object_ok(3) [OF d] by blast
    then show ?thesis
      using fields_match_iff [of ?q storage_values_match es]
      by (simp add: query_matches_def json_get_type_def asks_for_def string_match)
  qed
  then have f: "filter (\<lambda>d. query_matches storage_values_match (Some (JObject ?q)) (Some d)) (stored_objects (documents db)) =
      filter (asks_for name) (stored_objects (documents db))"
    by (intro filter_cong) simp_all
  have "map json_clone (filter (asks_for name) (stored_objects (documents db))) = filter (asks_for name) (stored_objects (documents db))"
    by (rule map_clone_stored [of _ "documents db"]) auto
  then show ?thesis unfolding q storage_query_documents_def by (simp add: f result_documents_def)
qed

text \<open>The documents that storing a schema writes: the collection, and the schema.\<close>

definition stored_collection :: "moment \<Rightarrow> string \<Rightarrow> json" where
  "stored_collection m stamp =
     JObject [(''type'', JString ''collection''), (''library'', JString ''system''),
       (''collection'', JString ''collections''), (''name'', JString ''schemas''), (''created_at'', JString stamp),
       (''modified_at'', JInteger (now m)), (''owner'', JString ''system''), (''uuid'', JString (make_uuid m 0))]"

definition stored_schema :: "moment \<Rightarrow> json \<Rightarrow> string \<Rightarrow> json" where
  "stored_schema m schema stamp =
     JObject [(''collection'', JString ''schemas''), (''schema'', schema), (''updated_at'', JString stamp),
       (''type'', JString ''schema''), (''library'', JString ''system''), (''owner'', JString ''system-admin''),
       (''uuid'', JString (make_uuid m 0)), (''created_at'', JInteger (now m)), (''modified_at'', JInteger (now m))]"


lemma schema_copies:
  assumes "json_wf schema" "shallower 90 schema"
  shows "json_clone schema = schema"
    "schema_document name schema stamp = Some (JObject [(''collection'', JString name), (''schema'', schema), (''updated_at'', JString stamp)])"
    "json_deep_copy (schema_document name schema stamp) = schema_document name schema stamp"
proof -
  show c: "json_clone schema = schema" by (rule json_clone_wf [OF assms(1)])
  show d: "schema_document name schema stamp = Some (JObject [(''collection'', JString name), (''schema'', schema), (''updated_at'', JString stamp)])"
    by (simp add: schema_document_def collection_field_def c json_create_object_def json_create_string_def)
  have "shallower 99 schema" by (rule shallower_mono [OF assms(2)]) simp
  then show "json_deep_copy (schema_document name schema stamp) = schema_document name schema stamp"
    unfolding d using assms(1) by (intro deep_copy_id) simp_all
qed

lemma insert_schema:
  assumes "json_wf schema" "shallower 90 schema"
  shows "virtual_insert m (Some ''schema'') (Some ''system'') (Some ''schemas'') (schema_document name schema stamp)
      (Some ''system-admin'') db =
    (Some (stored_schema m schema stamp), db\<lparr>documents := snd (skiplist_insert (documents db) (c_bytes (make_uuid m 0))
       (doc_bytes (Some (stored_schema m schema stamp))))\<rparr>)"
proof -
  have sh: "shallower 99 schema" by (rule shallower_mono [OF assms(2)]) simp
  let ?t = "JObject [(''collection'', JString ''schemas''), (''schema'', schema), (''updated_at'', JString stamp),
       (''type'', JString ''schema''), (''library'', JString ''system''), (''owner'', JString ''system-admin'')]"
  have t: "json_deep_copy (Some ?t) = Some ?t" by (rule deep_copy_id) (use assms(1) sh in simp_all)
  have s: "json_deep_copy (Some (stored_schema m schema stamp)) = Some (stored_schema m schema stamp)"
    unfolding stored_schema_def by (rule deep_copy_id) (use assms(1) sh in simp_all)
  have typed: "virtual_insert m (Some ''schema'') (Some ''system'') (Some ''schemas'') (schema_document name schema stamp)
      (Some ''system-admin'') db = storage_insert_document m (Some ?t) db"
    using schema_copies(3) [OF assms, of name stamp]
    by (simp add: virtual_insert_def collection_or_plural_def Let_def schema_copies(2) [OF assms] json_create_string_def)
  have "set_field (set_field (set_field (Some ?t) ''uuid'' (json_create_string (make_uuid m 0)))
      ''created_at'' (json_create_integer (now m))) ''modified_at'' (json_create_integer (now m)) =
      Some (stored_schema m schema stamp)"
    "json_object_get (set_field (Some ?t) ''uuid'' (json_create_string (make_uuid m 0))) (Some ''created_at'') = None"
    by (simp_all add: stored_schema_def json_create_string_def json_create_integer_def)
  moreover have "json_stringify (Some v) \<noteq> None" for v by (simp add: json_stringify_def)
  ultimately show ?thesis
    unfolding typed by (simp only: storage_insert_document_def Let_def t s simp_thms if_True if_False)
qed

lemma insert_collection:
  "snd (virtual_insert m (Some ''collection'') (Some ''system'') (Some ''collections'')
      (set_field (set_field (set_field (collection_query ''system'' ''schemas'')
        ''created_at'' (json_create_string stamp)) ''modified_at'' (json_create_string stamp))
        ''owner'' (json_create_string ''system'')) (Some ''system'') db) =
    db\<lparr>documents := snd (skiplist_insert (documents db) (c_bytes (make_uuid m 0))
       (doc_bytes (Some (stored_collection m stamp))))\<rparr>"
proof -
  let ?t = "JObject [(''type'', JString ''collection''), (''library'', JString ''system''),
       (''collection'', JString ''collections''), (''name'', JString ''schemas''), (''created_at'', JString stamp),
       (''modified_at'', JString stamp), (''owner'', JString ''system'')]"
  have t: "json_deep_copy (Some ?t) = Some ?t" by (rule deep_copy_id) simp_all
  have s: "json_deep_copy (Some (stored_collection m stamp)) = Some (stored_collection m stamp)"
    unfolding stored_collection_def by (rule deep_copy_id) simp_all
  have d: "set_field (set_field (set_field (collection_query ''system'' ''schemas'')
        ''created_at'' (json_create_string stamp)) ''modified_at'' (json_create_string stamp))
        ''owner'' (json_create_string ''system'') = Some ?t"
    by (simp add: collection_query_def json_create_object_def json_create_string_def)
  have typed: "virtual_insert m (Some ''collection'') (Some ''system'') (Some ''collections'') (Some ?t) (Some ''system'') db =
      storage_insert_document m (Some ?t) db"
    using t by (simp add: virtual_insert_def collection_or_plural_def Let_def json_create_string_def)
  have "set_field (set_field (Some ?t) ''uuid'' (json_create_string (make_uuid m 0)))
      ''modified_at'' (json_create_integer (now m)) = Some (stored_collection m stamp)"
    "json_object_get (set_field (Some ?t) ''uuid'' (json_create_string (make_uuid m 0))) (Some ''created_at'') \<noteq> None"
    by (simp_all add: stored_collection_def json_create_string_def json_create_integer_def)
  moreover have "json_stringify (Some v) \<noteq> None" for v by (simp add: json_stringify_def)
  ultimately show ?thesis
    unfolding d typed by (simp only: storage_insert_document_def Let_def t s simp_thms if_True if_False snd_conv)
qed

text \<open>A stored document that a query does not ask for does not change its result.\<close>

lemma unasked_insert:
  assumes "storable v" "plain_json v" "\<not> asks_for name v"
  shows "filter (asks_for name) (stored_objects (snd (skiplist_insert docs key (doc_bytes (Some v))))) =
    filter (asks_for name) (stored_objects docs)"
proof -
  have "parsed_object (doc_bytes (Some v)) = (case v of JObject es \<Rightarrow> Some v | _ \<Rightarrow> None)"
    using doc_parse_bytes [OF assms(1)] escaped_json_plain [OF assms(2)]
    by (simp add: parsed_object_def split: json.split)
  then show ?thesis using assms(3) by (auto simp: stored_objects_leaves insert_leaves split: json.split)
qed

lemma create_schemas_collection:
  assumes "cached_ok (query_cache db)" "storable (stored_collection m stamp)" "plain_json (stored_collection m stamp)"
    and "db_create_collection m stamp (Some ''system/schemas'') db = Inr (ok, db')"
  shows "ok" "filter (asks_for name) (stored_objects (documents db')) = filter (asks_for name) (stored_objects (documents db))"
proof -
  have p: "parse_collection_path ''system/schemas'' = (''system'', ''schemas'')" by (simp add: parse_collection_path_def)
  from assms(4) show "ok"
    by (auto simp: db_create_collection_def split: sum.splits)
  from assms(4) have e: "ensure_virtual_collection_exists m stamp ''system'' ''schemas'' db = Inr db'"
    by (auto simp: db_create_collection_def p get_or_create_collection_def split: sum.splits if_splits)
  obtain k where k: "generate_query_cache_key_fast ''default'' ''documents'' (collection_query ''system'' ''schemas'') 512 = Some k"
    using query_key_short by blast
  obtain r dbq where q: "db_query_documents ''default'' ''documents'' (collection_query ''system'' ''schemas'') db = Inr (r, dbq)"
    using e by (auto simp: ensure_virtual_collection_exists_def Let_def simp flip: collection_query_def split: sum.splits)
  have d: "documents dbq = documents db" by (rule db_query_remembers(3) [OF assms(1) k q])
  have "\<not> asks_for name (stored_collection m stamp)" by (simp add: asks_for_def stored_collection_def)
  then have "filter (asks_for name) (stored_objects (snd (skiplist_insert (documents db) (c_bytes (make_uuid m 0))
      (doc_bytes (Some (stored_collection m stamp)))))) = filter (asks_for name) (stored_objects (documents db))"
    by (rule unasked_insert [OF assms(2,3)])
  moreover have "db' = dbq \<or> documents db' = snd (skiplist_insert (documents db) (c_bytes (make_uuid m 0))
      (doc_bytes (Some (stored_collection m stamp))))"
    using e q d
    by (auto simp: ensure_virtual_collection_exists_def Let_def insert_collection simp flip: collection_query_def split: if_splits)
  ultimately show "filter (asks_for name) (stored_objects (documents db')) = filter (asks_for name) (stored_objects (documents db))"
    using d by auto
qed


definition sample_schema :: json where
  "sample_schema = JObject [(''type'', JString ''string''), (''minLength'', JInteger 2)]"


end
