(* ===== verification/Spec2Isabelle.thy ===== *)
theory Spec2Isabelle
  imports Json_Props Json_Roundtrip Json_Parse_Inv Query_Ops Query_Props Query_Page
    Transaction_Props Deadlock_Props Database_Cached Page_Props Rbac_Props
    Rate_Limiter_Props Jwt_Props Tlsf_Props Tlsf_Overlap Thread_Pool_Props
    Lockfree_Queue_Props Schema_Props Btree_Values
    Json_Schema_Props
begin

text \<open>
  jdbx is a JSON document database written in C: documents are JSON values, clients query
  them with a MongoDB-like language, and changes are grouped in transactions that take locks
  on documents.  This development models the parts that carry that logic and proves what
  they do, and where they do not do what they mean to.

  \<^bold>\<open>The parts and their theories.\<close>

  \<^item> \<open>Prelude\<close>, \<open>Double\<close>, \<open>Chains\<close>: C's \<^verbatim>\<open>int\<close>, \<^verbatim>\<open>size_t\<close> and \<^verbatim>\<open>char\<close>, \<^verbatim>\<open>strcmp\<close>, decimal text; IEEE
    doubles as rationals with the special values and round-to-even; hash tables with chaining.
    The locales \<open>keyed_store\<close> (what a lookup returns after updates) and \<open>chained\<close> (a table of
    chains under a hash) are the interfaces the components share.
  \<^item> \<open>Json\<close>, \<open>Json_Parse\<close>, \<open>Json_Print\<close> model \<^verbatim>\<open>src/src/components/utils/json.c\<close>: values, arrays
    and objects; the recursive-descent reader with its limits; the writer.  A pointer to a
    value is an option, \<open>None\<close> is \<^verbatim>\<open>NULL\<close>; a function that changes a value in place returns the
    value after the call.  \<open>Json_Props\<close>, \<open>Json_Parse_Inv\<close> and \<open>Json_Roundtrip\<close> hold the laws
    of arrays and objects, the invariant of everything the reader returns, and what a value
    looks like after it is printed and read back.
  \<^item> \<open>Query_Ops\<close>, \<open>Query\<close>, \<open>Query_Match\<close>, \<open>Query_Exec\<close> model
    \<^verbatim>\<open>src/src/components/query/query_language.c\<close>: the operator table, the parser from JSON to
    expressions, matching a document, and projection, sorting, pagination and \<^verbatim>\<open>query_execute\<close>.
    \<open>Query_Sem\<close> states what a query means without the intermediate expression, \<open>Query_Sort\<close>
    proves the bubble sort over the locale \<open>three_way\<close> of comparisons, \<open>Query_Props\<close> and
    \<open>Query_Page\<close> hold the theorems.
  \<^item> \<open>Transaction\<close> models \<^verbatim>\<open>src/src/components/transaction/transaction.c\<close>: a transaction with its
    list of operations and savepoints, and the manager, an array that grows by doubling with
    a hash table over it.  \<open>Transaction_Props\<close> gives the step relation of clients and manager,
    its invariants, and the behaviour of savepoints.
  \<^item> \<open>Lock_Manager\<close> and \<open>Deadlock\<close> model \<^verbatim>\<open>src/src/components/database/lock_manager.c\<close>.  The
    mutex makes every critical section one step: asking for a lock, releasing it, and each
    wake-up or timeout of a waiting caller; \<open>Lock_Props\<close> proves mutual exclusion and the
    absence of lost wake-ups for all interleavings of these steps.  \<open>Deadlock\<close> is the
    wait-for graph and its search; \<open>Deadlock_Props\<close> compares the search with the cycles of the
    relation, and shows when the resolution does not end.
  \<^item> \<open>Doc_Store\<close> models \<^verbatim>\<open>src/src/components/utils/art.c\<close>, the container of documents behind the
    skip list interface, and proves that it is a map (an interpretation of \<open>keyed_store\<close>).
    \<open>Generic_Cache\<close> models \<^verbatim>\<open>src/src/components/utils/generic_cache.c\<close>; \<open>Cache_Props\<close> relates its
    hash table and list to a bounded list ordered by use.  \<open>Deep_Copy\<close> models
    \<^verbatim>\<open>src/src/components/utils/json_deep_copy.c\<close>.
  \<^item> \<open>Database\<close> models the storage, virtual and db layers of
    \<^verbatim>\<open>src/src/components/database/database.c\<close> over the container and the caches.  A document is
    stored as text; \<open>Database_Props\<close> states what the storage operations do to the documents
    read back, for storable documents (those the reader accepts after the writer), and
    \<open>Database_Cached\<close> what the two caches and the layers above do to that.
  \<^item> \<open>Crc32\<close> and \<open>Page_Manager\<close> model \<^verbatim>\<open>src/src/components/storage/jdbx_page_manager.c\<close>: the
    checksum, the layout of a new file, the ring of log pages, recovery and checkpoints.
    \<open>Page_Props\<close> reads the ring as one list of page images, from the checkpoint page to the
    current one, and proves what writing, recovering, closing and opening do to it.
  \<^item> \<open>Rbac\<close> models \<^verbatim>\<open>src/src/components/rbac/rbac.c\<close> and \<^verbatim>\<open>rbac_db.c\<close>: users and roles as
    documents of the virtual layer, password hashes (PBKDF2 is an argument), membership and
    permissions.  \<^verbatim>\<open>virtual_get\<close> hands out cached documents themselves; what the code then writes
    to them is written to the cache by \<open>set_shared\<close>.  \<open>Rbac_Props\<close> states what a check decides in
    terms of the stored documents, and why granting and revoking have no effect.
  \<^item> \<open>Rate_Limiter\<close> models \<^verbatim>\<open>src/src/components/core/rate_limiter.c\<close> over the storage layer;
    \<open>Rate_Limiter_Props\<close> shows for any sequence of operations that nothing is ever limited.
  \<^item> \<open>Base64\<close> and \<open>Jwt\<close> model \<^verbatim>\<open>src/src/components/rbac/jwt.c\<close>: the two base 64 alphabets, the
    setters, encoding, decoding and verification of tokens, and pairs of tokens.  HMAC-SHA256
    (OpenSSL) is an argument; so is \<open>junk\<close>, the bytes of the decoder's buffer that it never
    writes.  \<open>Base64_Props\<close> proves the round trip, \<open>Jwt_Props\<close> what exactly is accepted.
  \<^item> \<open>Tlsf\<close> models \<^verbatim>\<open>src/src/components/utils/tlsf_allocator.c\<close> over an explicit memory, a function
    from addresses to 8-byte words: size classes, free lists with their bitmaps, cutting and
    joining of blocks.  \<open>Tlsf_Props\<close> shows that the blocks handed out by a pool without frees are
    disjoint; \<open>Tlsf_Overlap\<close> evaluates the histories with frees in which they are not.
  \<^item> \<open>Thread_Pool\<close> models \<^verbatim>\<open>src/src/components/core/thread_pool.c\<close>, again with one step per critical
    section; \<open>Thread_Pool_Props\<close> proves for every interleaving that work is done in order and
    exactly once, and shows the wake-up that gets lost.
  \<^item> \<open>Lockfree_Queue\<close> models \<^verbatim>\<open>src/src/components/core/lockfree_queue.c\<close>: each function is a
    program counter with its local variables, and a step is one access to shared memory.
    \<open>Lockfree_Queue_Props\<close> proves that with one producer and one consumer every interleaving is
    first in, first out, and gives the interleaving of two threads that loses items.
  \<^item> \<open>Schema\<close> models \<^verbatim>\<open>src/src/components/database/schema.c\<close>: rules on fields given by dotted
    paths, nested schemas, and the conversions to and from JSON; \<^verbatim>\<open>regcomp\<close> and \<^verbatim>\<open>regexec\<close> are
    arguments.  \<open>Schema_Props\<close> shows that validation is a search in one flat list of rules, and
    that a schema read from JSON survives the way to JSON and back.
  \<^item> \<open>Json_Schema\<close> models \<^verbatim>\<open>src/src/components/database/json_schema_validator.c\<close>, which no other file
    calls, and \<^verbatim>\<open>json_schema_manager.c\<close>, a second validator and a store of schemas as documents.
    \<open>Json_Schema_Props\<close> gives the rules of conformance to a schema as an inductive predicate and
    proves that the validator decides it; it shows that the second validator refuses whole numbers
    and that a stored schema is never found again.
  \<^item> \<open>Btree\<close> models \<^verbatim>\<open>src/src/components/storage/jdbx_btree.c\<close> on the bytes of its pages, a
    function from addresses to bytes.  The functions that allocate and find pages are declared in
    \<^verbatim>\<open>jdbx.h\<close> and defined nowhere: they are the argument \<open>page_ops\<close>.  \<open>Btree_Node\<close> reads a leaf
    page as a list of pairs and proves the binary search over the locale \<open>comparison\<close> of orders on
    keys, interpreted by \<open>default_compare\<close>; \<open>Btree_Leaf\<close> does the same for changes of a leaf.
    \<open>Btree_Props\<close> shows that a tree of one page refines a map, \<open>Btree_Split\<close> computes what is left of
    it when the page splits, \<open>Btree_Values\<close> what happens to shorter and to long values.

  \<^bold>\<open>Conventions.\<close>  Machine integers are words (\<^verbatim>\<open>int\<close> is \<open>32 word\<close>, \<^verbatim>\<open>int64_t\<close> is \<open>64 word\<close>) and wrap
  around; an allocation succeeds unless its size is 0 or negative, which \<^verbatim>\<open>BUFFER_ALLOC\<close> refuses.
  Time and random numbers are arguments.  A division by zero is the value \<open>Division_Fault\<close>.
  Pointers that are compared (transactions, lock requests) are numbers.

  \<^bold>\<open>Fuel and termination.\<close>  The reader recurses on the rest of the text, with a proof that it gets
  shorter.  \<^verbatim>\<open>detect_cycle\<close> takes a depth bound, the number of nodes.  The function
  \<^verbatim>\<open>lock_manager_check_deadlocks\<close> calls itself and may not return; it is a
  \<open>partial_function\<close> whose value is then \<open>None\<close>.  The replay of the log visits at most the 256
  pages of the ring, which is its bound; \<open>recover_pages_log\<close> shows that it suffices.  The walk of
  the allocator over its blocks, \<open>rewind_from\<close>, may not end on a damaged memory and is a
  \<open>partial_function\<close> too; its other loops run over the size classes.  The decoder of base 64 ends
  because every group consumes input.  The loops of the B-tree over pages and the two functions that
  split call each other with fuel, and \<open>None\<close> is a call that has not returned; a tree of one page needs 2,
  the split of the first page 3, and the theorems hold for all greater values.

  \<^bold>\<open>Not modelled.\<close>  The HTTP server, its handlers, the bindings to the JavaScript engine,
  logging, configuration, the memory manager above the allocator and the cache of
  verified tokens; of the modelled files, the functions that only release memory, the output buffer of the writer, the
  performance metrics of transactions, and the opening of the page file by the database.
  Outside \<open>Rbac\<close> the sharing of subtrees between cached values is not modelled.
\<close>

end
